(* ===== verification/Prelude.thy ===== *)
theory Prelude
  imports Main "HOL-Library.Word"
begin

text \<open>
  Shared foundations of the development.

  \<^item> Names for the machine integers of the 32-bit kernel: unsigned C types are words
    of their width (arithmetic wraps as on the machine); signed C types are \<open>int\<close>
    (signed overflow is undefined in C, so the model covers the defined executions).
  \<^item> The outcome monad: kernel code is a function from a state to an outcome, which
    is either a returned value with the new state (\<open>Ret\<close>) or the reason why
    control does not come back (\<open>Stop\<close>), with the state at that point.
  \<^item> A small Hoare calculus on that monad and the list and word lemmas the
    components share.
\<close>

unbundle bit_operations_syntax

section \<open>Machine integers\<close>

type_synonym u8 = "8 word"
type_synonym u16 = "16 word"
type_synonym u32 = "32 word"

section \<open>Outcomes\<close>

text \<open>
  Why a run does not return to its caller:
  \<^item> \<open>Panic\<close>: the kernel called \<open>panic()\<close>, which never returns;
  \<^item> \<open>Sleeps\<close>: the task goes to sleep in \<open>sleep_on\<close>; what follows depends on
    the other tasks and on interrupts;
  \<^item> \<open>Exits\<close>: the task called \<open>do_exit\<close> with this code;
  \<^item> \<open>Driver\<close>: control enters an interrupt-driven device driver that the model
    does not contain (the major number is given);
  \<^item> \<open>Fault\<close>: the C code is undefined from here on (an access through a null
    pointer or outside an array);
  \<^item> \<open>Diverges\<close>: a loop of the code does not end, or the fuel of the model is used up.
\<close>

datatype halt =
    Panic string
  | Sleeps
  | Exits int
  | Driver nat
  | Fault string
  | Diverges

datatype ('a, 's) outcome = Ret 'a 's | Stop halt 's

type_synonym ('s, 'a) km = "'s \<Rightarrow> ('a, 's) outcome"

definition kreturn :: "'a \<Rightarrow> ('s, 'a) km" where
  "kreturn x = (\<lambda>s. Ret x s)"

definition kbind :: "('s, 'a) km \<Rightarrow> ('a \<Rightarrow> ('s, 'b) km) \<Rightarrow> ('s, 'b) km" where
  "kbind m f = (\<lambda>s. case m s of Ret x t \<Rightarrow> f x t | Stop h t \<Rightarrow> Stop h t)"

definition kstop :: "halt \<Rightarrow> ('s, 'a) km" where
  "kstop h = (\<lambda>s. Stop h s)"

definition kget :: "('s \<Rightarrow> 'a) \<Rightarrow> ('s, 'a) km" where
  "kget f = (\<lambda>s. Ret (f s) s)"

definition kmod :: "('s \<Rightarrow> 's) \<Rightarrow> ('s, unit) km" where
  "kmod g = (\<lambda>s. Ret () (g s))"

definition kwhen :: "bool \<Rightarrow> ('s, unit) km \<Rightarrow> ('s, unit) km" where
  "kwhen b m = (if b then m else kreturn ())"

abbreviation kseq :: "('s, unit) km \<Rightarrow> ('s, 'b) km \<Rightarrow> ('s, 'b) km" where
  "kseq m n \<equiv> kbind m (\<lambda>_. n)"

text \<open>A \<open>for\<close> loop over a list of indices.\<close>

fun kfor :: "'i list \<Rightarrow> ('i \<Rightarrow> ('s, unit) km) \<Rightarrow> ('s, unit) km" where
  "kfor [] body = kreturn ()"
| "kfor (i # is) body = kseq (body i) (kfor is body)"

text \<open>A search loop: the first index whose body returns a value ends the loop.\<close>

fun kfind :: "'i list \<Rightarrow> ('i \<Rightarrow> ('s, 'a option) km) \<Rightarrow> ('s, 'a option) km" where
  "kfind [] body = kreturn None"
| "kfind (i # is) body =
     kbind (body i) (\<lambda>r. case r of Some x \<Rightarrow> kreturn (Some x) | None \<Rightarrow> kfind is body)"

named_theorems km_simps \<open>equations that run the outcome monad\<close>

lemma kbind_app [km_simps]:
  "kbind m f s = (case m s of Ret x t \<Rightarrow> f x t | Stop h t \<Rightarrow> Stop h t)"
  by (simp add: kbind_def)

lemma kreturn_app [km_simps]: "kreturn x s = Ret x s"
  by (simp add: kreturn_def)

lemma kstop_app [km_simps]: "kstop h s = Stop h s"
  by (simp add: kstop_def)

lemma kget_app [km_simps]: "kget f s = Ret (f s) s"
  by (simp add: kget_def)

lemma kmod_app [km_simps]: "kmod g s = Ret () (g s)"
  by (simp add: kmod_def)

lemma kwhen_app [km_simps]: "kwhen b m s = (if b then m s else Ret () s)"
  by (simp add: kwhen_def kreturn_def)

lemma kbind_RetD:
  assumes "kbind m f s = Ret y u"
  obtains x t where "m s = Ret x t" and "f x t = Ret y u"
  using assms by (auto simp: kbind_def split: outcome.splits)

lemma kbind_assoc: "kbind (kbind m f) g = kbind m (\<lambda>x. kbind (f x) g)"
  by (rule ext) (simp add: kbind_def split: outcome.split)

lemma kbind_kreturn [simp]: "kbind (kreturn x) f = f x"
  by (rule ext) (simp add: kbind_def kreturn_def)

lemma kfor_append: "kfor (xs @ ys) body = kseq (kfor xs body) (kfor ys body)"
  by (induction xs) (simp_all add: kbind_assoc)

section \<open>Hoare triples\<close>

text \<open>
  \<open>valid P m Q\<close>: started in a state with \<open>P\<close>, if \<open>m\<close> returns then \<open>Q\<close> holds of its
  value and state. \<open>returns P m Q\<close>: it does return, and then \<open>Q\<close> holds.
\<close>

definition valid :: "('s \<Rightarrow> bool) \<Rightarrow> ('s, 'a) km \<Rightarrow> ('a \<Rightarrow> 's \<Rightarrow> bool) \<Rightarrow> bool" where
  "valid P m Q \<longleftrightarrow> (\<forall>s x t. P s \<longrightarrow> m s = Ret x t \<longrightarrow> Q x t)"

definition returns :: "('s \<Rightarrow> bool) \<Rightarrow> ('s, 'a) km \<Rightarrow> ('a \<Rightarrow> 's \<Rightarrow> bool) \<Rightarrow> bool" where
  "returns P m Q \<longleftrightarrow> (\<forall>s. P s \<longrightarrow> (\<exists>x t. m s = Ret x t \<and> Q x t))"

lemma returnsI [intro?]:
  "(\<And>s. P s \<Longrightarrow> \<exists>x t. m s = Ret x t \<and> Q x t) \<Longrightarrow> returns P m Q"
  by (simp add: returns_def)

lemma returnsE:
  assumes "returns P m Q" and "P s"
  obtains x t where "m s = Ret x t" and "Q x t"
  using assms by (auto simp: returns_def)

lemma valid_bind:
  assumes "valid P m R" and "\<And>x. valid (R x) (f x) Q"
  shows "valid P (kbind m f) Q"
  using assms unfolding valid_def by (auto elim!: kbind_RetD)

lemma returns_bind:
  assumes "returns P m R" and "\<And>x. returns (R x) (f x) Q"
  shows "returns P (kbind m f) Q"
  using assms unfolding returns_def by (fastforce simp: kbind_def)

lemma returns_kfor:
  assumes "\<And>i. i \<in> set is \<Longrightarrow> returns I (body i) (\<lambda>_. I)"
  shows "returns I (kfor is body) (\<lambda>_. I)"
  using assms
proof (induction "is")
  case Nil
  show ?case by (simp add: returns_def kreturn_def)
next
  case (Cons i "is")
  then show ?case by (auto intro: returns_bind)
qed

lemma valid_kfor:
  assumes "\<And>i. i \<in> set is \<Longrightarrow> valid I (body i) (\<lambda>_. I)"
  shows "valid I (kfor is body) (\<lambda>_. I)"
  using assms
proof (induction "is")
  case Nil
  show ?case by (simp add: valid_def kreturn_def)
next
  case (Cons i "is")
  then show ?case by (auto intro: valid_bind)
qed

section \<open>Lists and words\<close>

lemma list_update_same_iff [simp]: "i < length xs \<Longrightarrow> (xs[i := x] = xs) = (xs ! i = x)"
  by (metis list_update_id nth_list_update_eq)

lemma nth_update_if: "i < length xs \<Longrightarrow> xs[j := x] ! i = (if i = j then x else xs ! i)"
  by auto

lemma word_minus_one_unat:
  "x \<noteq> (0 :: 'a::len word) \<Longrightarrow> unat (x - 1) = unat x - 1"
  by (simp add: unat_minus_one)

lemma unat32_less: "unat (x :: u32) < 4294967296"
proof -
  have "unat x < 2 ^ LENGTH(32)" by (rule unsigned_less)
  then show ?thesis by simp
qed

lemma unat32_of_nat: "n < 4294967296 \<Longrightarrow> unat (of_nat n :: u32) = n"
  by (simp add: unat_of_nat)

lemma nth_upd_any: "i < length xs \<Longrightarrow> xs[i := x] ! j = (if j = i then x else xs ! j)"
  by auto

end
