(* ===== verification/Sched.thy ===== *)
theory Sched
  imports Prelude
begin

text \<open>
  The task table and the scheduler: \<open>include/linux/sched.h\<close>, \<open>include/signal.h\<close> and the
  scheduling part of \<open>kernel/sched.c\<close>.

  A pointer to a task is the index of its slot in \<open>task[NR_TASKS]\<close>: two slots never hold
  the same \<open>task_struct\<close>. Pointers to in-core inodes and open files are indices into
  \<open>inode_table\<close> and \<open>file_table\<close>, \<open>None\<close> being the null pointer.
  The FPU image of the TSS and the hardware task switch itself are not part of the state;
  \<open>switch_to\<close> is the change of \<open>current\<close>.
\<close>

section \<open>Data\<close>

record sigaction =
  sa_handler :: u32
  sa_mask :: u32
  sa_flags :: u32
  sa_restorer :: u32

record tss_struct =
  back_link :: u32
  esp0 :: u32
  ss0 :: u32
  esp1 :: u32
  ss1 :: u32
  esp2 :: u32
  ss2 :: u32
  cr3 :: u32
  eip :: u32
  eflags :: u32
  eax :: u32
  ecx :: u32
  edx :: u32
  ebx :: u32
  esp :: u32
  ebp :: u32
  esi :: u32
  edi :: u32
  tss_es :: u32
  tss_cs :: u32
  tss_ss :: u32
  tss_ds :: u32
  tss_fs :: u32
  tss_gs :: u32
  ldt_sel :: u32
  trace_bitmap :: u32

record task_struct =
  state :: int
  counter :: int
  priority :: int
  signal :: u32
  sigactions :: "sigaction list"
  blocked :: u32
  exit_code :: int
  start_code :: u32
  end_code :: u32
  end_data :: u32
  brk :: u32
  start_stack :: u32
  pid :: int
  father :: int
  pgrp :: int
  session :: int
  leader :: int
  uid :: u16
  euid :: u16
  suid :: u16
  gid :: u16
  egid :: u16
  sgid :: u16
  alarm :: int
  utime :: int
  stime :: int
  cutime :: int
  cstime :: int
  start_time :: int
  used_math :: u16
  tty :: int
  umask :: u16
  pwd :: "nat option"
  root :: "nat option"
  executable :: "nat option"
  close_on_exec :: u32
  filp :: "nat option list"
  ldt :: "(u32 \<times> u32) list"
  tss :: tss_struct

text \<open>
  \<open>INIT_TASK\<close>, the statically initialised task 0; \<open>addr\<close> is the address of \<open>init_task\<close> and
  \<open>pg_dir\<close> that of the page directory.
\<close>

definition LDT_sel :: "nat \<Rightarrow> u32" where
  "LDT_sel n = push_bit 4 (of_nat n) + push_bit 3 5"

definition INIT_TASK :: "u32 \<Rightarrow> u32 \<Rightarrow> task_struct" where
  "INIT_TASK addr pg_dir =
     \<lparr>state = 0, counter = 15, priority = 15,
      signal = 0, sigactions = replicate 32 \<lparr>sa_handler = 0, sa_mask = 0, sa_flags = 0, sa_restorer = 0\<rparr>,
      blocked = 0,
      exit_code = 0, start_code = 0, end_code = 0, end_data = 0, brk = 0, start_stack = 0,
      pid = 0, father = -1, pgrp = 0, session = 0, leader = 0,
      uid = 0, euid = 0, suid = 0, gid = 0, egid = 0, sgid = 0,
      alarm = 0, utime = 0, stime = 0, cutime = 0, cstime = 0, start_time = 0,
      used_math = 0,
      tty = -1, umask = 0x12, pwd = None, root = None, executable = None, close_on_exec = 0,
      filp = replicate 20 None,
      ldt = [(0, 0), (0x9f, 0xc0fa00), (0x9f, 0xc0f200)],
      tss = \<lparr>back_link = 0, esp0 = 4096 + addr, ss0 = 0x10, esp1 = 0, ss1 = 0, esp2 = 0, ss2 = 0,
             cr3 = pg_dir, eip = 0, eflags = 0, eax = 0, ecx = 0, edx = 0, ebx = 0, esp = 0, ebp = 0,
             esi = 0, edi = 0, tss_es = 0x17, tss_cs = 0x17, tss_ss = 0x17, tss_ds = 0x17, tss_fs = 0x17, tss_gs = 0x17,
             ldt_sel = LDT_sel 0, trace_bitmap = 0x80000000\<rparr>\<rparr>"

abbreviation (input) NR_TASKS :: nat where "NR_TASKS \<equiv> 64"
abbreviation (input) HZ :: int where "HZ \<equiv> 100"

abbreviation (input) TASK_RUNNING :: int where "TASK_RUNNING \<equiv> 0"
abbreviation (input) TASK_INTERRUPTIBLE :: int where "TASK_INTERRUPTIBLE \<equiv> 1"
abbreviation (input) TASK_UNINTERRUPTIBLE :: int where "TASK_UNINTERRUPTIBLE \<equiv> 2"
abbreviation (input) TASK_ZOMBIE :: int where "TASK_ZOMBIE \<equiv> 3"
abbreviation (input) TASK_STOPPED :: int where "TASK_STOPPED \<equiv> 4"

abbreviation (input) SIGHUP :: nat where "SIGHUP \<equiv> 1"
abbreviation (input) SIGKILL :: nat where "SIGKILL \<equiv> 9"
abbreviation (input) SIGSEGV :: nat where "SIGSEGV \<equiv> 11"
abbreviation (input) SIGPIPE :: nat where "SIGPIPE \<equiv> 13"
abbreviation (input) SIGALRM :: nat where "SIGALRM \<equiv> 14"
abbreviation (input) SIGCHLD :: nat where "SIGCHLD \<equiv> 17"
abbreviation (input) SIGSTOP :: nat where "SIGSTOP \<equiv> 19"

type_synonym task_table = "task_struct option list"

text \<open>
  The globals of \<open>kernel/sched.c\<close> (and \<open>last_pid\<close> of \<open>kernel/fork.c\<close>, \<open>beepcount\<close> of
  \<open>console.c\<close> and \<open>selected\<close> of \<open>floppy.c\<close>, which it uses). \<open>timers\<close> is the chain that
  starts at \<open>next_timer\<close>, as pairs of \<open>jiffies\<close> and the timer function; \<open>ports\<close> is the
  sequence of bytes written to i/o ports.
\<close>

record sched =
  task :: task_table
  current :: nat
  last_task_used_math :: "nat option"
  jiffies :: int
  startup_time :: int
  last_pid :: int
  timers :: "(int \<times> nat) list"
  beepcount :: int
  wait_motor :: "nat option list"
  mon_timer :: "int list"
  moff_timer :: "int list"
  current_DOR :: u8
  selected :: u8
  ports :: "(u16 \<times> u8) list"

definition CURRENT_TIME :: "'a sched_scheme \<Rightarrow> int" where
  "CURRENT_TIME s = startup_time s + jiffies s div HZ"

definition cur :: "'a sched_scheme \<Rightarrow> task_struct" where
  "cur s = the (task s ! current s)"

definition upd_cur :: "(task_struct \<Rightarrow> task_struct) \<Rightarrow> 'a sched_scheme \<Rightarrow> 'a sched_scheme" where
  "upd_cur f s = s\<lparr>task := (task s)[current s := map_option f (task s ! current s)]\<rparr>"

definition upd_task :: "nat \<Rightarrow> (task_struct \<Rightarrow> task_struct) \<Rightarrow> 'a sched_scheme \<Rightarrow> 'a sched_scheme" where
  "upd_task i f s = s\<lparr>task := (task s)[i := map_option f (task s ! i)]\<rparr>"

section \<open>The scheduler\<close>

definition sigbit :: "nat \<Rightarrow> u32" where
  "sigbit nr = push_bit (nr - 1) 1"

definition BLOCKABLE :: u32 where
  "BLOCKABLE = NOT (sigbit SIGKILL OR sigbit SIGSTOP)"

definition suser :: "'a sched_scheme \<Rightarrow> bool" where
  "suser s \<longleftrightarrow> euid (cur s) = 0"

text \<open>The loops over \<open>p = &LAST_TASK .. &FIRST_TASK + 1\<close> treat each task on its own.\<close>

fun for_tasks :: "(task_struct \<Rightarrow> task_struct) \<Rightarrow> task_table \<Rightarrow> task_table" where
  "for_tasks f [] = []"
| "for_tasks f (t # ts) = t # map (map_option f) ts"

definition check_task :: "int \<Rightarrow> task_struct \<Rightarrow> task_struct" where
  "check_task j p =
     (let p = (if alarm p \<noteq> 0 \<and> alarm p < j
               then p\<lparr>signal := signal p OR sigbit SIGALRM, alarm := 0\<rparr> else p)
      in if signal p AND NOT (BLOCKABLE AND blocked p) \<noteq> 0 \<and> state p = TASK_INTERRUPTIBLE
         then p\<lparr>state := TASK_RUNNING\<rparr> else p)"

fun pick :: "task_table \<Rightarrow> nat \<Rightarrow> int \<times> nat \<Rightarrow> int \<times> nat" where
  "pick ts 0 acc = acc"
| "pick ts (Suc i) acc =
     pick ts i
       (case ts ! Suc i of None \<Rightarrow> acc
        | Some p \<Rightarrow> if state p = TASK_RUNNING \<and> counter p > fst acc
                    then (counter p, Suc i) else acc)"

definition recalc :: "task_struct \<Rightarrow> task_struct" where
  "recalc p = p\<lparr>counter := counter p div 2 + priority p\<rparr>"

partial_function (option) schedule_loop :: "task_table \<Rightarrow> (nat \<times> task_table) option" where
  "schedule_loop ts =
     (if fst (pick ts (NR_TASKS - 1) (-1, 0)) \<noteq> 0
      then Some (snd (pick ts (NR_TASKS - 1) (-1, 0)), ts)
      else schedule_loop (for_tasks recalc ts))"

definition schedule :: "('a sched_scheme, unit) km" where
  "schedule s =
     (let ts = for_tasks (check_task (jiffies s)) (task s)
      in case schedule_loop ts of
           None \<Rightarrow> Stop Diverges (s\<lparr>task := ts\<rparr>)
         | Some (next, ts') \<Rightarrow> Ret () (s\<lparr>task := ts', current := next\<rparr>))"

text \<open>\<open>math_state_restore\<close> moves the FPU image, which is not modelled; it records its owner.\<close>

definition math_state_restore :: "'a sched_scheme \<Rightarrow> 'a sched_scheme" where
  "math_state_restore s =
     (if last_task_used_math s = Some (current s) then s
      else upd_cur (\<lambda>p. if used_math p \<noteq> 0 then p else p\<lparr>used_math := 1\<rparr>)
             (s\<lparr>last_task_used_math := Some (current s)\<rparr>))"

definition sys_pause :: "('a sched_scheme, int) km" where
  "sys_pause =
     kseq (kmod (upd_cur (\<lambda>p. p\<lparr>state := TASK_INTERRUPTIBLE\<rparr>)))
     (kseq schedule (kreturn 0))"

section \<open>The tick\<close>

text \<open>
  \<open>add_timer\<close> puts the new entry in front and swaps contents with its successor while
  that one is due earlier; on the chain of contents this is an insertion.
\<close>

fun timer_insert :: "int \<Rightarrow> nat \<Rightarrow> (int \<times> nat) list \<Rightarrow> (int \<times> nat) list" where
  "timer_insert j fn [] = [(j, fn)]"
| "timer_insert j fn ((nj, nfn) # ts) =
     (if nj < j then (nj, nfn) # timer_insert (j - nj) fn ts
      else (j, fn) # (nj, nfn) # ts)"

abbreviation (input) TIME_REQUESTS :: nat where "TIME_REQUESTS \<equiv> 64"

text \<open>The result is the list of timer functions that were called (at most one here).\<close>

definition add_timer :: "int \<Rightarrow> nat \<Rightarrow> ('a sched_scheme, nat list) km" where
  "add_timer j fn =
     (if fn = 0 then kreturn []
      else if j \<le> 0 then kreturn [fn]
      else kbind (kget timers) (\<lambda>ts.
        if length ts \<ge> TIME_REQUESTS then kstop (Panic ''No more time requests free'')
        else kseq (kmod (\<lambda>s. s\<lparr>timers := timer_insert j fn ts\<rparr>)) (kreturn [])))"

text \<open>The pop loop of \<open>do_timer\<close>: the functions called, in order, and what is left.\<close>

fun timer_expire :: "(int \<times> nat) list \<Rightarrow> nat list \<times> (int \<times> nat) list" where
  "timer_expire [] = ([], [])"
| "timer_expire ((j, fn) # ts) =
     (if j \<le> 0 then let (fs, rest) = timer_expire ts in (fn # fs, rest)
      else ([], (j, fn) # ts))"

definition timer_tick :: "(int \<times> nat) list \<Rightarrow> nat list \<times> (int \<times> nat) list" where
  "timer_tick ts =
     (case ts of [] \<Rightarrow> ([], []) | (j, fn) # r \<Rightarrow> timer_expire ((j - 1, fn) # r))"

abbreviation (input) FD_DOR :: u16 where "FD_DOR \<equiv> 0x3f2"

definition outb :: "u8 \<Rightarrow> u16 \<Rightarrow> 'a sched_scheme \<Rightarrow> 'a sched_scheme" where
  "outb v port s = s\<lparr>ports := ports s @ [(port, v)]\<rparr>"

text \<open>\<open>wake_up\<close> and the wait queue it is given: the queue pointer is a field of some structure.\<close>

definition wake_up :: "nat option \<Rightarrow> 'a sched_scheme \<Rightarrow> nat option \<times> 'a sched_scheme" where
  "wake_up q s =
     (case q of None \<Rightarrow> (None, s)
      | Some i \<Rightarrow> (None, upd_task i (\<lambda>p. p\<lparr>state := TASK_RUNNING\<rparr>) s))"

definition ticks_to_floppy_on :: "nat \<Rightarrow> ('a sched_scheme, int) km" where
  "ticks_to_floppy_on nr =
     (if nr > 3 then kstop (Panic ''floppy_on: nr>3'')
      else kseq (kmod (\<lambda>s. s\<lparr>moff_timer := (moff_timer s)[nr := 10000]\<rparr>))
      (kseq (kmod (\<lambda>s.
         let mask = push_bit nr 0x10 OR current_DOR s;
             mask = (if selected s = 0 then (mask AND 0xFC) OR of_nat nr else mask)
         in if mask \<noteq> current_DOR s then
              let s1 = outb mask FD_DOR s;
                  s2 = (if (mask XOR current_DOR s) AND 0xf0 \<noteq> 0
                        then s1\<lparr>mon_timer := (mon_timer s1)[nr := HZ div 2]\<rparr>
                        else if mon_timer s ! nr < 2
                        then s1\<lparr>mon_timer := (mon_timer s1)[nr := 2]\<rparr>
                        else s1)
              in s2\<lparr>current_DOR := mask\<rparr>
            else s))
      (kget (\<lambda>s. mon_timer s ! nr))))"

definition floppy_off :: "nat \<Rightarrow> 'a sched_scheme \<Rightarrow> 'a sched_scheme" where
  "floppy_off nr s = s\<lparr>moff_timer := (moff_timer s)[nr := 3 * HZ]\<rparr>"

definition floppy_timer_step :: "nat \<Rightarrow> 'a sched_scheme \<Rightarrow> 'a sched_scheme" where
  "floppy_timer_step i s =
     (let mask = push_bit i (0x10 :: u8) in
      if mask AND current_DOR s = 0 then s
      else if mon_timer s ! i \<noteq> 0 then
        (let s1 = s\<lparr>mon_timer := (mon_timer s)[i := mon_timer s ! i - 1]\<rparr>
         in if mon_timer s ! i - 1 = 0
            then let (q, s2) = wake_up (wait_motor s1 ! i) s1
                 in s2\<lparr>wait_motor := (wait_motor s2)[i := q]\<rparr>
            else s1)
      else if moff_timer s ! i = 0 then
        (let d = current_DOR s AND NOT mask in outb d FD_DOR (s\<lparr>current_DOR := d\<rparr>))
      else s\<lparr>moff_timer := (moff_timer s)[i := moff_timer s ! i - 1]\<rparr>)"

definition do_floppy_timer :: "'a sched_scheme \<Rightarrow> 'a sched_scheme" where
  "do_floppy_timer s = fold floppy_timer_step [0..<4] s"

text \<open>
  The timer interrupt. \<open>sysbeepstop\<close> only switches the speaker off. The result is the
  list of timer functions called; whether the tick ends in a call of \<open>schedule\<close> shows in
  the state.
\<close>

definition do_timer :: "int \<Rightarrow> ('a sched_scheme, nat list) km" where
  "do_timer cpl =
     kseq (kmod (\<lambda>s. if beepcount s \<noteq> 0 then s\<lparr>beepcount := beepcount s - 1\<rparr> else s))
     (kseq (kmod (upd_cur (\<lambda>p. if cpl \<noteq> 0 then p\<lparr>utime := utime p + 1\<rparr>
                                else p\<lparr>stime := stime p + 1\<rparr>)))
     (kbind (kget (\<lambda>s. timer_tick (timers s))) (\<lambda>(fired, rest).
      kseq (kmod (\<lambda>s. s\<lparr>timers := rest\<rparr>))
     (kseq (kmod (\<lambda>s. if current_DOR s AND 0xf0 \<noteq> 0 then do_floppy_timer s else s))
     (kseq (kmod (upd_cur (\<lambda>p. p\<lparr>counter := counter p - 1\<rparr>)))
     (kbind (kget (\<lambda>s. counter (cur s))) (\<lambda>c.
      if c > 0 then kreturn fired
      else kseq (kmod (upd_cur (\<lambda>p. p\<lparr>counter := 0\<rparr>)))
       (if cpl = 0 then kreturn fired
        else kseq schedule (kreturn fired)))))))))"

definition sys_alarm :: "int \<Rightarrow> ('a sched_scheme, int) km" where
  "sys_alarm seconds =
     kbind (kget (\<lambda>s. alarm (cur s))) (\<lambda>old.
     kbind (kget (\<lambda>s. if old \<noteq> 0
                      then sgn (old - jiffies s) * (\<bar>old - jiffies s\<bar> div HZ) else old)) (\<lambda>left.
     kseq (kmod (\<lambda>s. upd_cur (\<lambda>p. p\<lparr>alarm := if seconds > 0 then jiffies s + HZ * seconds else 0\<rparr>) s))
     (kreturn left)))"

definition sys_nice :: "int \<Rightarrow> ('a sched_scheme, int) km" where
  "sys_nice increment =
     kseq (kmod (upd_cur (\<lambda>p. if priority p - increment > 0
                              then p\<lparr>priority := priority p - increment\<rparr> else p)))
     (kreturn 0)"

section \<open>The choice of the next task\<close>

text \<open>
  The tasks the scheduler can choose from, and what it relies on: the priorities are
  positive (as \<open>fork\<close> and \<open>sys_nice\<close> keep them) and no counter is negative.
\<close>

definition runnable :: "task_table \<Rightarrow> nat \<Rightarrow> task_struct \<Rightarrow> bool" where
  "runnable ts k p \<longleftrightarrow> 1 \<le> k \<and> k < length ts \<and> ts ! k = Some p \<and> state p = TASK_RUNNING"

definition wf_tasks :: "task_table \<Rightarrow> bool" where
  "wf_tasks ts \<longleftrightarrow> length ts = NR_TASKS \<and>
     (\<forall>k p. 1 \<le> k \<longrightarrow> k < NR_TASKS \<longrightarrow> ts ! k = Some p \<longrightarrow> 0 < priority p \<and> 0 \<le> counter p)"

lemma length_for_tasks [simp]: "length (for_tasks f ts) = length ts"
  by (cases ts) auto

lemma nth_for_tasks:
  "k < length ts \<Longrightarrow> for_tasks f ts ! k = (if k = 0 then ts ! 0 else map_option f (ts ! k))"
  by (cases ts) (auto simp: nth_Cons split: nat.split)

lemma pick_ge: "fst acc \<le> fst (pick ts i acc)"
proof (induction ts i acc rule: pick.induct)
  case (2 ts i acc)
  let ?acc = "case ts ! Suc i of None \<Rightarrow> acc
    | Some p \<Rightarrow> if state p = TASK_RUNNING \<and> counter p > fst acc then (counter p, Suc i) else acc"
  have "fst acc \<le> fst ?acc" by (auto split: option.split)
  also have "fst ?acc \<le> fst (pick ts i ?acc)" by (rule "2.IH")
  finally show ?case by simp
qed simp

lemma pick_max:
  "1 \<le> k \<Longrightarrow> k \<le> i \<Longrightarrow> ts ! k = Some p \<Longrightarrow> state p = TASK_RUNNING \<Longrightarrow>
   counter p \<le> fst (pick ts i acc)"
proof (induction i arbitrary: acc)
  case (Suc i)
  show ?case
  proof (cases "k = Suc i")
    case True
    let ?acc = "if state p = TASK_RUNNING \<and> counter p > fst acc then (counter p, Suc i) else acc"
    have "counter p \<le> fst ?acc" using Suc.prems by auto
    then have "counter p \<le> fst (pick ts i ?acc)" using pick_ge by (rule order_trans)
    with True Suc.prems show ?thesis by simp
  next
    case False
    with Suc show ?thesis by simp
  qed
qed simp

lemma pick_result:
  "pick ts i acc = acc \<or>
   (\<exists>k p. 1 \<le> k \<and> k \<le> i \<and> snd (pick ts i acc) = k \<and> ts ! k = Some p \<and>
          state p = TASK_RUNNING \<and> counter p = fst (pick ts i acc) \<and> fst acc < counter p)"
proof (induction i arbitrary: acc)
  case (Suc i)
  show ?case
  proof (cases "\<exists>p. ts ! Suc i = Some p \<and> state p = TASK_RUNNING \<and> counter p > fst acc")
    case True
    then obtain p where p: "ts ! Suc i = Some p" "state p = TASK_RUNNING" "counter p > fst acc"
      by blast
    then have "pick ts (Suc i) acc = pick ts i (counter p, Suc i)" by simp
    with Suc [of "(counter p, Suc i)"] p show ?thesis
      by (fastforce simp: le_Suc_eq)
  next
    case False
    then have "pick ts (Suc i) acc = pick ts i acc"
      by (auto split: option.split)
    with Suc [of acc] show ?thesis by (fastforce simp: le_Suc_eq)
  qed
qed simp

lemma wf_tasks_recalc: "wf_tasks ts \<Longrightarrow> wf_tasks (for_tasks recalc ts)"
  by (fastforce simp: wf_tasks_def nth_for_tasks recalc_def)

lemma pick_zero_counters:
  assumes "fst (pick ts 63 (-1, 0)) = 0" "1 \<le> k" "k \<le> 63" "ts ! k = Some p"
    "state p = TASK_RUNNING"
  shows "counter p \<le> 0"
  using pick_max [of k 63 ts p "(-1, 0)"] assms by simp

lemma schedule_loop_spec:
  assumes "wf_tasks ts"
  obtains n ts' where "schedule_loop ts = Some (n, ts')"
    and "ts' = ts \<or> ts' = for_tasks recalc ts"
    and "(n = 0 \<and> (\<forall>k p. \<not> runnable ts' k p)) \<or>
         (\<exists>p. runnable ts' n p \<and> 0 < counter p \<and> (\<forall>k q. runnable ts' k q \<longrightarrow> counter q \<le> counter p))"
proof -
  have len: "length ts = 64" using assms by (simp add: wf_tasks_def)
  let ?r = "pick ts 63 (-1, 0)"
  have stop: "(n = 0 \<and> (\<forall>k p. \<not> runnable us k p)) \<or>
      (\<exists>p. runnable us n p \<and> 0 < counter p \<and> (\<forall>k q. runnable us k q \<longrightarrow> counter q \<le> counter p))"
    if wf: "wf_tasks us" and c: "fst (pick us 63 (-1, 0)) \<noteq> 0" and n: "n = snd (pick us 63 (-1, 0))"
    for us n
    using pick_result [of us 63 "(-1, 0)"]
  proof
    assume eq: "pick us 63 (-1, 0) = (-1, 0)"
    have "\<not> runnable us k p" for k p
      using pick_max [of k 63 us p "(-1, 0)"] wf eq by (fastforce simp: runnable_def wf_tasks_def)
    with eq n show ?thesis by simp
  next
    assume "\<exists>k p. 1 \<le> k \<and> k \<le> 63 \<and> snd (pick us 63 (-1, 0)) = k \<and> us ! k = Some p \<and>
          state p = TASK_RUNNING \<and> counter p = fst (pick us 63 (-1, 0)) \<and> fst (-1, 0) < counter p"
    then obtain p where p: "1 \<le> n" "n \<le> 63" "us ! n = Some p" "state p = TASK_RUNNING"
        "counter p = fst (pick us 63 (-1, 0))"
      using n by blast
    moreover have "counter q \<le> counter p" if "runnable us k q" for k q
      using pick_max [of k 63 us q "(-1, 0)"] that p wf by (auto simp: runnable_def wf_tasks_def)
    moreover have "0 < counter p"
      using p c wf by (auto simp: wf_tasks_def)
    ultimately show ?thesis
      using wf by (auto simp: runnable_def wf_tasks_def)
  qed
  show thesis
  proof (cases "fst ?r = 0")
    case False
    then have "schedule_loop ts = Some (snd ?r, ts)"
      by (subst schedule_loop.simps) simp
    with stop [OF assms False refl] that show thesis by blast
  next
    case True
    let ?us = "for_tasks recalc ts"
    have wf': "wf_tasks ?us" by (rule wf_tasks_recalc) fact
    from pick_result [of ts 63 "(-1, 0)"] True
    obtain k p where k: "1 \<le> k" "k \<le> 63" "ts ! k = Some p" "state p = TASK_RUNNING"
      by fastforce
    then have us: "?us ! k = Some (recalc p)" and "0 < priority p" "0 \<le> counter p"
      using assms by (auto simp: nth_for_tasks wf_tasks_def)
    then have "0 < counter (recalc p)" and st: "state (recalc p) = TASK_RUNNING"
      using k by (auto simp: recalc_def)
    with pick_max [of k 63 ?us "recalc p" "(-1, 0)"] k us
    have c: "fst (pick ?us 63 (-1, 0)) \<noteq> 0" by simp
    have r: "runnable ?us k (recalc p)"
      using us st k len by (simp add: runnable_def)
    have "schedule_loop ts = Some (snd (pick ?us 63 (-1, 0)), ?us)"
      using True c by (subst schedule_loop.simps, subst schedule_loop.simps) simp
    with stop [OF wf' c refl] r that show thesis by blast
  qed
qed

lemma check_task_simps [simp]:
  "priority (check_task j p) = priority p" "counter (check_task j p) = counter p"
  "pid (check_task j p) = pid p"
  by (simp_all add: check_task_def Let_def)

lemma check_task_state: "state (check_task j p) \<noteq> state p \<Longrightarrow> state p = TASK_INTERRUPTIBLE \<and> state (check_task j p) = TASK_RUNNING"
  by (auto simp: check_task_def Let_def split: if_splits)

lemma wf_tasks_check: "wf_tasks ts \<Longrightarrow> wf_tasks (for_tasks (check_task j) ts)"
  by (fastforce simp: wf_tasks_def nth_for_tasks)

lemma schedule_run:
  assumes "wf_tasks (task s)"
  obtains n ts' where "schedule s = Ret () (s\<lparr>task := ts', current := n\<rparr>)"
    and "ts' = for_tasks (check_task (jiffies s)) (task s) \<or>
         ts' = for_tasks recalc (for_tasks (check_task (jiffies s)) (task s))"
    and "(n = 0 \<and> (\<forall>k p. \<not> runnable ts' k p)) \<or>
         (\<exists>p. runnable ts' n p \<and> 0 < counter p \<and> (\<forall>k q. runnable ts' k q \<longrightarrow> counter q \<le> counter p))"
proof (rule schedule_loop_spec [OF wf_tasks_check [OF assms, of "jiffies s"]])
  fix n ts'
  assume *: "schedule_loop (for_tasks (check_task (jiffies s)) (task s)) = Some (n, ts')"
    and **: "ts' = for_tasks (check_task (jiffies s)) (task s) \<or>
         ts' = for_tasks recalc (for_tasks (check_task (jiffies s)) (task s))"
    and ***: "n = 0 \<and> (\<forall>k p. \<not> runnable ts' k p) \<or>
         (\<exists>p. runnable ts' n p \<and> 0 < counter p \<and> (\<forall>k q. runnable ts' k q \<longrightarrow> counter q \<le> counter p))"
  have "schedule s = Ret () (s\<lparr>task := ts', current := n\<rparr>)"
    using * by (simp add: schedule_def Let_def)
  from this ** *** that show thesis by blast
qed

text \<open>
  C1: \<open>schedule()\<close> always returns (the recalculation loop ends), and it switches to a
  runnable task with a positive time slice that no other runnable task exceeds, or to
  the idle task 0 exactly when no other task can run.
\<close>

theorem schedule_correct:
  assumes "wf_tasks (task s)"
  shows "\<exists>s'. schedule s = Ret () s' \<and> wf_tasks (task s') \<and>
    ((current s' = 0 \<and> (\<forall>k p. \<not> runnable (task s') k p)) \<or>
     (\<exists>p. runnable (task s') (current s') p \<and> 0 < counter p \<and>
          (\<forall>k q. runnable (task s') k q \<longrightarrow> counter q \<le> counter p)))"
proof (rule schedule_run [OF assms])
  fix n ts'
  assume run: "schedule s = Ret () (s\<lparr>task := ts', current := n\<rparr>)"
    and ts': "ts' = for_tasks (check_task (jiffies s)) (task s) \<or>
         ts' = for_tasks recalc (for_tasks (check_task (jiffies s)) (task s))"
    and pick: "(n = 0 \<and> (\<forall>k p. \<not> runnable ts' k p)) \<or>
         (\<exists>p. runnable ts' n p \<and> 0 < counter p \<and> (\<forall>k q. runnable ts' k q \<longrightarrow> counter q \<le> counter p))"
  have "wf_tasks ts'"
    using ts' wf_tasks_check [OF assms] by (auto intro: wf_tasks_recalc)
  with run pick show ?thesis by simp
qed

text \<open>A table with the idle task and one runnable task, for the examples.\<close>

definition two_tasks :: "task_table" where
  "two_tasks = [Some (INIT_TASK 0 0), Some ((INIT_TASK 0 0)\<lparr>pid := 1, counter := 0\<rparr>)] @ replicate 62 None"

definition boot_sched :: sched where
  "boot_sched =
     \<lparr>task = two_tasks, current = 1, last_task_used_math = None, jiffies = 0, startup_time = 0,
      last_pid = 1, timers = [], beepcount = 0, wait_motor = replicate 4 None,
      mon_timer = replicate 4 0, moff_timer = replicate 4 0, current_DOR = 0x0C, selected = 0,
      ports = []\<rparr>"

lemma wf_two_tasks: "wf_tasks two_tasks"
  by (auto simp: wf_tasks_def two_tasks_def INIT_TASK_def nth_Cons nth_append split: nat.splits)

theorem schedule_correct_witness:
  "wf_tasks (task boot_sched) \<and> (\<exists>s'. schedule boot_sched = Ret () s' \<and> wf_tasks (task s'))"
  using schedule_correct [of boot_sched] wf_two_tasks by (auto simp: boot_sched_def)

definition bounded_slices :: "task_table \<Rightarrow> bool" where
  "bounded_slices ts \<longleftrightarrow>
     (\<forall>k p. 1 \<le> k \<longrightarrow> k < length ts \<longrightarrow> ts ! k = Some p \<longrightarrow> counter p < 2 * priority p)"

lemma bounded_slices_for_tasks:
  assumes "bounded_slices ts"
    and "\<And>p. counter p < 2 * priority p \<Longrightarrow> counter (f p) < 2 * priority (f p)"
  shows "bounded_slices (for_tasks f ts)"
  using assms by (fastforce simp: bounded_slices_def nth_for_tasks)

lemma bounded_slices_recalc: "bounded_slices ts \<Longrightarrow> bounded_slices (for_tasks recalc ts)"
  by (rule bounded_slices_for_tasks) (auto simp: recalc_def)



section \<open>Kernel timers\<close>

text \<open>The absolute time, in ticks from now, at which each entry of the delta list is due.\<close>

fun expiries :: "int \<Rightarrow> (int \<times> nat) list \<Rightarrow> (int \<times> nat) list" where
  "expiries t [] = []"
| "expiries t ((j, fn) # ts) = (t + j, fn) # expiries (t + j) ts"

abbreviation delay :: "(int \<times> nat) list \<Rightarrow> int" where
  "delay ts \<equiv> sum_list (map fst ts)"

lemma expiries_append: "expiries t (xs @ ys) = expiries t xs @ expiries (t + delay xs) ys"
  by (induction t xs rule: expiries.induct) (auto simp: algebra_simps)

lemma expiries_shift: "expiries (t + d) ts = map (\<lambda>(e, fn). (e + d, fn)) (expiries t ts)"
  by (induction t ts rule: expiries.induct) (auto simp: algebra_simps)

lemma timer_insert_split:
  "0 < j \<Longrightarrow> \<exists>pre post. ts = pre @ post \<and> delay pre < j \<and>
     timer_insert j fn ts = pre @ (j - delay pre, fn) # post"
proof (induction j fn ts rule: timer_insert.induct)
  case (2 j fn nj nfn ts)
  show ?case
  proof (cases "nj < j")
    case True
    with 2 obtain pre post where "ts = pre @ post" "delay pre < j - nj"
        "timer_insert (j - nj) fn ts = pre @ (j - nj - delay pre, fn) # post"
      by auto
    with True show ?thesis
      by (intro exI [of _ "(nj, nfn) # pre"] exI [of _ post]) (simp add: algebra_simps)
  next
    case False
    with 2 show ?thesis by (intro exI [of _ "[]"] exI [of _ "(nj, nfn) # ts"]) simp
  qed
qed auto


fun timer_run :: "nat \<Rightarrow> (int \<times> nat) list \<Rightarrow> nat list \<times> (int \<times> nat) list" where
  "timer_run 0 ts = ([], ts)"
| "timer_run (Suc n) ts =
     (let (f1, ts1) = timer_tick ts; (f2, ts2) = timer_run n ts1 in (f1 @ f2, ts2))"

definition wf_timers :: "(int \<times> nat) list \<Rightarrow> bool" where
  "wf_timers ts \<longleftrightarrow> (\<forall>(j, fn) \<in> set ts. 0 \<le> j) \<and> (ts \<noteq> [] \<longrightarrow> 0 < fst (hd ts))"

lemma expiries_ge: "\<forall>(j, fn) \<in> set ts. 0 \<le> j \<Longrightarrow> (e, g) \<in> set (expiries t ts) \<Longrightarrow> t \<le> e"
  by (induction t ts rule: expiries.induct) force+

lemma timer_expire_spec:
  assumes "\<forall>(j, fn) \<in> set ts. 0 \<le> j"
  shows "fst (timer_expire ts) = map snd (filter (\<lambda>(e, fn). e \<le> 0) (expiries 0 ts)) \<and>
         expiries 0 (snd (timer_expire ts)) = filter (\<lambda>(e, fn). 0 < e) (expiries 0 ts) \<and>
         wf_timers (snd (timer_expire ts))"
  using assms
proof (induction ts rule: timer_expire.induct)
  case (2 j fn ts)
  show ?case
  proof (cases "j \<le> 0")
    case True
    with "2.prems" have "j = 0" by auto
    with 2 True show ?thesis by (auto simp: Let_def split: prod.splits)
  next
    case False
    have pos: "0 < e" if "(e, g) \<in> set (expiries j ts)" for e g
      using expiries_ge [of ts e g j] that "2.prems" False by auto
    from False pos have "filter (\<lambda>(e, fn). e \<le> 0) (expiries j ts) = []"
        "filter (\<lambda>(e, fn). 0 < e) (expiries j ts) = expiries j ts"
      by (fastforce simp: filter_empty_conv filter_id_conv)+
    with False "2.prems" show ?thesis by (auto simp: wf_timers_def)
  qed
qed (simp add: wf_timers_def)

lemma timer_tick_spec:
  assumes "wf_timers ts"
  shows "fst (timer_tick ts) = map snd (filter (\<lambda>(e, fn). e \<le> 1) (expiries 0 ts)) \<and>
         expiries 1 (snd (timer_tick ts)) = filter (\<lambda>(e, fn). 1 < e) (expiries 0 ts) \<and>
         wf_timers (snd (timer_tick ts))"
proof (cases ts)
  case Nil
  then show ?thesis by (simp add: timer_tick_def wf_timers_def)
next
  case (Cons t r)
  then obtain j fn where t: "ts = (j, fn) # r" "0 < j" "\<forall>(j, fn) \<in> set r. 0 \<le> j"
    using assms by (cases t) (auto simp: wf_timers_def)
  let ?us = "(j - 1, fn) # r"
  have sh: "expiries 0 ts = map (\<lambda>(e, fn). (e + 1, fn)) (expiries 0 ?us)"
    using expiries_shift [of "j - 1" 1 r] t by simp
  have *: "fst (timer_expire ?us) = map snd (filter (\<lambda>(e, fn). e \<le> 0) (expiries 0 ?us))"
      "expiries 0 (snd (timer_expire ?us)) = filter (\<lambda>(e, fn). 0 < e) (expiries 0 ?us)"
      "wf_timers (snd (timer_expire ?us))"
    using timer_expire_spec [of ?us] t by auto
  have tick: "timer_tick ts = timer_expire ?us"
    using t by (simp add: timer_tick_def)
  have le: "map snd (filter (\<lambda>(e, fn). e \<le> 1) (map (\<lambda>(e, fn). (e + 1, fn)) xs)) =
      map snd (filter (\<lambda>(e, fn). e \<le> 0) xs)" for xs :: "(int \<times> nat) list"
    by (induction xs) auto
  have gt: "filter (\<lambda>(e, fn). 1 < e) (map (\<lambda>(e, fn). (e + 1, fn)) xs) =
      map (\<lambda>(e, fn). (e + 1, fn)) (filter (\<lambda>(e, fn). 0 < e) xs)" for xs :: "(int \<times> nat) list"
    by (induction xs) auto
  show ?thesis
    unfolding sh tick le gt
    using * expiries_shift [of 0 1 "snd (timer_expire ?us)"] by simp
qed

text \<open>
  C3: after \<open>n\<close> timer interrupts exactly those timer functions have been called whose
  accumulated delay is at most \<open>n\<close>, in the order of the list.
\<close>

theorem timer_run_fires:
  assumes "wf_timers ts"
  shows "fst (timer_run n ts) = map snd (filter (\<lambda>(e, fn). e \<le> int n) (expiries 0 ts))"
proof -
  show ?thesis
    using assms
  proof (induction n arbitrary: ts)
    case 0
    have "filter (\<lambda>(e, fn). e \<le> 0) (expiries 0 ts) = []"
    proof (cases ts)
      case (Cons t r)
      then obtain j fn where "ts = (j, fn) # r" "0 < j" "\<forall>(j, fn) \<in> set r. 0 \<le> j"
        using 0 by (cases t) (auto simp: wf_timers_def)
      then show ?thesis using expiries_ge [of r _ _ j] by (fastforce simp: filter_empty_conv)
    qed simp
    then show ?case by simp
  next
    case (Suc n)
    let ?r = "snd (timer_tick ts)"
    note tick = timer_tick_spec [OF Suc.prems]
    have "fst (timer_run n ?r) = map snd (filter (\<lambda>(e, fn). e \<le> int n) (expiries 0 ?r))"
      using Suc.IH tick by blast
    also have "\<dots> = map snd (filter (\<lambda>(e, fn). e \<le> int (Suc n)) (expiries 1 ?r))"
      unfolding expiries_shift [of 0 1 ?r, simplified]
      by (induction "expiries 0 ?r") (auto simp: filter_map o_def split_def)
    also have "\<dots> = map snd (filter (\<lambda>(e, fn). e \<le> int (Suc n)) (filter (\<lambda>(e, fn). 1 < e) (expiries 0 ts)))"
      using tick by simp
    finally have rest: "fst (timer_run n ?r) = \<dots>" .
    have sorted: "map snd (filter (\<lambda>(e, fn). e \<le> 1) xs) @ map snd (filter (\<lambda>(e, fn). e \<le> int (Suc n)) (filter (\<lambda>(e, fn). 1 < e) xs))
       = map snd (filter (\<lambda>(e, fn). e \<le> int (Suc n)) xs)" if "sorted (map fst xs)" for xs :: "(int \<times> nat) list"
      using that
    proof (induction xs)
      case (Cons x xs)
      show ?case
      proof (cases "fst x \<le> 1")
        case False
        then have "filter (\<lambda>(e, fn). e \<le> 1) xs = []"
          using Cons.prems by (fastforce simp: filter_empty_conv)
        with Cons show ?thesis by (auto simp: split_def)
      qed (use Cons in \<open>auto simp: split_def\<close>)
    qed simp
    have "sorted (map fst (expiries t us))" if "\<forall>(j, fn) \<in> set us. 0 \<le> j" for t us
      using that by (induction t us rule: expiries.induct) (auto dest!: expiries_ge)
    then have "sorted (map fst (expiries 0 ts))"
      using Suc.prems by (simp add: wf_timers_def)
    from sorted [OF this] rest tick show ?case by (simp add: split_def Let_def)
  qed
qed

theorem timer_run_fires_witness:
  "wf_timers [(2, 7), (0, 8), (3, 9)] \<and> fst (timer_run 4 [(2, 7), (0, 8), (3, 9)]) = [7, 8]"
  using timer_run_fires [of "[(2, 7), (0, 8), (3, 9)]" 4] by (simp add: wf_timers_def)


end
