(* ===== verification/Waitq.thy ===== *)
theory Waitq
  imports Sched
begin

text \<open>
  Sleeping and waking: \<open>sleep_on\<close> and \<open>wake_up\<close> of \<open>kernel/sched.c\<close> as an interleaving
  of the tasks that share one wait queue. \<open>sleep_on\<close> is split at its call of
  \<open>schedule()\<close>: the part before it puts the task in front of the queue pointer and keeps the
  old pointer in the local variable \<open>tmp\<close>; the part after it wakes the task \<open>tmp\<close> points
  to. Which task runs between the parts is left open, which allows every choice that
  \<open>schedule()\<close> can make.
\<close>

section \<open>sleep_on and wake_up\<close>

definition sleep_on_enter :: "nat option \<Rightarrow> ('a sched_scheme, nat option \<times> nat option) km" where
  "sleep_on_enter p =
     kbind (kget current) (\<lambda>me.
     if me = 0 then kstop (Panic ''task[0] trying to sleep'')
     else kseq (kmod (upd_cur (\<lambda>t. t\<lparr>state := TASK_UNINTERRUPTIBLE\<rparr>))) (kreturn (p, Some me)))"

definition sleep_on_exit :: "nat option \<Rightarrow> 'a sched_scheme \<Rightarrow> 'a sched_scheme" where
  "sleep_on_exit old s =
     (case old of None \<Rightarrow> s | Some i \<Rightarrow> upd_task i (\<lambda>t. t\<lparr>state := TASK_RUNNING\<rparr>) s)"

record waitq =
  sys :: sched
  queue :: "nat option"
  loc_tmp :: "nat \<Rightarrow> nat option option"

definition task_in :: "int \<Rightarrow> waitq \<Rightarrow> nat \<Rightarrow> bool" where
  "task_in st w t \<longleftrightarrow> t < length (task (sys w)) \<and> (\<exists>p. task (sys w) ! t = Some p \<and> state p = st)"

inductive wq_step :: "waitq \<Rightarrow> waitq \<Rightarrow> bool" where
  sleep: "task_in TASK_RUNNING w t \<Longrightarrow> loc_tmp w t = None \<Longrightarrow>
     sleep_on_enter (queue w) ((sys w)\<lparr>current := t\<rparr>) = Ret (old, q) s \<Longrightarrow>
     wq_step w (w\<lparr>sys := s, queue := q, loc_tmp := (loc_tmp w)(t \<mapsto> old)\<rparr>)"
| wake: "wake_up (queue w) (sys w) = (q, s) \<Longrightarrow> wq_step w (w\<lparr>sys := s, queue := q\<rparr>)"
| resume: "loc_tmp w t = Some old \<Longrightarrow> task_in TASK_RUNNING w t \<Longrightarrow>
     wq_step w (w\<lparr>sys := sleep_on_exit old ((sys w)\<lparr>current := t\<rparr>), loc_tmp := (loc_tmp w)(t := None)\<rparr>)"

inductive wq_reachable :: "waitq \<Rightarrow> bool" where
  start: "queue w = None \<Longrightarrow> loc_tmp w = Map.empty \<Longrightarrow> wq_reachable w"
| step: "wq_reachable w \<Longrightarrow> wq_step w w' \<Longrightarrow> wq_reachable w'"

fun linked :: "(nat \<Rightarrow> nat option option) \<Rightarrow> nat option \<Rightarrow> nat list \<Rightarrow> bool" where
  "linked m q [] = (q = None)"
| "linked m q (t # L) = (q = Some t \<and> (\<exists>old. m t = Some old \<and> linked m old L))"

lemma linked_upd: "t \<notin> set L \<Longrightarrow> linked (m(t := v)) q L = linked m q L"
  by (induction m q L rule: linked.induct) auto

lemma linked_None: "linked m None L \<longleftrightarrow> L = []"
  by (cases L) auto

text \<open>
  The tasks inside \<open>sleep_on\<close> form chains through their local variable \<open>tmp\<close>: \<open>L\<close> hangs
  off the queue pointer, and each \<open>(h, T)\<close> of \<open>Cs\<close> is a woken task \<open>h\<close> followed by the
  sleepers \<open>T\<close> it is going to wake.
\<close>

abbreviation chained :: "(nat \<times> nat list) list \<Rightarrow> nat list" where
  "chained Cs \<equiv> concat (map (\<lambda>(h, T). h # T) Cs)"

definition wq_inv :: "waitq \<Rightarrow> nat list \<Rightarrow> (nat \<times> nat list) list \<Rightarrow> bool" where
  "wq_inv w L Cs \<longleftrightarrow>
     linked (loc_tmp w) (queue w) L \<and> (\<forall>t \<in> set L. task_in TASK_UNINTERRUPTIBLE w t) \<and>
     (\<forall>(h, T) \<in> set Cs. linked (loc_tmp w) (Some h) (h # T) \<and> task_in TASK_RUNNING w h \<and>
        (\<forall>t \<in> set T. task_in TASK_UNINTERRUPTIBLE w t)) \<and>
     distinct (L @ chained Cs) \<and> dom (loc_tmp w) = set (L @ chained Cs)"

lemma wq_invD:
  assumes "wq_inv w L Cs" and "(h, T) \<in> set Cs"
  shows "linked (loc_tmp w) (Some h) (h # T)" and "task_in TASK_RUNNING w h"
    and "\<forall>t \<in> set T. task_in TASK_UNINTERRUPTIBLE w t"
  using assms by (auto simp: wq_inv_def)

lemma task_in_upd_other:
  "t \<noteq> i \<Longrightarrow> sys w' = upd_task i (\<lambda>p. p\<lparr>state := st\<rparr>) s \<Longrightarrow> task s = task (sys w) \<Longrightarrow>
   task_in st' w' t = task_in st' w t"
  by (auto simp: task_in_def upd_task_def)

lemma task_in_upd_same:
  "sys w' = upd_task i (\<lambda>p. p\<lparr>state := st\<rparr>) s \<Longrightarrow> task s = task (sys w) \<Longrightarrow>
   task_in st' w i \<Longrightarrow> task_in st w' i"
  by (auto simp: task_in_def upd_task_def)

lemma wq_inv_wake:
  assumes inv: "wq_inv w L Cs" and wk: "wake_up (queue w) (sys w) = (q, s)"
  shows "\<exists>L' Cs'. wq_inv (w\<lparr>sys := s, queue := q\<rparr>) L' Cs'"
proof (cases L)
  case Nil
  with assms show ?thesis
    by (intro exI [of _ "[]"] exI [of _ Cs]) (auto simp: wq_inv_def wake_up_def task_in_def)
next
  case (Cons h T)
  then have qh: "queue w = Some h" using inv by (simp add: wq_inv_def)
  let ?w = "w\<lparr>sys := s, queue := q\<rparr>"
  have q: "q = None" and s: "sys ?w = upd_task h (\<lambda>p. p\<lparr>state := TASK_RUNNING\<rparr>) (sys w)"
    using wk qh by (auto simp: wake_up_def)
  have h: "task_in TASK_RUNNING ?w h"
    using task_in_upd_same [OF s refl] inv Cons by (auto simp: wq_inv_def)
  have other: "t \<noteq> h \<Longrightarrow> task_in st ?w t = task_in st w t" for st t
    using task_in_upd_other [OF _ s refl] by blast
  have "\<forall>(h', T') \<in> set Cs. h' \<noteq> h \<and> h \<notin> set T'" "h \<notin> set T"
    using inv Cons by (auto simp: wq_inv_def)
  then have "wq_inv ?w [] ((h, T) # Cs)"
    using inv Cons h q unfolding wq_inv_def
    by (auto simp: other split: prod.splits) (metis other)+
  then show ?thesis by blast
qed

lemma upd_cur_task: "upd_cur f s = upd_task (current s) f s"
  by (simp add: upd_cur_def upd_task_def)

lemma task_in_fun: "task_in st w t \<Longrightarrow> task_in st' w t \<Longrightarrow> st = st'"
  by (auto simp: task_in_def)

lemma wq_inv_sleep:
  assumes inv: "wq_inv w L Cs" and run: "task_in TASK_RUNNING w t" and out: "loc_tmp w t = None"
    and en: "sleep_on_enter (queue w) ((sys w)\<lparr>current := t\<rparr>) = Ret (old, q) s"
  shows "wq_inv (w\<lparr>sys := s, queue := q, loc_tmp := (loc_tmp w)(t \<mapsto> old)\<rparr>) (t # L) Cs"
proof -
  let ?w = "w\<lparr>sys := s, queue := q, loc_tmp := (loc_tmp w)(t \<mapsto> old)\<rparr>"
  have q: "q = Some t" and old: "old = queue w"
    and s: "sys ?w = upd_task t (\<lambda>p. p\<lparr>state := TASK_UNINTERRUPTIBLE\<rparr>) ((sys w)\<lparr>current := t\<rparr>)"
    using en by (auto simp: sleep_on_enter_def km_simps upd_cur_task split: if_splits)
  have t: "task_in TASK_UNINTERRUPTIBLE ?w t"
    using task_in_upd_same [OF s _ run] by simp
  have other: "x \<noteq> t \<Longrightarrow> task_in st ?w x = task_in st w x" for st x
    using task_in_upd_other [OF _ s] by auto
  have "t \<notin> dom (loc_tmp w)" using out by auto
  then have "t \<notin> set (L @ chained Cs)" using inv unfolding wq_inv_def by metis
  then have new: "t \<notin> set L" "\<forall>(h, T) \<in> set Cs. h \<noteq> t \<and> t \<notin> set T"
    using \<open>t \<notin> set (L @ chained Cs)\<close> by auto
  have chains: "linked (loc_tmp ?w) (Some h) (h # T) \<and> task_in TASK_RUNNING ?w h \<and>
        (\<forall>t \<in> set T. task_in TASK_UNINTERRUPTIBLE ?w t)" if "(h, T) \<in> set Cs" for h T
  proof -
    have "h \<noteq> t" "t \<notin> set T" "linked (loc_tmp w) (Some h) (h # T)" "task_in TASK_RUNNING w h"
        "\<forall>t \<in> set T. task_in TASK_UNINTERRUPTIBLE w t"
      using that new inv by (auto simp: wq_inv_def)
    then show ?thesis by (simp add: linked_upd other) (metis other)
  qed
  moreover have "linked (loc_tmp ?w) (queue ?w) (t # L)"
    using new inv q old by (simp add: linked_upd wq_inv_def)
  moreover have "\<forall>x \<in> set (t # L). task_in TASK_UNINTERRUPTIBLE ?w x"
    using t inv by (auto simp: wq_inv_def) (metis other)
  moreover have "distinct ((t # L) @ chained Cs)" "dom (loc_tmp ?w) = set ((t # L) @ chained Cs)"
    using inv new out by (auto simp: wq_inv_def)
  ultimately show ?thesis unfolding wq_inv_def by blast
qed

lemma wq_inv_resume:
  assumes inv: "wq_inv w L Cs" and t: "loc_tmp w t = Some old" "task_in TASK_RUNNING w t"
  shows "\<exists>Cs'. wq_inv (w\<lparr>sys := sleep_on_exit old ((sys w)\<lparr>current := t\<rparr>), loc_tmp := (loc_tmp w)(t := None)\<rparr>) L Cs'"
proof -
  let ?w = "w\<lparr>sys := sleep_on_exit old ((sys w)\<lparr>current := t\<rparr>), loc_tmp := (loc_tmp w)(t := None)\<rparr>"
  have "t \<in> dom (loc_tmp w)" using t by auto
  then have "t \<in> set (L @ chained Cs)" using inv unfolding wq_inv_def by metis
  moreover have "t \<notin> set L" "\<forall>(h, T) \<in> set Cs. t \<notin> set T"
    using inv t task_in_fun [of 0 w t 2] by (auto simp: wq_inv_def)
  ultimately obtain T where "(t, T) \<in> set Cs" by auto
  then obtain pre post where Cs: "Cs = pre @ (t, T) # post"
    by (meson split_list)
  have lT: "linked (loc_tmp w) old T" and tT: "t \<notin> set T"
    and asl: "\<forall>x \<in> set T. task_in TASK_UNINTERRUPTIBLE w x"
    using inv t Cs by (auto simp: wq_inv_def)
  have notin: "t \<notin> set L" "\<forall>(h, T') \<in> set (pre @ post). h \<noteq> t \<and> t \<notin> set T'"
    using inv Cs by (auto simp: wq_inv_def)
  define Cs' where "Cs' = (case T of [] \<Rightarrow> pre @ post | u # U \<Rightarrow> pre @ (u, U) # post)"
  have old: "old = (case T of [] \<Rightarrow> None | u # U \<Rightarrow> Some u)"
    using lT by (cases T) auto
  have other: "task_in st ?w x = task_in st w x" if "old \<noteq> Some x" for st x
    using that task_in_upd_other [of x _ ?w "TASK_RUNNING" "(sys w)\<lparr>current := t\<rparr>" w st]
    by (cases old) (auto simp: sleep_on_exit_def task_in_def)
  have woken: "task_in TASK_RUNNING ?w u" if "old = Some u" for u
  proof -
    from that old have "u \<in> set T" by (cases T) auto
    with asl have "task_in TASK_UNINTERRUPTIBLE w u" by blast
    then show ?thesis
      using that by (intro task_in_upd_same [of ?w u _ "(sys w)\<lparr>current := t\<rparr>" w]) (auto simp: sleep_on_exit_def)
  qed
  have apart: "old \<noteq> Some x" if "x \<in> set L \<or> (\<exists>(h, T') \<in> set (pre @ post). x = h \<or> x \<in> set T')" for x
    using that inv old Cs by (cases T) (auto simp: wq_inv_def)
  have kept: "linked (loc_tmp ?w) (Some h) (h # T') \<and> task_in TASK_RUNNING ?w h \<and>
      (\<forall>x \<in> set T'. task_in TASK_UNINTERRUPTIBLE ?w x)" if "(h, T') \<in> set (pre @ post)" for h T'
  proof -
    have "h \<noteq> t" "t \<notin> set T'" using notin that by auto
    moreover have "(h, T') \<in> set Cs" using that Cs by auto
    note wq_invD [OF inv this]
    moreover have "old \<noteq> Some h" "\<forall>x \<in> set T'. old \<noteq> Some x"
      using apart that by blast+
    ultimately show ?thesis by (simp add: linked_upd other)
  qed
  have new: "linked (loc_tmp ?w) (Some u) (u # U) \<and> task_in TASK_RUNNING ?w u \<and>
      (\<forall>x \<in> set U. task_in TASK_UNINTERRUPTIBLE ?w x)" if T: "T = u # U" for u U
  proof -
    have "distinct T" using inv Cs by (simp add: wq_inv_def)
    moreover have "old = Some u" using old T by simp
    ultimately have "\<forall>x \<in> set U. old \<noteq> Some x" using T by auto
    then have "\<forall>x \<in> set U. task_in TASK_UNINTERRUPTIBLE ?w x"
      using asl other unfolding T by simp
    then show ?thesis
      using lT tT woken [of u] \<open>old = Some u\<close> unfolding T by (auto simp: linked_upd)
  qed
  have "linked (loc_tmp ?w) (queue ?w) L" "\<forall>x \<in> set L. task_in TASK_UNINTERRUPTIBLE ?w x"
    using inv notin apart by (auto simp: wq_inv_def linked_upd other)
  moreover have "\<forall>(h, T') \<in> set Cs'. linked (loc_tmp ?w) (Some h) (h # T') \<and> task_in TASK_RUNNING ?w h \<and>
      (\<forall>x \<in> set T'. task_in TASK_UNINTERRUPTIBLE ?w x)"
    using kept new unfolding Cs'_def by (cases T) (simp_all, blast+)
  moreover have "set (L @ chained Cs') = set (L @ chained Cs) - {t}" "distinct (L @ chained Cs')"
    using inv Cs unfolding Cs'_def wq_inv_def by (cases T; auto)+
  moreover have "dom (loc_tmp ?w) = dom (loc_tmp w) - {t}" by auto
  ultimately have "wq_inv ?w L Cs'"
    using inv unfolding wq_inv_def by auto
  then show ?thesis ..
qed

lemma wq_reachable_inv: "wq_reachable w \<Longrightarrow> \<exists>L Cs. wq_inv w L Cs"
proof (induction rule: wq_reachable.induct)
  case (start w)
  then have "wq_inv w [] []" by (simp add: wq_inv_def)
  then show ?case by blast
next
  case (step w w')
  from step.hyps(2) step.IH show ?case
  proof cases
    case (sleep t old q s)
    with step.IH show ?thesis by (metis wq_inv_sleep)
  next
    case (wake q s)
    with step.IH show ?thesis by (metis wq_inv_wake)
  next
    case (resume t old)
    with step.IH show ?thesis by (metis wq_inv_resume)
  qed
qed

text \<open>
  C5: no wake-up is lost. In every reachable interleaving, if the queue pointer is null
  and some task is still inside \<open>sleep_on\<close>, then one of these tasks is runnable; when it
  runs, it wakes the next one of its chain.
\<close>

theorem no_lost_wakeup:
  assumes "wq_reachable w" and "queue w = None" and "dom (loc_tmp w) \<noteq> {}"
  shows "\<exists>h. h \<in> dom (loc_tmp w) \<and> task_in TASK_RUNNING w h"
proof -
  obtain L Cs where inv: "wq_inv w L Cs" using wq_reachable_inv [OF assms(1)] by blast
  then have "L = []" using assms(2) by (simp add: wq_inv_def linked_None)
  with inv assms(3) obtain h T where "(h, T) \<in> set Cs" by (auto simp: wq_inv_def)
  with inv show ?thesis by (force simp: wq_inv_def)
qed

section \<open>interruptible_sleep_on\<close>

definition interruptible_sleep_on_enter :: "nat option \<Rightarrow> ('a sched_scheme, nat option \<times> nat option) km" where
  "interruptible_sleep_on_enter p =
     kbind (kget current) (\<lambda>me.
     if me = 0 then kstop (Panic ''task[0] trying to sleep'')
     else kseq (kmod (upd_cur (\<lambda>t. t\<lparr>state := TASK_INTERRUPTIBLE\<rparr>))) (kreturn (p, Some me)))"

text \<open>
  After \<open>schedule()\<close>: whether the task has gone back to sleep (\<open>goto repeat\<close>), and the
  queue pointer.
\<close>

definition interruptible_sleep_on_resume ::
    "nat option \<Rightarrow> nat option \<Rightarrow> ('a sched_scheme, bool \<times> nat option) km" where
  "interruptible_sleep_on_resume p old =
     kbind (kget current) (\<lambda>me.
     if p \<noteq> None \<and> p \<noteq> Some me
     then kseq (kmod (upd_task (the p) (\<lambda>t. t\<lparr>state := TASK_RUNNING\<rparr>)))
          (kseq (kmod (upd_cur (\<lambda>t. t\<lparr>state := TASK_INTERRUPTIBLE\<rparr>))) (kreturn (True, p)))
     else kseq (kmod (sleep_on_exit old)) (kreturn (False, None)))"

inductive iwq_step :: "waitq \<Rightarrow> waitq \<Rightarrow> bool" where
  isleep: "task_in TASK_RUNNING w t \<Longrightarrow> loc_tmp w t = None \<Longrightarrow>
     interruptible_sleep_on_enter (queue w) ((sys w)\<lparr>current := t\<rparr>) = Ret (old, q) s \<Longrightarrow>
     iwq_step w (w\<lparr>sys := s, queue := q, loc_tmp := (loc_tmp w)(t \<mapsto> old)\<rparr>)"
| iwake: "wake_up (queue w) (sys w) = (q, s) \<Longrightarrow> iwq_step w (w\<lparr>sys := s, queue := q\<rparr>)"
| iresume: "loc_tmp w t = Some old \<Longrightarrow> task_in TASK_RUNNING w t \<Longrightarrow>
     interruptible_sleep_on_resume (queue w) old ((sys w)\<lparr>current := t\<rparr>) = Ret (again, q) s \<Longrightarrow>
     iwq_step w (w\<lparr>sys := s, queue := q, loc_tmp := if again then loc_tmp w else (loc_tmp w)(t := None)\<rparr>)"


text \<open>States for the examples: task \<open>i\<close> has state \<open>xs ! i\<close>.\<close>

definition sched_ex :: "int list \<Rightarrow> nat \<Rightarrow> sched" where
  "sched_ex xs c = boot_sched\<lparr>task := map (\<lambda>x. Some ((INIT_TASK 0 0)\<lparr>state := x\<rparr>)) xs, current := c\<rparr>"

abbreviation wq_ex :: "int list \<Rightarrow> nat \<Rightarrow> nat option \<Rightarrow> (nat \<Rightarrow> nat option option) \<Rightarrow> waitq" where
  "wq_ex xs c q m \<equiv> \<lparr>sys = sched_ex xs c, queue = q, loc_tmp = m\<rparr>"

lemma sched_ex_simps [simp]:
  "current (sched_ex xs c) = c" "(sched_ex xs c)\<lparr>current := d\<rparr> = sched_ex xs d"
  "i < length xs \<Longrightarrow> upd_task i (\<lambda>t. t\<lparr>state := st\<rparr>) (sched_ex xs c) = sched_ex (xs[i := st]) c"
  by (simp_all add: upd_task_def sched_ex_def map_update)

lemma task_in_ex [simp]: "task_in st (wq_ex xs c q m) t \<longleftrightarrow> t < length xs \<and> xs ! t = st"
  by (auto simp: task_in_def sched_ex_def)

lemma iwq_sleep_ex:
  assumes "t < length xs" "xs ! t = 0" "t \<noteq> 0" "m t = None"
  shows "iwq_step (wq_ex xs c q m) (wq_ex (xs[t := 1]) t (Some t) (m(t \<mapsto> q)))"
  using iwq_step.isleep [of "wq_ex xs c q m" t q "Some t" "sched_ex (xs[t := 1]) t"] assms
  by (simp add: interruptible_sleep_on_enter_def km_simps upd_cur_task)

lemma iwq_wake_ex:
  assumes "t < length xs"
  shows "iwq_step (wq_ex xs c (Some t) m) (wq_ex (xs[t := 0]) c None m)"
  using iwq_step.iwake [of "wq_ex xs c (Some t) m" None "sched_ex (xs[t := 0]) c"] assms
  by (simp add: wake_up_def)

lemma iwq_again_ex:
  assumes "t < length xs" "xs ! t = 0" "u < length xs" "u \<noteq> t" "m t = Some old"
  shows "iwq_step (wq_ex xs c (Some u) m) (wq_ex (xs[u := 0, t := 1]) t (Some u) m)"
  using iwq_step.iresume [of "wq_ex xs c (Some u) m" t old True "Some u" "sched_ex (xs[u := 0, t := 1]) t"] assms
  by (simp add: interruptible_sleep_on_resume_def km_simps upd_cur_task)

lemma iwq_leave_ex:
  assumes "t < length xs" "xs ! t = 0" "m t = Some None"
  shows "iwq_step (wq_ex xs c (Some t) m) (wq_ex xs t None (m(t := None)))"
  using iwq_step.iresume [of "wq_ex xs c (Some t) m" t None False None "sched_ex xs t"] assms
  by (simp add: interruptible_sleep_on_resume_def km_simps sleep_on_exit_def)

text \<open>
  C6: \<open>interruptible_sleep_on\<close> can lose a wake-up: from an empty queue, two tasks sleep, one
  wake-up and a third sleeper that arrives before the woken task runs lead to a state where
  the queue pointer is null and every task still inside the routine is asleep, so that no
  later \<open>wake_up\<close> reaches them.
\<close>

theorem interruptible_lost_wakeup:
  "\<exists>w w'. queue w = None \<and> loc_tmp w = Map.empty \<and> iwq_step\<^sup>*\<^sup>* w w' \<and> queue w' = None \<and> dom (loc_tmp w') \<noteq> {} \<and>
     dom (loc_tmp w') \<subseteq> {t. task_in TASK_INTERRUPTIBLE w' t}"
proof -
  have "iwq_step (wq_ex [0,0,0,0] 0 None Map.empty) (wq_ex [0,1,0,0] 1 (Some 1) [1 \<mapsto> None])"
    using iwq_sleep_ex [of 1 "[0,0,0,0]" Map.empty 0 None] by simp
  moreover have "iwq_step (wq_ex [0,1,0,0] 1 (Some 1) [1 \<mapsto> None])
      (wq_ex [0,1,1,0] 2 (Some 2) [1 \<mapsto> None, 2 \<mapsto> Some 1])"
    using iwq_sleep_ex [of 2 "[0,1,0,0]" "[1 \<mapsto> None]" 1 "Some 1"] by simp
  moreover have "iwq_step (wq_ex [0,1,1,0] 2 (Some 2) [1 \<mapsto> None, 2 \<mapsto> Some 1])
      (wq_ex [0,1,0,0] 2 None [1 \<mapsto> None, 2 \<mapsto> Some 1])"
    using iwq_wake_ex [of 2 "[0,1,1,0]"] by simp
  moreover have "iwq_step (wq_ex [0,1,0,0] 2 None [1 \<mapsto> None, 2 \<mapsto> Some 1])
      (wq_ex [0,1,0,1] 3 (Some 3) [1 \<mapsto> None, 2 \<mapsto> Some 1, 3 \<mapsto> None])"
    using iwq_sleep_ex [of 3 "[0,1,0,0]" "[1 \<mapsto> None, 2 \<mapsto> Some 1]" 2 None] by simp
  moreover have "iwq_step (wq_ex [0,1,0,1] 3 (Some 3) [1 \<mapsto> None, 2 \<mapsto> Some 1, 3 \<mapsto> None])
      (wq_ex [0,1,1,0] 2 (Some 3) [1 \<mapsto> None, 2 \<mapsto> Some 1, 3 \<mapsto> None])"
    using iwq_again_ex [of 2 "[0,1,0,1]" 3 "[1 \<mapsto> None, 2 \<mapsto> Some 1, 3 \<mapsto> None]" "Some 1" 3] by simp
  moreover have "iwq_step (wq_ex [0,1,1,0] 2 (Some 3) [1 \<mapsto> None, 2 \<mapsto> Some 1, 3 \<mapsto> None])
      (wq_ex [0,1,1,0] 3 None ([1 \<mapsto> None, 2 \<mapsto> Some 1, 3 \<mapsto> None](3 := None)))"
    using iwq_leave_ex [of 3 "[0,1,1,0]" "[1 \<mapsto> None, 2 \<mapsto> Some 1, 3 \<mapsto> None]" 2] by simp
  ultimately have "iwq_step\<^sup>*\<^sup>* (wq_ex [0,0,0,0] 0 None Map.empty)
      (wq_ex [0,1,1,0] 3 None ([1 \<mapsto> None, 2 \<mapsto> Some 1, 3 \<mapsto> None](3 := None)))"
    by (meson converse_rtranclp_into_rtranclp rtranclp.rtrancl_refl)
  then show ?thesis
    by (intro exI [of _ "wq_ex [0,0,0,0] 0 None Map.empty"]
        exI [of _ "wq_ex [0,1,1,0] 3 None ([1 \<mapsto> None, 2 \<mapsto> Some 1, 3 \<mapsto> None](3 := None))"]) auto
qed

lemma wq_sleep_ex:
  assumes "t < length xs" "xs ! t = 0" "t \<noteq> 0" "m t = None"
  shows "wq_step (wq_ex xs c q m) (wq_ex (xs[t := 2]) t (Some t) (m(t \<mapsto> q)))"
  using wq_step.sleep [of "wq_ex xs c q m" t q "Some t" "sched_ex (xs[t := 2]) t"] assms
  by (simp add: sleep_on_enter_def km_simps upd_cur_task)

lemma wq_wake_ex:
  assumes "t < length xs"
  shows "wq_step (wq_ex xs c (Some t) m) (wq_ex (xs[t := 0]) c None m)"
  using wq_step.wake [of "wq_ex xs c (Some t) m" None "sched_ex (xs[t := 0]) c"] assms
  by (simp add: wake_up_def)

theorem no_lost_wakeup_witness:
  "\<exists>h. h \<in> dom (loc_tmp (wq_ex [0, 0] 1 None [1 \<mapsto> None])) \<and> task_in TASK_RUNNING (wq_ex [0, 0] 1 None [1 \<mapsto> None]) h"
proof (rule no_lost_wakeup)
  have "wq_reachable (wq_ex [0,0] 0 None Map.empty)" by (rule wq_reachable.start) simp_all
  moreover have "wq_step (wq_ex [0,0] 0 None Map.empty) (wq_ex [0,2] 1 (Some 1) [1 \<mapsto> None])"
    using wq_sleep_ex [of 1 "[0,0]" Map.empty 0 None] by simp
  moreover have "wq_step (wq_ex [0,2] 1 (Some 1) [1 \<mapsto> None]) (wq_ex [0,0] 1 None [1 \<mapsto> None])"
    using wq_wake_ex [of 1 "[0,2]"] by simp
  ultimately show "wq_reachable (wq_ex [0,0] 1 None [1 \<mapsto> None])" by (meson wq_reachable.step)
qed simp_all

end
