(* ===== verification/Memory.thy ===== *)
theory Memory
  imports Waitq
begin

text \<open>
  Physical memory and paging: \<open>mm/memory.c\<close>.

  The state is \<open>mem_map\<close> (the use count of every page above 1 MB), \<open>HIGH_MEMORY\<close>, and the
  physical memory as a function from addresses of long words to their values; the page
  directory is at address 0, as \<open>head.s\<close> puts it. \<open>invalidate()\<close> flushes the TLB, which is
  not part of the state. The routines that also need the file system (\<open>share_page\<close>,
  \<open>do_no_page\<close>) are not in this theory.
\<close>

section \<open>State\<close>

record mm = sched +
  mem_map :: "u8 list"
  HIGH_MEMORY :: u32
  phys :: "u32 \<Rightarrow> u32"

abbreviation (input) LOW_MEM :: u32 where "LOW_MEM \<equiv> 0x100000"
abbreviation (input) PAGING_PAGES :: nat where "PAGING_PAGES \<equiv> 3840"
abbreviation (input) USED :: u8 where "USED \<equiv> 100"

text \<open>The frame number and the address bits of a page-table entry.\<close>

definition MAP_NR :: "u32 \<Rightarrow> nat" where
  "MAP_NR addr = unat (drop_bit 12 (addr - LOW_MEM))"

abbreviation (input) page_of :: "u32 \<Rightarrow> u32" where
  "page_of x \<equiv> 0xfffff000 AND x"

definition frame_addr :: "nat \<Rightarrow> u32" where
  "frame_addr i = push_bit 12 (of_nat i) + LOW_MEM"

definition poke :: "u32 \<Rightarrow> u32 \<Rightarrow> ('a mm_scheme, unit) km" where
  "poke a v = kmod (\<lambda>s. s\<lparr>phys := (phys s)(a := v)\<rparr>)"

definition peek :: "u32 \<Rightarrow> ('a mm_scheme, u32) km" where
  "peek a = kget (\<lambda>s. phys s a)"

text \<open>Reading and writing \<open>mem_map[i]\<close>; outside the array the C code is undefined.\<close>

definition get_map :: "nat \<Rightarrow> ('a mm_scheme, u8) km" where
  "get_map i = (\<lambda>s. if i < length (mem_map s) then Ret (mem_map s ! i) s
                    else Stop (Fault ''mem_map'') s)"

definition set_map :: "nat \<Rightarrow> u8 \<Rightarrow> ('a mm_scheme, unit) km" where
  "set_map i v = (\<lambda>s. if i < length (mem_map s) then Ret () (s\<lparr>mem_map := (mem_map s)[i := v]\<rparr>)
                      else Stop (Fault ''mem_map'') s)"

section \<open>Pages\<close>

text \<open>\<open>std; repne; scasb\<close>: the highest index below \<open>n\<close> whose byte is zero.\<close>

fun last_zero :: "u8 list \<Rightarrow> nat \<Rightarrow> nat option" where
  "last_zero m 0 = None"
| "last_zero m (Suc n) = (if m ! n = 0 then Some n else last_zero m n)"

definition zero_page :: "u32 \<Rightarrow> (u32 \<Rightarrow> u32) \<Rightarrow> (u32 \<Rightarrow> u32)" where
  "zero_page p m = (\<lambda>a. if page_of a = p then 0 else m a)"

definition get_free_page :: "('a mm_scheme, u32) km" where
  "get_free_page =
     kbind (kget (\<lambda>s. last_zero (mem_map s) PAGING_PAGES)) (\<lambda>r.
     case r of None \<Rightarrow> kreturn 0
     | Some i \<Rightarrow>
         kseq (set_map i 1)
         (kseq (kmod (\<lambda>s. s\<lparr>phys := zero_page (frame_addr i) (phys s)\<rparr>))
         (kreturn (frame_addr i))))"

definition free_page :: "u32 \<Rightarrow> ('a mm_scheme, unit) km" where
  "free_page addr =
     (if addr < LOW_MEM then kreturn ()
      else kbind (kget HIGH_MEMORY) (\<lambda>hi.
        if addr \<ge> hi then kstop (Panic ''trying to free nonexistent page'')
        else kbind (get_map (MAP_NR addr)) (\<lambda>c.
          if c \<noteq> 0 then set_map (MAP_NR addr) (c - 1)
          else kseq (set_map (MAP_NR addr) 0) (kstop (Panic ''trying to free free page'')))))"

definition oom :: "('a mm_scheme, unit) km" where
  "oom = kstop (Exits (int SIGSEGV))"

section \<open>Page tables\<close>

definition free_table_entry :: "u32 \<Rightarrow> ('a mm_scheme, unit) km" where
  "free_table_entry pte =
     kbind (peek pte) (\<lambda>e.
     kseq (kwhen (1 AND e \<noteq> 0) (free_page (page_of e)))
     (poke pte 0))"

definition free_dir_entry :: "u32 \<Rightarrow> ('a mm_scheme, unit) km" where
  "free_dir_entry dir =
     kbind (peek dir) (\<lambda>d.
     if 1 AND d = 0 then kreturn ()
     else kseq (kfor [0..<1024] (\<lambda>nr. free_table_entry (page_of d + 4 * of_nat nr)))
          (kbind (peek dir) (\<lambda>d'.
           kseq (free_page (page_of d')) (poke dir 0))))"

definition free_page_tables :: "u32 \<Rightarrow> u32 \<Rightarrow> ('a mm_scheme, int) km" where
  "free_page_tables from sz =
     (if from AND 0x3fffff \<noteq> 0 then kstop (Panic ''free_page_tables called with wrong alignment'')
      else if from = 0 then kstop (Panic ''Trying to free up swapper memory space'')
      else let n = unat (drop_bit 22 (sz + 0x3fffff)); dir = drop_bit 20 from AND 0xffc
           in kseq (kfor [0..<n] (\<lambda>k. free_dir_entry (dir + 4 * of_nat k)))
              (kreturn 0))"

definition copy_table_entry :: "u32 \<Rightarrow> u32 \<Rightarrow> ('a mm_scheme, unit) km" where
  "copy_table_entry from_pte to_pte =
     kbind (peek from_pte) (\<lambda>this_page.
     if 1 AND this_page = 0 then kreturn ()
     else let this_page = this_page AND NOT 2
          in kseq (poke to_pte this_page)
             (kwhen (this_page > LOW_MEM)
               (kseq (poke from_pte this_page)
               (kbind (get_map (MAP_NR this_page)) (\<lambda>c.
                set_map (MAP_NR this_page) (c + 1))))))"

text \<open>One turn of the outer loop; the result tells whether a page for the table was found.\<close>

definition copy_dir_entry :: "nat \<Rightarrow> u32 \<Rightarrow> u32 \<Rightarrow> ('a mm_scheme, bool) km" where
  "copy_dir_entry nr from_dir to_dir =
     kbind (peek to_dir) (\<lambda>t.
     if 1 AND t \<noteq> 0 then kstop (Panic ''copy_page_tables: already exist'')
     else kbind (peek from_dir) (\<lambda>f.
       if 1 AND f = 0 then kreturn True
       else kbind get_free_page (\<lambda>to_table.
         if to_table = 0 then kreturn False
         else kseq (poke to_dir (to_table OR 7))
              (kseq (kfor [0..<nr] (\<lambda>k. copy_table_entry (page_of f + 4 * of_nat k)
                                                         (to_table + 4 * of_nat k)))
              (kreturn True)))))"

fun copy_dirs :: "nat \<Rightarrow> nat \<Rightarrow> u32 \<Rightarrow> u32 \<Rightarrow> ('a mm_scheme, int) km" where
  "copy_dirs nr 0 from_dir to_dir = kreturn 0"
| "copy_dirs nr (Suc n) from_dir to_dir =
     kbind (copy_dir_entry nr from_dir to_dir) (\<lambda>ok.
     if ok then copy_dirs nr n (from_dir + 4) (to_dir + 4) else kreturn (-1))"

definition copy_page_tables :: "u32 \<Rightarrow> u32 \<Rightarrow> u32 \<Rightarrow> ('a mm_scheme, int) km" where
  "copy_page_tables from to sz =
     (if from AND 0x3fffff \<noteq> 0 \<or> to AND 0x3fffff \<noteq> 0
      then kstop (Panic ''copy_page_tables called with wrong alignment'')
      else copy_dirs (if from = 0 then 0xA0 else 1024)
             (unat (drop_bit 22 (sz + 0x3fffff)))
             (drop_bit 20 from AND 0xffc) (drop_bit 20 to AND 0xffc))"

text \<open>
  The messages about a bad page only go to the console, but the check of \<open>mem_map\<close> reads
  the array.
\<close>

definition put_page :: "u32 \<Rightarrow> u32 \<Rightarrow> ('a mm_scheme, u32) km" where
  "put_page page address =
     kbind (get_map (MAP_NR page)) (\<lambda>_.
     let dir = drop_bit 20 address AND 0xffc;
         entry = 4 * (drop_bit 12 address AND 0x3ff)
     in kbind (peek dir) (\<lambda>d.
        if d AND 1 \<noteq> 0
        then kseq (poke (page_of d + entry) (page OR 7)) (kreturn page)
        else kbind get_free_page (\<lambda>tmp.
          if tmp = 0 then kreturn 0
          else kseq (poke dir (tmp OR 7))
               (kseq (poke (tmp + entry) (page OR 7)) (kreturn page)))))"

section \<open>Copy on write\<close>

definition copy_page :: "u32 \<Rightarrow> u32 \<Rightarrow> (u32 \<Rightarrow> u32) \<Rightarrow> (u32 \<Rightarrow> u32)" where
  "copy_page from to m = (\<lambda>a. if page_of a = to then m (from + (a - to)) else m a)"

definition un_wp_page :: "u32 \<Rightarrow> ('a mm_scheme, unit) km" where
  "un_wp_page entry =
     kbind (peek entry) (\<lambda>e.
     let old_page = page_of e in
     kbind (if old_page \<ge> LOW_MEM then get_map (MAP_NR old_page) else kreturn 0) (\<lambda>c.
     if old_page \<ge> LOW_MEM \<and> c = 1 then poke entry (e OR 2)
     else kbind get_free_page (\<lambda>new_page.
       kseq (kwhen (new_page = 0) oom)
       (kseq (kwhen (old_page \<ge> LOW_MEM)
               (kbind (get_map (MAP_NR old_page)) (\<lambda>c. set_map (MAP_NR old_page) (c - 1))))
       (kseq (poke entry (new_page OR 7))
       (kmod (\<lambda>s. s\<lparr>phys := copy_page old_page new_page (phys s)\<rparr>)))))))"

definition do_wp_page :: "u32 \<Rightarrow> u32 \<Rightarrow> ('a mm_scheme, unit) km" where
  "do_wp_page error_code address =
     kbind (peek (drop_bit 20 address AND 0xffc)) (\<lambda>d.
     un_wp_page ((drop_bit 10 address AND 0xffc) + page_of d))"

definition write_verify :: "u32 \<Rightarrow> ('a mm_scheme, unit) km" where
  "write_verify address =
     kbind (peek (drop_bit 20 address AND 0xffc)) (\<lambda>page.
     if page AND 1 = 0 then kreturn ()
     else let pte = page_of page + (drop_bit 10 address AND 0xffc)
          in kbind (peek pte) (\<lambda>e. kwhen (3 AND e = 1) (un_wp_page pte)))"

definition get_empty_page :: "u32 \<Rightarrow> ('a mm_scheme, unit) km" where
  "get_empty_page address =
     kbind get_free_page (\<lambda>tmp.
     kbind (if tmp = 0 then kreturn 0 else put_page tmp address) (\<lambda>r.
     kwhen (r = 0) (kseq (free_page tmp) oom)))"

definition try_to_share :: "u32 \<Rightarrow> task_struct \<Rightarrow> ('a mm_scheme, bool) km" where
  "try_to_share address p =
     kbind (kget (\<lambda>s. start_code (cur s))) (\<lambda>cur_code.
     let from_page = (drop_bit 20 address AND 0xffc) + (drop_bit 20 (start_code p) AND 0xffc);
         to_page = (drop_bit 20 address AND 0xffc) + (drop_bit 20 cur_code AND 0xffc);
         slot = drop_bit 10 address AND 0xffc
     in kbind (peek from_page) (\<lambda>from.
        if from AND 1 = 0 then kreturn False
        else kbind (peek (page_of from + slot)) (\<lambda>e.
          if e AND 0x41 \<noteq> 0x01 then kreturn False
          else kbind (kget HIGH_MEMORY) (\<lambda>hi.
            if page_of e \<ge> hi \<or> page_of e < LOW_MEM then kreturn False
            else kbind (peek to_page) (\<lambda>to.
              kbind (if to AND 1 \<noteq> 0 then kreturn to
                     else kbind get_free_page (\<lambda>t.
                       if t \<noteq> 0 then kseq (poke to_page (t OR 7)) (kreturn t)
                       else kseq oom (kreturn t))) (\<lambda>to.
              kbind (peek (page_of to + slot)) (\<lambda>te.
              if 1 AND te \<noteq> 0 then kstop (Panic ''try_to_share: to_page already exists'')
              else kbind (peek (page_of from + slot)) (\<lambda>e'.
                kseq (poke (page_of from + slot) (e' AND NOT 2))
                (kbind (peek (page_of from + slot)) (\<lambda>e''.
                kseq (poke (page_of to + slot) e'')
                (kbind (get_map (MAP_NR (page_of e))) (\<lambda>c.
                kseq (set_map (MAP_NR (page_of e)) (c + 1))
                (kreturn True)))))))))))))"

section \<open>Initialisation\<close>

text \<open>
  \<open>while (end_mem-->0) mem_map[i++]=0\<close>, where a store outside the array is undefined.
\<close>

fun clear_map :: "nat \<Rightarrow> nat \<Rightarrow> ('a mm_scheme, unit) km" where
  "clear_map i 0 = kreturn ()"
| "clear_map i (Suc n) = kseq (set_map i 0) (clear_map (Suc i) n)"

definition mem_init :: "u32 \<Rightarrow> u32 \<Rightarrow> ('a mm_scheme, unit) km" where
  "mem_init start_mem end_mem =
     kseq (kmod (\<lambda>s. s\<lparr>HIGH_MEMORY := end_mem, mem_map := replicate PAGING_PAGES USED\<rparr>))
     (clear_map (MAP_NR start_mem) (unat (drop_bit 12 (end_mem - start_mem))))"

text \<open>The number of free pages that \<open>calc_mem\<close> prints.\<close>

definition calc_mem_free :: "'a mm_scheme \<Rightarrow> nat" where
  "calc_mem_free s = length (filter (\<lambda>c. c = 0) (take PAGING_PAGES (mem_map s)))"

section \<open>Addresses\<close>

lemma page_of_shift: "page_of (x :: u32) = push_bit 12 (drop_bit 12 x)"
proof -
  have "(0xfffff000 :: u32) = NOT (mask 12)" by (simp add: mask_eq_exp_minus_1)
  then have "page_of x = NOT (mask 12) AND x" by simp
  also have "\<dots> = push_bit 12 (drop_bit 12 x)"
    by (auto intro!: bit_word_eqI simp: bit_simps)
  finally show ?thesis .
qed

lemma unat_page_of: "unat (page_of x) = unat x div 4096 * 4096" for x :: u32
proof -
  have "unat (drop_bit 12 x) = unat x div 4096"
    unfolding unat_drop_bit_eq by (simp add: drop_bit_eq_div)
  moreover have "push_bit 12 (drop_bit 12 x) = of_nat (unat (drop_bit 12 x) * 4096)"
    by (simp add: push_bit_eq_mult)
  moreover have "unat x div 4096 * 4096 < 4294967296"
    using unat32_less [of x] by simp
  ultimately show ?thesis
    unfolding page_of_shift by (simp only: unat32_of_nat)
qed

lemma page_of_idem [simp]: "page_of (page_of x) = page_of (x :: u32)"
  by (simp flip: and.assoc)

lemma unat_frame_addr: "i < PAGING_PAGES \<Longrightarrow> unat (frame_addr i) = i * 4096 + 0x100000"
proof -
  assume i: "i < PAGING_PAGES"
  have "frame_addr i = of_nat (i * 4096 + 0x100000)"
    by (simp add: frame_addr_def push_bit_eq_mult)
  then show ?thesis using i by (simp only: unat32_of_nat)
qed

lemma page_of_frame [simp]: "i < PAGING_PAGES \<Longrightarrow> page_of (frame_addr i) = frame_addr i"
  by (rule word_unat_eq_iff [THEN iffD2]) (simp add: unat_page_of unat_frame_addr)

lemma MAP_NR_frame [simp]: "i < PAGING_PAGES \<Longrightarrow> MAP_NR (frame_addr i) = i"
proof -
  assume i: "i < PAGING_PAGES"
  have "frame_addr i - LOW_MEM = of_nat (i * 4096)"
    by (simp add: frame_addr_def push_bit_eq_mult)
  then have "unat (frame_addr i - LOW_MEM) = i * 4096"
    using i by (simp only: unat32_of_nat)
  then show ?thesis unfolding MAP_NR_def unat_drop_bit_eq by (simp add: drop_bit_eq_div)
qed

lemma frame_addr_bounds:
  assumes "i < PAGING_PAGES"
  shows "frame_addr i \<noteq> 0" and "LOW_MEM \<le> frame_addr i" and "frame_addr i < 0x1000000"
  using unat_frame_addr [OF assms] assms by (auto simp: word_le_nat_alt word_less_nat_alt)

lemma frame_addr_inj: "i < PAGING_PAGES \<Longrightarrow> j < PAGING_PAGES \<Longrightarrow> frame_addr i = frame_addr j \<longleftrightarrow> i = j"
  using MAP_NR_frame by metis

lemma page_of_slot:
  assumes "page_of p = p" and "k < 1024"
  shows "page_of (p + 4 * of_nat k) = p"
proof -
  define q where "q = unat p div 4096"
  have p: "unat p = 4096 * q"
    using unat_page_of [of p] unfolding assms(1) q_def by simp
  have "q < 1048576" using unat32_less [of p] unfolding p by simp
  then have "unat p + 4 * k < 4294967296" using assms(2) unfolding p by linarith
  moreover have "unat (4 * of_nat k :: u32) = 4 * k"
    using assms(2) by (simp add: unat_word_ariths unat_of_nat)
  ultimately have "unat (p + 4 * of_nat k) = unat p + 4 * k"
    by (simp add: unat_word_ariths)
  moreover have "(4096 * q + 4 * k) div 4096 = q" using assms(2) by simp
  ultimately have "unat (page_of (p + 4 * of_nat k)) = unat p"
    unfolding unat_page_of p by simp
  then show ?thesis by (simp add: word_unat_eq_iff)
qed

lemma slot_inj:
  assumes "k < 1024" "l < 1024" "(p :: u32) + 4 * of_nat k = p + 4 * of_nat l"
  shows "k = l"
proof -
  from assms(3) have "unat (4 * of_nat k :: u32) = unat (4 * of_nat l :: u32)" by simp
  with assms(1,2) show ?thesis by (simp add: unat_word_ariths unat_of_nat)
qed

section \<open>Allocation\<close>

lemma last_zero_Some: "last_zero m n = Some i \<Longrightarrow> i < n \<and> m ! i = 0 \<and> (\<forall>k. i < k \<longrightarrow> k < n \<longrightarrow> m ! k \<noteq> 0)"
  by (induction m n rule: last_zero.induct) (auto split: if_splits simp: less_Suc_eq)

lemma last_zero_None: "last_zero m n = None \<longleftrightarrow> (\<forall>k < n. m ! k \<noteq> 0)"
  by (induction m n rule: last_zero.induct) (auto simp: less_Suc_eq)

definition wf_mem :: "'a mm_scheme \<Rightarrow> bool" where
  "wf_mem s \<longleftrightarrow> length (mem_map s) = PAGING_PAGES \<and> HIGH_MEMORY s \<le> 0x1000000"

lemma get_free_page_run:
  assumes "length (mem_map s) = PAGING_PAGES"
  shows "get_free_page s =
    (case last_zero (mem_map s) PAGING_PAGES of None \<Rightarrow> Ret 0 s
     | Some i \<Rightarrow> Ret (frame_addr i)
         (s\<lparr>mem_map := (mem_map s)[i := 1], phys := zero_page (frame_addr i) (phys s)\<rparr>))"
  using assms last_zero_Some [of "mem_map s" PAGING_PAGES]
  by (auto simp: get_free_page_def km_simps set_map_def split: option.split)

text \<open>
  C7: \<open>get_free_page\<close> returns 0 and changes nothing exactly when every page is in use;
  otherwise it returns the address of a page whose use count was 0, sets the count to 1,
  leaves the counts of all other pages and clears exactly that page.
\<close>

theorem get_free_page_spec:
  assumes "length (mem_map s) = PAGING_PAGES"
  shows "(get_free_page s = Ret 0 s \<and> (\<forall>k < PAGING_PAGES. mem_map s ! k \<noteq> 0)) \<or>
    (\<exists>i s'. get_free_page s = Ret (frame_addr i) s' \<and> i < PAGING_PAGES \<and>
       mem_map s ! i = 0 \<and> mem_map s' = (mem_map s)[i := 1] \<and>
       (\<forall>a. phys s' a = (if page_of a = frame_addr i then 0 else phys s a)))"
proof (cases "last_zero (mem_map s) PAGING_PAGES")
  case None
  then show ?thesis using assms by (simp add: get_free_page_run flip: last_zero_None)
next
  case (Some i)
  then show ?thesis
    using assms last_zero_Some [OF Some]
    by (intro disjI2 exI [of _ i]) (simp add: get_free_page_run zero_page_def)
qed

lemma word8_pred: "c \<noteq> 0 \<Longrightarrow> unat (c - 1) = unat c - 1" for c :: u8
  by (rule word_minus_one_unat)

text \<open>
  freeing the page that \<open>get_free_page\<close> just returned succeeds and restores the use
  counts of all pages.
\<close>

theorem get_free_page_free_page:
  assumes "wf_mem s" and "get_free_page s = Ret p s'" and "p \<noteq> 0" and "p < HIGH_MEMORY s"
  shows "\<exists>s''. free_page p s' = Ret () s'' \<and> mem_map s'' = mem_map s"
proof -
  obtain i where i: "p = frame_addr i" "i < PAGING_PAGES" "mem_map s ! i = 0"
      "s' = s\<lparr>mem_map := (mem_map s)[i := 1], phys := zero_page (frame_addr i) (phys s)\<rparr>"
    using assms last_zero_Some [of "mem_map s" PAGING_PAGES]
    by (auto simp: wf_mem_def get_free_page_run split: option.splits)
  have "\<not> frame_addr i < LOW_MEM" using frame_addr_bounds [OF i(2)] by simp
  then show ?thesis
    using i assms by (auto simp: free_page_def km_simps get_map_def set_map_def wf_mem_def not_le)
qed

definition cow :: "u32 \<Rightarrow> u32" where
  "cow e = e AND NOT 2"

definition counted :: "u32 \<Rightarrow> bool" where
  "counted e \<longleftrightarrow> 1 AND e \<noteq> 0 \<and> LOW_MEM < cow e"

definition refs :: "(nat \<Rightarrow> u32) \<Rightarrow> nat \<Rightarrow> nat \<Rightarrow> nat" where
  "refs src n i = length (filter (\<lambda>k. counted (src k) \<and> MAP_NR (cow (src k)) = i) [0..<n])"

lemma refs_Suc: "refs src (Suc n) i = refs src n i + (if counted (src n) \<and> MAP_NR (cow (src n)) = i then 1 else 0)"
  by (simp add: refs_def)

lemma copy_table_entry_run:
  assumes "counted (phys s f) \<Longrightarrow> MAP_NR (cow (phys s f)) < length (mem_map s)"
  shows "copy_table_entry f t s = Ret ()
    (s\<lparr>phys := (if 1 AND phys s f = 0 then phys s
               else if counted (phys s f) then (phys s)(t := cow (phys s f), f := cow (phys s f))
               else (phys s)(t := cow (phys s f))),
       mem_map := (if counted (phys s f)
                   then (mem_map s)[MAP_NR (cow (phys s f)) := mem_map s ! MAP_NR (cow (phys s f)) + 1]
                   else mem_map s)\<rparr>)"
  using assms
  by (auto simp: copy_table_entry_def peek_def poke_def get_map_def set_map_def km_simps
      counted_def cow_def Let_def)

abbreviation copy_table :: "u32 \<Rightarrow> u32 \<Rightarrow> nat \<Rightarrow> ('a mm_scheme, unit) km" where
  "copy_table fp tp nr \<equiv> kfor [0..<nr] (\<lambda>k. copy_table_entry (fp + 4 * of_nat k) (tp + 4 * of_nat k))"

lemma copy_table_run:
  assumes pages: "page_of fp = fp" "page_of tp = tp" "fp \<noteq> tp"
    and src: "\<And>k. k < 1024 \<Longrightarrow> src k = phys s (fp + 4 * of_nat k)"
    and len: "length (mem_map s) = PAGING_PAGES"
    and valid: "\<And>k. k < 1024 \<Longrightarrow> counted (src k) \<Longrightarrow> MAP_NR (cow (src k)) < PAGING_PAGES"
    and n: "n \<le> 1024"
  shows "\<exists>m c. copy_table fp tp n s = Ret () (s\<lparr>phys := m, mem_map := c\<rparr>) \<and>
    (\<forall>k < 1024. m (tp + 4 * of_nat k) =
       (if k < n \<and> 1 AND src k \<noteq> 0 then cow (src k) else phys s (tp + 4 * of_nat k))) \<and>
    (\<forall>k < 1024. m (fp + 4 * of_nat k) = (if k < n \<and> counted (src k) then cow (src k) else src k)) \<and>
    (\<forall>a. page_of a \<noteq> fp \<longrightarrow> page_of a \<noteq> tp \<longrightarrow> m a = phys s a) \<and>
    length c = PAGING_PAGES \<and>
    (\<forall>i < PAGING_PAGES. c ! i = mem_map s ! i + of_nat (refs src n i))"
  using n
proof (induction n)
  case 0
  show ?case
    using len src by (intro exI [of _ "phys s"] exI [of _ "mem_map s"]) (simp add: kreturn_def refs_def)
next
  case (Suc n)
  then obtain m c where run: "copy_table fp tp n s = Ret () (s\<lparr>phys := m, mem_map := c\<rparr>)"
    and tgt: "\<And>k. k < 1024 \<Longrightarrow> m (tp + 4 * of_nat k) =
       (if k < n \<and> 1 AND src k \<noteq> 0 then cow (src k) else phys s (tp + 4 * of_nat k))"
    and frm: "\<And>k. k < 1024 \<Longrightarrow> m (fp + 4 * of_nat k) = (if k < n \<and> counted (src k) then cow (src k) else src k)"
    and oth: "\<And>a. page_of a \<noteq> fp \<Longrightarrow> page_of a \<noteq> tp \<Longrightarrow> m a = phys s a"
    and lc: "length c = PAGING_PAGES"
    and cnt: "\<And>i. i < PAGING_PAGES \<Longrightarrow> c ! i = mem_map s ! i + of_nat (refs src n i)"
    by auto
  let ?f = "fp + 4 * of_nat n" and ?t = "tp + 4 * of_nat n"
  have n: "n < 1024" using Suc.prems by simp
  have mf: "m ?f = src n" using frm [OF n] by simp
  define m' where "m' = (if 1 AND src n = 0 then m
      else if counted (src n) then m(?t := cow (src n), ?f := cow (src n)) else m(?t := cow (src n)))"
  define c' where "c' = (if counted (src n) then c[MAP_NR (cow (src n)) := c ! MAP_NR (cow (src n)) + 1] else c)"
  have pf: "page_of (fp + 4 * of_nat k) = fp" and pt: "page_of (tp + 4 * of_nat k) = tp" if "k < 1024" for k
    using that pages page_of_slot by auto
  have ft: "fp + 4 * of_nat k \<noteq> tp + 4 * of_nat l" if "k < 1024" "l < 1024" for k l
    using pf [OF that(1)] pt [OF that(2)] pages(3) by metis
  have same: "(p :: u32) + 4 * of_nat k = p + 4 * of_nat n \<longleftrightarrow> k = n" if "k < 1024" for p k
    using slot_inj [OF that n] by auto
  have "copy_table_entry ?f ?t (s\<lparr>phys := m, mem_map := c\<rparr>) =
      Ret () (s\<lparr>phys := m', mem_map := c'\<rparr>)"
    using copy_table_entry_run [of "s\<lparr>phys := m, mem_map := c\<rparr>" ?f ?t] valid [OF n] mf lc
    by (simp add: m'_def c'_def)
  then have "copy_table fp tp (Suc n) s = Ret () (s\<lparr>phys := m', mem_map := c'\<rparr>)"
    using run by (simp add: kfor_append kbind_def kreturn_def)
  moreover have "\<forall>k < 1024. m' (tp + 4 * of_nat k) =
       (if k < Suc n \<and> 1 AND src k \<noteq> 0 then cow (src k) else phys s (tp + 4 * of_nat k))"
    using tgt ft [OF n] ft [OF n, symmetric] same by (auto simp: m'_def counted_def less_Suc_eq)
  moreover have "\<forall>k < 1024. m' (fp + 4 * of_nat k) = (if k < Suc n \<and> counted (src k) then cow (src k) else src k)"
    using frm ft [OF _ n] ft [OF _ n, symmetric] same by (auto simp: m'_def counted_def less_Suc_eq)
  moreover have "\<forall>a. page_of a \<noteq> fp \<longrightarrow> page_of a \<noteq> tp \<longrightarrow> m' a = phys s a"
    using oth pf [OF n] pt [OF n] by (auto simp: m'_def)
  moreover have "length c' = PAGING_PAGES" by (simp add: c'_def lc)
  moreover have "\<forall>i < PAGING_PAGES. c' ! i = mem_map s ! i + of_nat (refs src (Suc n) i)"
    using cnt lc by (auto simp: c'_def refs_Suc nth_list_update)
  ultimately show ?case by (intro exI [of _ m'] exI [of _ c']) simp
qed

lemma word_or7: "page_of p = p \<Longrightarrow> page_of (p OR 7) = p" for p :: u32
  by (simp add: bit.conj_disj_distrib)

lemma used_frame_fresh:
  assumes "page_of p = p" "p < LOW_MEM \<or> mem_map s ! MAP_NR p \<noteq> 0" "mem_map s ! i = 0" "i < PAGING_PAGES"
  shows "p \<noteq> frame_addr i"
  using assms frame_addr_bounds [of i] by auto

text \<open>A page that get_free_page cannot hand out: below 1 MB, or with a non-zero count.\<close>

definition in_use :: "'a mm_scheme \<Rightarrow> u32 \<Rightarrow> bool" where
  "in_use s p \<longleftrightarrow> page_of p = p \<and> (p < LOW_MEM \<or> mem_map s ! MAP_NR p \<noteq> 0)"

text \<open>
  C8: \<open>fork\<close>'s copy of one page table: the new table is a page that was free; each present
  entry is copied without its write bit, the parent's entry for a page above 1 MB loses its
  write bit too, and the use count of every page grows by the number of entries that map it.
\<close>

theorem copy_dir_entry_cow:
  assumes len: "length (mem_map s) = PAGING_PAGES"
    and dirs: "page_of from_dir = 0" "page_of to_dir = 0" "from_dir \<noteq> to_dir"
    and absent: "1 AND phys s to_dir = 0" and present: "1 AND phys s from_dir \<noteq> 0"
    and table: "fp = page_of (phys s from_dir)" "fp \<noteq> 0" "in_use s fp"
    and src: "\<And>k. src k = phys s (fp + 4 * of_nat k)"
    and valid: "\<And>k. k < 1024 \<Longrightarrow> counted (src k) \<Longrightarrow> MAP_NR (cow (src k)) < PAGING_PAGES"
    and nr: "nr \<le> 1024"
    and free: "mem_map s ! i = 0" "i < PAGING_PAGES"
  shows "\<exists>j s'. copy_dir_entry nr from_dir to_dir s = Ret True s' \<and> j < PAGING_PAGES \<and>
    mem_map s ! j = 0 \<and> phys s' to_dir = frame_addr j OR 7 \<and>
    (\<forall>k < 1024. phys s' (frame_addr j + 4 * of_nat k) =
       (if k < nr \<and> 1 AND src k \<noteq> 0 then cow (src k) else 0)) \<and>
    (\<forall>k < 1024. phys s' (fp + 4 * of_nat k) = (if k < nr \<and> counted (src k) then cow (src k) else src k)) \<and>
    (\<forall>l < PAGING_PAGES. mem_map s' ! l = (mem_map s)[j := 1] ! l + of_nat (refs src nr l))"
proof -
  obtain j where j: "last_zero (mem_map s) PAGING_PAGES = Some j"
    using free last_zero_None [of "mem_map s" PAGING_PAGES] by (cases "last_zero (mem_map s) PAGING_PAGES") auto
  then have jb: "j < PAGING_PAGES" "mem_map s ! j = 0" using last_zero_Some by blast+
  let ?tp = "frame_addr j"
  have fresh: "fp \<noteq> ?tp" "?tp \<noteq> 0" "page_of ?tp = ?tp" "page_of fp = fp"
    using table used_frame_fresh [of fp s j] jb frame_addr_bounds [OF jb(1)] by (auto simp: in_use_def)
  define s1 where "s1 = s\<lparr>mem_map := (mem_map s)[j := 1],
      phys := (zero_page ?tp (phys s))(to_dir := ?tp OR 7)\<rparr>"
  have slots: "page_of (?tp + 4 * of_nat k) = ?tp" "page_of (fp + 4 * of_nat k) = fp" if "k < 1024" for k
    using that fresh page_of_slot by auto
  have nd: "?tp + 4 * of_nat k \<noteq> to_dir" "fp + 4 * of_nat k \<noteq> to_dir" if "k < 1024" for k
    using slots [OF that] dirs(2) fresh(2) table(2) by auto
  have p1: "phys s1 (fp + 4 * of_nat k) = src k" "phys s1 (?tp + 4 * of_nat k) = 0" if "k < 1024" for k
    using slots [OF that] nd [OF that] fresh(1) src by (auto simp: s1_def zero_page_def)
  have "copy_dir_entry nr from_dir to_dir s = kseq (copy_table fp ?tp nr) (kreturn True) s1"
    using absent present len table(1) fresh jb j
    by (simp add: copy_dir_entry_def peek_def poke_def kbind_def kget_def kmod_def get_free_page_run s1_def)
  moreover have "src k = phys s1 (fp + 4 * of_nat k)" if "k < 1024" for k
    using p1 that by simp
  then obtain m c where "copy_table fp ?tp nr s1 = Ret () (s1\<lparr>phys := m, mem_map := c\<rparr>)"
    and "\<forall>k < 1024. m (?tp + 4 * of_nat k) =
       (if k < nr \<and> 1 AND src k \<noteq> 0 then cow (src k) else phys s1 (?tp + 4 * of_nat k))"
    and "\<forall>k < 1024. m (fp + 4 * of_nat k) = (if k < nr \<and> counted (src k) then cow (src k) else src k)"
    and keep: "\<And>a. page_of a \<noteq> fp \<Longrightarrow> page_of a \<noteq> ?tp \<Longrightarrow> m a = phys s1 a"
    and "\<forall>l < PAGING_PAGES. c ! l = mem_map s1 ! l + of_nat (refs src nr l)"
    using copy_table_run [of fp ?tp src s1 nr] fresh len valid nr by (auto simp: s1_def)
  moreover have "m to_dir = ?tp OR 7"
    using keep [of to_dir] dirs(2) fresh(2) table(2) by (auto simp: s1_def)
  ultimately show ?thesis
    using jb p1(2) by (intro exI [of _ j] exI [of _ "s1\<lparr>phys := m, mem_map := c\<rparr>"])
       (simp add: kbind_def kreturn_def s1_def)
qed

lemma offset_in_page:
  assumes "page_of p = p" "k < 1024"
  shows "(q :: u32) + (p + 4 * of_nat k - p) = q + 4 * of_nat k"
  by simp

lemma un_wp_page_unshared:
  assumes "e = phys s entry" "LOW_MEM \<le> page_of e" "MAP_NR (page_of e) < length (mem_map s)"
    "mem_map s ! MAP_NR (page_of e) = 1"
  shows "un_wp_page entry s = Ret () (s\<lparr>phys := (phys s)(entry := e OR 2)\<rparr>)"
  using assms by (simp add: un_wp_page_def peek_def poke_def get_map_def km_simps Let_def)

text \<open>
  C9: a write fault on a shared page: the faulting entry is made to point to a private,
  writable page that was free, with the same 1024 long words; the old page keeps its contents
  and loses one user.
\<close>

theorem un_wp_page_shared:
  assumes len: "length (mem_map s) = PAGING_PAGES"
    and e: "e = phys s entry" and old: "old = page_of e" "LOW_MEM \<le> old" "MAP_NR old < PAGING_PAGES"
    and shared: "1 < unat (mem_map s ! MAP_NR old)"
    and tbl: "in_use s (page_of entry)" "page_of entry \<noteq> old"
    and free: "mem_map s ! i = 0" "i < PAGING_PAGES"
  shows "\<exists>j s'. un_wp_page entry s = Ret () s' \<and> j < PAGING_PAGES \<and> mem_map s ! j = 0 \<and>
    phys s' entry = frame_addr j OR 7 \<and>
    (\<forall>k < 1024. phys s' (frame_addr j + 4 * of_nat k) = phys s (old + 4 * of_nat k)) \<and>
    (\<forall>k < 1024. phys s' (old + 4 * of_nat k) = phys s (old + 4 * of_nat k)) \<and>
    mem_map s' = (mem_map s)[j := 1, MAP_NR old := mem_map s ! MAP_NR old - 1]"
proof -
  obtain j where j: "last_zero (mem_map s) PAGING_PAGES = Some j"
    using free last_zero_None [of "mem_map s" PAGING_PAGES] by (cases "last_zero (mem_map s) PAGING_PAGES") auto
  then have jb: "j < PAGING_PAGES" "mem_map s ! j = 0" using last_zero_Some by blast+
  have nj: "MAP_NR old \<noteq> j" using shared jb by auto
  have po: "page_of old = old" using old(1) by simp
  have new: "frame_addr j \<noteq> old" "frame_addr j \<noteq> 0" "page_of (frame_addr j) = frame_addr j"
      "page_of entry \<noteq> frame_addr j"
    using nj jb frame_addr_bounds [OF jb(1)] tbl used_frame_fresh [of "page_of entry" s j]
    by (auto simp: in_use_def)
  let ?m = "copy_page old (frame_addr j) ((zero_page (frame_addr j) (phys s))(entry := frame_addr j OR 7))"
  let ?c = "(mem_map s)[j := 1, MAP_NR old := mem_map s ! MAP_NR old - 1]"
  have "mem_map s ! MAP_NR old \<noteq> 1" using shared by auto
  then have "un_wp_page entry s = Ret () (s\<lparr>mem_map := ?c, phys := ?m\<rparr>)"
    using len e old j jb nj new
    by (simp add: un_wp_page_def peek_def poke_def get_map_def set_map_def kbind_def kget_def kmod_def
        kwhen_def kreturn_def Let_def get_free_page_run)
  moreover have "?m (frame_addr j + 4 * of_nat k) = phys s (old + 4 * of_nat k)"
      "?m (old + 4 * of_nat k) = phys s (old + 4 * of_nat k)" if "k < 1024" for k
  proof -
    have "page_of (frame_addr j + 4 * of_nat k) = frame_addr j" "page_of (old + 4 * of_nat k) = old"
      using that new(3) po page_of_slot by auto
    then show "?m (frame_addr j + 4 * of_nat k) = phys s (old + 4 * of_nat k)"
        "?m (old + 4 * of_nat k) = phys s (old + 4 * of_nat k)"
      using new(1) tbl(2) by (auto simp: copy_page_def zero_page_def)
  qed
  moreover have "?m entry = frame_addr j OR 7" using new(4) by (simp add: copy_page_def)
  ultimately show ?thesis using jb by (intro exI [of _ j]) simp
qed

lemma un_wp_page_oom:
  assumes "length (mem_map s) = PAGING_PAGES" "\<forall>k < PAGING_PAGES. mem_map s ! k \<noteq> 0"
    "\<not> (LOW_MEM \<le> page_of (phys s entry) \<and> mem_map s ! MAP_NR (page_of (phys s entry)) = 1)"
    "LOW_MEM \<le> page_of (phys s entry) \<Longrightarrow> MAP_NR (page_of (phys s entry)) < PAGING_PAGES"
  shows "un_wp_page entry s = Stop (Exits (int SIGSEGV)) s"
proof -
  have "last_zero (mem_map s) PAGING_PAGES = None" using assms(2) by (simp add: last_zero_None)
  then show ?thesis
    using assms by (auto simp: un_wp_page_def peek_def get_map_def kbind_def kget_def kwhen_def
      kreturn_def Let_def get_free_page_run oom_def kstop_def)
qed

lemma clear_map_run:
  "i + n \<le> length (mem_map s) \<Longrightarrow>
   clear_map i n s = Ret () (s\<lparr>mem_map := take i (mem_map s) @ replicate n 0 @ drop (i + n) (mem_map s)\<rparr>)"
proof (induction i n arbitrary: s rule: clear_map.induct)
  case (2 i n)
  let ?s = "s\<lparr>mem_map := (mem_map s)[i := 0]\<rparr>"
  have "clear_map (Suc i) n ?s =
      Ret () (?s\<lparr>mem_map := take (Suc i) (mem_map ?s) @ replicate n 0 @ drop (Suc i + n) (mem_map ?s)\<rparr>)"
    using "2.prems" by (intro "2.IH") simp
  moreover have "take (Suc i) ((mem_map s)[i := 0]) = take i (mem_map s) @ [0]"
    using "2.prems" by (simp add: take_Suc_conv_app_nth)
  ultimately show ?case
    using "2.prems" by (simp add: kbind_def set_map_def)
qed (simp add: kreturn_def)

text \<open>
  After \<open>mem_init\<close> exactly the pages from \<open>start_mem\<close> to \<open>end_mem\<close> are free, and no
  store goes outside \<open>mem_map\<close>.
\<close>

theorem mem_init_map:
  assumes "MAP_NR start_mem + unat (drop_bit 12 (end_mem - start_mem)) \<le> PAGING_PAGES"
  shows "\<exists>s'. mem_init start_mem end_mem s = Ret () s' \<and> HIGH_MEMORY s' = end_mem \<and>
    length (mem_map s') = PAGING_PAGES \<and>
    (\<forall>i < PAGING_PAGES. mem_map s' ! i =
       (if MAP_NR start_mem \<le> i \<and> i < MAP_NR start_mem + unat (drop_bit 12 (end_mem - start_mem))
        then 0 else USED))"
  using assms
  by (simp add: mem_init_def kbind_def kmod_def clear_map_run)
     (auto simp: nth_append)

text \<open>
  An example memory: frame 5 is a page table reached from directory slot 16 (the base of
  task 1), its first entry maps frame 6, which is shared by two tasks.
\<close>

definition ex_mm :: mm where
  "ex_mm = sched.extend boot_sched
     (mm.fields ((replicate PAGING_PAGES 0)[5 := 1, 6 := 2]) 0x1000000
        ((\<lambda>_. 0)(0x40 := 0x105007, 0x105000 := 0x106005)))"

lemma ex_mm_simps [simp]:
  "mem_map ex_mm = (replicate PAGING_PAGES 0)[5 := 1, 6 := 2]"
  "HIGH_MEMORY ex_mm = 0x1000000"
  "phys ex_mm = (\<lambda>_. 0)(0x40 := 0x105007, 0x105000 := 0x106005)"
  by (simp_all add: ex_mm_def sched.defs mm.defs)

lemma ex_mm_free: "\<exists>i s'. get_free_page ex_mm = Ret (frame_addr i) s' \<and> i < PAGING_PAGES"
proof -
  have "\<not> (\<forall>k < PAGING_PAGES. mem_map ex_mm ! k \<noteq> 0)" by (auto intro: exI [of _ 0])
  then obtain i where i: "last_zero (mem_map ex_mm) PAGING_PAGES = Some i"
    by (metis last_zero_None not_Some_eq)
  then have "i < PAGING_PAGES" using last_zero_Some by blast
  moreover have len: "length (mem_map ex_mm) = PAGING_PAGES" by simp
  ultimately show ?thesis unfolding get_free_page_run [OF len] i by auto
qed

theorem get_free_page_spec_witness:
  "\<exists>i s'. get_free_page ex_mm = Ret (frame_addr i) s' \<and> i < PAGING_PAGES \<and> mem_map ex_mm ! i = 0"
proof -
  have "mem_map ex_mm ! 0 = 0" by simp
  then have "\<not> (\<forall>k < PAGING_PAGES. mem_map ex_mm ! k \<noteq> 0)" by (metis zero_less_numeral)
  with get_free_page_spec [of ex_mm] show ?thesis by auto
qed

theorem get_free_page_free_page_witness:
  "\<exists>p s' s''. get_free_page ex_mm = Ret p s' \<and> p \<noteq> 0 \<and> free_page p s' = Ret () s'' \<and> mem_map s'' = mem_map ex_mm"
proof -
  obtain i s' where i: "get_free_page ex_mm = Ret (frame_addr i) s'" "i < PAGING_PAGES"
    using ex_mm_free by blast
  have "wf_mem ex_mm" by (simp add: wf_mem_def)
  moreover have "frame_addr i \<noteq> 0" "frame_addr i < HIGH_MEMORY ex_mm"
    using frame_addr_bounds [OF i(2)] by simp_all
  ultimately show ?thesis using get_free_page_free_page [of ex_mm _ s'] i(1) by blast
qed

theorem copy_dir_entry_cow_witness:
  "\<exists>j s'. copy_dir_entry 1024 0x40 0x80 ex_mm = Ret True s' \<and>
     phys s' 0x80 = frame_addr j OR 7 \<and> phys s' (frame_addr j) = 0x106005"
proof -
  let ?src = "\<lambda>k. phys ex_mm (0x105000 + 4 * of_nat k)"
  have page: "page_of (0x105000 + 4 * of_nat k) = (0x105000 :: u32)" if "k < 1024" for k
    by (rule page_of_slot [OF _ that]) simp
  have "(0x105000 + 4 * of_nat k :: u32) \<noteq> 0x40" if "k < 1024" for k
  proof
    assume "(0x105000 + 4 * of_nat k :: u32) = 0x40"
    with page [OF that] have "page_of 0x40 = (0x105000 :: u32)" by metis
    then show False by simp
  qed
  then have src: "?src k = (if (0x105000 + 4 * of_nat k :: u32) = 0x105000 then 0x106005 else 0)" if "k < 1024" for k
    using that by simp
  have valid: "MAP_NR (cow (?src k)) < PAGING_PAGES" if "k < 1024" "counted (?src k)" for k
    using that unfolding src [OF that(1)] by (auto simp: counted_def cow_def MAP_NR_def split: if_splits)
  have "\<exists>j s'. copy_dir_entry 1024 0x40 0x80 ex_mm = Ret True s' \<and> j < PAGING_PAGES \<and>
    mem_map ex_mm ! j = 0 \<and> phys s' 0x80 = frame_addr j OR 7 \<and>
    (\<forall>k < 1024. phys s' (frame_addr j + 4 * of_nat k) =
       (if k < 1024 \<and> 1 AND ?src k \<noteq> 0 then cow (?src k) else 0)) \<and>
    (\<forall>k < 1024. phys s' (0x105000 + 4 * of_nat k) = (if k < 1024 \<and> counted (?src k) then cow (?src k) else ?src k)) \<and>
    (\<forall>l < PAGING_PAGES. mem_map s' ! l = (mem_map ex_mm)[j := 1] ! l + of_nat (refs ?src 1024 l))"
    by (rule copy_dir_entry_cow [OF _ _ _ _ _ _ _ _ _ refl valid, where i = 0])
       (simp_all add: in_use_def MAP_NR_def)
  then obtain j s' where js: "copy_dir_entry 1024 0x40 0x80 ex_mm = Ret True s'"
      "phys s' 0x80 = frame_addr j OR 7"
      "\<And>k. k < 1024 \<Longrightarrow> phys s' (frame_addr j + 4 * of_nat k) =
         (if k < 1024 \<and> 1 AND ?src k \<noteq> 0 then cow (?src k) else 0)"
    by blast
  from js(3) [of 0] have "phys s' (frame_addr j) = 0x106005" by (simp add: cow_def)
  with js show ?thesis by blast
qed

theorem un_wp_page_shared_witness:
  "\<exists>j s'. un_wp_page 0x105000 ex_mm = Ret () s' \<and> phys s' 0x105000 = frame_addr j OR 7 \<and>
     mem_map s' = (mem_map ex_mm)[j := 1, 6 := 1]"
  using un_wp_page_shared [of ex_mm "0x106005" "0x105000" "0x106000" 0]
  by (auto simp: in_use_def MAP_NR_def)

theorem mem_init_map_witness:
  "\<exists>s'. mem_init 0x400000 0x1000000 ex_mm = Ret () s' \<and> mem_map s' ! 767 = USED \<and>
     mem_map s' ! 768 = 0 \<and> mem_map s' ! 3839 = 0"
  using mem_init_map [of "0x400000" "0x1000000" ex_mm] by (auto simp: MAP_NR_def)

end
