(* ===== verification/Fsdata.thy ===== *)
theory Fsdata
  imports Memory
begin

text \<open>
  The data of the block layer and the file system: \<open>include/linux/fs.h\<close> and
  \<open>kernel/blk_drv/blk.h\<close>.

  Pointers into the static tables (\<open>start_buffer[]\<close>, \<open>request[]\<close>, \<open>inode_table[]\<close>,
  \<open>file_table[]\<close>, \<open>super_block[]\<close>, \<open>task[]\<close>) are indices; \<open>None\<close> is the null pointer. The data
  of a buffer is the list of its 1024 bytes. Device numbers are the unsigned shorts in which
  the kernel stores them.
\<close>

section \<open>Records\<close>

record buffer_head =
  b_data :: "u8 list"
  b_blocknr :: u32
  b_dev :: u16
  b_uptodate :: u8
  b_dirt :: u8
  b_count :: u8
  b_lock :: u8
  b_wait :: "nat option"
  b_prev :: "nat option"
  b_next :: "nat option"
  b_prev_free :: "nat option"
  b_next_free :: "nat option"

record d_inode =
  di_mode :: u16
  di_uid :: u16
  di_size :: u32
  di_time :: u32
  di_gid :: u8
  di_nlinks :: u8
  di_zone :: "u16 list"

record m_inode =
  i_mode :: u16
  i_uid :: u16
  i_size :: u32
  i_mtime :: u32
  i_gid :: u8
  i_nlinks :: u8
  i_zone :: "u16 list"
  i_wait :: "nat option"
  i_atime :: u32
  i_ctime :: u32
  i_dev :: u16
  i_num :: u16
  i_count :: u16
  i_lock :: u8
  i_dirt :: u8
  i_pipe :: u8
  i_mount :: u8
  i_seek :: u8
  i_update :: u8

record file_struct =
  f_mode :: u16
  f_flags :: u16
  f_count :: u16
  f_inode :: "nat option"
  f_pos :: int

record super_block =
  s_ninodes :: u16
  s_nzones :: u16
  s_imap_blocks :: u16
  s_zmap_blocks :: u16
  s_firstdatazone :: u16
  s_log_zone_size :: u16
  s_max_size :: u32
  s_magic :: u16
  s_imap :: "nat option list"
  s_zmap :: "nat option list"
  s_dev :: u16
  s_isup :: "nat option"
  s_imount :: "nat option"
  s_time :: u32
  s_wait :: "nat option"
  s_lock :: u8
  s_rd_only :: u8
  s_dirt :: u8

record dir_entry =
  de_inode :: u16
  de_name :: "u8 list"

text \<open>
  A request of the block layer. Its field \<open>buffer\<close> always points to the data of \<open>bh\<close>
  (\<open>make_request\<close> is the only place that fills a request), so that \<open>rq_bh\<close> stands for both.
\<close>

record request =
  rq_dev :: int
  rq_cmd :: nat
  rq_errors :: nat
  rq_sector :: u32
  rq_nr_sectors :: u32
  rq_waiting :: "nat option"
  rq_bh :: "nat option"
  rq_next :: "nat option"

section \<open>State\<close>

text \<open>
  \<open>null_b_prev\<close> is the word that \<open>bh->b_next->b_prev = bh\<close> in \<open>insert_into_queues\<close>
  overwrites when \<open>b_next\<close> is null. \<open>request_fn\<close> tells which major numbers have a driver.
  \<open>rd_data\<close> is the memory of the ram disk, from \<open>rd_start\<close> for \<open>rd_length\<close> bytes.
\<close>

record blk = mm +
  buffers :: "buffer_head list"
  hash_table :: "nat option list"
  free_list :: nat
  null_b_prev :: "nat option"
  buffer_wait :: "nat option"
  request :: "request list"
  current_request :: "nat option list"
  request_fn :: "bool list"
  wait_for_request :: "nat option"
  rd_start :: u32
  rd_data :: "u8 list"

text \<open>
  \<open>user\<close> is the data segment of the current process as \<open>get_fs_byte\<close> and \<open>put_fs_byte\<close>
  see it through the page tables.
\<close>

record fsys = blk +
  inode_table :: "m_inode list"
  last_inode :: nat
  file_table :: "file_struct list"
  super_block :: "super_block list"
  ROOT_DEV :: u16
  user :: "u32 \<Rightarrow> u8"

abbreviation (input) READ :: nat where "READ \<equiv> 0"
abbreviation (input) WRITE :: nat where "WRITE \<equiv> 1"
abbreviation (input) READA :: nat where "READA \<equiv> 2"
abbreviation (input) WRITEA :: nat where "WRITEA \<equiv> 3"
abbreviation (input) NAME_LEN :: nat where "NAME_LEN \<equiv> 14"
abbreviation (input) ROOT_INO :: u16 where "ROOT_INO \<equiv> 1"
abbreviation (input) SUPER_MAGIC :: u16 where "SUPER_MAGIC \<equiv> 0x137F"
abbreviation (input) NR_OPEN :: nat where "NR_OPEN \<equiv> 20"
abbreviation (input) NR_INODE :: nat where "NR_INODE \<equiv> 32"
abbreviation (input) NR_FILE :: nat where "NR_FILE \<equiv> 64"
abbreviation (input) NR_SUPER :: nat where "NR_SUPER \<equiv> 8"
abbreviation (input) NR_HASH :: nat where "NR_HASH \<equiv> 307"
abbreviation (input) BLOCK_SIZE :: nat where "BLOCK_SIZE \<equiv> 1024"
abbreviation (input) NR_REQUEST :: nat where "NR_REQUEST \<equiv> 32"
abbreviation (input) NR_BLK_DEV :: nat where "NR_BLK_DEV \<equiv> 7"
abbreviation (input) INODES_PER_BLOCK :: nat where "INODES_PER_BLOCK \<equiv> 32"
abbreviation (input) DIR_ENTRIES_PER_BLOCK :: nat where "DIR_ENTRIES_PER_BLOCK \<equiv> 64"

definition MAJOR :: "u16 \<Rightarrow> nat" where
  "MAJOR a = unat (drop_bit 8 a)"

definition MINOR :: "u16 \<Rightarrow> nat" where
  "MINOR a = unat (a AND 0xff)"

definition IS_SEEKABLE :: "nat \<Rightarrow> bool" where
  "IS_SEEKABLE x \<longleftrightarrow> 1 \<le> x \<and> x \<le> 3"

section \<open>Access to the tables\<close>

text \<open>An index outside a table, or a null pointer, makes the C code undefined.\<close>

definition buf :: "nat \<Rightarrow> ('a blk_scheme, buffer_head) km" where
  "buf i = (\<lambda>s. if i < length (buffers s) then Ret (buffers s ! i) s else Stop (Fault ''buffer'') s)"

definition upd_buf :: "nat \<Rightarrow> (buffer_head \<Rightarrow> buffer_head) \<Rightarrow> ('a blk_scheme, unit) km" where
  "upd_buf i f = (\<lambda>s. if i < length (buffers s)
     then Ret () (s\<lparr>buffers := (buffers s)[i := f (buffers s ! i)]\<rparr>) else Stop (Fault ''buffer'') s)"

definition ino :: "nat \<Rightarrow> ('a fsys_scheme, m_inode) km" where
  "ino i = (\<lambda>s. if i < length (inode_table s) then Ret (inode_table s ! i) s else Stop (Fault ''inode'') s)"

definition upd_ino :: "nat \<Rightarrow> (m_inode \<Rightarrow> m_inode) \<Rightarrow> ('a fsys_scheme, unit) km" where
  "upd_ino i f = (\<lambda>s. if i < length (inode_table s)
     then Ret () (s\<lparr>inode_table := (inode_table s)[i := f (inode_table s ! i)]\<rparr>) else Stop (Fault ''inode'') s)"

definition fil :: "nat \<Rightarrow> ('a fsys_scheme, file_struct) km" where
  "fil i = (\<lambda>s. if i < length (file_table s) then Ret (file_table s ! i) s else Stop (Fault ''file'') s)"

definition upd_fil :: "nat \<Rightarrow> (file_struct \<Rightarrow> file_struct) \<Rightarrow> ('a fsys_scheme, unit) km" where
  "upd_fil i f = (\<lambda>s. if i < length (file_table s)
     then Ret () (s\<lparr>file_table := (file_table s)[i := f (file_table s ! i)]\<rparr>) else Stop (Fault ''file'') s)"

definition sb :: "nat \<Rightarrow> ('a fsys_scheme, super_block) km" where
  "sb i = (\<lambda>s. if i < length (super_block s) then Ret (super_block s ! i) s else Stop (Fault ''super_block'') s)"

definition upd_sb :: "nat \<Rightarrow> (super_block \<Rightarrow> super_block) \<Rightarrow> ('a fsys_scheme, unit) km" where
  "upd_sb i f = (\<lambda>s. if i < length (super_block s)
     then Ret () (s\<lparr>super_block := (super_block s)[i := f (super_block s ! i)]\<rparr>) else Stop (Fault ''super_block'') s)"

definition the_ptr :: "string \<Rightarrow> nat option \<Rightarrow> ('s, nat) km" where
  "the_ptr what p = (case p of None \<Rightarrow> kstop (Fault what) | Some i \<Rightarrow> kreturn i)"

text \<open>Wakes the sleeper of a wait queue that is a field of some structure and clears the field.\<close>

definition wake_wait :: "nat option \<Rightarrow> ('a sched_scheme, unit) km" where
  "wake_wait q = kmod (\<lambda>s. snd (wake_up q s))"

definition get_fs_byte :: "u32 \<Rightarrow> ('a fsys_scheme, u8) km" where
  "get_fs_byte a = kget (\<lambda>s. user s a)"

definition put_fs_byte :: "u8 \<Rightarrow> u32 \<Rightarrow> ('a fsys_scheme, unit) km" where
  "put_fs_byte v a = kmod (\<lambda>s. s\<lparr>user := (user s)(a := v)\<rparr>)"

definition put_fs_word :: "u16 \<Rightarrow> u32 \<Rightarrow> ('a fsys_scheme, unit) km" where
  "put_fs_word v a = kseq (put_fs_byte (ucast v) a) (put_fs_byte (ucast (drop_bit 8 v)) (a + 1))"

definition put_fs_long :: "u32 \<Rightarrow> u32 \<Rightarrow> ('a fsys_scheme, unit) km" where
  "put_fs_long v a = kseq (put_fs_word (ucast v) a) (put_fs_word (ucast (drop_bit 16 v)) (a + 2))"

definition get_fs_long :: "u32 \<Rightarrow> ('a fsys_scheme, u32) km" where
  "get_fs_long a = kget (\<lambda>s. ucast (user s a) OR push_bit 8 (ucast (user s (a + 1)))
     OR push_bit 16 (ucast (user s (a + 2))) OR push_bit 24 (ucast (user s (a + 3))))"

section \<open>Structures inside a block\<close>

text \<open>
  \<open>b_data\<close> is cast to arrays of shorts, of directory entries and of disk inodes. The machine
  is little-endian; \<open>struct d_inode\<close> and \<open>struct dir_entry\<close> have no padding.
\<close>

definition rd16 :: "u8 list \<Rightarrow> nat \<Rightarrow> u16" where
  "rd16 d i = ucast (d ! i) OR push_bit 8 (ucast (d ! (i + 1)))"

definition wr16 :: "nat \<Rightarrow> u16 \<Rightarrow> u8 list \<Rightarrow> u8 list" where
  "wr16 i v d = d[i := ucast v, i + 1 := ucast (drop_bit 8 v)]"

definition rd32 :: "u8 list \<Rightarrow> nat \<Rightarrow> u32" where
  "rd32 d i = ucast (rd16 d i) OR push_bit 16 (ucast (rd16 d (i + 2)))"

definition wr32 :: "nat \<Rightarrow> u32 \<Rightarrow> u8 list \<Rightarrow> u8 list" where
  "wr32 i v d = wr16 (i + 2) (ucast (drop_bit 16 v)) (wr16 i (ucast v) d)"

definition get_d_inode :: "u8 list \<Rightarrow> nat \<Rightarrow> d_inode" where
  "get_d_inode d k = (let p = 32 * k in
     \<lparr>di_mode = rd16 d p, di_uid = rd16 d (p + 2), di_size = rd32 d (p + 4), di_time = rd32 d (p + 8),
      di_gid = d ! (p + 12), di_nlinks = d ! (p + 13), di_zone = map (\<lambda>j. rd16 d (p + 14 + 2 * j)) [0..<9]\<rparr>)"

definition put_d_inode :: "nat \<Rightarrow> d_inode \<Rightarrow> u8 list \<Rightarrow> u8 list" where
  "put_d_inode k x d = (let p = 32 * k in
     fold (\<lambda>j. wr16 (p + 14 + 2 * j) (di_zone x ! j)) [0..<9]
       ((wr32 (p + 8) (di_time x) (wr32 (p + 4) (di_size x) (wr16 (p + 2) (di_uid x) (wr16 p (di_mode x) d))))
        [p + 12 := di_gid x, p + 13 := di_nlinks x]))"

text \<open>\<open>*(struct d_inode *) inode\<close>: the part of an in-core inode that is kept on disk.\<close>

definition to_d_inode :: "m_inode \<Rightarrow> d_inode" where
  "to_d_inode x = \<lparr>di_mode = i_mode x, di_uid = i_uid x, di_size = i_size x, di_time = i_mtime x,
     di_gid = i_gid x, di_nlinks = i_nlinks x, di_zone = i_zone x\<rparr>"

definition from_d_inode :: "d_inode \<Rightarrow> m_inode \<Rightarrow> m_inode" where
  "from_d_inode y x = x\<lparr>i_mode := di_mode y, i_uid := di_uid y, i_size := di_size y, i_mtime := di_time y,
     i_gid := di_gid y, i_nlinks := di_nlinks y, i_zone := di_zone y\<rparr>"

definition get_dir_entry :: "u8 list \<Rightarrow> nat \<Rightarrow> dir_entry" where
  "get_dir_entry d k = \<lparr>de_inode = rd16 d (16 * k), de_name = take NAME_LEN (drop (16 * k + 2) d)\<rparr>"

definition put_de_inode :: "nat \<Rightarrow> u16 \<Rightarrow> u8 list \<Rightarrow> u8 list" where
  "put_de_inode k v d = wr16 (16 * k) v d"

definition put_de_name :: "nat \<Rightarrow> u8 list \<Rightarrow> u8 list \<Rightarrow> u8 list" where
  "put_de_name k nm d = take (16 * k + 2) d @ nm @ drop (16 * k + 2 + length nm) d"

definition get_d_super :: "u8 list \<Rightarrow> super_block \<Rightarrow> super_block" where
  "get_d_super d x = x\<lparr>s_ninodes := rd16 d 0, s_nzones := rd16 d 2, s_imap_blocks := rd16 d 4,
     s_zmap_blocks := rd16 d 6, s_firstdatazone := rd16 d 8, s_log_zone_size := rd16 d 10,
     s_max_size := rd32 d 12, s_magic := rd16 d 16\<rparr>"

text \<open>The bit operations \<open>set_bit\<close>, \<open>clear_bit\<close> (\<open>btsl\<close>, \<open>btrl\<close>) on the bytes of a block.\<close>

definition tst_bit :: "nat \<Rightarrow> u8 list \<Rightarrow> bool" where
  "tst_bit nr d = bit (d ! (nr div 8)) (nr mod 8)"

definition put_bit :: "nat \<Rightarrow> bool \<Rightarrow> u8 list \<Rightarrow> u8 list" where
  "put_bit nr b d = d[nr div 8 := (if b then Bit_Operations.set_bit (nr mod 8) (d ! (nr div 8))
                                    else unset_bit (nr mod 8) (d ! (nr div 8)))]"

definition set_bit :: "nat \<Rightarrow> u8 list \<Rightarrow> bool \<times> u8 list" where
  "set_bit nr d = (tst_bit nr d, put_bit nr True d)"

definition clear_bit :: "nat \<Rightarrow> u8 list \<Rightarrow> bool \<times> u8 list" where
  "clear_bit nr d = (\<not> tst_bit nr d, put_bit nr False d)"

text \<open>\<open>find_first_zero\<close>: the index of the first clear bit, 8192 when there is none.\<close>

fun zero_from :: "u8 list \<Rightarrow> nat \<Rightarrow> nat \<Rightarrow> nat" where
  "zero_from d nr 0 = nr"
| "zero_from d nr (Suc n) = (if tst_bit nr d then zero_from d (Suc nr) n else nr)"

definition find_first_zero :: "u8 list \<Rightarrow> nat" where
  "find_first_zero d = zero_from d 0 8192"

section \<open>Running the accessors\<close>

lemma buf_app [km_simps]:
  "buf i s = (if i < length (buffers s) then Ret (buffers s ! i) s else Stop (Fault ''buffer'') s)"
  by (simp add: buf_def)

lemma upd_buf_app [km_simps]:
  "upd_buf i f s = (if i < length (buffers s)
     then Ret () (s\<lparr>buffers := (buffers s)[i := f (buffers s ! i)]\<rparr>) else Stop (Fault ''buffer'') s)"
  by (simp add: upd_buf_def)

lemma ino_app [km_simps]:
  "ino i s = (if i < length (inode_table s) then Ret (inode_table s ! i) s else Stop (Fault ''inode'') s)"
  by (simp add: ino_def)

lemma upd_ino_app [km_simps]:
  "upd_ino i f s = (if i < length (inode_table s)
     then Ret () (s\<lparr>inode_table := (inode_table s)[i := f (inode_table s ! i)]\<rparr>) else Stop (Fault ''inode'') s)"
  by (simp add: upd_ino_def)

lemma fil_app [km_simps]:
  "fil i s = (if i < length (file_table s) then Ret (file_table s ! i) s else Stop (Fault ''file'') s)"
  by (simp add: fil_def)

lemma upd_fil_app [km_simps]:
  "upd_fil i f s = (if i < length (file_table s)
     then Ret () (s\<lparr>file_table := (file_table s)[i := f (file_table s ! i)]\<rparr>) else Stop (Fault ''file'') s)"
  by (simp add: upd_fil_def)

lemma sb_app [km_simps]:
  "sb i s = (if i < length (super_block s) then Ret (super_block s ! i) s else Stop (Fault ''super_block'') s)"
  by (simp add: sb_def)

lemma upd_sb_app [km_simps]:
  "upd_sb i f s = (if i < length (super_block s)
     then Ret () (s\<lparr>super_block := (super_block s)[i := f (super_block s ! i)]\<rparr>) else Stop (Fault ''super_block'') s)"
  by (simp add: upd_sb_def)

lemma the_ptr_simps [simp]:
  "the_ptr what (Some i) = kreturn i" "the_ptr what None = kstop (Fault what)"
  by (simp_all add: the_ptr_def)

lemma wake_wait_None [simp]: "wake_wait None = kreturn ()"
  by (rule ext) (simp add: wake_wait_def wake_up_def km_simps)

lemma get_fs_byte_app [km_simps]: "get_fs_byte a s = Ret (user s a) s"
  by (simp add: get_fs_byte_def km_simps)

lemma put_fs_byte_app [km_simps]: "put_fs_byte v a s = Ret () (s\<lparr>user := (user s)(a := v)\<rparr>)"
  by (simp add: put_fs_byte_def km_simps)

end
