(* ===== verification/Blockdev.thy ===== *)
theory Blockdev
  imports Fsdata "HOL-Library.Product_Lexorder"
begin

text \<open>
  The block layer: \<open>kernel/blk_drv/ll_rw_blk.c\<close>, \<open>blk.h\<close> and the ram disk driver
  \<open>ramdisk.c\<close>. Requests are entries of \<open>request[32]\<close> linked through \<open>next\<close>; each major
  number has the pointer \<open>current_request\<close>. The ram disk (major 1) works synchronously; a
  call of another driver's \<open>request_fn\<close> ends in \<open>Stop (Driver major)\<close>. A task that would have
  to wait for a locked buffer or for a free request ends in \<open>Stop Sleeps\<close>.
\<close>

section \<open>Locking\<close>

definition lock_buffer :: "nat \<Rightarrow> ('a blk_scheme, unit) km" where
  "lock_buffer bh = kbind (buf bh) (\<lambda>b.
     if b_lock b \<noteq> 0 then kstop Sleeps else upd_buf bh (\<lambda>b. b\<lparr>b_lock := 1\<rparr>))"

definition unlock_buffer :: "nat \<Rightarrow> ('a blk_scheme, unit) km" where
  "unlock_buffer bh = kbind (buf bh) (\<lambda>b.
     kseq (upd_buf bh (\<lambda>b. b\<lparr>b_lock := 0, b_wait := None\<rparr>)) (wake_wait (b_wait b)))"

section \<open>The request queue\<close>

definition req :: "nat \<Rightarrow> ('a blk_scheme, request) km" where
  "req r = (\<lambda>s. if r < length (request s) then Ret (request s ! r) s else Stop (Fault ''request'') s)"

definition upd_req :: "nat \<Rightarrow> (request \<Rightarrow> request) \<Rightarrow> ('a blk_scheme, unit) km" where
  "upd_req r f = (\<lambda>s. if r < length (request s)
     then Ret () (s\<lparr>request := (request s)[r := f (request s ! r)]\<rparr>) else Stop (Fault ''request'') s)"

definition set_current :: "nat \<Rightarrow> nat option \<Rightarrow> ('a blk_scheme, unit) km" where
  "set_current major r = kmod (\<lambda>s. s\<lparr>current_request := (current_request s)[major := r]\<rparr>)"

text \<open>The elevator order: reads before writes, then by device, then by sector.\<close>

definition IN_ORDER :: "request \<Rightarrow> request \<Rightarrow> bool" where
  "IN_ORDER s1 s2 \<longleftrightarrow> rq_cmd s1 < rq_cmd s2 \<or> (rq_cmd s1 = rq_cmd s2 \<and>
     (rq_dev s1 < rq_dev s2 \<or> (rq_dev s1 = rq_dev s2 \<and> rq_sector s1 < rq_sector s2)))"

text \<open>
  The walk of \<open>add_request\<close>: the request after which the new one is linked. The number of
  steps is bounded by the size of the request table, which an acyclic list cannot exceed.
\<close>

fun elevator :: "nat \<Rightarrow> request list \<Rightarrow> nat \<Rightarrow> request \<Rightarrow> nat option" where
  "elevator 0 rq tmp x = None"
| "elevator (Suc n) rq tmp x =
     (case rq_next (rq ! tmp) of None \<Rightarrow> Some tmp
      | Some nx \<Rightarrow>
          if (IN_ORDER (rq ! tmp) x \<or> \<not> IN_ORDER (rq ! tmp) (rq ! nx)) \<and> IN_ORDER x (rq ! nx)
          then Some tmp else elevator n rq nx x)"

section \<open>The ram disk\<close>

definition end_request :: "nat \<Rightarrow> bool \<Rightarrow> ('a blk_scheme, unit) km" where
  "end_request major uptodate =
     kbind (kget (\<lambda>s. current_request s ! major)) (\<lambda>c.
     kbind (the_ptr ''CURRENT'' c) (\<lambda>r.
     kbind (req r) (\<lambda>x.
     kseq (case rq_bh x of
             None \<Rightarrow> kwhen (\<not> uptodate) (kstop (Fault ''CURRENT->bh''))
           | Some bh \<Rightarrow> kseq (upd_buf bh (\<lambda>b. b\<lparr>b_uptodate := if uptodate then 1 else 0\<rparr>))
                             (unlock_buffer bh))
     (kseq (wake_wait (rq_waiting x))
     (kseq (kmod (\<lambda>s. (snd (wake_up (wait_for_request s) s))\<lparr>wait_for_request := None\<rparr>))
     (kseq (upd_req r (\<lambda>x. x\<lparr>rq_dev := -1, rq_waiting := None\<rparr>))
     (set_current major (rq_next x))))))))"

definition rq_major :: "request \<Rightarrow> nat" where
  "rq_major x = unat (drop_bit 8 (of_int (rq_dev x) :: u32))"

definition rq_minor :: "request \<Rightarrow> int" where
  "rq_minor x = rq_dev x mod 256"

definition rd_write :: "nat \<Rightarrow> u8 list \<Rightarrow> u8 list \<Rightarrow> u8 list" where
  "rd_write off d m = take off m @ d @ drop (off + length d) m"

text \<open>One turn of the \<open>repeat\<close> loop on the request \<open>CURRENT\<close>.\<close>

definition do_rd_one :: "nat \<Rightarrow> ('a blk_scheme, unit) km" where
  "do_rd_one r =
     kbind (req r) (\<lambda>x.
     if rq_major x \<noteq> 1 then kstop (Panic ''ramdisk: request list destroyed'')
     else kbind (case rq_bh x of None \<Rightarrow> kreturn 1 | Some bh \<Rightarrow> kbind (buf bh) (\<lambda>b. kreturn (b_lock b))) (\<lambda>lock.
     if lock = 0 then kstop (Panic ''ramdisk: block not locked'')
     else kbind (kget (\<lambda>s. (rd_start s, length (rd_data s)))) (\<lambda>(start, rlen).
       let addr = start + push_bit 9 (rq_sector x);
           len = unat (push_bit 9 (rq_nr_sectors x));
           off = unat (addr - start)
       in if rq_minor x \<noteq> 1 \<or> addr + of_nat len > start + of_nat rlen then end_request 1 False
          else if off + len > rlen then kstop (Fault ''ram disk'')
          else kbind (the_ptr ''CURRENT->buffer'' (rq_bh x)) (\<lambda>bh.
            kseq (if rq_cmd x = WRITE
                  then kbind (buf bh) (\<lambda>b.
                    kmod (\<lambda>s. s\<lparr>rd_data := rd_write off (take len (b_data b)) (rd_data s)\<rparr>))
                  else if rq_cmd x = READ
                  then kbind (kget (\<lambda>s. take len (drop off (rd_data s)))) (\<lambda>d.
                    upd_buf bh (\<lambda>b. b\<lparr>b_data := d @ drop len (b_data b)\<rparr>))
                  else kstop (Panic ''unknown ramdisk-command''))
            (end_request 1 True)))))"

fun do_rd_loop :: "nat \<Rightarrow> ('a blk_scheme, unit) km" where
  "do_rd_loop 0 = kstop Diverges"
| "do_rd_loop (Suc n) =
     kbind (kget (\<lambda>s. current_request s ! 1)) (\<lambda>c.
     case c of None \<Rightarrow> kreturn () | Some r \<Rightarrow> kseq (do_rd_one r) (do_rd_loop n))"

definition do_rd_request :: "('a blk_scheme, unit) km" where
  "do_rd_request = do_rd_loop (NR_REQUEST + 1)"

definition rd_init :: "u32 \<Rightarrow> nat \<Rightarrow> 'a blk_scheme \<Rightarrow> 'a blk_scheme" where
  "rd_init mem_start len s =
     s\<lparr>request_fn := (request_fn s)[1 := True], rd_start := mem_start, rd_data := replicate len 0\<rparr>"

section \<open>Making requests\<close>

definition add_request :: "nat \<Rightarrow> nat \<Rightarrow> ('a blk_scheme, unit) km" where
  "add_request major r =
     kseq (upd_req r (\<lambda>x. x\<lparr>rq_next := None\<rparr>))
     (kbind (req r) (\<lambda>x.
      kseq (case rq_bh x of None \<Rightarrow> kreturn () | Some bh \<Rightarrow> upd_buf bh (\<lambda>b. b\<lparr>b_dirt := 0\<rparr>))
      (kbind (kget (\<lambda>s. current_request s ! major)) (\<lambda>c.
       case c of
         None \<Rightarrow> kseq (set_current major (Some r))
                 (if major = 1 then do_rd_request else kstop (Driver major))
       | Some tmp \<Rightarrow>
           kbind (kget (\<lambda>s. elevator (length (request s)) (request s) tmp x)) (\<lambda>at.
           case at of None \<Rightarrow> kstop Diverges
           | Some t \<Rightarrow> kbind (req t) (\<lambda>y.
               kseq (upd_req r (\<lambda>x. x\<lparr>rq_next := rq_next y\<rparr>))
               (upd_req t (\<lambda>y. y\<lparr>rq_next := Some r\<rparr>))))))))"

text \<open>The search \<open>while (--req >= request) if (req->dev<0) break;\<close>\<close>

fun free_request :: "request list \<Rightarrow> nat \<Rightarrow> nat option" where
  "free_request rq 0 = None"
| "free_request rq (Suc n) = (if rq_dev (rq ! n) < 0 then Some n else free_request rq n)"

definition make_request :: "nat \<Rightarrow> nat \<Rightarrow> nat \<Rightarrow> ('a blk_scheme, unit) km" where
  "make_request major rw bh =
     kbind (buf bh) (\<lambda>b.
     let rw_ahead = (rw = READA \<or> rw = WRITEA);
         rw' = (if rw = READA then READ else if rw = WRITEA then WRITE else rw)
     in if rw_ahead \<and> b_lock b \<noteq> 0 then kreturn ()
        else if rw' \<noteq> READ \<and> rw' \<noteq> WRITE then kstop (Panic ''Bad block dev command, must be R/W/RA/WA'')
        else kseq (lock_buffer bh)
          (if (rw' = WRITE \<and> b_dirt b = 0) \<or> (rw' = READ \<and> b_uptodate b \<noteq> 0)
           then unlock_buffer bh
           else kbind (kget (\<lambda>s. free_request (request s)
                               (if rw' = READ then NR_REQUEST else NR_REQUEST * 2 div 3))) (\<lambda>r.
             case r of
               None \<Rightarrow> if rw_ahead then unlock_buffer bh else kstop Sleeps
             | Some r \<Rightarrow>
                 kseq (upd_req r (\<lambda>_. \<lparr>rq_dev = uint (b_dev b), rq_cmd = rw', rq_errors = 0,
                     rq_sector = push_bit 1 (b_blocknr b), rq_nr_sectors = 2, rq_waiting = None,
                     rq_bh = Some bh, rq_next = None\<rparr>))
                 (add_request major r))))"

definition ll_rw_block :: "nat \<Rightarrow> nat \<Rightarrow> ('a blk_scheme, unit) km" where
  "ll_rw_block rw bh =
     kbind (buf bh) (\<lambda>b.
     kbind (kget request_fn) (\<lambda>fn.
     let major = MAJOR (b_dev b)
     in if major \<ge> NR_BLK_DEV \<or> \<not> fn ! major then kreturn () else make_request major rw bh))"

definition blk_dev_init :: "('a blk_scheme, unit) km" where
  "blk_dev_init = kfor [0..<NR_REQUEST] (\<lambda>i. upd_req i (\<lambda>x. x\<lparr>rq_dev := -1, rq_next := None\<rparr>))"

lemma req_app [km_simps]:
  "req r s = (if r < length (request s) then Ret (request s ! r) s else Stop (Fault ''request'') s)"
  by (simp add: req_def)

lemma upd_req_app [km_simps]:
  "upd_req r f s = (if r < length (request s)
     then Ret () (s\<lparr>request := (request s)[r := f (request s ! r)]\<rparr>) else Stop (Fault ''request'') s)"
  by (simp add: upd_req_def)

lemma set_current_app [km_simps]:
  "set_current major r s = Ret () (s\<lparr>current_request := (current_request s)[major := r]\<rparr>)"
  by (simp add: set_current_def km_simps)

section \<open>The elevator\<close>

definition rq_key :: "request \<Rightarrow> nat \<times> int \<times> u32" where
  "rq_key x = (rq_cmd x, rq_dev x, rq_sector x)"

lemma IN_ORDER_key: "IN_ORDER x y \<longleftrightarrow> rq_key x < rq_key y"
  by (auto simp: IN_ORDER_def rq_key_def)

text \<open>The insertion on the list of keys, and the number of places where a list does not ascend.\<close>

fun elev_ins :: "'k::linorder \<Rightarrow> 'k list \<Rightarrow> 'k list" where
  "elev_ins x [] = [x]"
| "elev_ins x [t] = [t, x]"
| "elev_ins x (t # n # ts) =
     (if (t < x \<or> \<not> t < n) \<and> x < n then t # x # n # ts else t # elev_ins x (n # ts))"

fun descents :: "'k::linorder list \<Rightarrow> nat" where
  "descents (x # y # zs) = (if x < y then 0 else 1) + descents (y # zs)"
| "descents _ = 0"

lemma elev_ins_neq_Nil [simp]: "elev_ins x xs \<noteq> []"
  by (cases "(x, xs)" rule: elev_ins.cases) auto

lemma hd_elev_ins: "xs \<noteq> [] \<Longrightarrow> hd (elev_ins x xs) = hd xs"
  by (cases "(x, xs)" rule: elev_ins.cases) auto

lemma descents_Cons: "xs \<noteq> [] \<Longrightarrow> descents (t # xs) = (if t < hd xs then 0 else 1) + descents xs"
  by (cases xs) auto

lemma elev_ins_above:
  "descents (t # ts) = 0 \<Longrightarrow> t < x \<Longrightarrow> x \<notin> set ts \<Longrightarrow> descents (elev_ins x (t # ts)) = 0"
proof (induction ts arbitrary: t)
  case (Cons n ts)
  then show ?case
    by (auto simp: descents_Cons hd_elev_ins split: if_splits)
qed simp

lemma elev_ins_below:
  "descents (t # ts) = 0 \<Longrightarrow> x < t \<Longrightarrow> descents (elev_ins x (t # ts)) = 1"
proof (induction ts arbitrary: t)
  case (Cons n ts)
  then show ?case by (auto simp: descents_Cons hd_elev_ins split: if_splits)
qed auto

lemma elev_ins_descents:
  "descents (t # ts) \<le> 1 \<Longrightarrow> x \<notin> set (t # ts) \<Longrightarrow> descents (elev_ins x (t # ts)) \<le> 1"
proof (induction ts arbitrary: t)
  case (Cons n ts)
  show ?case
  proof (cases "t < n")
    case True
    with Cons show ?thesis by (auto simp: descents_Cons hd_elev_ins)
  next
    case False
    with Cons.prems have d: "descents (n # ts) = 0" by simp
    have "x < n \<or> n < x" using Cons.prems by auto
    with False d Cons.prems show ?thesis
      by (auto simp: descents_Cons hd_elev_ins elev_ins_above)
  qed
qed auto

fun rq_chain :: "request list \<Rightarrow> nat option \<Rightarrow> nat list \<Rightarrow> bool" where
  "rq_chain rq q [] = (q = None)"
| "rq_chain rq q (r # L) = (q = Some r \<and> rq_chain rq (rq_next (rq ! r)) L)"

text \<open>The place that the pointer walk finds is the place of the list insertion.\<close>

lemma elevator_split:
  assumes "rq_chain rq (Some t) (t # L)" and "length L < n"
  shows "\<exists>pre u post. t # L = pre @ u # post \<and> elevator n rq t x = Some u \<and>
    elev_ins (rq_key x) (map (\<lambda>r. rq_key (rq ! r)) (t # L)) =
      map (\<lambda>r. rq_key (rq ! r)) (pre @ [u]) @ rq_key x # map (\<lambda>r. rq_key (rq ! r)) post"
  using assms
proof (induction L arbitrary: t n)
  case Nil
  then obtain k where n: "n = Suc k" by (cases n) auto
  show ?case using Nil n by (intro exI [of _ "[]"] exI [of _ t] exI [of _ "[]"]) simp
next
  case (Cons m L)
  then obtain k where n: "n = Suc k" by (cases n) auto
  have nx: "rq_next (rq ! t) = Some m" and ch: "rq_chain rq (Some m) (m # L)" using Cons.prems by auto
  show ?case
  proof (cases "(IN_ORDER (rq ! t) x \<or> \<not> IN_ORDER (rq ! t) (rq ! m)) \<and> IN_ORDER x (rq ! m)")
    case True
    then show ?thesis using n nx
      by (intro exI [of _ "[]"] exI [of _ t] exI [of _ "m # L"]) (auto simp: IN_ORDER_key)
  next
    case False
    let ?k = "\<lambda>r. rq_key (rq ! r)"
    obtain pre u post where sp: "m # L = pre @ u # post" "elevator k rq m x = Some u"
        "elev_ins (rq_key x) (map ?k (m # L)) = map ?k (pre @ [u]) @ rq_key x # map ?k post"
      using Cons.IH [OF ch, of k] Cons.prems(2) n by (metis Suc_less_eq length_Cons)
    have "elev_ins (rq_key x) (map ?k (t # m # L)) = ?k t # elev_ins (rq_key x) (map ?k (m # L))"
      using False by (auto simp: IN_ORDER_key)
    moreover have "elevator n rq t x = Some u"
      using n nx False sp(2) by (auto simp: IN_ORDER_key)
    ultimately show ?thesis using sp(1,3)
      by (intro exI [of _ "t # pre"] exI [of _ u] exI [of _ post]) simp
  qed
qed

lemma rq_chain_cong:
  "(\<And>r. r \<in> set L \<Longrightarrow> rq_next (rq' ! r) = rq_next (rq ! r)) \<Longrightarrow> rq_chain rq' q L = rq_chain rq q L"
  by (induction rq q L rule: rq_chain.induct) auto

lemma rq_chain_link:
  assumes "rq_chain rq q (pre @ u # post)" and "distinct (pre @ u # post)" and "r \<notin> set (pre @ u # post)"
    and "r < length rq" and "u < length rq"
    and "rq_next (rq' ! r) = rq_next (rq ! u)" and "rq_next (rq' ! u) = Some r"
    and "\<And>i. i \<noteq> r \<Longrightarrow> i \<noteq> u \<Longrightarrow> rq_next (rq' ! i) = rq_next (rq ! i)"
  shows "rq_chain rq' q (pre @ u # r # post)"
  using assms
proof (induction pre arbitrary: q)
  case Nil
  have "i \<noteq> r \<and> i \<noteq> u" if "i \<in> set post" for i using that Nil.prems by auto
  with Nil.prems(8) have "rq_chain rq' (rq_next (rq ! u)) post = rq_chain rq (rq_next (rq ! u)) post"
    by (intro rq_chain_cong) blast
  with Nil show ?case by simp
next
  case (Cons p pre)
  then show ?case by auto
qed

text \<open>
  C12: adding a request to a busy device keeps all queued requests, leaves the one being
  served at the head, and keeps the queue in elevator order: it ascends by command, device
  and sector with at most one turn back to the start.
\<close>

theorem add_request_elevator:
  assumes cur: "current_request s ! major = Some r0"
    and chain: "rq_chain (request s) (Some r0) L" "distinct L" "set L \<subseteq> {..<length (request s)}"
    and new: "r < length (request s)" "r \<notin> set L"
    and bh: "rq_bh (request s ! r) = Some bh" "bh < length (buffers s)"
    and keys: "rq_key (request s ! r) \<notin> (\<lambda>i. rq_key (request s ! i)) ` set L"
    and up: "descents (map (\<lambda>i. rq_key (request s ! i)) L) \<le> 1"
  shows "\<exists>s' L'. add_request major r s = Ret () s' \<and> current_request s' = current_request s \<and>
    rq_chain (request s') (Some r0) L' \<and> hd L' = r0 \<and> distinct L' \<and> set L' = insert r (set L) \<and>
    map (\<lambda>i. rq_key (request s' ! i)) L' = map (\<lambda>i. rq_key (request s ! i)) L' \<and>
    descents (map (\<lambda>i. rq_key (request s' ! i)) L') \<le> 1"
proof -
  let ?k = "\<lambda>i. rq_key (request s ! i)"
  define rq where "rq = (request s)[r := (request s ! r)\<lparr>rq_next := None\<rparr>]"
  have key: "rq_key (rq ! i) = ?k i" for i
    using new by (cases "i = r") (auto simp: rq_def rq_key_def)
  obtain T where L: "L = r0 # T" using chain(1) by (cases L) auto
  have chain': "rq_chain rq (Some r0) (r0 # T)"
    using chain(1) new L rq_chain_cong [of L rq "request s" "Some r0"]
    by (force simp: rq_def nth_list_update)
  have "card (set L) \<le> card {..<length (request s)}" using chain(3) by (intro card_mono) auto
  then have "length L \<le> length (request s)" using chain(2) by (simp add: distinct_card)
  then have "length T < length rq" using L by (simp add: rq_def)
  from elevator_split [OF chain' this, of "rq ! r", unfolded key L [symmetric]] obtain pre u post
    where sp: "L = pre @ u # post" "elevator (length rq) rq r0 (rq ! r) = Some u"
      "elev_ins (?k r) (map ?k L) = map ?k (pre @ [u]) @ ?k r # map ?k post"
    by metis
  have u: "u < length rq" "u \<noteq> r" using sp(1) L chain(3) new by (auto simp: rq_def)
  define rq' where "rq' = rq[r := (rq ! r)\<lparr>rq_next := rq_next (rq ! u)\<rparr>, u := (rq ! u)\<lparr>rq_next := Some r\<rparr>]"
  define s' where "s' = s\<lparr>buffers := (buffers s)[bh := (buffers s ! bh)\<lparr>b_dirt := 0\<rparr>], request := rq'\<rparr>"
  have key': "rq_key (rq' ! i) = ?k i" for i
    using new u key by (cases "i = r"; cases "i = u") (auto simp: rq'_def rq_def rq_key_def)
  have rlen: "r < length rq" using new by (simp add: rq_def)
  have "add_request major r s = Ret () s'"
    using new bh cur sp(2) u
    by (simp add: add_request_def km_simps s'_def rq'_def rq_def)
  moreover have "rq_chain rq' (Some r0) (pre @ u # r # post)"
    using chain' [folded L, unfolded sp(1)] sp(1) chain(2) new u rlen
    by (intro rq_chain_link [of rq]) (simp_all add: rq'_def rq_def)
  moreover have "descents (map ?k (pre @ u # r # post)) \<le> 1"
    using elev_ins_descents [of "?k r0" "map ?k T" "?k r"] up keys L sp(3) by simp
  moreover have "set (pre @ u # r # post) = insert r (set L)" "distinct (pre @ u # r # post)"
      "hd (pre @ u # r # post) = r0"
    using sp(1) L chain(2) new by (auto, (cases pre; simp)+)
  ultimately show ?thesis
    by (intro exI [of _ s'] exI [of _ "pre @ u # r # post"]) (simp add: s'_def key')
qed

text \<open>An example: the ram disk at address 4 MB with 4 blocks, two buffers, nothing queued.\<close>

definition ex_buffer :: "nat \<Rightarrow> buffer_head" where
  "ex_buffer i = \<lparr>b_data = replicate 1024 0, b_blocknr = 0, b_dev = 0, b_uptodate = 0, b_dirt = 0,
     b_count = 0, b_lock = 0, b_wait = None, b_prev = None, b_next = None,
     b_prev_free = Some (1 - i), b_next_free = Some (1 - i)\<rparr>"

definition ex_request :: "int \<Rightarrow> nat \<Rightarrow> u32 \<Rightarrow> nat option \<Rightarrow> request" where
  "ex_request d c sec nx = \<lparr>rq_dev = d, rq_cmd = c, rq_errors = 0, rq_sector = sec, rq_nr_sectors = 2,
     rq_waiting = None, rq_bh = Some 0, rq_next = nx\<rparr>"

definition ex_blk :: blk where
  "ex_blk = mm.extend ex_mm (blk.fields (map ex_buffer [0, 1]) (replicate 307 None) 0 None None
     (replicate 32 (ex_request (-1) 0 0 None)) (replicate 7 None)
     [False, True, False, True, False, False, False] None 0x400000 (replicate 4096 0))"

lemma ex_blk_simps [simp]:
  "buffers ex_blk = map ex_buffer [0, 1]" "hash_table ex_blk = replicate 307 None" "free_list ex_blk = 0"
  "request ex_blk = replicate 32 (ex_request (-1) 0 0 None)" "current_request ex_blk = replicate 7 None"
  "request_fn ex_blk = [False, True, False, True, False, False, False]"
  "rd_start ex_blk = 0x400000" "rd_data ex_blk = replicate 4096 0" "wait_for_request ex_blk = None"
  by (simp_all add: ex_blk_def mm.defs blk.defs)

text \<open>The hard disk is serving the request for sector 8; one for sector 4 is added.\<close>

definition ex_busy :: blk where
  "ex_busy = ex_blk\<lparr>request := (replicate 32 (ex_request (-1) 0 0 None))
       [0 := ex_request 0x301 0 8 None, 1 := ex_request 0x301 0 4 None],
     current_request := (replicate 7 None)[3 := Some 0]\<rparr>"

theorem add_request_elevator_witness:
  "\<exists>s' L'. add_request 3 1 ex_busy = Ret () s' \<and> rq_chain (request s') (Some 0) L' \<and> hd L' = 0 \<and> set L' = {0, 1}"
proof -
  have "\<exists>s' L'. add_request 3 1 ex_busy = Ret () s' \<and> current_request s' = current_request ex_busy \<and>
    rq_chain (request s') (Some 0) L' \<and> hd L' = 0 \<and> distinct L' \<and> set L' = insert 1 (set [0]) \<and>
    map (\<lambda>i. rq_key (request s' ! i)) L' = map (\<lambda>i. rq_key (request ex_busy ! i)) L' \<and>
    descents (map (\<lambda>i. rq_key (request s' ! i)) L') \<le> 1"
    by (rule add_request_elevator [where bh = 0])
       (simp_all add: ex_busy_def ex_request_def rq_key_def)
  then show ?thesis by auto
qed

section \<open>Transfers of the ram disk\<close>

abbreviation (input) RAMDISK :: u16 where "RAMDISK \<equiv> 0x101"

text \<open>The block layer between two transfers of the ram disk, with nobody waiting for a request.\<close>

definition rd_idle :: "'a blk_scheme \<Rightarrow> bool" where
  "rd_idle s \<longleftrightarrow> length (request s) = NR_REQUEST \<and> (\<forall>r < NR_REQUEST. rq_dev (request s ! r) < 0) \<and>
     length (current_request s) = NR_BLK_DEV \<and> current_request s ! 1 = None \<and>
     length (request_fn s) = NR_BLK_DEV \<and> request_fn s ! 1 \<and> wait_for_request s = None \<and>
     unat (rd_start s) + length (rd_data s) < 2 ^ 32"

definition rd_block :: "'a blk_scheme \<Rightarrow> u32 \<Rightarrow> u8 list" where
  "rd_block s n = take BLOCK_SIZE (drop (BLOCK_SIZE * unat n) (rd_data s))"

definition rd_has :: "'a blk_scheme \<Rightarrow> u32 \<Rightarrow> bool" where
  "rd_has s n \<longleftrightarrow> BLOCK_SIZE * unat n + BLOCK_SIZE \<le> length (rd_data s)"

lemma free_request_all: "\<forall>r < n. rq_dev (rq ! r) < 0 \<Longrightarrow> 0 < n \<Longrightarrow> free_request rq n = Some (n - 1)"
  by (cases n) auto

lemma rd_addr:
  assumes "unat (start :: u32) + rlen < 2 ^ 32" and "1024 * unat (b :: u32) + 1024 \<le> rlen"
  shows "unat (push_bit 9 (push_bit 1 b) :: u32) = 1024 * unat b"
    and "\<not> start + of_nat rlen < start + push_bit 9 (push_bit 1 b) + 1024"
proof -
  have "push_bit 9 (push_bit 1 b) = (of_nat (1024 * unat b) :: u32)"
    by (simp add: push_bit_eq_mult)
  then show off: "unat (push_bit 9 (push_bit 1 b) :: u32) = 1024 * unat b"
    using assms by (simp only: unat32_of_nat) (rule unat32_of_nat, simp)
  have "unat (start + of_nat rlen) = unat start + rlen"
    using assms by (simp add: unat_word_ariths unat_of_nat)
  moreover have "unat (start + push_bit 9 (push_bit 1 b) + 1024) = unat start + 1024 * unat b + 1024"
    using assms by (simp only: unat_word_ariths off) simp
  ultimately show "\<not> start + of_nat rlen < start + push_bit 9 (push_bit 1 b) + 1024"
    using assms by (simp add: word_less_nat_alt)
qed

lemma MAJOR_ramdisk [simp]: "MAJOR RAMDISK = 1"
  by (simp add: MAJOR_def)

lemma rq_major_ramdisk: "rq_dev x = uint RAMDISK \<Longrightarrow> rq_major x = 1" "rq_dev x = uint RAMDISK \<Longrightarrow> rq_minor x = 1"
  by (simp_all add: rq_major_def rq_minor_def)

lemma do_rd_loop_one:
  assumes "current_request s ! 1 = Some r" and "do_rd_one r s = Ret () s'" and "current_request s' ! 1 = None"
  shows "do_rd_loop (Suc (Suc n)) s = Ret () s'"
  using assms by (simp add: km_simps)

text \<open>One served request, for the two commands.\<close>

lemma do_rd_one_run:
  assumes r: "r < length (request s)" and x: "x = request s ! r"
    and "rq_dev x = uint RAMDISK" "rq_nr_sectors x = 2" "rq_bh x = Some bh" "rq_next x = None"
      "rq_waiting x = None" "rq_sector x = push_bit 1 n" "rq_cmd x = cmd" "cmd = READ \<or> cmd = WRITE"
    and b: "bh < length (buffers s)" "b = buffers s ! bh" "b_lock b \<noteq> 0" "b_wait b = None" "length (b_data b) = BLOCK_SIZE"
    and cur: "current_request s ! 1 = Some r" "length (current_request s) = NR_BLK_DEV"
    and idle: "wait_for_request s = None" "unat (rd_start s) + length (rd_data s) < 2 ^ 32" "rd_has s n"
  shows "do_rd_one r s = Ret () (s\<lparr>
      buffers := (buffers s)[bh := b\<lparr>b_data := if cmd = READ then rd_block s n else b_data b, b_uptodate := 1, b_lock := 0, b_wait := None\<rparr>],
      rd_data := if cmd = READ then rd_data s else rd_write (BLOCK_SIZE * unat n) (b_data b) (rd_data s),
      wait_for_request := None,
      request := (request s)[r := x\<lparr>rq_dev := -1, rq_waiting := None\<rparr>],
      current_request := (current_request s)[1 := None]\<rparr>)"
proof -
  note a = rd_addr [OF idle(2) idle(3) [unfolded rd_has_def]]
  have in_range: "1024 * unat n + 1024 \<le> length (rd_data s)" using idle(3) by (simp add: rd_has_def)
  show ?thesis
    using assms a in_range
    by (auto simp: do_rd_one_def end_request_def unlock_buffer_def km_simps rq_major_ramdisk Let_def
        rd_block_def wake_up_def push_bit_eq_mult rd_write_def)
qed

lemma make_request_ramdisk:
  assumes idle: "rd_idle s" and has: "rd_has s n" and cmd: "cmd = READ \<or> cmd = WRITE"
    and b: "bh < length (buffers s)" "b = buffers s ! bh" "b_dev b = RAMDISK" "b_blocknr b = n"
      "b_lock b = 0" "b_wait b = None" "length (b_data b) = BLOCK_SIZE"
    and todo: "cmd = READ \<Longrightarrow> b_uptodate b = 0" "cmd = WRITE \<Longrightarrow> b_dirt b \<noteq> 0"
  shows "\<exists>rq. ll_rw_block cmd bh s = Ret () (s\<lparr>
      buffers := (buffers s)[bh := b\<lparr>b_data := if cmd = READ then rd_block s n else b_data b, b_uptodate := 1, b_dirt := 0\<rparr>],
      rd_data := if cmd = READ then rd_data s else rd_write (BLOCK_SIZE * unat n) (b_data b) (rd_data s),
      request := rq\<rparr>) \<and> length rq = NR_REQUEST \<and> (\<forall>r < NR_REQUEST. rq_dev (rq ! r) < 0)"
proof -
  define r where "r = (if cmd = READ then NR_REQUEST else NR_REQUEST * 2 div 3) - 1"
  have fr: "free_request (request s) (if cmd = READ then NR_REQUEST else NR_REQUEST * 2 div 3) = Some r"
    using idle cmd unfolding r_def by (intro free_request_all) (auto simp: rd_idle_def)
  have r: "r < length (request s)" using idle cmd by (auto simp: r_def rd_idle_def)
  define x where "x = \<lparr>rq_dev = uint RAMDISK, rq_cmd = cmd, rq_errors = 0, rq_sector = push_bit 1 n,
      rq_nr_sectors = 2, rq_waiting = None, rq_bh = Some bh, rq_next = None\<rparr>"
  define s1 where "s1 = s\<lparr>request := (request s)[r := x],
      buffers := (buffers s)[bh := b\<lparr>b_lock := 1, b_dirt := 0\<rparr>], current_request := (current_request s)[1 := Some r]\<rparr>"
  define rq where "rq = (request s)[r := x\<lparr>rq_dev := -1, rq_waiting := None\<rparr>]"
  define s2 where "s2 = s\<lparr>
      buffers := (buffers s)[bh := b\<lparr>b_data := if cmd = READ then rd_block s n else b_data b, b_uptodate := 1, b_dirt := 0\<rparr>],
      rd_data := if cmd = READ then rd_data s else rd_write (BLOCK_SIZE * unat n) (b_data b) (rd_data s),
      request := rq\<rparr>"
  have one: "do_rd_one r s1 = Ret () s2"
  proof -
    have "do_rd_one r s1 = Ret () (s1\<lparr>
      buffers := (buffers s1)[bh := (b\<lparr>b_lock := 1, b_dirt := 0\<rparr>)\<lparr>b_data := if cmd = READ then rd_block s1 n else b_data (b\<lparr>b_lock := 1, b_dirt := 0\<rparr>), b_uptodate := 1, b_lock := 0, b_wait := None\<rparr>],
      rd_data := if cmd = READ then rd_data s1 else rd_write (BLOCK_SIZE * unat n) (b_data (b\<lparr>b_lock := 1, b_dirt := 0\<rparr>)) (rd_data s1),
      wait_for_request := None,
      request := (request s1)[r := x\<lparr>rq_dev := -1, rq_waiting := None\<rparr>],
      current_request := (current_request s1)[1 := None]\<rparr>)"
      using idle has cmd b r
      by (intro do_rd_one_run) (simp_all add: s1_def x_def rd_idle_def rd_has_def)
    moreover have "(b\<lparr>b_lock := 1, b_dirt := 0\<rparr>)\<lparr>b_data := D, b_uptodate := 1, b_lock := 0, b_wait := None\<rparr>
        = b\<lparr>b_data := D, b_uptodate := 1, b_dirt := 0\<rparr>" for D
      using b(5,6) by (intro buffer_head.equality) simp_all
    ultimately have "do_rd_one r s1 = Ret () (s1\<lparr>
      buffers := (buffers s)[bh := b\<lparr>b_data := if cmd = READ then rd_block s1 n else b_data b, b_uptodate := 1, b_dirt := 0\<rparr>],
      rd_data := if cmd = READ then rd_data s1 else rd_write (BLOCK_SIZE * unat n) (b_data b) (rd_data s1),
      wait_for_request := None,
      request := (request s1)[r := x\<lparr>rq_dev := -1, rq_waiting := None\<rparr>],
      current_request := (current_request s1)[1 := None]\<rparr>)"
      unfolding s1_def by simp
    also have "\<dots> = Ret () s2"
      unfolding outcome.inject using idle
      by (intro conjI blk.equality) (simp_all add: s1_def s2_def rq_def rd_idle_def rd_block_def)
    finally show ?thesis .
  qed
  have "do_rd_request s1 = Ret () s2"
  proof -
    have "NR_REQUEST + 1 = Suc (Suc 31)" by simp
    then show ?thesis
      unfolding do_rd_request_def
      using do_rd_loop_one [OF _ one, of 31] idle by (simp only:) (simp add: s1_def s2_def rd_idle_def del: do_rd_loop.simps)
  qed
  moreover have "ll_rw_block cmd bh s = do_rd_request s1"
    using idle cmd b todo fr r
    by (auto simp: ll_rw_block_def make_request_def add_request_def lock_buffer_def km_simps Let_def
        rd_idle_def x_def s1_def)
  ultimately show ?thesis using idle r by (auto simp: s2_def rq_def rd_idle_def nth_list_update)
qed

end
