(* ===== verification/Buffer.thy ===== *)
theory Buffer
  imports Blockdev
begin

text \<open>
  The buffer cache: \<open>fs/buffer.c\<close>, with \<open>write_inode\<close> and \<open>sync_inodes\<close> of \<open>fs/inode.c\<close> and
  \<open>get_super\<close> of \<open>fs/super.c\<close>, which it calls back.

  \<open>getblk\<close> may call \<open>sync_dev\<close>, which writes inodes, which reads blocks, which calls
  \<open>getblk\<close>: the routines on this cycle take the inner \<open>bread\<close> as an argument, and \<open>getblk_n\<close>
  closes the cycle with a bound on the nesting and on the \<open>goto repeat\<close>s. Every nested
  \<open>write_inode\<close> holds the lock of one more of the 32 inodes and would sleep on an inode that
  is already locked, so that \<open>GETBLK_FUEL\<close> levels are more than the nesting can use.
\<close>

section \<open>Waiting and searching\<close>

definition wait_on_buffer :: "nat \<Rightarrow> ('a blk_scheme, unit) km" where
  "wait_on_buffer bh = kbind (buf bh) (\<lambda>b. kwhen (b_lock b \<noteq> 0) (kstop Sleeps))"

definition hashfn :: "u16 \<Rightarrow> u32 \<Rightarrow> nat" where
  "hashfn dev block = unat ((ucast dev :: u32) XOR block) mod NR_HASH"

definition set_hash :: "u16 \<Rightarrow> u32 \<Rightarrow> nat option \<Rightarrow> ('a blk_scheme, unit) km" where
  "set_hash dev block v = kmod (\<lambda>s. s\<lparr>hash_table := (hash_table s)[hashfn dev block := v]\<rparr>)"

text \<open>The two halves of \<open>remove_from_queues\<close> and \<open>insert_into_queues\<close>: hash queue and free list.\<close>

definition remove_hash :: "nat \<Rightarrow> ('a blk_scheme, unit) km" where
  "remove_hash bh =
     kbind (buf bh) (\<lambda>b.
     kseq (case b_next b of None \<Rightarrow> kreturn () | Some n \<Rightarrow> upd_buf n (\<lambda>x. x\<lparr>b_prev := b_prev b\<rparr>))
     (kbind (buf bh) (\<lambda>b.
     kseq (case b_prev b of None \<Rightarrow> kreturn () | Some p \<Rightarrow> upd_buf p (\<lambda>x. x\<lparr>b_next := b_next b\<rparr>))
     (kbind (buf bh) (\<lambda>b.
      kbind (kget (\<lambda>s. hash_table s ! hashfn (b_dev b) (b_blocknr b))) (\<lambda>h.
      kwhen (h = Some bh) (set_hash (b_dev b) (b_blocknr b) (b_next b))))))))"

definition remove_free :: "nat \<Rightarrow> ('a blk_scheme, unit) km" where
  "remove_free bh =
     kbind (buf bh) (\<lambda>b.
     case (b_prev_free b, b_next_free b) of
       (Some p, Some n) \<Rightarrow>
         kseq (upd_buf p (\<lambda>x. x\<lparr>b_next_free := Some n\<rparr>))
         (kseq (upd_buf n (\<lambda>x. x\<lparr>b_prev_free := Some p\<rparr>))
         (kbind (kget free_list) (\<lambda>fl.
          kwhen (fl = bh) (kmod (\<lambda>s. s\<lparr>free_list := n\<rparr>)))))
     | _ \<Rightarrow> kstop (Panic ''Free block list corrupted''))"

definition remove_from_queues :: "nat \<Rightarrow> ('a blk_scheme, unit) km" where
  "remove_from_queues bh = kseq (remove_hash bh) (remove_free bh)"

definition insert_free :: "nat \<Rightarrow> ('a blk_scheme, unit) km" where
  "insert_free bh =
     kbind (kget free_list) (\<lambda>fl.
     kseq (upd_buf bh (\<lambda>x. x\<lparr>b_next_free := Some fl\<rparr>))
     (kbind (buf fl) (\<lambda>f.
      kseq (upd_buf bh (\<lambda>x. x\<lparr>b_prev_free := b_prev_free f\<rparr>))
     (kbind (buf fl) (\<lambda>f.
      kbind (the_ptr ''free_list->b_prev_free'' (b_prev_free f)) (\<lambda>p.
      kseq (upd_buf p (\<lambda>x. x\<lparr>b_next_free := Some bh\<rparr>))
      (upd_buf fl (\<lambda>x. x\<lparr>b_prev_free := Some bh\<rparr>))))))))"

definition insert_hash :: "nat \<Rightarrow> ('a blk_scheme, unit) km" where
  "insert_hash bh =
     kseq (upd_buf bh (\<lambda>x. x\<lparr>b_prev := None, b_next := None\<rparr>))
     (kbind (buf bh) (\<lambda>b.
      if b_dev b = 0 then kreturn ()
      else kbind (kget (\<lambda>s. hash_table s ! hashfn (b_dev b) (b_blocknr b))) (\<lambda>h.
       kseq (upd_buf bh (\<lambda>x. x\<lparr>b_next := h\<rparr>))
       (kseq (set_hash (b_dev b) (b_blocknr b) (Some bh))
       (case h of None \<Rightarrow> kmod (\<lambda>s. s\<lparr>null_b_prev := Some bh\<rparr>)
        | Some n \<Rightarrow> upd_buf n (\<lambda>x. x\<lparr>b_prev := Some bh\<rparr>))))))"

definition insert_into_queues :: "nat \<Rightarrow> ('a blk_scheme, unit) km" where
  "insert_into_queues bh = kseq (insert_free bh) (insert_hash bh)"

text \<open>
  \<open>find_buffer\<close> and the search of \<open>getblk\<close> walk lists of buffers; a walk longer than the
  number of buffers is on a cycle that does not come back, and never ends. In \<open>pick_walk\<close> the
  result \<open>None\<close> also stands for a null pointer on the free list.
\<close>

fun find_walk :: "nat \<Rightarrow> buffer_head list \<Rightarrow> nat option \<Rightarrow> u16 \<Rightarrow> u32 \<Rightarrow> nat option option" where
  "find_walk n bs None dev block = Some None"
| "find_walk 0 bs (Some i) dev block = None"
| "find_walk (Suc n) bs (Some i) dev block =
     (if b_dev (bs ! i) = dev \<and> b_blocknr (bs ! i) = block then Some (Some i)
      else find_walk n bs (b_next (bs ! i)) dev block)"

definition find_buffer :: "u16 \<Rightarrow> u32 \<Rightarrow> ('a blk_scheme, nat option) km" where
  "find_buffer dev block =
     kbind (kget (\<lambda>s. find_walk (length (buffers s)) (buffers s)
                        (hash_table s ! hashfn dev block) dev block)) (\<lambda>r.
     case r of None \<Rightarrow> kstop Diverges | Some q \<Rightarrow> kreturn q)"

text \<open>
  After \<open>wait_on_buffer\<close> has returned without sleeping nothing has changed, so that the
  second comparison of \<open>get_hash_table\<close> holds and the loop does not repeat.
\<close>

definition get_hash_table :: "u16 \<Rightarrow> u32 \<Rightarrow> ('a blk_scheme, nat option) km" where
  "get_hash_table dev block =
     kbind (find_buffer dev block) (\<lambda>r.
     case r of None \<Rightarrow> kreturn None
     | Some bh \<Rightarrow>
         kseq (upd_buf bh (\<lambda>b. b\<lparr>b_count := b_count b + 1\<rparr>))
         (kseq (wait_on_buffer bh)
         (kbind (buf bh) (\<lambda>b.
          if b_dev b = dev \<and> b_blocknr b = block then kreturn (Some bh)
          else kstop Diverges))))"

definition BADNESS :: "buffer_head \<Rightarrow> nat" where
  "BADNESS b = 2 * unat (b_dirt b) + unat (b_lock b)"

fun pick_walk :: "nat \<Rightarrow> buffer_head list \<Rightarrow> nat \<Rightarrow> nat \<Rightarrow> nat option \<Rightarrow> nat option option" where
  "pick_walk 0 bs fl i best = None"
| "pick_walk (Suc n) bs fl i best =
     (let better = (b_count (bs ! i) = 0 \<and>
            (case best of None \<Rightarrow> True | Some j \<Rightarrow> BADNESS (bs ! i) < BADNESS (bs ! j)));
          best' = (if better then Some i else best)
      in if better \<and> BADNESS (bs ! i) = 0 then Some best'
         else case b_next_free (bs ! i) of None \<Rightarrow> None
              | Some nx \<Rightarrow> if nx = fl then Some best' else pick_walk n bs fl nx best')"

section \<open>Releasing\<close>

definition brelse :: "nat option \<Rightarrow> ('a blk_scheme, unit) km" where
  "brelse q =
     (case q of None \<Rightarrow> kreturn ()
      | Some bh \<Rightarrow>
          kseq (wait_on_buffer bh)
          (kbind (buf bh) (\<lambda>b.
           kseq (upd_buf bh (\<lambda>b. b\<lparr>b_count := b_count b - 1\<rparr>))
           (if b_count b = 0 then kstop (Panic ''Trying to free free buffer'')
            else kmod (\<lambda>s. (snd (wake_up (buffer_wait s) s))\<lparr>buffer_wait := None\<rparr>)))))"

section \<open>Writing back\<close>

text \<open>\<open>get_super\<close> of \<open>fs/super.c\<close>: the first super block of the device.\<close>

definition wait_on_super :: "nat \<Rightarrow> ('a fsys_scheme, unit) km" where
  "wait_on_super i = kbind (sb i) (\<lambda>x. kwhen (s_lock x \<noteq> 0) (kstop Sleeps))"

fun super_walk :: "super_block list \<Rightarrow> u16 \<Rightarrow> nat \<Rightarrow> nat option" where
  "super_walk [] dev i = None"
| "super_walk (x # xs) dev i = (if s_dev x = dev then Some i else super_walk xs dev (Suc i))"

definition get_super :: "u16 \<Rightarrow> ('a fsys_scheme, nat option) km" where
  "get_super dev =
     (if dev = 0 then kreturn None
      else kbind (kget (\<lambda>s. super_walk (take NR_SUPER (super_block s)) dev 0)) (\<lambda>r.
        case r of None \<Rightarrow> kreturn None | Some i \<Rightarrow> kseq (wait_on_super i) (kreturn (Some i))))"

definition wait_on_inode :: "nat \<Rightarrow> ('a fsys_scheme, unit) km" where
  "wait_on_inode i = kbind (ino i) (\<lambda>x. kwhen (i_lock x \<noteq> 0) (kstop Sleeps))"

definition lock_inode :: "nat \<Rightarrow> ('a fsys_scheme, unit) km" where
  "lock_inode i = kbind (ino i) (\<lambda>x.
     if i_lock x \<noteq> 0 then kstop Sleeps else upd_ino i (\<lambda>x. x\<lparr>i_lock := 1\<rparr>))"

definition unlock_inode :: "nat \<Rightarrow> ('a fsys_scheme, unit) km" where
  "unlock_inode i = kbind (ino i) (\<lambda>x.
     kseq (upd_ino i (\<lambda>x. x\<lparr>i_lock := 0, i_wait := None\<rparr>)) (wake_wait (i_wait x)))"

text \<open>The block of the inode table that holds an inode, and its place there, in unsigned arithmetic.\<close>

definition inode_block :: "super_block \<Rightarrow> u16 \<Rightarrow> u32" where
  "inode_block x num = 2 + ucast (s_imap_blocks x) + ucast (s_zmap_blocks x) + (ucast num - 1) div 32"

definition inode_slot :: "u16 \<Rightarrow> nat" where
  "inode_slot num = unat ((ucast num - 1 :: u32) mod 32)"

type_synonym 'a block_reader = "u16 \<Rightarrow> u32 \<Rightarrow> ('a fsys_scheme, nat option) km"

definition write_inode_with :: "'a block_reader \<Rightarrow> nat \<Rightarrow> ('a fsys_scheme, unit) km" where
  "write_inode_with rd i =
     kseq (lock_inode i)
     (kbind (ino i) (\<lambda>x.
      if i_dirt x = 0 \<or> i_dev x = 0 then unlock_inode i
      else kbind (get_super (i_dev x)) (\<lambda>q.
      case q of None \<Rightarrow> kstop (Panic ''trying to write inode without device'')
      | Some k \<Rightarrow> kbind (sb k) (\<lambda>y.
          kbind (rd (i_dev x) (inode_block y (i_num x))) (\<lambda>r.
          case r of None \<Rightarrow> kstop (Panic ''unable to read i-node block'')
          | Some bh \<Rightarrow> kbind (ino i) (\<lambda>x.
              kseq (upd_buf bh (\<lambda>b. b\<lparr>b_data := put_d_inode (inode_slot (i_num x)) (to_d_inode x) (b_data b), b_dirt := 1\<rparr>))
              (kseq (upd_ino i (\<lambda>x. x\<lparr>i_dirt := 0\<rparr>))
              (kseq (brelse (Some bh)) (unlock_inode i)))))))))"

definition sync_inodes_with :: "'a block_reader \<Rightarrow> ('a fsys_scheme, unit) km" where
  "sync_inodes_with rd =
     kfor [0..<NR_INODE] (\<lambda>i.
       kseq (wait_on_inode i)
       (kbind (ino i) (\<lambda>x. kwhen (i_dirt x \<noteq> 0 \<and> i_pipe x = 0) (write_inode_with rd i))))"

definition sync_dev_buffers :: "u16 \<Rightarrow> ('a fsys_scheme, unit) km" where
  "sync_dev_buffers dev =
     kbind (kget (\<lambda>s. length (buffers s))) (\<lambda>n.
     kfor [0..<n] (\<lambda>i. kbind (buf i) (\<lambda>b.
       if b_dev b \<noteq> dev then kreturn ()
       else kseq (wait_on_buffer i)
            (kbind (buf i) (\<lambda>b. kwhen (b_dev b = dev \<and> b_dirt b \<noteq> 0) (ll_rw_block WRITE i))))))"

definition sync_dev_with :: "'a block_reader \<Rightarrow> u16 \<Rightarrow> ('a fsys_scheme, int) km" where
  "sync_dev_with rd dev =
     kseq (sync_dev_buffers dev)
     (kseq (sync_inodes_with rd)
     (kseq (sync_dev_buffers dev) (kreturn 0)))"

section \<open>Getting a block\<close>

definition bread_with :: "(u16 \<Rightarrow> u32 \<Rightarrow> ('a fsys_scheme, nat) km) \<Rightarrow> 'a block_reader" where
  "bread_with gb dev block =
     kbind (gb dev block) (\<lambda>bh.
     kbind (buf bh) (\<lambda>b.
     if b_uptodate b \<noteq> 0 then kreturn (Some bh)
     else kseq (ll_rw_block READ bh)
       (kseq (wait_on_buffer bh)
       (kbind (buf bh) (\<lambda>b.
        if b_uptodate b \<noteq> 0 then kreturn (Some bh)
        else kseq (brelse (Some bh)) (kreturn None))))))"

text \<open>\<open>while (bh->b_dirt)\<close>: the result tells whether the buffer is still unused.\<close>

fun clean_loop :: "nat \<Rightarrow> (u16 \<Rightarrow> ('a fsys_scheme, int) km) \<Rightarrow> nat \<Rightarrow> ('a fsys_scheme, bool) km" where
  "clean_loop 0 sync bh = kstop Diverges"
| "clean_loop (Suc n) sync bh =
     kbind (buf bh) (\<lambda>b.
     if b_dirt b = 0 then kreturn True
     else kbind (sync (b_dev b)) (\<lambda>_.
       kseq (wait_on_buffer bh)
       (kbind (buf bh) (\<lambda>b. if b_count b \<noteq> 0 then kreturn False else clean_loop n sync bh))))"

definition claim_buffer :: "nat \<Rightarrow> u16 \<Rightarrow> u32 \<Rightarrow> ('a blk_scheme, nat) km" where
  "claim_buffer bh dev block =
     kseq (upd_buf bh (\<lambda>b. b\<lparr>b_count := 1, b_dirt := 0, b_uptodate := 0\<rparr>))
     (kseq (remove_from_queues bh)
     (kseq (upd_buf bh (\<lambda>b. b\<lparr>b_dev := dev, b_blocknr := block\<rparr>))
     (kseq (insert_into_queues bh)
     (kreturn bh))))"

fun getblk_n :: "nat \<Rightarrow> u16 \<Rightarrow> u32 \<Rightarrow> ('a fsys_scheme, nat) km" where
  "getblk_n 0 dev block = kstop Diverges"
| "getblk_n (Suc n) dev block =
     kbind (get_hash_table dev block) (\<lambda>r.
     case r of Some bh \<Rightarrow> kreturn bh
     | None \<Rightarrow>
       kbind (kget (\<lambda>s. pick_walk (length (buffers s)) (buffers s) (free_list s) (free_list s) None)) (\<lambda>p.
       case p of
         None \<Rightarrow> kstop Diverges
       | Some None \<Rightarrow> kstop Sleeps
       | Some (Some bh) \<Rightarrow>
           kseq (wait_on_buffer bh)
           (kbind (buf bh) (\<lambda>b.
            if b_count b \<noteq> 0 then getblk_n n dev block
            else kbind (clean_loop (Suc n) (sync_dev_with (bread_with (getblk_n n))) bh) (\<lambda>ok.
              if \<not> ok then getblk_n n dev block
              else kbind (find_buffer dev block) (\<lambda>q.
                if q \<noteq> None then getblk_n n dev block else claim_buffer bh dev block))))))"

definition GETBLK_FUEL :: nat where "GETBLK_FUEL = 100"

definition getblk :: "u16 \<Rightarrow> u32 \<Rightarrow> ('a fsys_scheme, nat) km" where
  "getblk dev block = getblk_n GETBLK_FUEL dev block"

definition bread :: "u16 \<Rightarrow> u32 \<Rightarrow> ('a fsys_scheme, nat option) km" where
  "bread dev block = bread_with getblk dev block"

definition write_inode :: "nat \<Rightarrow> ('a fsys_scheme, unit) km" where
  "write_inode i = write_inode_with bread i"

definition sync_inodes :: "('a fsys_scheme, unit) km" where
  "sync_inodes = sync_inodes_with bread"

definition sync_dev :: "u16 \<Rightarrow> ('a fsys_scheme, int) km" where
  "sync_dev dev = sync_dev_with bread dev"

definition sys_sync :: "('a fsys_scheme, int) km" where
  "sys_sync =
     kseq sync_inodes
     (kbind (kget (\<lambda>s. length (buffers s))) (\<lambda>n.
      kseq (kfor [0..<n] (\<lambda>i. kseq (wait_on_buffer i)
              (kbind (buf i) (\<lambda>b. kwhen (b_dirt b \<noteq> 0) (ll_rw_block WRITE i)))))
      (kreturn 0)))"

definition invalidate_buffers :: "u16 \<Rightarrow> ('a blk_scheme, unit) km" where
  "invalidate_buffers dev =
     kbind (kget (\<lambda>s. length (buffers s))) (\<lambda>n.
     kfor [0..<n] (\<lambda>i. kbind (buf i) (\<lambda>b.
       if b_dev b \<noteq> dev then kreturn ()
       else kseq (wait_on_buffer i)
            (kbind (buf i) (\<lambda>b. kwhen (b_dev b = dev) (upd_buf i (\<lambda>b. b\<lparr>b_uptodate := 0, b_dirt := 0\<rparr>)))))))"

text \<open>
  \<open>breada\<close>: the read-ahead loop passes \<open>bh\<close>, not \<open>tmp\<close>, to \<open>ll_rw_block\<close>.
\<close>

definition breada :: "u16 \<Rightarrow> u32 \<Rightarrow> u32 list \<Rightarrow> ('a fsys_scheme, nat option) km" where
  "breada dev first rest =
     kbind (getblk dev first) (\<lambda>bh.
     kbind (buf bh) (\<lambda>b.
     kseq (kwhen (b_uptodate b = 0) (ll_rw_block READ bh))
     (kseq (kfor rest (\<lambda>n.
        kbind (getblk dev n) (\<lambda>tmp.
        kbind (buf tmp) (\<lambda>t.
        kseq (kwhen (b_uptodate t = 0) (ll_rw_block READA bh))
        (upd_buf tmp (\<lambda>t. t\<lparr>b_count := b_count t - 1\<rparr>))))))
     (kseq (wait_on_buffer bh)
     (kbind (buf bh) (\<lambda>b.
      if b_uptodate b \<noteq> 0 then kreturn (Some bh)
      else kseq (brelse (Some bh)) (kreturn None)))))))"

text \<open>The long words of a block at a physical address (\<open>COPYBLK\<close>).\<close>

definition COPYBLK :: "u8 list \<Rightarrow> u32 \<Rightarrow> (u32 \<Rightarrow> u32) \<Rightarrow> (u32 \<Rightarrow> u32)" where
  "COPYBLK d address m = fold (\<lambda>k m. m(address + 4 * of_nat k := rd32 d (4 * k))) [0..<256] m"

fun get_four :: "u16 \<Rightarrow> u32 list \<Rightarrow> ('a fsys_scheme, nat option list) km" where
  "get_four dev [] = kreturn []"
| "get_four dev (b # bs) =
     kbind (if b \<noteq> 0
            then kbind (getblk dev b) (\<lambda>bh. kbind (buf bh) (\<lambda>x.
                   kseq (kwhen (b_uptodate x = 0) (ll_rw_block READ bh)) (kreturn (Some bh))))
            else kreturn None) (\<lambda>q.
     kbind (get_four dev bs) (\<lambda>qs. kreturn (q # qs)))"

definition bread_page :: "u32 \<Rightarrow> u16 \<Rightarrow> u32 list \<Rightarrow> ('a fsys_scheme, unit) km" where
  "bread_page address dev bs =
     kbind (get_four dev (take 4 bs)) (\<lambda>qs.
     kfor [0..<4] (\<lambda>i. case qs ! i of None \<Rightarrow> kreturn ()
       | Some bh \<Rightarrow>
           kseq (wait_on_buffer bh)
           (kbind (buf bh) (\<lambda>b.
            kseq (kwhen (b_uptodate b \<noteq> 0)
                   (kmod (\<lambda>s. s\<lparr>phys := COPYBLK (b_data b) (address + of_nat (1024 * i)) (phys s)\<rparr>)))
            (brelse (Some bh))))))"

section \<open>Initialisation\<close>

text \<open>
  The number of buffers that \<open>buffer_init\<close> fits between the end of the kernel (\<open>start\<close>) and
  \<open>b\<close>, stepping over the video memory between 640 KB and 1 MB: 36 bytes for each header
  from below and 1024 for each block from above.
\<close>

function count_buffers :: "nat \<Rightarrow> nat \<Rightarrow> nat \<Rightarrow> nat" where
  "count_buffers start n b =
     (if b < BLOCK_SIZE \<or> b - BLOCK_SIZE < start + 36 * (n + 1) then n
      else count_buffers start (n + 1) (if b - BLOCK_SIZE = 0x100000 then 0xA0000 else b - BLOCK_SIZE))"
  by pat_completeness auto
termination
  by (relation "measure (\<lambda>(start, n, b). b)") auto

text \<open>\<open>junk\<close> is what the memory of the headers holds before; the block numbers and the data are not set.\<close>

definition buffer_init :: "(nat \<Rightarrow> buffer_head) \<Rightarrow> nat \<Rightarrow> nat \<Rightarrow> 'a blk_scheme \<Rightarrow> 'a blk_scheme" where
  "buffer_init junk start buffer_end s =
     (let n = count_buffers start 0 (if buffer_end = 0x100000 then 0xA0000 else buffer_end)
      in s\<lparr>buffers := map (\<lambda>i. (junk i)\<lparr>b_dev := 0, b_uptodate := 0,
               b_dirt := 0, b_count := 0, b_lock := 0, b_wait := None, b_prev := None, b_next := None,
               b_prev_free := Some (if i = 0 then n - 1 else i - 1),
               b_next_free := Some (if i = n - 1 then 0 else i + 1)\<rparr>) [0..<n],
           free_list := 0,
           hash_table := replicate NR_HASH None\<rparr>)"

end
