(* ===== verification/Dlinks.thy ===== *)
theory Dlinks
  imports Fsdata
begin

text \<open>
  Doubly linked lists as pairs of link functions: the circular free list of the buffer cache
  (\<open>ring\<close>) and its null-terminated hash queues (\<open>hlist\<close>, \<open>wf_hash\<close>), with the effect of
  the pointer assignments that \<open>fs/buffer.c\<close> uses to take out and put in an element.
\<close>

section \<open>Doubly linked lists\<close>

text \<open>
  \<open>dseg nx pv a xs b\<close>: the links lead from \<open>a\<close> through \<open>xs\<close> to \<open>b\<close> and back.
  \<open>hlist nx pv p q L\<close>: the null-terminated list that starts at \<open>q\<close> consists of \<open>L\<close>, and the
  back pointer of its first element is \<open>p\<close>.
\<close>

type_synonym links = "nat \<Rightarrow> nat option"

primrec dseg :: "links \<Rightarrow> links \<Rightarrow> nat \<Rightarrow> nat list \<Rightarrow> nat \<Rightarrow> bool" where
  "dseg nx pv a [] b = (nx a = Some b \<and> pv b = Some a)"
| "dseg nx pv a (x # xs) b = (nx a = Some x \<and> pv x = Some a \<and> dseg nx pv x xs b)"

primrec hlist :: "links \<Rightarrow> links \<Rightarrow> nat option \<Rightarrow> nat option \<Rightarrow> nat list \<Rightarrow> bool" where
  "hlist nx pv p q [] = (q = None)"
| "hlist nx pv p q (x # xs) = (q = Some x \<and> pv x = p \<and> hlist nx pv (Some x) (nx x) xs)"

lemma dseg_append: "dseg nx pv a (xs @ y # ys) b \<longleftrightarrow> dseg nx pv a xs y \<and> dseg nx pv y ys b"
  by (induction xs arbitrary: a) auto

lemma dseg_cong:
  "(\<And>i. i \<in> insert a (set xs) \<Longrightarrow> nx' i = nx i) \<Longrightarrow> (\<And>i. i \<in> insert b (set xs) \<Longrightarrow> pv' i = pv i) \<Longrightarrow>
   dseg nx' pv' a xs b = dseg nx pv a xs b"
  by (induction xs arbitrary: a) auto

lemma dseg_first: "dseg nx pv a xs b \<Longrightarrow> nx a = Some (hd (xs @ [b]))"
  by (cases xs) auto

lemma dseg_last: "dseg nx pv a xs b \<Longrightarrow> pv b = Some (last (a # xs))"
  by (induction xs arbitrary: a) auto

lemma dseg_remove:
  assumes "dseg nx pv a xs y" and "dseg nx pv y ys b" and "distinct (a # xs @ y # ys)"
    and "b \<notin> set (xs @ y # ys)" and "pv y = Some p" and "nx y = Some q"
  shows "dseg (nx(p := Some q)) (pv(q := Some p)) a (xs @ ys) b"
  using assms
proof (induction xs arbitrary: a)
  case Nil
  then have p: "p = a" by simp
  show ?case
  proof (cases ys)
    case Nil
    with \<open>dseg nx pv y ys b\<close> \<open>nx y = Some q\<close> p show ?thesis by simp
  next
    case (Cons z zs)
    have "dseg (nx(a := Some z)) (pv(z := Some a)) z zs b = dseg nx pv z zs b"
      using Cons Nil.prems(3,4) by (intro dseg_cong) auto
    moreover have "q = z" using Cons Nil.prems(2,6) by simp
    moreover have "dseg nx pv z zs b" using Cons Nil.prems(2) by simp
    ultimately show ?thesis
      unfolding Cons p append.simps dseg.simps by (intro conjI) (simp_all only: fun_upd_same)
  qed
next
  case (Cons x xs)
  have "p \<in> set (x # xs)" using dseg_last [OF Cons.prems(1)] Cons.prems(5) by auto
  moreover have "q \<in> set ys \<or> q = b" using dseg_first [OF Cons.prems(2)] Cons.prems(6) by (cases ys) auto
  ultimately have "p \<noteq> a" "q \<noteq> x" using Cons.prems(3,4) by auto
  then show ?case using Cons by auto
qed

lemma dseg_insert_last:
  assumes "dseg nx pv a xs b" and "pv b = Some l" and "distinct (a # xs)" and "b \<notin> set xs"
    and "y \<notin> set (a # b # xs)"
  shows "dseg (nx(y := Some b, l := Some y)) (pv(y := Some l, b := Some y)) a (xs @ [y]) b"
  using assms
proof (induction xs arbitrary: a)
  case (Cons x xs)
  have "l \<in> set (x # xs)" using dseg_last [OF Cons.prems(1)] Cons.prems(2) by auto
  then show ?case using Cons by auto
qed auto

lemma hlist_cong:
  "(\<And>i. i \<in> set L \<Longrightarrow> nx' i = nx i \<and> pv' i = pv i) \<Longrightarrow> hlist nx' pv' p q L = hlist nx pv p q L"
  by (induction L arbitrary: p q) auto

lemma hlist_suffix: "hlist nx pv p q (us @ x # vs) \<Longrightarrow> hlist nx pv (Some x) (nx x) vs"
  by (induction us arbitrary: p q) auto

lemma hlist_pv: "hlist nx pv p q (us @ x # vs) \<Longrightarrow> pv x = (if us = [] then p else Some (last us))"
  by (induction us arbitrary: p q) (auto split: if_splits)

definition opt_upd :: "links \<Rightarrow> nat option \<Rightarrow> nat option \<Rightarrow> links" where
  "opt_upd f q v = (case q of None \<Rightarrow> f | Some i \<Rightarrow> f(i := v))"

lemma opt_upd_simps [simp]: "opt_upd f None v = f" "opt_upd f (Some i) v = f(i := v)"
  by (simp_all add: opt_upd_def)

lemma opt_upd_other: "q \<noteq> Some i \<Longrightarrow> opt_upd f q v i = f i"
  by (cases q) auto

lemma hlist_rest:
  assumes "hlist nx pv (Some x) (nx x) vs" and "distinct (x # vs)" and "pv x = p" and "\<And>i. i \<in> set vs \<Longrightarrow> nx' i = nx i"
  shows "hlist nx' (opt_upd pv (nx x) p) p (nx x) vs"
proof (cases vs)
  case (Cons v ws)
  then have n: "nx x = Some v" using assms(1) by simp
  have "hlist nx' (pv(v := p)) (Some v) (nx v) ws = hlist nx pv (Some v) (nx v) ws"
    using assms(2,4) Cons by (intro hlist_cong) auto
  with assms Cons n show ?thesis by simp
qed (use assms in simp)

lemma hlist_remove_inner:
  assumes "hlist nx pv p0 q (us @ x # vs)" and "distinct (us @ x # vs)" and "us \<noteq> []"
  shows "hlist (opt_upd nx (pv x) (nx x)) (opt_upd pv (nx x) (pv x)) p0 q (us @ vs)"
  using assms
proof (induction us arbitrary: p0 q)
  case (Cons u us)
  show ?case
  proof (cases us)
    case Nil
    with Cons.prems have p: "pv x = Some u" "u \<noteq> x" "u \<notin> set vs" by auto
    have q: "nx x \<noteq> Some u" using Cons.prems Nil by (cases vs) auto
    have "hlist (nx(u := nx x)) (opt_upd pv (nx x) (pv x)) (pv x) (nx x) vs"
      using Cons.prems Nil p by (intro hlist_rest) auto
    moreover have "opt_upd pv (nx x) (pv x) u = pv u" using q by (rule opt_upd_other)
    moreover have "q = Some u" "pv u = p0" using Cons.prems(1) by simp_all
    ultimately show ?thesis
      unfolding Nil p append.simps hlist.simps opt_upd_simps by (simp only: fun_upd_same simp_thms)
  next
    case (Cons u' us')
    have IH: "hlist (opt_upd nx (pv x) (nx x)) (opt_upd pv (nx x) (pv x)) (Some u) (nx u) (us @ vs)"
      using Cons.IH Cons.prems \<open>us = u' # us'\<close> by auto
    have "pv x = Some (last us)" "last us \<in> set us"
      using hlist_pv [OF Cons.prems(1)] \<open>us = u' # us'\<close> by auto
    then have "pv x \<noteq> Some u" using Cons.prems(2) by auto
    moreover have "nx x \<noteq> Some u"
      using hlist_suffix [OF Cons.prems(1)] Cons.prems(2) by (cases vs) auto
    ultimately have "opt_upd nx (pv x) (nx x) u = nx u" "opt_upd pv (nx x) (pv x) u = pv u"
      by (auto intro: opt_upd_other)
    with IH Cons.prems show ?thesis by simp
  qed
qed simp

lemma hlist_remove_head:
  assumes "hlist nx pv None q (x # vs)" and "distinct (x # vs)"
  shows "hlist nx (opt_upd pv (nx x) None) None (nx x) vs"
  using assms by (intro hlist_rest) auto

lemma hlist_insert:
  assumes "hlist nx pv None q L" and "x \<notin> set L" and "distinct L"
  shows "hlist (nx(x := q)) (opt_upd (pv(x := None)) q (Some x)) None (Some x) (x # L)"
proof (cases L)
  case (Cons y M)
  have "hlist (nx(x := q)) (pv(x := None, y := Some x)) (Some y) (nx y) M = hlist nx pv (Some y) (nx y) M"
    using assms Cons by (intro hlist_cong) auto
  then show ?thesis using assms Cons by auto
qed (use assms in simp)

section \<open>Rings and hash queues\<close>

definition ring :: "links \<Rightarrow> links \<Rightarrow> nat \<Rightarrow> nat list \<Rightarrow> bool" where
  "ring nx pv fl R \<longleftrightarrow> (\<exists>xs. R = fl # xs \<and> dseg nx pv fl xs fl)"

lemma dseg_rotate: "dseg nx pv x (z # zs) x \<Longrightarrow> dseg nx pv z (zs @ [x]) z"
  by (simp add: dseg_append)

lemma dseg_mem:
  assumes "dseg nx pv a xs b" and "y \<in> set (a # xs)"
  shows "\<exists>q. nx y = Some q \<and> q \<in> set (xs @ [b])"
  using assms by (induction xs arbitrary: a) auto

lemma dseg_mem_pv:
  assumes "dseg nx pv a xs b" and "y \<in> set (xs @ [b])"
  shows "\<exists>q. pv y = Some q \<and> q \<in> set (a # xs)"
  using assms by (induction xs arbitrary: a) auto

lemma ring_links:
  assumes "ring nx pv fl R" and "y \<in> set R"
  obtains p q where "pv y = Some p" and "nx y = Some q" and "p \<in> set R" and "q \<in> set R"
  using assms dseg_mem [of nx pv fl _ fl y] dseg_mem_pv [of nx pv fl _ fl y]
  unfolding ring_def by fastforce

lemma ring_remove:
  assumes "ring nx pv fl R" and "distinct R" and "y \<in> set R" and "2 \<le> length R"
    and "pv y = Some p" and "nx y = Some q"
  shows "ring (nx(p := Some q)) (pv(q := Some p)) (if fl = y then q else fl) (remove1 y R)"
proof -
  obtain xs where R: "R = fl # xs" and d: "dseg nx pv fl xs fl" using assms(1) by (auto simp: ring_def)
  show ?thesis
  proof (cases "fl = y")
    case True
    obtain z zs where xs: "xs = z # zs" using R assms(4) by (cases xs) auto
    have d': "dseg nx pv z zs y" "dseg nx pv y [] z"
      using d dseg_rotate [of nx pv y z zs] unfolding xs True by (simp_all add: dseg_append)
    have "dseg (nx(p := Some q)) (pv(q := Some p)) z (zs @ []) z"
      by (rule dseg_remove [OF d']) (use assms R xs True in auto)
    moreover have "q = z" using d'(2) assms(6) by simp
    ultimately show ?thesis using True R xs by (simp add: ring_def)
  next
    case False
    then obtain us vs where xs: "xs = us @ y # vs" and nu: "y \<notin> set us"
      using assms(3) R by (metis set_ConsD split_list_first)
    have d': "dseg nx pv fl us y" "dseg nx pv y vs fl" using d unfolding xs by (simp_all add: dseg_append)
    have "dseg (nx(p := Some q)) (pv(q := Some p)) fl (us @ vs) fl"
      by (rule dseg_remove [OF d']) (use assms R xs in auto)
    then show ?thesis using False R xs nu by (simp add: ring_def remove1_append)
  qed
qed

lemma ring_append:
  assumes "ring nx pv fl R" and "distinct R" and "y \<notin> set R" and "pv fl = Some l"
  shows "ring (nx(y := Some fl, l := Some y)) (pv(y := Some l, fl := Some y)) fl (R @ [y])"
proof -
  obtain xs where R: "R = fl # xs" and d: "dseg nx pv fl xs fl" using assms(1) by (auto simp: ring_def)
  have "dseg (nx(y := Some fl, l := Some y)) (pv(y := Some l, fl := Some y)) fl (xs @ [y]) fl"
    by (rule dseg_insert_last [OF d assms(4)]) (use assms R in auto)
  then show ?thesis using R by (simp add: ring_def)
qed

text \<open>The hash table: \<open>key i\<close> is the queue that buffer \<open>i\<close> belongs to.\<close>

definition wf_hash :: "nat \<Rightarrow> links \<Rightarrow> links \<Rightarrow> nat option list \<Rightarrow> (nat \<Rightarrow> nat option) \<Rightarrow> (nat \<Rightarrow> nat list) \<Rightarrow> bool" where
  "wf_hash n nx pv ht key C \<longleftrightarrow> length ht = NR_HASH \<and>
     (\<forall>h < NR_HASH. hlist nx pv None (ht ! h) (C h) \<and> distinct (C h) \<and> set (C h) = {i. i < n \<and> key i = Some h})"

lemma hlist_mem:
  assumes "hlist nx pv p q L" and "x \<in> set L"
  shows "nx x = None \<or> (\<exists>y \<in> set L. nx x = Some y)"
  using assms
proof (induction L arbitrary: p q)
  case (Cons a L)
  show ?case
  proof (cases "x = a")
    case True
    with Cons.prems show ?thesis by (cases L) auto
  next
    case False
    with Cons show ?thesis by auto
  qed
qed simp

lemma hlist_mem_pv:
  assumes "hlist nx pv p q L" and "x \<in> set L"
  shows "pv x = p \<or> (\<exists>y \<in> set L. pv x = Some y)"
  using assms
proof (induction L arbitrary: p q)
  case (Cons a L)
  then show ?case using Cons.IH [of "Some a" "nx a"] by auto
qed simp

lemma wf_hash_links:
  assumes "wf_hash n nx pv ht key C" and "x < n" and "key x = Some h" and "h < NR_HASH"
  shows "nx x = Some y \<Longrightarrow> y < n \<and> key y = Some h" and "pv x = Some y \<Longrightarrow> y < n \<and> key y = Some h"
proof -
  have x: "x \<in> set (C h)" and l: "hlist nx pv None (ht ! h) (C h)" and s: "set (C h) = {i. i < n \<and> key i = Some h}"
    using assms by (auto simp: wf_hash_def)
  show "nx x = Some y \<Longrightarrow> y < n \<and> key y = Some h" using hlist_mem [OF l x] s by auto
  show "pv x = Some y \<Longrightarrow> y < n \<and> key y = Some h" using hlist_mem_pv [OF l x] s by auto
qed

lemma hlist_head: "hlist nx pv p q L \<Longrightarrow> q = (case L of [] \<Rightarrow> None | x # _ \<Rightarrow> Some x)"
  by (cases L) auto

lemma hlist_head_mem: "hlist nx pv p (Some y) L \<Longrightarrow> y \<in> set L"
  by (cases L) auto

lemma wf_hash_remove:
  assumes wf: "wf_hash n nx pv ht key C" and x: "x < n" and h0: "h0 < NR_HASH"
    and key: "key x = Some h0 \<or> (key x = None \<and> nx x = None \<and> pv x = None)"
  shows "wf_hash n (opt_upd nx (pv x) (nx x)) (opt_upd pv (nx x) (pv x))
    (if ht ! h0 = Some x then ht[h0 := nx x] else ht) (key(x := None)) (\<lambda>h. remove1 x (C h))"
  unfolding wf_hash_def
proof (intro conjI allI impI)
  let ?nx = "opt_upd nx (pv x) (nx x)" and ?pv = "opt_upd pv (nx x) (pv x)"
  let ?ht = "if ht ! h0 = Some x then ht[h0 := nx x] else ht"
  show "length ?ht = NR_HASH" using wf by (simp add: wf_hash_def)
  fix h assume h: "h < NR_HASH"
  have l: "hlist nx pv None (ht ! h) (C h)" and d: "distinct (C h)" and s: "set (C h) = {i. i < n \<and> key i = Some h}"
    using wf h by (auto simp: wf_hash_def)
  show "distinct (remove1 x (C h))" using d by simp
  show "set (remove1 x (C h)) = {i. i < n \<and> (key(x := None)) i = Some h}" using d s by auto
  show "hlist ?nx ?pv None (?ht ! h) (remove1 x (C h))"
  proof (cases "x \<in> set (C h)")
    case False
    have fr: "?nx i = nx i \<and> ?pv i = pv i" if "i \<in> set (C h)" for i
    proof -
      have i: "key i = Some h" and nx: "key x \<noteq> Some h" using that False s x by auto
      have "pv x \<noteq> Some i \<and> nx x \<noteq> Some i"
      proof (cases "key x")
        case None
        then show ?thesis using key by simp
      next
        case (Some k)
        then have "key x = Some h0" using key by simp
        with i nx wf_hash_links [OF wf x this h0, of i] show ?thesis by auto
      qed
      then show ?thesis by (auto intro: opt_upd_other)
    qed
    have "hlist ?nx ?pv None (ht ! h) (C h)"
      by (rule hlist_cong [THEN iffD2, OF fr l])
    moreover have "?ht ! h = ht ! h"
    proof (cases "h = h0")
      case True
      then have "ht ! h0 \<noteq> Some x" using l False hlist_head_mem by auto
      then show ?thesis by simp
    qed auto
    ultimately show ?thesis using False by (simp add: remove1_idem)
  next
    case True
    then have hh: "h = h0" using s key by auto
    obtain us vs where C: "C h = us @ x # vs" and nu: "x \<notin> set us" using True by (metis split_list_first)
    show ?thesis
    proof (cases "us = []")
      case True
      then have "ht ! h0 = Some x" "pv x = None" using l C hh by auto
      moreover have "hlist nx (opt_upd pv (nx x) None) None (nx x) vs"
        using hlist_remove_head [of nx pv "ht ! h" x vs] l d C True by simp
      moreover have "length ht = NR_HASH" using wf by (simp add: wf_hash_def)
      ultimately show ?thesis using True C hh h0 by simp
    next
      case False
      then have "ht ! h0 \<noteq> Some x" using l C hh nu by (cases us) auto
      moreover have "hlist ?nx ?pv None (ht ! h) (us @ vs)"
        using l d C False by (intro hlist_remove_inner) auto
      ultimately show ?thesis using C nu by (simp add: remove1_append)
    qed
  qed
qed

lemma wf_hash_insert:
  assumes wf: "wf_hash n nx pv ht key C" and x: "x < n" and h0: "h0 < NR_HASH" and key: "key x = None"
  shows "wf_hash n (nx(x := ht ! h0)) (opt_upd (pv(x := None)) (ht ! h0) (Some x)) (ht[h0 := Some x])
    (key(x := Some h0)) (C(h0 := x # C h0))"
  unfolding wf_hash_def
proof (intro conjI allI impI)
  let ?nx = "nx(x := ht ! h0)" and ?pv = "opt_upd (pv(x := None)) (ht ! h0) (Some x)"
  have len: "length ht = NR_HASH" using wf by (simp add: wf_hash_def)
  then show "length (ht[h0 := Some x]) = NR_HASH" by simp
  have l0: "hlist nx pv None (ht ! h0) (C h0)" and s0: "set (C h0) = {i. i < n \<and> key i = Some h0}" "distinct (C h0)"
    using wf h0 by (auto simp: wf_hash_def)
  fix h assume h: "h < NR_HASH"
  have l: "hlist nx pv None (ht ! h) (C h)" and d: "distinct (C h)" and s: "set (C h) = {i. i < n \<and> key i = Some h}"
    using wf h by (auto simp: wf_hash_def)
  have "x \<notin> set (C h0)" unfolding s0(1) using key by simp
  then show "distinct ((C(h0 := x # C h0)) h)" using d s0(2) by simp
  show "set ((C(h0 := x # C h0)) h) = {i. i < n \<and> (key(x := Some h0)) i = Some h}"
    using x key unfolding s s0(1) by (cases "h = h0") (auto simp: s s0(1))
  show "hlist ?nx ?pv None (ht[h0 := Some x] ! h) ((C(h0 := x # C h0)) h)"
  proof (cases "h = h0")
    case True
    have "hlist ?nx ?pv None (Some x) (x # C h0)"
      by (rule hlist_insert [OF l0]) (use s0 key in auto)
    then show ?thesis using True len h0 by (simp only: fun_upd_same) simp
  next
    case False
    have fr: "?nx i = nx i \<and> ?pv i = pv i" if "i \<in> set (C h)" for i
    proof -
      have ki: "key i = Some h" using that unfolding s by simp
      then have "i \<noteq> x" using key by auto
      moreover have "ht ! h0 \<noteq> Some i"
      proof
        assume "ht ! h0 = Some i"
        then have "i \<in> set (C h0)" using l0 hlist_head_mem by metis
        then have "key i = Some h0" unfolding s0(1) by simp
        with ki show False using False by simp
      qed
      ultimately show ?thesis by (auto simp: opt_upd_other)
    qed
    have "hlist ?nx ?pv None (ht ! h) (C h)"
      by (rule hlist_cong [THEN iffD2, OF fr l])
    then show ?thesis using False by simp
  qed
qed

end
