(* ===== verification/Cache.thy ===== *)
theory Cache
  imports Buffer Dlinks
begin

text \<open>
  Correctness of the buffer cache: the pointer structure of \<open>fs/buffer.c\<close> refines a list of
  buffers in order of last use and one list for each hash queue (\<open>wf_cache\<close>); \<open>getblk\<close>
  keeps this invariant, finds a block exactly when it is in the cache and otherwise reuses the
  least recently used clean buffer.
\<close>

section \<open>The links of the buffer heads\<close>

definition bnx :: "buffer_head list \<Rightarrow> links" where "bnx bs = (\<lambda>i. b_next (bs ! i))"
definition bpv :: "buffer_head list \<Rightarrow> links" where "bpv bs = (\<lambda>i. b_prev (bs ! i))"
definition bnfr :: "buffer_head list \<Rightarrow> links" where "bnfr bs = (\<lambda>i. b_next_free (bs ! i))"
definition bpfr :: "buffer_head list \<Rightarrow> links" where "bpfr bs = (\<lambda>i. b_prev_free (bs ! i))"

text \<open>A buffer head without its links.\<close>

definition core :: "buffer_head \<Rightarrow> buffer_head" where
  "core b = b\<lparr>b_prev := None, b_next := None, b_prev_free := None, b_next_free := None\<rparr>"

definition same_core :: "buffer_head list \<Rightarrow> buffer_head list \<Rightarrow> bool" where
  "same_core bs bs' \<longleftrightarrow> length bs' = length bs \<and> (\<forall>i. core (bs' ! i) = core (bs ! i))"

lemma same_core_refl: "same_core bs bs"
  by (simp add: same_core_def)

lemma same_core_trans: "same_core as bs \<Longrightarrow> same_core bs cs \<Longrightarrow> same_core as cs"
  by (simp add: same_core_def)

lemma same_core_len: "same_core bs bs' \<Longrightarrow> length bs' = length bs"
  by (simp add: same_core_def)

lemma coreD:
  assumes "core b' = core b"
  shows "b_dev b' = b_dev b" "b_blocknr b' = b_blocknr b" "b_data b' = b_data b" "b_count b' = b_count b" "b_uptodate b' = b_uptodate b" "b_dirt b' = b_dirt b" "b_lock b' = b_lock b" "b_wait b' = b_wait b"
proof -
  show "b_dev b' = b_dev b" using arg_cong [OF assms, of b_dev] by (simp add: core_def)
  show "b_blocknr b' = b_blocknr b" using arg_cong [OF assms, of b_blocknr] by (simp add: core_def)
  show "b_data b' = b_data b" using arg_cong [OF assms, of b_data] by (simp add: core_def)
  show "b_count b' = b_count b" using arg_cong [OF assms, of b_count] by (simp add: core_def)
  show "b_uptodate b' = b_uptodate b" using arg_cong [OF assms, of b_uptodate] by (simp add: core_def)
  show "b_dirt b' = b_dirt b" using arg_cong [OF assms, of b_dirt] by (simp add: core_def)
  show "b_lock b' = b_lock b" using arg_cong [OF assms, of b_lock] by (simp add: core_def)
  show "b_wait b' = b_wait b" using arg_cong [OF assms, of b_wait] by (simp add: core_def)
qed

lemma same_coreD:
  assumes "same_core bs bs'"
  shows "b_dev (bs' ! i) = b_dev (bs ! i)" "b_blocknr (bs' ! i) = b_blocknr (bs ! i)" "b_data (bs' ! i) = b_data (bs ! i)" "b_count (bs' ! i) = b_count (bs ! i)" "b_uptodate (bs' ! i) = b_uptodate (bs ! i)" "b_dirt (bs' ! i) = b_dirt (bs ! i)" "b_lock (bs' ! i) = b_lock (bs ! i)" "b_wait (bs' ! i) = b_wait (bs ! i)"
  using assms coreD [of "bs' ! i" "bs ! i"] by (simp_all add: same_core_def)

text \<open>One link of one buffer is set.\<close>

lemma links_set [simp]:
  assumes "i < length bs"
  shows "bnx (bs[i := (bs ! i)\<lparr>b_next := v\<rparr>]) = (bnx bs)(i := v)"
    "bnx (bs[i := (bs ! i)\<lparr>b_prev := v\<rparr>]) = bnx bs" "bnx (bs[i := (bs ! i)\<lparr>b_next_free := v\<rparr>]) = bnx bs"
    "bnx (bs[i := (bs ! i)\<lparr>b_prev_free := v\<rparr>]) = bnx bs"
    "bpv (bs[i := (bs ! i)\<lparr>b_prev := v\<rparr>]) = (bpv bs)(i := v)"
    "bpv (bs[i := (bs ! i)\<lparr>b_next := v\<rparr>]) = bpv bs" "bpv (bs[i := (bs ! i)\<lparr>b_next_free := v\<rparr>]) = bpv bs"
    "bpv (bs[i := (bs ! i)\<lparr>b_prev_free := v\<rparr>]) = bpv bs"
    "bnfr (bs[i := (bs ! i)\<lparr>b_next_free := v\<rparr>]) = (bnfr bs)(i := v)"
    "bnfr (bs[i := (bs ! i)\<lparr>b_prev := v\<rparr>]) = bnfr bs" "bnfr (bs[i := (bs ! i)\<lparr>b_next := v\<rparr>]) = bnfr bs"
    "bnfr (bs[i := (bs ! i)\<lparr>b_prev_free := v\<rparr>]) = bnfr bs"
    "bpfr (bs[i := (bs ! i)\<lparr>b_prev_free := v\<rparr>]) = (bpfr bs)(i := v)"
    "bpfr (bs[i := (bs ! i)\<lparr>b_prev := v\<rparr>]) = bpfr bs" "bpfr (bs[i := (bs ! i)\<lparr>b_next := v\<rparr>]) = bpfr bs"
    "bpfr (bs[i := (bs ! i)\<lparr>b_next_free := v\<rparr>]) = bpfr bs"
  using assms by (auto simp: bnx_def bpv_def bnfr_def bpfr_def fun_eq_iff nth_upd_any)

lemma same_core_set [simp]:
  assumes "i < length bs"
  shows "same_core bs (bs[i := (bs ! i)\<lparr>b_next := v\<rparr>])" "same_core bs (bs[i := (bs ! i)\<lparr>b_prev := v\<rparr>])"
    "same_core bs (bs[i := (bs ! i)\<lparr>b_next_free := v\<rparr>])" "same_core bs (bs[i := (bs ! i)\<lparr>b_prev_free := v\<rparr>])"
  using assms by (auto simp: same_core_def core_def nth_upd_any)

text \<open>\<open>set_link\<close> steps: the program changes one link field of one buffer at a time.\<close>

definition set_nx :: "nat option \<Rightarrow> nat option \<Rightarrow> buffer_head list \<Rightarrow> buffer_head list" where
  "set_nx q v bs = (case q of None \<Rightarrow> bs | Some i \<Rightarrow> bs[i := (bs ! i)\<lparr>b_next := v\<rparr>])"
definition set_pv :: "nat option \<Rightarrow> nat option \<Rightarrow> buffer_head list \<Rightarrow> buffer_head list" where
  "set_pv q v bs = (case q of None \<Rightarrow> bs | Some i \<Rightarrow> bs[i := (bs ! i)\<lparr>b_prev := v\<rparr>])"

lemma set_nx_links:
  assumes "\<And>i. q = Some i \<Longrightarrow> i < length bs"
  shows "bnx (set_nx q v bs) = opt_upd (bnx bs) q v" "bpv (set_nx q v bs) = bpv bs"
    "bnfr (set_nx q v bs) = bnfr bs" "bpfr (set_nx q v bs) = bpfr bs" "same_core bs (set_nx q v bs)"
    "length (set_nx q v bs) = length bs"
  using assms by (auto simp: set_nx_def same_core_refl split: option.split)

lemma set_pv_links:
  assumes "\<And>i. q = Some i \<Longrightarrow> i < length bs"
  shows "bnx (set_pv q v bs) = bnx bs" "bpv (set_pv q v bs) = opt_upd (bpv bs) q v"
    "bnfr (set_pv q v bs) = bnfr bs" "bpfr (set_pv q v bs) = bpfr bs" "same_core bs (set_pv q v bs)"
    "length (set_pv q v bs) = length bs"
  using assms by (auto simp: set_pv_def same_core_refl split: option.split)

text \<open>The hash queue half of \<open>remove_from_queues\<close>.\<close>

lemma remove_hash_run:
  assumes bh: "bh < length (buffers s)"
    and nx: "\<And>i. bnx (buffers s) bh = Some i \<Longrightarrow> i < length (buffers s) \<and> i \<noteq> bh"
    and pv: "\<And>i. bpv (buffers s) bh = Some i \<Longrightarrow> i < length (buffers s) \<and> i \<noteq> bh"
    and h: "h = hashfn (b_dev (buffers s ! bh)) (b_blocknr (buffers s ! bh))"
  shows "\<exists>bs'. remove_hash bh s = Ret () (s\<lparr>buffers := bs',
      hash_table := if hash_table s ! h = Some bh then (hash_table s)[h := bnx (buffers s) bh] else hash_table s\<rparr>) \<and>
    same_core (buffers s) bs' \<and> bnfr bs' = bnfr (buffers s) \<and> bpfr bs' = bpfr (buffers s) \<and>
    bnx bs' = opt_upd (bnx (buffers s)) (bpv (buffers s) bh) (bnx (buffers s) bh) \<and>
    bpv bs' = opt_upd (bpv (buffers s)) (bnx (buffers s) bh) (bpv (buffers s) bh)"
proof -
  let ?bs = "buffers s" and ?nx = "bnx (buffers s) bh" and ?pv = "bpv (buffers s) bh"
  define bs1 where "bs1 = set_pv ?nx ?pv ?bs"
  define bs2 where "bs2 = set_nx ?pv ?nx bs1"
  have r1: "\<And>i. ?nx = Some i \<Longrightarrow> i < length ?bs" using nx by blast
  have len: "length bs1 = length ?bs" using set_pv_links [OF r1] by (simp add: bs1_def)
  have r2: "\<And>i. ?pv = Some i \<Longrightarrow> i < length bs1" using pv len by simp
  note l1 = set_pv_links [of ?nx ?bs ?pv, OF r1, folded bs1_def]
    and l2 = set_nx_links [of ?pv bs1 ?nx, OF r2, folded bs2_def]
  have b1: "bs1 ! bh = ?bs ! bh"
    using nx by (cases ?nx) (auto simp: bs1_def set_pv_def)
  have b2: "bs2 ! bh = ?bs ! bh"
    using pv b1 by (cases ?pv) (auto simp: bs2_def set_nx_def)
  have "remove_hash bh s = Ret () (s\<lparr>buffers := bs2,
      hash_table := if hash_table s ! h = Some bh then (hash_table s)[h := ?nx] else hash_table s\<rparr>)"
    using bh nx pv h b1 b2 len l2(6)
    by (cases ?nx; cases ?pv)
       (simp_all add: remove_hash_def km_simps set_hash_def bnx_def bpv_def bs1_def bs2_def set_pv_def set_nx_def)
  with l1 l2 show ?thesis
    by (intro exI [of _ bs2]) (simp add: same_core_trans)
qed

definition setnf :: "nat \<Rightarrow> nat option \<Rightarrow> buffer_head list \<Rightarrow> buffer_head list" where
  "setnf i v bs = bs[i := (bs ! i)\<lparr>b_next_free := v\<rparr>]"
definition setpf :: "nat \<Rightarrow> nat option \<Rightarrow> buffer_head list \<Rightarrow> buffer_head list" where
  "setpf i v bs = bs[i := (bs ! i)\<lparr>b_prev_free := v\<rparr>]"

lemma set_free_links [simp]:
  assumes "i < length bs"
  shows "bnfr (setnf i v bs) = (bnfr bs)(i := v)" "bpfr (setnf i v bs) = bpfr bs"
    "bnfr (setpf i v bs) = bnfr bs" "bpfr (setpf i v bs) = (bpfr bs)(i := v)"
    "bnx (setnf i v bs) = bnx bs" "bpv (setnf i v bs) = bpv bs" "bnx (setpf i v bs) = bnx bs" "bpv (setpf i v bs) = bpv bs"
    "same_core bs (setnf i v bs)" "same_core bs (setpf i v bs)"
    using assms by (simp_all add: setnf_def setpf_def)

lemma set_free_length [simp]: "length (setnf i v bs) = length bs" "length (setpf i v bs) = length bs"
  by (simp_all add: setnf_def setpf_def)

lemma remove_free_run:
  assumes "bh < length (buffers s)" and "bpfr (buffers s) bh = Some p" and "bnfr (buffers s) bh = Some q"
    and "p < length (buffers s)" and "q < length (buffers s)"
  shows "\<exists>bs'. remove_free bh s = Ret () (s\<lparr>buffers := bs',
      free_list := if free_list s = bh then q else free_list s\<rparr>) \<and>
    same_core (buffers s) bs' \<and> bnx bs' = bnx (buffers s) \<and> bpv bs' = bpv (buffers s) \<and>
    bnfr bs' = (bnfr (buffers s))(p := Some q) \<and> bpfr bs' = (bpfr (buffers s))(q := Some p)"
proof -
  let ?bs' = "setpf q (Some p) (setnf p (Some q) (buffers s))"
  have "remove_free bh s = Ret () (s\<lparr>buffers := ?bs', free_list := if free_list s = bh then q else free_list s\<rparr>)"
    using assms by (simp add: remove_free_def km_simps bnfr_def bpfr_def setnf_def setpf_def)
  moreover have "same_core (buffers s) ?bs'"
    using assms by (intro same_core_trans [OF set_free_links(9) set_free_links(10)]) simp_all
  ultimately show ?thesis using assms by (intro exI [of _ ?bs']) simp
qed

lemma insert_free_run:
  assumes "bh < length (buffers s)" and "fl = free_list s" and "fl < length (buffers s)" and "bh \<noteq> fl"
    and "bpfr (buffers s) fl = Some l" and "l < length (buffers s)"
  shows "\<exists>bs'. insert_free bh s = Ret () (s\<lparr>buffers := bs'\<rparr>) \<and>
    same_core (buffers s) bs' \<and> bnx bs' = bnx (buffers s) \<and> bpv bs' = bpv (buffers s) \<and>
    bnfr bs' = (bnfr (buffers s))(bh := Some fl, l := Some bh) \<and>
    bpfr bs' = (bpfr (buffers s))(bh := Some l, fl := Some bh)"
proof -
  let ?bs1 = "setpf bh (Some l) (setnf bh (Some fl) (buffers s))"
  let ?bs' = "setpf fl (Some bh) (setnf l (Some bh) ?bs1)"
  have fl1: "b_prev_free (setnf bh (Some fl) (buffers s) ! fl) = Some l" "b_prev_free (?bs1 ! fl) = Some l"
    using assms by (simp_all add: setnf_def setpf_def bpfr_def)
  have "insert_free bh s = Ret () (s\<lparr>buffers := ?bs'\<rparr>)"
    using assms fl1 by (simp add: insert_free_def km_simps setnf_def setpf_def)
  moreover have c1: "same_core (buffers s) ?bs1"
    using assms by (intro same_core_trans [OF set_free_links(9) set_free_links(10)]) simp_all
  moreover have "same_core ?bs1 ?bs'"
    using assms by (intro same_core_trans [OF set_free_links(9) set_free_links(10)]) simp_all
  ultimately show ?thesis
    using assms by (intro exI [of _ ?bs']) (simp add: same_core_trans [OF c1])
qed

lemma insert_hash_run:
  assumes "bh < length (buffers s)" and "b_dev (buffers s ! bh) \<noteq> 0"
    and h: "h = hashfn (b_dev (buffers s ! bh)) (b_blocknr (buffers s ! bh))"
    and r: "\<And>i. hash_table s ! h = Some i \<Longrightarrow> i < length (buffers s) \<and> i \<noteq> bh"
  shows "\<exists>bs' z. insert_hash bh s = Ret () (s\<lparr>buffers := bs', hash_table := (hash_table s)[h := Some bh], null_b_prev := z\<rparr>) \<and>
    same_core (buffers s) bs' \<and> bnfr bs' = bnfr (buffers s) \<and> bpfr bs' = bpfr (buffers s) \<and>
    bnx bs' = (bnx (buffers s))(bh := hash_table s ! h) \<and>
    bpv bs' = opt_upd ((bpv (buffers s))(bh := None)) (hash_table s ! h) (Some bh)"
proof -
  let ?bs = "buffers s" and ?q = "hash_table s ! h"
  let ?bs1 = "?bs[bh := (?bs ! bh)\<lparr>b_prev := None, b_next := ?q\<rparr>]"
  let ?bs' = "set_pv ?q (Some bh) ?bs1"
  have l: "same_core ?bs ?bs1" "bnfr ?bs1 = bnfr ?bs" "bpfr ?bs1 = bpfr ?bs" "bnx ?bs1 = (bnx ?bs)(bh := ?q)"
      "bpv ?bs1 = (bpv ?bs)(bh := None)" "length ?bs1 = length ?bs"
    using assms(1)
    by (auto simp: bnx_def bpv_def bnfr_def bpfr_def fun_eq_iff nth_upd_any same_core_def core_def)
  have l': "\<And>i. ?q = Some i \<Longrightarrow> i < length ?bs1" using r l(6) by simp
  note m = set_pv_links [of ?q ?bs1 "Some bh", OF l']
  have "\<exists>z. insert_hash bh s = Ret () (s\<lparr>buffers := ?bs', hash_table := (hash_table s)[h := Some bh], null_b_prev := z\<rparr>)"
  proof (cases ?q)
    case None
    then show ?thesis using assms(1,2) h
      by (intro exI [of _ "Some bh"]) (simp add: insert_hash_def km_simps set_hash_def set_nx_def set_pv_def)
  next
    case (Some i)
    then show ?thesis using assms(1,2) h r [OF Some]
      by (intro exI [of _ "null_b_prev s"]) (simp add: insert_hash_def km_simps set_hash_def set_nx_def set_pv_def)
  qed
  then obtain z where "insert_hash bh s = Ret () (s\<lparr>buffers := ?bs', hash_table := (hash_table s)[h := Some bh], null_b_prev := z\<rparr>)" ..
  with l m same_core_trans [OF l(1) m(5)] show ?thesis
    by (intro exI [of _ ?bs'] exI [of _ z]) simp
qed

section \<open>The cache invariant\<close>

definition bkey :: "buffer_head list \<Rightarrow> nat \<Rightarrow> nat option" where
  "bkey bs i = (if b_dev (bs ! i) = 0 then None else Some (hashfn (b_dev (bs ! i)) (b_blocknr (bs ! i))))"

definition holds :: "buffer_head list \<Rightarrow> nat \<Rightarrow> u16 \<Rightarrow> u32 \<Rightarrow> bool" where
  "holds bs i dev block \<longleftrightarrow> i < length bs \<and> b_dev (bs ! i) = dev \<and> b_blocknr (bs ! i) = block"

text \<open>
  \<open>R\<close> is the free list, least recently used buffer first, and \<open>C h\<close> the hash queue \<open>h\<close>.
  No block is in two buffers.
\<close>

definition wf_cache :: "'a blk_scheme \<Rightarrow> nat list \<Rightarrow> (nat \<Rightarrow> nat list) \<Rightarrow> bool" where
  "wf_cache s R C \<longleftrightarrow> (let bs = buffers s in
     2 \<le> length bs \<and> distinct R \<and> set R = {..<length bs} \<and>
     ring (bnfr bs) (bpfr bs) (free_list s) R \<and>
     wf_hash (length bs) (bnx bs) (bpv bs) (hash_table s) (bkey bs) C \<and>
     (\<forall>i < length bs. bkey bs i = None \<longrightarrow> bnx bs i = None \<and> bpv bs i = None) \<and>
     (\<forall>i j dev block. dev \<noteq> 0 \<longrightarrow> holds bs i dev block \<longrightarrow> holds bs j dev block \<longrightarrow> i = j) \<and>
     (\<forall>i < length bs. length (b_data (bs ! i)) = BLOCK_SIZE))"

lemma wf_cacheD:
  assumes "wf_cache s R C"
  shows "2 \<le> length (buffers s)" "distinct R" "set R = {..<length (buffers s)}"
    "ring (bnfr (buffers s)) (bpfr (buffers s)) (free_list s) R"
    "wf_hash (length (buffers s)) (bnx (buffers s)) (bpv (buffers s)) (hash_table s) (bkey (buffers s)) C"
    "\<And>i. i < length (buffers s) \<Longrightarrow> bkey (buffers s) i = None \<Longrightarrow> bnx (buffers s) i = None \<and> bpv (buffers s) i = None"
    "\<And>i j dev block. dev \<noteq> 0 \<Longrightarrow> holds (buffers s) i dev block \<Longrightarrow> holds (buffers s) j dev block \<Longrightarrow> i = j"
    "\<And>i. i < length (buffers s) \<Longrightarrow> length (b_data (buffers s ! i)) = BLOCK_SIZE"
  using assms unfolding wf_cache_def Let_def by blast+

lemma hashfn_less [simp]: "hashfn dev block < NR_HASH"
  by (simp add: hashfn_def)

lemma same_core_bkey: "same_core bs bs' \<Longrightarrow> bkey bs' = bkey bs"
  by (rule ext) (simp add: bkey_def same_coreD(1,2))

text \<open>\<open>find_buffer\<close> finds exactly the buffer that holds the block.\<close>

lemma find_walk_list:
  assumes "hlist (bnx bs) pv p q L" and "length L \<le> n"
  shows "find_walk n bs q dev block = Some (find (\<lambda>i. b_dev (bs ! i) = dev \<and> b_blocknr (bs ! i) = block) L)"
  using assms
proof (induction L arbitrary: p q n)
  case (Cons x L)
  then obtain k where "n = Suc k" by (cases n) auto
  with Cons show ?case by (auto simp: bnx_def)
qed simp

lemma wf_cache_chain:
  assumes "wf_cache s R C" and "h < NR_HASH"
  shows "hlist (bnx (buffers s)) (bpv (buffers s)) None (hash_table s ! h) (C h)" "distinct (C h)"
    "set (C h) = {i. i < length (buffers s) \<and> bkey (buffers s) i = Some h}" "length (C h) \<le> length (buffers s)"
proof -
  note w = wf_cacheD(5) [OF assms(1), unfolded wf_hash_def]
  show "hlist (bnx (buffers s)) (bpv (buffers s)) None (hash_table s ! h) (C h)" "distinct (C h)"
    "set (C h) = {i. i < length (buffers s) \<and> bkey (buffers s) i = Some h}"
    using w assms(2) by blast+
  then have "card (set (C h)) \<le> card {..<length (buffers s)}" by (intro card_mono) auto
  then show "length (C h) \<le> length (buffers s)" using \<open>distinct (C h)\<close> by (simp add: distinct_card)
qed

lemma find_buffer_spec:
  assumes wf: "wf_cache s R C" and dev: "dev \<noteq> 0"
  shows "(find_buffer dev block s = Ret None s \<and> (\<forall>i. \<not> holds (buffers s) i dev block)) \<or>
    (\<exists>i. find_buffer dev block s = Ret (Some i) s \<and> holds (buffers s) i dev block)"
proof -
  let ?h = "hashfn dev block" and ?P = "\<lambda>i. b_dev (buffers s ! i) = dev \<and> b_blocknr (buffers s ! i) = block"
  note c = wf_cache_chain [OF wf hashfn_less [of dev block]]
  have run: "find_buffer dev block s = Ret (find ?P (C ?h)) s"
    using find_walk_list [OF c(1) c(4)] by (simp add: find_buffer_def km_simps)
  show ?thesis
  proof (cases "find ?P (C ?h)")
    case None
    have "\<not> holds (buffers s) i dev block" for i
    proof
      assume h: "holds (buffers s) i dev block"
      then have "i \<in> set (C ?h)" unfolding c(3) using dev by (simp add: holds_def bkey_def)
      with None h show False by (auto simp: find_None_iff holds_def)
    qed
    with None run show ?thesis by simp
  next
    case (Some i)
    then have "i \<in> set (C ?h)" "?P i" by (auto simp: find_Some_iff)
    then have "holds (buffers s) i dev block" using c(3) by (auto simp: holds_def)
    with Some run show ?thesis by simp
  qed
qed

text \<open>A change of other fields than links, device and block number keeps the invariant.\<close>

definition same_links :: "buffer_head \<Rightarrow> buffer_head \<Rightarrow> bool" where
  "same_links b b' \<longleftrightarrow> b_next b' = b_next b \<and> b_prev b' = b_prev b \<and> b_next_free b' = b_next_free b \<and>
     b_prev_free b' = b_prev_free b \<and> b_dev b' = b_dev b \<and> b_blocknr b' = b_blocknr b \<and>
     length (b_data b') = length (b_data b)"

lemma wf_cache_update:
  assumes wf: "wf_cache s R C" and i: "i < length (buffers s)" and sl: "same_links (buffers s ! i) b'"
    and t: "buffers t = (buffers s)[i := b']" "hash_table t = hash_table s" "free_list t = free_list s"
  shows "wf_cache t R C"
proof -
  have "bnx (buffers t) = bnx (buffers s)" "bpv (buffers t) = bpv (buffers s)" "bnfr (buffers t) = bnfr (buffers s)"
      "bpfr (buffers t) = bpfr (buffers s)" "bkey (buffers t) = bkey (buffers s)"
      "holds (buffers t) = holds (buffers s)" "length (buffers t) = length (buffers s)"
    using i sl t by (auto simp: bnx_def bpv_def bnfr_def bpfr_def bkey_def holds_def fun_eq_iff nth_upd_any same_links_def)
  moreover have "length (b_data (buffers t ! j)) = length (b_data (buffers s ! j))" for j
    using i sl t by (auto simp: nth_upd_any same_links_def)
  ultimately show ?thesis using wf t unfolding wf_cache_def Let_def by simp
qed

lemma wf_cache_cong:
  "buffers t = buffers s \<Longrightarrow> hash_table t = hash_table s \<Longrightarrow> free_list t = free_list s \<Longrightarrow> wf_cache t R C = wf_cache s R C"
  by (simp add: wf_cache_def)

text \<open>
  \<open>remove_from_queues\<close> followed by \<open>insert_into_queues\<close> moves a buffer to the end of the
  free list and into the hash queue of its new block.
\<close>

definition moved :: "(nat \<Rightarrow> nat list) \<Rightarrow> nat \<Rightarrow> nat \<Rightarrow> (nat \<Rightarrow> nat list)" where
  "moved C bh h = (\<lambda>k. (if k = h then [bh] else []) @ remove1 bh (C k))"

definition claimed :: "buffer_head \<Rightarrow> u16 \<Rightarrow> u32 \<Rightarrow> buffer_head" where
  "claimed b dev block = b\<lparr>b_count := 1, b_dirt := 0, b_uptodate := 0, b_dev := dev, b_blocknr := block\<rparr>"

lemma remove_from_queues_run:
  assumes wf: "wf_cache s R C" and bh: "bh < length (buffers s)"
  obtains bs' fl' ht' where "remove_from_queues bh s = Ret () (s\<lparr>buffers := bs', hash_table := ht', free_list := fl'\<rparr>)"
    and "same_core (buffers s) bs'" and "ring (bnfr bs') (bpfr bs') fl' (remove1 bh R)"
    and "wf_hash (length bs') (bnx bs') (bpv bs') ht' ((bkey (buffers s))(bh := None)) (\<lambda>h. remove1 bh (C h))"
    and "\<And>i. i < length bs' \<Longrightarrow> bkey (buffers s) i = None \<Longrightarrow> bnx bs' i = None \<and> bpv bs' i = None"
proof -
  let ?bs = "buffers s"
  note w = wf_cacheD [OF wf]
  define h where "h = hashfn (b_dev (?bs ! bh)) (b_blocknr (?bs ! bh))"
  have h: "h < NR_HASH" by (simp add: h_def)
  have key: "bkey ?bs bh = Some h \<or> (bkey ?bs bh = None \<and> bnx ?bs bh = None \<and> bpv ?bs bh = None)"
    using w(6) [OF bh] by (auto simp: bkey_def h_def)
  have "bkey ?bs bh = Some h" if "bnx ?bs bh = Some i \<or> bpv ?bs bh = Some i" for i
    using key that by auto
  then have lk: "\<And>i. bnx ?bs bh = Some i \<Longrightarrow> i < length ?bs \<and> bkey ?bs i = Some h"
      "\<And>i. bpv ?bs bh = Some i \<Longrightarrow> i < length ?bs \<and> bkey ?bs i = Some h"
    using wf_hash_links [OF w(5) bh _ h] by blast+
  have ch: "hlist (bnx ?bs) (bpv ?bs) None (hash_table s ! h) (C h)" "distinct (C h)"
    using wf_cache_chain [OF wf h] by blast+
  have self: "bnx ?bs bh \<noteq> Some bh \<and> bpv ?bs bh \<noteq> Some bh"
  proof (cases "bh \<in> set (C h)")
    case True
    then obtain us vs where C: "C h = us @ bh # vs" by (meson split_list)
    have "hlist (bnx ?bs) (bpv ?bs) (Some bh) (bnx ?bs bh) vs" using hlist_suffix ch(1) unfolding C by blast
    then have "bnx ?bs bh \<noteq> Some bh" using ch(2) unfolding C by (cases vs) auto
    moreover have "bpv ?bs bh = (if us = [] then None else Some (last us))"
      using hlist_pv ch(1) unfolding C by blast
    then have "bpv ?bs bh \<noteq> Some bh" using ch(2) last_in_set [of us] unfolding C by auto
    ultimately show ?thesis by simp
  next
    case False
    then have "bkey ?bs bh = None" using key wf_cache_chain(3) [OF wf h] bh by auto
    then show ?thesis using w(6) [OF bh] by simp
  qed
  obtain bs1 where r1: "remove_hash bh s = Ret () (s\<lparr>buffers := bs1,
      hash_table := if hash_table s ! h = Some bh then (hash_table s)[h := bnx ?bs bh] else hash_table s\<rparr>)"
    and c1: "same_core ?bs bs1" and f1: "bnfr bs1 = bnfr ?bs" "bpfr bs1 = bpfr ?bs"
    and n1: "bnx bs1 = opt_upd (bnx ?bs) (bpv ?bs bh) (bnx ?bs bh)" "bpv bs1 = opt_upd (bpv ?bs) (bnx ?bs bh) (bpv ?bs bh)"
    using remove_hash_run [OF bh _ _ h_def] lk self by blast
  define ht' where "ht' = (if hash_table s ! h = Some bh then (hash_table s)[h := bnx ?bs bh] else hash_table s)"
  let ?s1 = "s\<lparr>buffers := bs1, hash_table := ht'\<rparr>"
  have len1: "length bs1 = length ?bs" using c1 by (rule same_core_len)
  have "bh \<in> set R" using w(3) bh by simp
  then obtain p q where pq: "bpfr ?bs bh = Some p" "bnfr ?bs bh = Some q" "p \<in> set R" "q \<in> set R"
    using ring_links [OF w(4)] by blast
  have pre: "bh < length (buffers ?s1)" "bpfr (buffers ?s1) bh = Some p" "bnfr (buffers ?s1) bh = Some q"
      "p < length (buffers ?s1)" "q < length (buffers ?s1)"
    using bh len1 f1 pq w(3) by auto
  obtain bs2 where r2: "remove_free bh ?s1 = Ret () (?s1\<lparr>buffers := bs2,
      free_list := if free_list ?s1 = bh then q else free_list ?s1\<rparr>)"
    and c2: "same_core (buffers ?s1) bs2" and n2: "bnx bs2 = bnx (buffers ?s1)" "bpv bs2 = bpv (buffers ?s1)"
    and f2: "bnfr bs2 = (bnfr (buffers ?s1))(p := Some q)" "bpfr bs2 = (bpfr (buffers ?s1))(q := Some p)"
    using remove_free_run [OF pre] by blast
  have s1: "buffers ?s1 = bs1" "free_list ?s1 = free_list s" by simp_all
  note c2 = c2 [unfolded s1] and n2 = n2 [unfolded s1] and f2 = f2 [unfolded s1] and r2 = r2 [unfolded s1(2)]
  have len: "length R = length ?bs" using w(2,3) by (metis card_lessThan distinct_card)
  show thesis
  proof (rule that)
    show "remove_from_queues bh s = Ret () (s\<lparr>buffers := bs2, hash_table := ht',
        free_list := if free_list s = bh then q else free_list s\<rparr>)"
      using r1 r2 by (simp add: remove_from_queues_def kbind_def ht'_def)
    show c: "same_core ?bs bs2" using c1 c2 by (rule same_core_trans)
    show "ring (bnfr bs2) (bpfr bs2) (if free_list s = bh then q else free_list s) (remove1 bh R)"
      unfolding f2 f1 using ring_remove [OF w(4,2) \<open>bh \<in> set R\<close> _ pq(1,2)] w(1) len by simp
    show "wf_hash (length bs2) (bnx bs2) (bpv bs2) ht' ((bkey ?bs)(bh := None)) (\<lambda>h. remove1 bh (C h))"
      unfolding n2 n1 same_core_len [OF c] ht'_def by (rule wf_hash_remove [OF w(5) bh h key])
    show "bnx bs2 i = None \<and> bpv bs2 i = None" if "i < length bs2" "bkey ?bs i = None" for i
    proof -
      have "bpv ?bs bh \<noteq> Some i" "bnx ?bs bh \<noteq> Some i" using lk [of i] that(2) by auto
      then show ?thesis
        unfolding n2 n1 using w(6) [of i] that same_core_len [OF c] by (simp add: opt_upd_other)
    qed
  qed
qed

lemma insert_into_queues_run:
  assumes R: "ring (bnfr (buffers s)) (bpfr (buffers s)) (free_list s) R" "distinct R" "set R \<subseteq> {..<length (buffers s)}"
    and bh: "bh < length (buffers s)" "bh \<notin> set R" "b_dev (buffers s ! bh) \<noteq> 0"
    and H: "wf_hash (length (buffers s)) (bnx (buffers s)) (bpv (buffers s)) (hash_table s) key C" "key bh = None"
    and U: "\<forall>i < length (buffers s). key i = None \<longrightarrow> i \<noteq> bh \<longrightarrow> bnx (buffers s) i = None \<and> bpv (buffers s) i = None"
    and h: "h = hashfn (b_dev (buffers s ! bh)) (b_blocknr (buffers s ! bh))"
  obtains bs' ht' z where "insert_into_queues bh s = Ret () (s\<lparr>buffers := bs', hash_table := ht', null_b_prev := z\<rparr>)"
    and "same_core (buffers s) bs'" and "ring (bnfr bs') (bpfr bs') (free_list s) (R @ [bh])"
    and "wf_hash (length bs') (bnx bs') (bpv bs') ht' (key(bh := Some h)) (C(h := bh # C h))"
    and "\<And>i. i < length bs' \<Longrightarrow> (key(bh := Some h)) i = None \<Longrightarrow> bnx bs' i = None \<and> bpv bs' i = None"
proof -
  let ?bs = "buffers s" and ?fl = "free_list s"
  have fl: "?fl \<in> set R" using R(1) by (auto simp: ring_def)
  then obtain l where l: "bpfr ?bs ?fl = Some l" "l \<in> set R" using ring_links [OF R(1)] by metis
  have fb: "?fl < length ?bs" "bh \<noteq> ?fl" "l < length ?bs" using fl l R(3) bh(2) by auto
  obtain bs1 where r1: "insert_free bh s = Ret () (s\<lparr>buffers := bs1\<rparr>)"
    and c1: "same_core ?bs bs1" and n1: "bnx bs1 = bnx ?bs" "bpv bs1 = bpv ?bs"
    and f1: "bnfr bs1 = (bnfr ?bs)(bh := Some ?fl, l := Some bh)" "bpfr bs1 = (bpfr ?bs)(bh := Some l, ?fl := Some bh)"
    using insert_free_run [OF bh(1) refl fb(1,2) l(1) fb(3)] by blast
  let ?s1 = "s\<lparr>buffers := bs1\<rparr>"
  have hl: "h < NR_HASH" by (simp add: h)
  have hd_mem: "i < length ?bs \<and> key i = Some h" if "hash_table s ! h = Some i" for i
  proof -
    have "hlist (bnx ?bs) (bpv ?bs) None (hash_table s ! h) (C h)" "set (C h) = {i. i < length ?bs \<and> key i = Some h}"
      using H(1) hl unfolding wf_hash_def by blast+
    then show ?thesis using hlist_head_mem that by fastforce
  qed
  have pre: "bh < length (buffers ?s1)" "b_dev (buffers ?s1 ! bh) \<noteq> 0"
      "h = hashfn (b_dev (buffers ?s1 ! bh)) (b_blocknr (buffers ?s1 ! bh))"
      "\<And>i. hash_table ?s1 ! h = Some i \<Longrightarrow> i < length (buffers ?s1) \<and> i \<noteq> bh"
    using bh same_coreD [OF c1] same_core_len [OF c1] h hd_mem H(2) by auto
  obtain bs2 z where r2: "insert_hash bh ?s1 = Ret () (?s1\<lparr>buffers := bs2, hash_table := (hash_table ?s1)[h := Some bh], null_b_prev := z\<rparr>)"
    and c2: "same_core (buffers ?s1) bs2" and f2: "bnfr bs2 = bnfr (buffers ?s1)" "bpfr bs2 = bpfr (buffers ?s1)"
    and n2: "bnx bs2 = (bnx (buffers ?s1))(bh := hash_table ?s1 ! h)"
      "bpv bs2 = opt_upd ((bpv (buffers ?s1))(bh := None)) (hash_table ?s1 ! h) (Some bh)"
    using insert_hash_run [OF pre] by blast
  have s1: "buffers ?s1 = bs1" "hash_table ?s1 = hash_table s" by simp_all
  note c2 = c2 [unfolded s1] and f2 = f2 [unfolded s1] and n2 = n2 [unfolded s1]
  have c: "same_core ?bs bs2" using c1 c2 by (rule same_core_trans)
  show thesis
  proof (rule that)
    show "insert_into_queues bh s = Ret () (s\<lparr>buffers := bs2, hash_table := (hash_table s)[h := Some bh], null_b_prev := z\<rparr>)"
      using r1 r2 by (simp add: insert_into_queues_def kbind_def)
    show "same_core ?bs bs2" by (rule c)
    show "ring (bnfr bs2) (bpfr bs2) (free_list s) (R @ [bh])"
      unfolding f2 f1 by (rule ring_append [OF R(1,2) bh(2) l(1)])
    show "wf_hash (length bs2) (bnx bs2) (bpv bs2) ((hash_table s)[h := Some bh]) (key(bh := Some h)) (C(h := bh # C h))"
      unfolding n2 n1 same_core_len [OF c] by (rule wf_hash_insert [OF H(1) bh(1) hl H(2)])
    show "bnx bs2 i = None \<and> bpv bs2 i = None" if "i < length bs2" "(key(bh := Some h)) i = None" for i
    proof -
      have "i \<noteq> bh" "key i = None" using that(2) by (auto split: if_splits)
      moreover have "hash_table s ! h \<noteq> Some i" using hd_mem \<open>key i = None\<close> by auto
      ultimately show ?thesis
        unfolding n2 n1 using U [rule_format, of i] that(1) same_core_len [OF c] by (simp add: opt_upd_other)
    qed
  qed
qed

lemma core_rename: "core (b\<lparr>b_dev := d, b_blocknr := k\<rparr>) = (core b)\<lparr>b_dev := d, b_blocknr := k\<rparr>"
  by (cases b) (simp add: core_def)

lemma claim_buffer_run:
  assumes wf: "wf_cache s R C" and bh: "bh < length (buffers s)" and dev: "dev \<noteq> 0"
    and absent: "\<And>i. \<not> holds (buffers s) i dev block"
  obtains bs' ht' fl' z where
    "claim_buffer bh dev block s = Ret bh (s\<lparr>buffers := bs', hash_table := ht', free_list := fl', null_b_prev := z\<rparr>)"
    and "same_core ((buffers s)[bh := claimed (buffers s ! bh) dev block]) bs'"
    and "wf_cache (s\<lparr>buffers := bs', hash_table := ht', free_list := fl', null_b_prev := z\<rparr>)
           (remove1 bh R @ [bh]) (moved C bh (hashfn dev block))"
proof -
  let ?bs = "buffers s" and ?b = "buffers s ! bh"
  define b1 where "b1 = ?b\<lparr>b_count := 1, b_dirt := 0, b_uptodate := 0\<rparr>"
  define s1 where "s1 = s\<lparr>buffers := ?bs[bh := b1]\<rparr>"
  have wf1: "wf_cache s1 R C"
    by (rule wf_cache_update [OF wf bh, of b1]) (simp_all add: same_links_def b1_def s1_def)
  have bh1: "bh < length (buffers s1)" using bh by (simp add: s1_def)
  note w = wf_cacheD [OF wf1]
  obtain bs2 fl2 ht2 where r2: "remove_from_queues bh s1 = Ret () (s1\<lparr>buffers := bs2, hash_table := ht2, free_list := fl2\<rparr>)"
    and c2: "same_core (buffers s1) bs2" and R2: "ring (bnfr bs2) (bpfr bs2) fl2 (remove1 bh R)"
    and H2: "wf_hash (length bs2) (bnx bs2) (bpv bs2) ht2 ((bkey (buffers s1))(bh := None)) (\<lambda>h. remove1 bh (C h))"
    and U2: "\<And>i. i < length bs2 \<Longrightarrow> bkey (buffers s1) i = None \<Longrightarrow> bnx bs2 i = None \<and> bpv bs2 i = None"
    by (rule remove_from_queues_run [OF wf1 bh1]) (rule that)
  have len2: "length bs2 = length ?bs" using same_core_len [OF c2] by (simp add: s1_def)
  define b3 where "b3 = (bs2 ! bh)\<lparr>b_dev := dev, b_blocknr := block\<rparr>"
  define bs3 where "bs3 = bs2[bh := b3]"
  define s3 where "s3 = s1\<lparr>hash_table := ht2, free_list := fl2, buffers := bs3\<rparr>"
  have lnk: "bnx bs3 = bnx bs2" "bpv bs3 = bpv bs2" "bnfr bs3 = bnfr bs2" "bpfr bs3 = bpfr bs2" "length bs3 = length bs2"
    using bh len2 by (auto simp: bs3_def b3_def bnx_def bpv_def bnfr_def bpfr_def fun_eq_iff nth_upd_any)
  have core3: "same_core (?bs[bh := claimed ?b dev block]) bs3"
  proof -
    have "core (bs2 ! bh) = core b1" using c2 bh by (simp add: same_core_def s1_def)
    then have "core ((bs2 ! bh)\<lparr>b_dev := dev, b_blocknr := block\<rparr>) = core (b1\<lparr>b_dev := dev, b_blocknr := block\<rparr>)"
      by (simp add: core_rename)
    moreover have "core (bs2 ! i) = core (?bs ! i)" if "i \<noteq> bh" for i
      using c2 that by (simp add: same_core_def s1_def)
    ultimately show ?thesis
      using bh len2 by (auto simp: same_core_def bs3_def b3_def nth_upd_any b1_def claimed_def)
  qed
  have d3: "b_dev (bs3 ! bh) = dev" "b_blocknr (bs3 ! bh) = block"
    using bh len2 by (simp_all add: bs3_def b3_def)
  let ?h = "hashfn dev block"
  let ?key = "(bkey (buffers s1))(bh := None)"
  have b3s: "buffers s3 = bs3" "free_list s3 = fl2" "hash_table s3 = ht2" by (simp_all add: s3_def)
  have pre: "ring (bnfr (buffers s3)) (bpfr (buffers s3)) (free_list s3) (remove1 bh R)" "distinct (remove1 bh R)"
      "set (remove1 bh R) \<subseteq> {..<length (buffers s3)}" "bh < length (buffers s3)" "bh \<notin> set (remove1 bh R)"
      "b_dev (buffers s3 ! bh) \<noteq> 0"
      "wf_hash (length (buffers s3)) (bnx (buffers s3)) (bpv (buffers s3)) (hash_table s3) ?key (\<lambda>h. remove1 bh (C h))"
      "?key bh = None"
      "\<forall>i < length (buffers s3). ?key i = None \<longrightarrow> i \<noteq> bh \<longrightarrow> bnx (buffers s3) i = None \<and> bpv (buffers s3) i = None"
      "?h = hashfn (b_dev (buffers s3 ! bh)) (b_blocknr (buffers s3 ! bh))"
    unfolding b3s lnk using R2 H2 U2 w(2,3) bh len2 dev d3 by (auto simp: s1_def dest: set_remove1_subset [THEN subsetD])
  obtain bs4 ht4 z where r4: "insert_into_queues bh s3 = Ret () (s3\<lparr>buffers := bs4, hash_table := ht4, null_b_prev := z\<rparr>)"
    and c4: "same_core (buffers s3) bs4" and R4: "ring (bnfr bs4) (bpfr bs4) (free_list s3) (remove1 bh R @ [bh])"
    and H4: "wf_hash (length bs4) (bnx bs4) (bpv bs4) ht4 (?key(bh := Some ?h)) ((\<lambda>h. remove1 bh (C h))(?h := bh # remove1 bh (C ?h)))"
    and U4: "\<And>i. i < length bs4 \<Longrightarrow> (?key(bh := Some ?h)) i = None \<Longrightarrow> bnx bs4 i = None \<and> bpv bs4 i = None"
    by (rule insert_into_queues_run [OF pre]) (rule that)
  have core4: "same_core (?bs[bh := claimed ?b dev block]) bs4"
    using core3 c4 unfolding b3s by (rule same_core_trans)
  note f4 = same_coreD [OF core4] and len4 = same_core_len [OF core4]
  have key4: "bkey bs4 = ?key(bh := Some ?h)"
    using bh dev by (auto simp: bkey_def fun_eq_iff f4 nth_upd_any claimed_def s1_def b1_def)
  have mv: "(\<lambda>h. remove1 bh (C h))(?h := bh # remove1 bh (C ?h)) = moved C bh ?h"
    by (auto simp: moved_def fun_eq_iff)
  show thesis
  proof (rule that)
    show "claim_buffer bh dev block s = Ret bh (s\<lparr>buffers := bs4, hash_table := ht4, free_list := fl2, null_b_prev := z\<rparr>)"
    proof -
      have "claim_buffer bh dev block s = Ret bh (s3\<lparr>buffers := bs4, hash_table := ht4, null_b_prev := z\<rparr>)"
        using r2 r4 bh len2
        by (simp add: claim_buffer_def km_simps s1_def [symmetric] b1_def [symmetric]) (simp add: s3_def bs3_def b3_def s1_def km_simps)
      moreover have "s3\<lparr>buffers := bs4, hash_table := ht4, null_b_prev := z\<rparr> =
          s\<lparr>buffers := bs4, hash_table := ht4, free_list := fl2, null_b_prev := z\<rparr>"
        by (rule blk.equality) (simp_all add: s3_def s1_def)
      ultimately show ?thesis by simp
    qed
    show "same_core (?bs[bh := claimed ?b dev block]) bs4" by (rule core4)
    have "i = j" if hy: "d \<noteq> 0" "holds bs4 i d k" "holds bs4 j d k" for i j d k
    proof -
      have 1: "holds ?bs x d k \<and> x \<noteq> bh \<or> x = bh \<and> d = dev \<and> k = block" if "holds bs4 x d k" for x
        using that bh len4 by (auto simp: holds_def f4 nth_upd_any claimed_def split: if_splits)
      show ?thesis using 1 [OF hy(2)] 1 [OF hy(3)] absent wf_cacheD(7) [OF wf hy(1)] by blast
    qed
    moreover have "length (b_data (bs4 ! i)) = BLOCK_SIZE" if "i < length bs4" for i
      using that wf_cacheD(8) [OF wf] bh len4 by (auto simp: f4 nth_upd_any claimed_def)
    moreover have "set (remove1 bh R @ [bh]) = {..<length bs4}" "distinct (remove1 bh R @ [bh])"
      using w(2,3) bh len4 by (auto simp: s1_def)
    ultimately show "wf_cache (s\<lparr>buffers := bs4, hash_table := ht4, free_list := fl2, null_b_prev := z\<rparr>)
           (remove1 bh R @ [bh]) (moved C bh ?h)"
      using R4 [unfolded b3s] H4 [folded key4, unfolded mv] U4 [folded key4] wf_cacheD(1) [OF wf] len4
      unfolding wf_cache_def Let_def by simp
  qed
qed

section \<open>getblk\<close>

abbreviation reusable :: "buffer_head \<Rightarrow> bool" where
  "reusable b \<equiv> b_count b = 0 \<and> BADNESS b = 0"

lemma BADNESS_0: "BADNESS b = 0 \<longleftrightarrow> b_dirt b = 0 \<and> b_lock b = 0"
  by (simp add: BADNESS_def unat_eq_0)

text \<open>The search of \<open>getblk\<close> ends at the first buffer of the free list that is unused, clean and unlocked.\<close>

lemma pick_walk_first:
  assumes "dseg (bnfr bs) pv a xs fl" and "distinct (a # xs)" and "fl \<notin> set xs"
    and "find (\<lambda>i. reusable (bs ! i)) (a # xs) = Some bh" and "length xs < n"
    and "\<And>j. best = Some j \<Longrightarrow> BADNESS (bs ! j) \<noteq> 0"
  shows "pick_walk n bs fl a best = Some (Some bh)"
  using assms
proof (induction xs arbitrary: a n best)
  case Nil
  then obtain k where "n = Suc k" by (cases n) auto
  with Nil show ?case by (auto simp: Let_def split: option.splits if_splits)
next
  case (Cons x xs)
  then obtain k where n: "n = Suc k" by (cases n) auto
  show ?case
  proof (cases "reusable (bs ! a)")
    case True
    with Cons.prems n show ?thesis by (auto simp: Let_def split: option.splits)
  next
    case False
    have nx: "b_next_free (bs ! a) = Some x" "x \<noteq> fl" using Cons.prems by (auto simp: bnfr_def)
    define better where "better = (b_count (bs ! a) = 0 \<and>
            (case best of None \<Rightarrow> True | Some j \<Rightarrow> BADNESS (bs ! a) < BADNESS (bs ! j)))"
    have nb: "\<not> (better \<and> BADNESS (bs ! a) = 0)" using False by (auto simp: better_def)
    have "pick_walk n bs fl a best = pick_walk k bs fl x (if better then Some a else best)"
      using nx nb unfolding n pick_walk.simps Let_def better_def [symmetric] by auto
    also have "\<dots> = Some (Some bh)"
      using Cons.prems n False nb by (intro Cons.IH) (auto split: if_splits)
    finally show ?thesis .
  qed
qed

lemma pick_walk_ring:
  assumes "wf_cache s R C" and "find (\<lambda>i. reusable (buffers s ! i)) R = Some bh"
  shows "pick_walk (length (buffers s)) (buffers s) (free_list s) (free_list s) None = Some (Some bh)"
proof -
  note w = wf_cacheD [OF assms(1)]
  obtain xs where R: "R = free_list s # xs" and d: "dseg (bnfr (buffers s)) (bpfr (buffers s)) (free_list s) xs (free_list s)"
    using w(4) by (auto simp: ring_def)
  have "length R = length (buffers s)" using w(2,3) by (metis card_lessThan distinct_card)
  then have "length xs < length (buffers s)" using R by simp
  then show ?thesis using pick_walk_first [OF d, of bh "length (buffers s)" None] w(2) assms(2) R by simp
qed

lemma GETBLK_FUEL_Suc: "GETBLK_FUEL = Suc 99"
  by (simp add: GETBLK_FUEL_def)

lemma getblk_hit:
  assumes wf: "wf_cache s R C" and dev: "dev \<noteq> 0" and i: "holds (buffers s) i dev block"
    and unlocked: "b_lock (buffers s ! i) = 0"
  shows "getblk dev block s = Ret i (s\<lparr>buffers := (buffers s)[i := (buffers s ! i)\<lparr>b_count := b_count (buffers s ! i) + 1\<rparr>]\<rparr>)"
proof -
  have "find_buffer dev block s = Ret (Some i) s"
    using find_buffer_spec [OF wf dev, of block] i wf_cacheD(7) [OF wf dev] by metis
  then have "get_hash_table dev block s =
      Ret (Some i) (s\<lparr>buffers := (buffers s)[i := (buffers s ! i)\<lparr>b_count := b_count (buffers s ! i) + 1\<rparr>]\<rparr>)"
    using i unlocked by (simp add: get_hash_table_def km_simps wait_on_buffer_def holds_def)
  then show ?thesis unfolding getblk_def GETBLK_FUEL_Suc getblk_n.simps by (simp add: km_simps)
qed

lemma getblk_miss:
  assumes wf: "wf_cache s R C" and dev: "dev \<noteq> 0" and absent: "\<And>i. \<not> holds (buffers s) i dev block"
    and lru: "find (\<lambda>i. reusable (buffers s ! i)) R = Some bh"
  shows "getblk dev block s = claim_buffer bh dev block s"
proof -
  have fb: "find_buffer dev block s = Ret None s"
    using find_buffer_spec [OF wf dev, of block] absent by auto
  have "bh \<in> set R" using lru by (auto simp: find_Some_iff)
  then have bh: "bh < length (buffers s)" using wf_cacheD(3) [OF wf] by simp
  have re: "b_count (buffers s ! bh) = 0" "b_dirt (buffers s ! bh) = 0" "b_lock (buffers s ! bh) = 0"
    using lru by (auto simp: find_Some_iff BADNESS_0)
  show ?thesis
    unfolding getblk_def GETBLK_FUEL_Suc getblk_n.simps clean_loop.simps
    using fb pick_walk_ring [OF wf lru] bh re
    by (simp add: get_hash_table_def km_simps wait_on_buffer_def)
qed

text \<open>
  C11: on a miss, \<open>getblk\<close> reuses the least recently used buffer that is unused, clean and
  unlocked: it returns (without sleeping), the buffer now stands for the block with count 1,
  it is the most recently used one, every other buffer keeps its contents, and the pointer
  structure of the cache is intact: the hash queues again contain each cached block in
  exactly one buffer.
\<close>

theorem getblk_lru:
  assumes wf: "wf_cache s R C" and dev: "dev \<noteq> 0" and absent: "\<And>i. \<not> holds (buffers s) i dev block"
    and lru: "find (\<lambda>i. reusable (buffers s ! i)) R = Some bh"
  shows "\<exists>s'. getblk dev block s = Ret bh s' \<and>
    wf_cache s' (remove1 bh R @ [bh]) (moved C bh (hashfn dev block)) \<and> holds (buffers s') bh dev block \<and>
    same_core ((buffers s)[bh := claimed (buffers s ! bh) dev block]) (buffers s')"
proof -
  have "bh \<in> set R" using lru by (auto simp: find_Some_iff)
  then have bh: "bh < length (buffers s)" using wf_cacheD(3) [OF wf] by simp
  obtain bs' ht' fl' z where run: "claim_buffer bh dev block s = Ret bh (s\<lparr>buffers := bs', hash_table := ht', free_list := fl', null_b_prev := z\<rparr>)"
    and c: "same_core ((buffers s)[bh := claimed (buffers s ! bh) dev block]) bs'"
    and wf': "wf_cache (s\<lparr>buffers := bs', hash_table := ht', free_list := fl', null_b_prev := z\<rparr>)
           (remove1 bh R @ [bh]) (moved C bh (hashfn dev block))"
    by (rule claim_buffer_run [OF wf bh dev absent])
  have "holds bs' bh dev block"
    using bh same_coreD [OF c, of bh] same_core_len [OF c] by (simp add: holds_def claimed_def)
  then show ?thesis using getblk_miss [OF wf dev absent lru] run c wf' by simp
qed

text \<open>
  On a hit, \<open>getblk\<close> returns the buffer that holds the block; only its use count changes.
\<close>

theorem getblk_cached:
  assumes wf: "wf_cache s R C" and dev: "dev \<noteq> 0" and i: "holds (buffers s) i dev block"
    and unlocked: "b_lock (buffers s ! i) = 0"
  shows "\<exists>s'. getblk dev block s = Ret i s' \<and> wf_cache s' R C \<and>
    buffers s' = (buffers s)[i := (buffers s ! i)\<lparr>b_count := b_count (buffers s ! i) + 1\<rparr>]"
proof -
  have "i < length (buffers s)" using i by (simp add: holds_def)
  then have "wf_cache (s\<lparr>buffers := (buffers s)[i := (buffers s ! i)\<lparr>b_count := b_count (buffers s ! i) + 1\<rparr>]\<rparr>) R C"
    by (intro wf_cache_update [OF wf]) (simp_all add: same_links_def)
  then show ?thesis using getblk_hit [OF assms] by simp
qed

end
