(* ===== verification/Blockstore.thy ===== *)
theory Blockstore
  imports Cache
begin

text \<open>
  The buffer cache over the ram disk as a store of blocks: the contents that \<open>bread\<close> shows of
  each block, the laws of \<open>bread\<close> and \<open>brelse\<close> as the interface \<open>block_store\<close>, which the
  file system uses, and its interpretation on the routines of \<open>fs/buffer.c\<close>.
\<close>

section \<open>The cache as a block store\<close>

text \<open>
  The part of a buffer head that the ram disk relies on, and its agreement with the device:
  a clean up-to-date buffer has the contents of its block, a dirty one is up to date.
\<close>

definition buf_ok :: "'a blk_scheme \<Rightarrow> buffer_head \<Rightarrow> bool" where
  "buf_ok s b \<longleftrightarrow> b_lock b = 0 \<and> b_wait b = None \<and> (b_dirt b \<noteq> 0 \<longrightarrow> b_uptodate b \<noteq> 0) \<and>
     (b_dev b = RAMDISK \<and> b_uptodate b \<noteq> 0 \<and> b_dirt b = 0 \<and> rd_has s (b_blocknr b)
        \<longrightarrow> b_data b = rd_block s (b_blocknr b))"

definition store_inv :: "'a blk_scheme \<Rightarrow> bool" where
  "store_inv s \<longleftrightarrow> (\<exists>R C. wf_cache s R C) \<and> rd_idle s \<and> buffer_wait s = None \<and>
     (\<forall>i < length (buffers s). buf_ok s (buffers s ! i))"

text \<open>What a read of a block of the ram disk is to return.\<close>

definition view :: "'a blk_scheme \<Rightarrow> u32 \<Rightarrow> u8 list" where
  "view s n =
     (case find (\<lambda>i. b_dev (buffers s ! i) = RAMDISK \<and> b_blocknr (buffers s ! i) = n \<and> b_uptodate (buffers s ! i) \<noteq> 0)
             [0..<length (buffers s)] of
        Some i \<Rightarrow> b_data (buffers s ! i) | None \<Rightarrow> rd_block s n)"

text \<open>Everything that reading a block does not change.\<close>

definition rest :: "'a blk_scheme \<Rightarrow> 'a blk_scheme" where
  "rest s = s\<lparr>buffers := [], hash_table := [], free_list := 0, null_b_prev := None, request := []\<rparr>"

definition cnt :: "'a blk_scheme \<Rightarrow> nat \<Rightarrow> nat" where
  "cnt s i = (if i < length (buffers s) then unat (b_count (buffers s ! i)) else 0)"

definition dirty :: "'a blk_scheme \<Rightarrow> nat \<Rightarrow> bool" where
  "dirty s i \<longleftrightarrow> i < length (buffers s) \<and> b_dirt (buffers s ! i) \<noteq> 0"

definition bdata :: "'a blk_scheme \<Rightarrow> nat \<Rightarrow> u8 list" where
  "bdata s i = b_data (buffers s ! i)"

lemma view_cached:
  assumes "store_inv s" and "holds (buffers s) i RAMDISK n" and "b_uptodate (buffers s ! i) \<noteq> 0"
  shows "view s n = b_data (buffers s ! i)"
proof -
  let ?P = "\<lambda>i. b_dev (buffers s ! i) = RAMDISK \<and> b_blocknr (buffers s ! i) = n \<and> b_uptodate (buffers s ! i) \<noteq> 0"
  obtain R C where wf: "wf_cache s R C" using assms(1) by (auto simp: store_inv_def)
  have "find ?P [0..<length (buffers s)] \<noteq> None"
    using assms(2,3) by (auto simp: find_None_iff holds_def)
  then obtain j where j: "find ?P [0..<length (buffers s)] = Some j" by auto
  then have "j \<in> set [0..<length (buffers s)]" "?P j"
    using find_Some_iff [of ?P "[0..<length (buffers s)]" j] by auto
  then have "holds (buffers s) j RAMDISK n" by (simp add: holds_def)
  then have "i = j" using wf_cacheD(7) [OF wf _ assms(2)] by simp
  then show ?thesis by (simp add: view_def j)
qed

lemma view_uncached:
  assumes "\<And>i. holds (buffers s) i RAMDISK n \<Longrightarrow> b_uptodate (buffers s ! i) = 0"
  shows "view s n = rd_block s n"
proof -
  have "find (\<lambda>i. b_dev (buffers s ! i) = RAMDISK \<and> b_blocknr (buffers s ! i) = n \<and> b_uptodate (buffers s ! i) \<noteq> 0)
             [0..<length (buffers s)] = None"
    using assms by (auto simp: find_None_iff holds_def)
  then show ?thesis by (simp add: view_def)
qed

text \<open>In a consistent state the view of a block is the clean or dirty cached copy, or the device.\<close>

lemma view_cases:
  assumes "store_inv s"
  obtains (cached) i where "holds (buffers s) i RAMDISK n" "b_uptodate (buffers s ! i) \<noteq> 0" "view s n = b_data (buffers s ! i)"
    | (device) "\<And>i. holds (buffers s) i RAMDISK n \<Longrightarrow> b_uptodate (buffers s ! i) = 0" "view s n = rd_block s n"
  using view_cached [OF assms] view_uncached by metis

lemma restD:
  assumes "rest s' = rest s"
  shows "rd_data s' = rd_data s" "rd_start s' = rd_start s" "current_request s' = current_request s"
    "request_fn s' = request_fn s" "wait_for_request s' = wait_for_request s" "buffer_wait s' = buffer_wait s"
  using arg_cong [OF assms, of rd_data] arg_cong [OF assms, of rd_start] arg_cong [OF assms, of current_request]
    arg_cong [OF assms, of request_fn] arg_cong [OF assms, of wait_for_request] arg_cong [OF assms, of buffer_wait]
  by (simp_all add: rest_def)

lemma rd_same: "rd_data s' = rd_data s \<Longrightarrow> rd_block s' = rd_block s \<and> rd_has s' = rd_has s"
  by (auto simp: rd_block_def rd_has_def fun_eq_iff)

text \<open>
  Two consistent states with the same device agree on the view of a block when dirty copies
  survive and every copy in the second state shows the view of the first.
\<close>

lemma view_same:
  assumes inv: "store_inv s" "store_inv s'" and rd: "rd_data s' = rd_data s" and has: "rd_has s m"
    and fwd: "\<And>i. holds (buffers s) i RAMDISK m \<Longrightarrow> b_uptodate (buffers s ! i) \<noteq> 0 \<Longrightarrow> b_dirt (buffers s ! i) \<noteq> 0 \<Longrightarrow>
        \<exists>j. holds (buffers s') j RAMDISK m \<and> b_uptodate (buffers s' ! j) \<noteq> 0"
    and bwd: "\<And>j. holds (buffers s') j RAMDISK m \<Longrightarrow> b_uptodate (buffers s' ! j) \<noteq> 0 \<Longrightarrow> b_data (buffers s' ! j) = view s m"
  shows "view s' m = view s m"
proof (cases rule: view_cases [OF inv(2), of m])
  case (1 j)
  then show ?thesis using bwd by simp
next
  case 2
  note dev = 2
  show ?thesis
  proof (cases rule: view_cases [OF inv(1), of m])
    case (1 i)
    then have "b_dirt (buffers s ! i) = 0" using fwd dev(1) by blast
    then have "b_data (buffers s ! i) = rd_block s m"
      using 1 inv(1) has by (auto simp: store_inv_def buf_ok_def holds_def)
    then show ?thesis using 1 dev(2) rd_same [OF rd] by simp
  next
    case 2
    then show ?thesis using dev(2) rd_same [OF rd] by simp
  qed
qed

text \<open>Filling a buffer from the device.\<close>

lemma read_fill:
  assumes wf: "wf_cache s R C" and idle: "rd_idle s" and has: "rd_has s n"
    and bh: "holds (buffers s) bh RAMDISK n" "b_uptodate (buffers s ! bh) = 0" "b_lock (buffers s ! bh) = 0"
      "b_wait (buffers s ! bh) = None"
  obtains s' where "kseq (ll_rw_block READ bh) (kseq (wait_on_buffer bh) (kbind (buf bh) (\<lambda>b.
        if b_uptodate b \<noteq> 0 then kreturn (Some bh) else kseq (brelse (Some bh)) (kreturn None)))) s = Ret (Some bh) s'"
    and "rest s' = rest s" and "wf_cache s' R C" and "rd_idle s'"
    and "buffers s' = (buffers s)[bh := (buffers s ! bh)\<lparr>b_data := rd_block s n, b_uptodate := 1, b_dirt := 0\<rparr>]"
proof -
  let ?b = "buffers s ! bh"
  let ?bs = "(buffers s)[bh := ?b\<lparr>b_data := rd_block s n, b_uptodate := 1, b_dirt := 0\<rparr>]"
  have lt: "bh < length (buffers s)" and d: "b_dev ?b = RAMDISK" "b_blocknr ?b = n" using bh(1) by (auto simp: holds_def)
  have len: "length (b_data ?b) = BLOCK_SIZE" "length (rd_block s n) = BLOCK_SIZE"
    using wf_cacheD(8) [OF wf lt] has by (simp_all add: rd_block_def rd_has_def)
  obtain rq where run: "ll_rw_block READ bh s = Ret () (s\<lparr>buffers := ?bs, rd_data := rd_data s, request := rq\<rparr>)"
    and rq: "length rq = NR_REQUEST" "\<forall>r < NR_REQUEST. rq_dev (rq ! r) < 0"
    using make_request_ramdisk [OF idle has _ lt refl d bh(3,4) len(1), of READ] bh(2) by auto
  let ?s' = "s\<lparr>buffers := ?bs, rd_data := rd_data s, request := rq\<rparr>"
  have wf': "wf_cache ?s' R C"
    using len by (intro wf_cache_update [OF wf lt, of "?b\<lparr>b_data := rd_block s n, b_uptodate := 1, b_dirt := 0\<rparr>"])
      (simp_all add: same_links_def)
  have idle': "rd_idle ?s'" using idle rq by (simp add: rd_idle_def)
  have rest': "rest ?s' = rest s" by (rule blk.equality) (simp_all add: rest_def)
  have fin: "kseq (ll_rw_block READ bh) (kseq (wait_on_buffer bh) (kbind (buf bh) (\<lambda>b.
        if b_uptodate b \<noteq> 0 then kreturn (Some bh) else kseq (brelse (Some bh)) (kreturn None)))) s = Ret (Some bh) ?s'"
    using run lt bh(3) by (simp add: km_simps wait_on_buffer_def)
  show thesis by (rule that [OF fin rest' wf' idle']) simp
qed

text \<open>A state that differs from a consistent one by the clean copy \<open>bh\<close> of block \<open>n\<close>.\<close>

lemma fill_consistent:
  assumes inv: "store_inv s" and rest: "rest s' = rest s" and wf: "wf_cache s' R C" and idle: "rd_idle s'"
    and len: "length (buffers s') = length (buffers s)" and bh: "bh < length (buffers s)"
    and fresh: "\<And>i. holds (buffers s) i RAMDISK n \<Longrightarrow> b_uptodate (buffers s ! i) = 0"
    and clean: "b_dirt (buffers s ! bh) = 0"
    and other: "\<And>i. i \<noteq> bh \<Longrightarrow> core (buffers s' ! i) = core (buffers s ! i)"
    and new: "holds (buffers s') bh RAMDISK n" "b_data (buffers s' ! bh) = rd_block s n" "b_dirt (buffers s' ! bh) = 0"
      "b_lock (buffers s' ! bh) = 0" "b_wait (buffers s' ! bh) = None"
  shows "store_inv s'" and "\<And>m. rd_has s m \<Longrightarrow> view s' m = view s m"
proof -
  have rd: "rd_data s' = rd_data s" and bw: "buffer_wait s' = buffer_wait s" using restD [OF rest] by simp_all
  note same = rd_same [OF rd]
  have o: "b_dev (buffers s' ! i) = b_dev (buffers s ! i)" "b_blocknr (buffers s' ! i) = b_blocknr (buffers s ! i)"
      "b_data (buffers s' ! i) = b_data (buffers s ! i)" "b_uptodate (buffers s' ! i) = b_uptodate (buffers s ! i)"
      "b_dirt (buffers s' ! i) = b_dirt (buffers s ! i)" "b_lock (buffers s' ! i) = b_lock (buffers s ! i)"
      "b_wait (buffers s' ! i) = b_wait (buffers s ! i)" if "i \<noteq> bh" for i
    using coreD [OF other [OF that]] by simp_all
  have "buf_ok s' (buffers s' ! i)" if "i < length (buffers s')" for i
  proof (cases "i = bh")
    case True
    then show ?thesis using new same by (auto simp: buf_ok_def holds_def)
  next
    case False
    have "buf_ok s (buffers s ! i)" using inv that len by (simp add: store_inv_def)
    then show ?thesis unfolding buf_ok_def o [OF False] using same by simp
  qed
  then show inv': "store_inv s'"
    using wf idle bw inv unfolding store_inv_def by auto
  fix m assume has: "rd_has s m"
  show "view s' m = view s m"
  proof (rule view_same [OF inv inv' rd has])
    fix i assume i: "holds (buffers s) i RAMDISK m" "b_uptodate (buffers s ! i) \<noteq> 0" "b_dirt (buffers s ! i) \<noteq> 0"
    then have "i \<noteq> bh" using clean by auto
    then show "\<exists>j. holds (buffers s') j RAMDISK m \<and> b_uptodate (buffers s' ! j) \<noteq> 0"
      using i o len by (intro exI [of _ i]) (simp add: holds_def)
  next
    fix j assume j: "holds (buffers s') j RAMDISK m" "b_uptodate (buffers s' ! j) \<noteq> 0"
    show "b_data (buffers s' ! j) = view s m"
    proof (cases "j = bh")
      case True
      then have "m = n" using j new(1) by (simp add: holds_def)
      then show ?thesis using True new(2) view_uncached [of s n] fresh by simp
    next
      case False
      then have "holds (buffers s) j RAMDISK m" "b_uptodate (buffers s ! j) \<noteq> 0"
        using j o len by (simp_all add: holds_def)
      then show ?thesis using view_cached [OF inv] o [OF False] by simp
    qed
  qed
qed

abbreviation has_room :: "'a blk_scheme \<Rightarrow> bool" where
  "has_room s \<equiv> \<exists>i < length (buffers s). cnt s i = 0 \<and> \<not> dirty s i"

lemma has_room_reusable:
  assumes inv: "store_inv s" and wf: "wf_cache s R C" and room: "has_room s"
  obtains bh where "find (\<lambda>i. reusable (buffers s ! i)) R = Some bh" "bh < length (buffers s)" "reusable (buffers s ! bh)"
proof -
  obtain i where i: "i < length (buffers s)" "cnt s i = 0" "\<not> dirty s i" using room by blast
  then have "reusable (buffers s ! i)"
    using inv by (auto simp: cnt_def dirty_def BADNESS_0 unat_eq_0 store_inv_def buf_ok_def)
  moreover have "i \<in> set R" using i wf_cacheD(3) [OF wf] by simp
  ultimately have "find (\<lambda>i. reusable (buffers s ! i)) R \<noteq> None" by (auto simp: find_None_iff)
  then obtain bh where bh: "find (\<lambda>i. reusable (buffers s ! i)) R = Some bh" by auto
  then have "bh \<in> set R" "reusable (buffers s ! bh)" by (auto simp: find_Some_iff)
  with bh that show thesis using wf_cacheD(3) [OF wf] by auto
qed

lemma bread_cached:
  assumes inv: "store_inv s" and i: "holds (buffers s) i RAMDISK n" "b_uptodate (buffers s ! i) \<noteq> 0"
  shows "\<exists>s'. bread RAMDISK n s = Ret (Some i) s' \<and> store_inv s' \<and> rest s' = rest s \<and>
    buffers s' = (buffers s)[i := (buffers s ! i)\<lparr>b_count := b_count (buffers s ! i) + 1\<rparr>]"
proof -
  obtain R C where wf: "wf_cache s R C" using inv by (auto simp: store_inv_def)
  have lt: "i < length (buffers s)" using i by (simp add: holds_def)
  then have unl: "b_lock (buffers s ! i) = 0" using inv by (simp add: store_inv_def buf_ok_def)
  let ?s' = "s\<lparr>buffers := (buffers s)[i := (buffers s ! i)\<lparr>b_count := b_count (buffers s ! i) + 1\<rparr>]\<rparr>"
  have "bread RAMDISK n s = Ret (Some i) ?s'"
    using getblk_hit [OF wf _ i(1) unl] i(2) lt by (simp add: bread_def bread_with_def km_simps)
  moreover have "wf_cache ?s' R C"
    by (rule wf_cache_update [OF wf lt, of "(buffers s ! i)\<lparr>b_count := b_count (buffers s ! i) + 1\<rparr>"]) (simp_all add: same_links_def)
  then have "store_inv ?s'"
    using inv lt by (auto simp: store_inv_def buf_ok_def rd_idle_def nth_upd_any rd_has_def rd_block_def)
  moreover have "rest ?s' = rest s" by (simp add: rest_def)
  ultimately show ?thesis by (intro exI [of _ ?s']) simp
qed

lemma bread_with_fill:
  assumes "getblk RAMDISK n s = Ret bh s1" and "bh < length (buffers s1)" and "b_uptodate (buffers s1 ! bh) = 0"
    and "kseq (ll_rw_block READ bh) (kseq (wait_on_buffer bh) (kbind (buf bh) (\<lambda>b.
        if b_uptodate b \<noteq> 0 then kreturn (Some bh) else kseq (brelse (Some bh)) (kreturn None)))) s1 = Ret (Some bh) s'"
  shows "bread RAMDISK n s = Ret (Some bh) s'"
  using assms by (simp add: bread_def bread_with_def km_simps)

lemma bread_stale:
  assumes inv: "store_inv s" and has: "rd_has s n" and i: "holds (buffers s) i RAMDISK n" "b_uptodate (buffers s ! i) = 0"
  shows "\<exists>s'. bread RAMDISK n s = Ret (Some i) s' \<and> store_inv s' \<and> rest s' = rest s \<and>
    (\<forall>m. rd_has s m \<longrightarrow> view s' m = view s m) \<and>
    buffers s' = (buffers s)[i := (buffers s ! i)\<lparr>b_count := b_count (buffers s ! i) + 1, b_data := rd_block s n, b_uptodate := 1, b_dirt := 0\<rparr>]"
proof -
  let ?b = "buffers s ! i"
  obtain R C where wf: "wf_cache s R C" and idle: "rd_idle s" using inv by (auto simp: store_inv_def)
  have lt: "i < length (buffers s)" using i by (simp add: holds_def)
  then have ok: "b_lock ?b = 0" "b_wait ?b = None" "b_dirt ?b = 0" using inv i(2) by (auto simp: store_inv_def buf_ok_def)
  let ?s1 = "s\<lparr>buffers := (buffers s)[i := ?b\<lparr>b_count := b_count ?b + 1\<rparr>]\<rparr>"
  have g: "getblk RAMDISK n s = Ret i ?s1" using getblk_hit [OF wf _ i(1) ok(1)] by simp
  have wf1: "wf_cache ?s1 R C"
    by (rule wf_cache_update [OF wf lt, of "?b\<lparr>b_count := b_count ?b + 1\<rparr>"]) (simp_all add: same_links_def)
  have p1: "rd_idle ?s1" "rd_has ?s1 n" "holds (buffers ?s1) i RAMDISK n" "b_uptodate (buffers ?s1 ! i) = 0"
      "b_lock (buffers ?s1 ! i) = 0" "b_wait (buffers ?s1 ! i) = None" "rd_block ?s1 n = rd_block s n"
    using idle has i lt ok by (simp_all add: rd_idle_def rd_has_def holds_def rd_block_def)
  obtain s' where r: "kseq (ll_rw_block READ i) (kseq (wait_on_buffer i) (kbind (buf i) (\<lambda>b.
        if b_uptodate b \<noteq> 0 then kreturn (Some i) else kseq (brelse (Some i)) (kreturn None)))) ?s1 = Ret (Some i) s'"
    and rest: "rest s' = rest ?s1" and wf': "wf_cache s' R C" and idle': "rd_idle s'"
    and bs: "buffers s' = (buffers ?s1)[i := (buffers ?s1 ! i)\<lparr>b_data := rd_block ?s1 n, b_uptodate := 1, b_dirt := 0\<rparr>]"
    by (rule read_fill [OF wf1 p1(1-6)])
  have rest': "rest s' = rest s" using rest by (simp add: rest_def)
  have bs': "buffers s' = (buffers s)[i := ?b\<lparr>b_count := b_count ?b + 1, b_data := rd_block s n, b_uptodate := 1, b_dirt := 0\<rparr>]"
    using bs lt p1(7) by simp
  have only: "b_uptodate (buffers s ! j) = 0" if "holds (buffers s) j RAMDISK n" for j
    using wf_cacheD(7) [OF wf _ i(1) that] i(2) by simp
  have new: "holds (buffers s') i RAMDISK n" "b_data (buffers s' ! i) = rd_block s n" "b_dirt (buffers s' ! i) = 0"
      "b_lock (buffers s' ! i) = 0" "b_wait (buffers s' ! i) = None" "length (buffers s') = length (buffers s)"
    using i lt ok by (simp_all add: bs' holds_def)
  have oth: "core (buffers s' ! j) = core (buffers s ! j)" if "j \<noteq> i" for j using that by (simp add: bs')
  have "store_inv s'" "\<And>m. rd_has s m \<Longrightarrow> view s' m = view s m"
    using fill_consistent [OF inv rest' wf' idle' new(6) lt only ok(3) oth new(1-5)] by blast+
  moreover have "bread RAMDISK n s = Ret (Some i) s'"
    using bread_with_fill [OF g _ _ r] lt i(2) by simp
  ultimately show ?thesis using rest' bs' by blast
qed

lemma bread_absent:
  assumes inv: "store_inv s" and has: "rd_has s n" and absent: "\<And>i. \<not> holds (buffers s) i RAMDISK n" and room: "has_room s"
  shows "\<exists>bh s'. bread RAMDISK n s = Ret (Some bh) s' \<and> store_inv s' \<and> rest s' = rest s \<and>
    (\<forall>m. rd_has s m \<longrightarrow> view s' m = view s m) \<and> bh < length (buffers s) \<and> cnt s bh = 0 \<and> \<not> dirty s bh \<and>
    length (buffers s') = length (buffers s) \<and> (\<forall>i. i \<noteq> bh \<longrightarrow> core (buffers s' ! i) = core (buffers s ! i)) \<and>
    b_count (buffers s' ! bh) = 1 \<and> b_dirt (buffers s' ! bh) = 0 \<and> b_data (buffers s' ! bh) = rd_block s n"
proof -
  obtain R C where wf: "wf_cache s R C" and idle: "rd_idle s" using inv by (auto simp: store_inv_def)
  obtain bh where lru: "find (\<lambda>i. reusable (buffers s ! i)) R = Some bh" and bh: "bh < length (buffers s)"
    and re: "reusable (buffers s ! bh)"
    by (rule has_room_reusable [OF inv wf room])
  let ?b = "buffers s ! bh"
  have ok: "b_lock ?b = 0" "b_wait ?b = None" "b_dirt ?b = 0" using inv bh re by (auto simp: store_inv_def buf_ok_def BADNESS_0)
  obtain bs1 ht fl z where cl: "claim_buffer bh RAMDISK n s = Ret bh (s\<lparr>buffers := bs1, hash_table := ht, free_list := fl, null_b_prev := z\<rparr>)"
    and c: "same_core ((buffers s)[bh := claimed ?b RAMDISK n]) bs1"
    and wf1: "wf_cache (s\<lparr>buffers := bs1, hash_table := ht, free_list := fl, null_b_prev := z\<rparr>)
           (remove1 bh R @ [bh]) (moved C bh (hashfn RAMDISK n))"
    by (rule claim_buffer_run [OF wf bh _ absent]) simp_all
  let ?s1 = "s\<lparr>buffers := bs1, hash_table := ht, free_list := fl, null_b_prev := z\<rparr>"
  have g: "getblk RAMDISK n s = Ret bh ?s1" using getblk_miss [OF wf _ absent lru] cl by simp
  have len1: "length bs1 = length (buffers s)" using same_core_len [OF c] by simp
  note f = same_coreD [OF c, of bh]
  have p1: "rd_idle ?s1" "rd_has ?s1 n" "holds (buffers ?s1) bh RAMDISK n" "b_uptodate (buffers ?s1 ! bh) = 0"
      "b_lock (buffers ?s1 ! bh) = 0" "b_wait (buffers ?s1 ! bh) = None" "rd_block ?s1 n = rd_block s n"
    using idle has bh ok len1 f by (simp_all add: rd_idle_def rd_has_def holds_def rd_block_def claimed_def)
  obtain s' where r: "kseq (ll_rw_block READ bh) (kseq (wait_on_buffer bh) (kbind (buf bh) (\<lambda>b.
        if b_uptodate b \<noteq> 0 then kreturn (Some bh) else kseq (brelse (Some bh)) (kreturn None)))) ?s1 = Ret (Some bh) s'"
    and rest: "rest s' = rest ?s1" and wf': "wf_cache s' (remove1 bh R @ [bh]) (moved C bh (hashfn RAMDISK n))" and idle': "rd_idle s'"
    and bs: "buffers s' = (buffers ?s1)[bh := (buffers ?s1 ! bh)\<lparr>b_data := rd_block ?s1 n, b_uptodate := 1, b_dirt := 0\<rparr>]"
    by (rule read_fill [OF wf1 p1(1-6)])
  have rest': "rest s' = rest s" using rest by (simp add: rest_def)
  have new: "holds (buffers s') bh RAMDISK n" "b_data (buffers s' ! bh) = rd_block s n" "b_dirt (buffers s' ! bh) = 0"
      "b_lock (buffers s' ! bh) = 0" "b_wait (buffers s' ! bh) = None" "length (buffers s') = length (buffers s)"
      "b_count (buffers s' ! bh) = 1"
    using bh len1 ok f p1(3,7) by (simp_all add: bs holds_def claimed_def)
  have oth: "core (buffers s' ! j) = core (buffers s ! j)" if "j \<noteq> bh" for j
    using that c by (simp add: bs same_core_def)
  have only: "b_uptodate (buffers s ! j) = 0" if "holds (buffers s) j RAMDISK n" for j using absent that by blast
  have "store_inv s'" "\<And>m. rd_has s m \<Longrightarrow> view s' m = view s m"
    using fill_consistent [OF inv rest' wf' idle' new(6) bh only ok(3) oth new(1-5)] by blast+
  moreover have "bread RAMDISK n s = Ret (Some bh) s'"
    using bread_with_fill [OF g _ _ r] bh len1 p1(4) by simp
  moreover have "cnt s bh = 0" "\<not> dirty s bh" using bh re ok by (simp_all add: cnt_def dirty_def)
  ultimately show ?thesis using rest' new oth bh by blast
qed

definition store_usable :: "'a blk_scheme \<Rightarrow> bool" where
  "store_usable s \<longleftrightarrow> store_inv s \<and> has_room s \<and> (\<forall>i. cnt s i < 255)"

lemma unat_count_Suc: "cnt s i < 255 \<Longrightarrow> i < length (buffers s) \<Longrightarrow> unat (b_count (buffers s ! i) + 1) = cnt s i + 1"
  by (simp add: cnt_def unat_word_ariths)

lemma cnt_upd: "i < length (buffers s) \<Longrightarrow> buffers s' = (buffers s)[i := b] \<Longrightarrow> cnt s' = (cnt s)(i := unat (b_count b))"
  by (auto simp: cnt_def fun_eq_iff nth_upd_any)

lemma dirty_upd: "i < length (buffers s) \<Longrightarrow> buffers s' = (buffers s)[i := b] \<Longrightarrow> b_dirt b = b_dirt (buffers s ! i) \<Longrightarrow> dirty s' = dirty s"
  by (auto simp: dirty_def fun_eq_iff nth_upd_any)

lemma bread_law:
  assumes use: "store_usable s" and has: "rd_has s n"
  shows "\<exists>bh s'. bread RAMDISK n s = Ret (Some bh) s' \<and> bdata s' bh = view s n \<and> store_inv s' \<and> rest s' = rest s \<and>
    (\<forall>m. rd_has s m \<longrightarrow> view s' m = view s m) \<and> bh < length (buffers s) \<and> length (buffers s') = length (buffers s) \<and>
    cnt s' = (cnt s)(bh := cnt s bh + 1) \<and> dirty s' = dirty s"
proof -
  have inv: "store_inv s" and room: "has_room s" and c: "\<And>i. cnt s i < 255" using use by (auto simp: store_usable_def)
  consider (cached) i where "holds (buffers s) i RAMDISK n" "b_uptodate (buffers s ! i) \<noteq> 0"
    | (stale) i where "holds (buffers s) i RAMDISK n" "b_uptodate (buffers s ! i) = 0"
    | (absent) "\<And>i. \<not> holds (buffers s) i RAMDISK n" by blast
  then show ?thesis
  proof cases
    case cached
    have lt: "i < length (buffers s)" using cached by (simp add: holds_def)
    obtain s' where s': "bread RAMDISK n s = Ret (Some i) s'" "store_inv s'" "rest s' = rest s"
        "buffers s' = (buffers s)[i := (buffers s ! i)\<lparr>b_count := b_count (buffers s ! i) + 1\<rparr>]"
      using bread_cached [OF inv cached] by blast
    have "view s' m = view s m" if "rd_has s m" for m
    proof (rule view_same [OF inv s'(2) restD(1) [OF s'(3)] that])
      show "\<exists>j. holds (buffers s') j RAMDISK m \<and> b_uptodate (buffers s' ! j) \<noteq> 0"
        if "holds (buffers s) k RAMDISK m" "b_uptodate (buffers s ! k) \<noteq> 0" for k
        using that lt by (intro exI [of _ k]) (auto simp: s'(4) holds_def nth_upd_any)
      show "b_data (buffers s' ! j) = view s m" if "holds (buffers s') j RAMDISK m" "b_uptodate (buffers s' ! j) \<noteq> 0" for j
      proof -
        have "holds (buffers s) j RAMDISK m" "b_uptodate (buffers s ! j) \<noteq> 0"
          using that lt by (auto simp: s'(4) holds_def nth_upd_any split: if_splits)
        moreover have "b_data (buffers s' ! j) = b_data (buffers s ! j)" using lt by (simp add: s'(4) nth_upd_any)
        ultimately show ?thesis using view_cached [OF inv] by simp
      qed
    qed
    moreover have "cnt s' = (cnt s)(i := cnt s i + 1)" "dirty s' = dirty s"
      using cnt_upd [OF lt s'(4)] dirty_upd [OF lt s'(4)] unat_count_Suc [OF c lt] by simp_all
    moreover have "bdata s' i = view s n" using view_cached [OF inv cached] lt by (simp add: bdata_def s'(4))
    ultimately show ?thesis using s' lt by (intro exI [of _ i] exI [of _ s']) simp
  next
    case stale
    have lt: "i < length (buffers s)" using stale by (simp add: holds_def)
    then have d: "b_dirt (buffers s ! i) = 0" using inv stale(2) by (auto simp: store_inv_def buf_ok_def)
    obtain s' where s': "bread RAMDISK n s = Ret (Some i) s'" "store_inv s'" "rest s' = rest s"
        "\<forall>m. rd_has s m \<longrightarrow> view s' m = view s m"
        "buffers s' = (buffers s)[i := (buffers s ! i)\<lparr>b_count := b_count (buffers s ! i) + 1, b_data := rd_block s n, b_uptodate := 1, b_dirt := 0\<rparr>]"
      using bread_stale [OF inv has stale] by blast
    have "view s n = rd_block s n"
    proof (rule view_uncached)
      obtain R C where wf: "wf_cache s R C" using inv by (auto simp: store_inv_def)
      show "b_uptodate (buffers s ! j) = 0" if "holds (buffers s) j RAMDISK n" for j
        using wf_cacheD(7) [OF wf _ stale(1) that] stale(2) by simp
    qed
    then show ?thesis
      using s' lt cnt_upd [OF lt s'(5)] dirty_upd [OF lt s'(5)] unat_count_Suc [OF c lt] d
      by (intro exI [of _ i] exI [of _ s']) (simp add: bdata_def)
  next
    case absent
    obtain bh s' where s': "bread RAMDISK n s = Ret (Some bh) s'" "store_inv s'" "rest s' = rest s"
        "\<forall>m. rd_has s m \<longrightarrow> view s' m = view s m" "bh < length (buffers s)" "cnt s bh = 0" "\<not> dirty s bh"
        "length (buffers s') = length (buffers s)" "\<And>i. i \<noteq> bh \<Longrightarrow> core (buffers s' ! i) = core (buffers s ! i)"
        "b_count (buffers s' ! bh) = 1" "b_dirt (buffers s' ! bh) = 0" "b_data (buffers s' ! bh) = rd_block s n"
      using bread_absent [OF inv has absent room] by blast
    have "view s n = rd_block s n" using absent by (intro view_uncached) blast
    moreover have "b_dirt (buffers s' ! i) = b_dirt (buffers s ! i)" for i
      using s'(5,7,11) coreD(6) [OF s'(9), of i] by (cases "i = bh") (auto simp: dirty_def)
    then have "dirty s' = dirty s" using s'(8) by (simp add: dirty_def fun_eq_iff)
    moreover have "cnt s' = (cnt s)(bh := cnt s bh + 1)"
      using s'(5,6,8,10) coreD(4) [OF s'(9)] by (auto simp: cnt_def fun_eq_iff)
    ultimately show ?thesis using s' by (intro exI [of _ bh] exI [of _ s']) (simp add: bdata_def)
  qed
qed

lemma brelse_view:
  assumes inv: "store_inv s" and bh: "bh < length (buffers s)" and c: "0 < cnt s bh"
  shows "\<exists>s'. brelse (Some bh) s = Ret () s' \<and> store_inv s' \<and> rest s' = rest s \<and> view s' = view s \<and>
    length (buffers s') = length (buffers s) \<and> cnt s' = (cnt s)(bh := cnt s bh - 1) \<and> dirty s' = dirty s"
proof -
  let ?b = "buffers s ! bh"
  let ?s' = "s\<lparr>buffers := (buffers s)[bh := ?b\<lparr>b_count := b_count ?b - 1\<rparr>]\<rparr>"
  obtain R C where wf: "wf_cache s R C" using inv by (auto simp: store_inv_def)
  have nz: "b_count ?b \<noteq> 0" using c bh by (auto simp: cnt_def)
  have ok: "b_lock ?b = 0" "buffer_wait s = None" using inv bh by (simp_all add: store_inv_def buf_ok_def)
  have "brelse (Some bh) s = Ret () (?s'\<lparr>buffer_wait := None\<rparr>)"
    using bh ok nz by (simp add: brelse_def km_simps wait_on_buffer_def wake_up_def)
  moreover have "?s'\<lparr>buffer_wait := None\<rparr> = ?s'" using ok(2) by (intro blk.equality) simp_all
  ultimately have run: "brelse (Some bh) s = Ret () ?s'" by simp
  have "wf_cache ?s' R C"
    by (rule wf_cache_update [OF wf bh, of "?b\<lparr>b_count := b_count ?b - 1\<rparr>"]) (simp_all add: same_links_def)
  then have "store_inv ?s'"
    using inv bh by (auto simp: store_inv_def buf_ok_def rd_idle_def nth_upd_any rd_has_def rd_block_def)
  moreover have "view ?s' = view s"
  proof
    fix n
    have "b_dev (buffers ?s' ! i) = b_dev (buffers s ! i)" "b_blocknr (buffers ?s' ! i) = b_blocknr (buffers s ! i)"
        "b_uptodate (buffers ?s' ! i) = b_uptodate (buffers s ! i)" "b_data (buffers ?s' ! i) = b_data (buffers s ! i)" for i
      using bh by (simp_all add: nth_upd_any)
    then show "view ?s' n = view s n" unfolding view_def by (simp add: rd_block_def split: option.split)
  qed
  moreover have "cnt ?s' = (cnt s)(bh := cnt s bh - 1)" "dirty ?s' = dirty s" "rest ?s' = rest s"
    using cnt_upd [OF bh, of ?s' "?b\<lparr>b_count := b_count ?b - 1\<rparr>"] dirty_upd [OF bh, of ?s' "?b\<lparr>b_count := b_count ?b - 1\<rparr>"] bh
      word_minus_one_unat [OF nz] by (simp_all add: cnt_def rest_def)
  ultimately show ?thesis using run by (intro exI [of _ ?s']) simp
qed

section \<open>The interface of the cache\<close>

text \<open>
  What the file system relies on: a consistent store (\<open>inv\<close>) shows the contents of each block
  (\<open>view\<close>); \<open>rd\<close> lends a buffer with these contents and \<open>rel\<close> takes it back; neither changes
  the contents or the rest of the state.
\<close>

locale block_store =
  fixes inv :: "'s \<Rightarrow> bool" and other :: "'s \<Rightarrow> 'r" and has_block :: "'s \<Rightarrow> u32 \<Rightarrow> bool"
    and contents :: "'s \<Rightarrow> u32 \<Rightarrow> u8 list" and nbuf :: "'s \<Rightarrow> nat" and users :: "'s \<Rightarrow> nat \<Rightarrow> nat"
    and modified :: "'s \<Rightarrow> nat \<Rightarrow> bool" and dat :: "'s \<Rightarrow> nat \<Rightarrow> u8 list" and usable :: "'s \<Rightarrow> bool"
    and rd :: "u32 \<Rightarrow> ('s, nat option) km" and rel :: "nat option \<Rightarrow> ('s, unit) km"
  assumes usable_iff: "usable s \<longleftrightarrow> inv s \<and> (\<exists>i < nbuf s. users s i = 0 \<and> \<not> modified s i) \<and> (\<forall>i. users s i < 255)"
    and has_other: "other s' = other s \<Longrightarrow> has_block s' = has_block s"
    and rd_law: "usable s \<Longrightarrow> has_block s n \<Longrightarrow>
      \<exists>bh s'. rd n s = Ret (Some bh) s' \<and> dat s' bh = contents s n \<and> inv s' \<and> other s' = other s \<and>
        (\<forall>m. has_block s m \<longrightarrow> contents s' m = contents s m) \<and> bh < nbuf s \<and> nbuf s' = nbuf s \<and>
        users s' = (users s)(bh := users s bh + 1) \<and> modified s' = modified s"
    and rel_law: "inv s \<Longrightarrow> bh < nbuf s \<Longrightarrow> 0 < users s bh \<Longrightarrow>
      \<exists>s'. rel (Some bh) s = Ret () s' \<and> inv s' \<and> other s' = other s \<and> contents s' = contents s \<and>
        nbuf s' = nbuf s \<and> users s' = (users s)(bh := users s bh - 1) \<and> modified s' = modified s"
begin

text \<open>The pattern of every read in the file system: borrow a block, look at it, give it back.\<close>

lemma read_release:
  assumes "usable s" and "has_block s n"
  obtains bh s1 s2 where "rd n s = Ret (Some bh) s1" and "dat s1 bh = contents s n" and "other s1 = other s"
    and "bh < nbuf s1" and "rel (Some bh) s1 = Ret () s2" and "usable s2" and "other s2 = other s"
    and "\<And>m. has_block s m \<Longrightarrow> contents s2 m = contents s m" and "has_block s2 = has_block s"
proof -
  obtain bh s1 where 1: "rd n s = Ret (Some bh) s1" "dat s1 bh = contents s n" "inv s1" "other s1 = other s"
      "\<forall>m. has_block s m \<longrightarrow> contents s1 m = contents s m" "bh < nbuf s" "nbuf s1 = nbuf s"
      "users s1 = (users s)(bh := users s bh + 1)" "modified s1 = modified s"
    using rd_law [OF assms] by blast
  have "bh < nbuf s1" "0 < users s1 bh" using 1 by auto
  then obtain s2 where 2: "rel (Some bh) s1 = Ret () s2" "inv s2" "other s2 = other s1" "contents s2 = contents s1"
      "nbuf s2 = nbuf s1" "users s2 = (users s1)(bh := users s1 bh - 1)" "modified s2 = modified s1"
    using rel_law [OF 1(3)] by blast
  have "users s2 = users s" "nbuf s2 = nbuf s" "modified s2 = modified s" using 1 2 by auto
  then have "usable s2" using assms(1) 2(2) unfolding usable_iff by simp
  moreover have "other s2 = other s" using 1 2 by simp
  ultimately show thesis using 1 2 that has_other [of s2 s] by auto
qed

end

interpretation cache: block_store store_inv rest rd_has view "\<lambda>s. length (buffers s)" cnt dirty bdata store_usable
  "bread RAMDISK" brelse
proof unfold_locales
  show "store_usable s \<longleftrightarrow> store_inv s \<and> (\<exists>i < length (buffers s). cnt s i = 0 \<and> \<not> dirty s i) \<and> (\<forall>i. cnt s i < 255)"
    for s :: "'a fsys_scheme"
    by (simp add: store_usable_def)
  show "rd_has s' = rd_has s" if "rest s' = rest s" for s s' :: "'a fsys_scheme"
    using rd_same restD(1) [OF that] by blast
next
  fix s :: "'a fsys_scheme" and n
  assume "store_usable s" "rd_has s n"
  then show "\<exists>bh s'. bread RAMDISK n s = Ret (Some bh) s' \<and> bdata s' bh = view s n \<and> store_inv s' \<and> rest s' = rest s \<and>
    (\<forall>m. rd_has s m \<longrightarrow> view s' m = view s m) \<and> bh < length (buffers s) \<and> length (buffers s') = length (buffers s) \<and>
    cnt s' = (cnt s)(bh := cnt s bh + 1) \<and> dirty s' = dirty s"
    by (rule bread_law)
next
  fix s :: "'a fsys_scheme" and bh
  assume "store_inv s" "bh < length (buffers s)" "0 < cnt s bh"
  then show "\<exists>s'. brelse (Some bh) s = Ret () s' \<and> store_inv s' \<and> rest s' = rest s \<and> view s' = view s \<and>
    length (buffers s') = length (buffers s) \<and> cnt s' = (cnt s)(bh := cnt s bh - 1) \<and> dirty s' = dirty s"
    by (rule brelse_view)
qed

section \<open>Examples\<close>

definition ex_fs :: fsys where
  "ex_fs = blk.extend ex_blk (fsys.fields [] 0 [] [] RAMDISK (\<lambda>_. 0))"

lemma ex_fs_simps [simp]:
  "buffers ex_fs = map ex_buffer [0, 1]" "hash_table ex_fs = replicate 307 None" "free_list ex_fs = 0"
  "request ex_fs = replicate 32 (ex_request (-1) 0 0 None)" "current_request ex_fs = replicate 7 None"
  "request_fn ex_fs = [False, True, False, True, False, False, False]"
  "rd_start ex_fs = 0x400000" "rd_data ex_fs = replicate 4096 0" "wait_for_request ex_fs = None" "buffer_wait ex_fs = None"
  by (simp_all add: ex_fs_def ex_blk_def mm.defs blk.defs fsys.defs)

lemma ex_fs_nth: "i < length (buffers ex_fs) \<Longrightarrow> buffers ex_fs ! i = ex_buffer i" "length (buffers ex_fs) = 2"
  by (auto simp: less_Suc_eq)

lemma ex_wf_cache: "wf_cache ex_fs [0, 1] (\<lambda>_. [])"
proof -
  have f: "b_next (buffers ex_fs ! i) = None" "b_prev (buffers ex_fs ! i) = None" "b_dev (buffers ex_fs ! i) = 0"
      "length (b_data (buffers ex_fs ! i)) = 1024" if "i < length (buffers ex_fs)" for i
    unfolding ex_fs_nth(1) [OF that] by (simp_all add: ex_buffer_def)
  have "ring (bnfr (buffers ex_fs)) (bpfr (buffers ex_fs)) (free_list ex_fs) [0, 1]"
    by (simp add: ring_def bnfr_def bpfr_def ex_buffer_def)
  moreover have "wf_hash (length (buffers ex_fs)) (bnx (buffers ex_fs)) (bpv (buffers ex_fs)) (hash_table ex_fs)
      (bkey (buffers ex_fs)) (\<lambda>_. [])"
    using f(3) by (auto simp: wf_hash_def bkey_def simp del: ex_fs_simps(1))
  moreover have "set [0, 1] = {..<length (buffers ex_fs)}" "2 \<le> length (buffers ex_fs)" by auto
  moreover have "distinct [0, 1 :: nat]" by simp
  ultimately show ?thesis
    unfolding wf_cache_def Let_def using f by (auto simp: bnx_def bpv_def holds_def simp del: ex_fs_simps(1))
qed

lemma ex_store_usable: "store_usable ex_fs"
proof -
  have "rd_idle ex_fs" by (simp add: rd_idle_def ex_request_def)
  moreover have "buf_ok ex_fs (buffers ex_fs ! i)" if "i < length (buffers ex_fs)" for i
    unfolding ex_fs_nth(1) [OF that] by (simp add: buf_ok_def ex_buffer_def)
  moreover have "cnt ex_fs i = 0" "\<not> dirty ex_fs i" for i
    using ex_fs_nth(1) [of i] by (auto simp: cnt_def dirty_def ex_buffer_def simp del: ex_fs_simps(1))
  ultimately show ?thesis
    using ex_wf_cache ex_fs_nth(2) unfolding store_usable_def store_inv_def
    by (auto simp del: ex_fs_simps(1) intro: exI [of _ 0])
qed

lemma ex_fs_empty: "\<not> holds (buffers ex_fs) i RAMDISK n"
  using ex_fs_nth(1) [of i] by (auto simp: holds_def ex_buffer_def simp del: ex_fs_simps(1))

text \<open>
  C10: reading a block of the ram disk through the cache, with at least one free buffer:
  \<open>bread\<close> returns a buffer whose data is the current contents of the block, whether it was
  cached (clean, dirty or stale) or not; the contents of no block change, the cache stays
  consistent, the use count of that buffer and nothing else of the counts changes.
\<close>

theorem bread_view:
  assumes "store_usable s" and "rd_has s n"
  shows "\<exists>bh s'. bread RAMDISK n s = Ret (Some bh) s' \<and> bdata s' bh = view s n \<and> store_inv s' \<and> rest s' = rest s \<and>
    (\<forall>m. rd_has s m \<longrightarrow> view s' m = view s m) \<and> bh < length (buffers s) \<and> length (buffers s') = length (buffers s) \<and>
    cnt s' = (cnt s)(bh := cnt s bh + 1) \<and> dirty s' = dirty s"
  using assms by (rule bread_law)

theorem bread_view_witness:
  "\<exists>bh s'. bread RAMDISK 3 ex_fs = Ret (Some bh) s' \<and> bdata s' bh = view ex_fs 3 \<and> store_inv s'"
  using bread_view [OF ex_store_usable, of 3] by (auto simp: rd_has_def)

theorem getblk_lru_witness:
  "\<exists>s'. getblk RAMDISK 3 ex_fs = Ret 0 s' \<and> wf_cache s' [1, 0] (moved (\<lambda>_. []) 0 (hashfn RAMDISK 3)) \<and>
     holds (buffers s') 0 RAMDISK 3"
proof -
  note ex_fs_empty
  moreover have "find (\<lambda>i. reusable (buffers ex_fs ! i)) [0, 1] = Some 0" by (simp add: ex_buffer_def BADNESS_def)
  ultimately have "\<exists>s'. getblk RAMDISK 3 ex_fs = Ret 0 s' \<and>
    wf_cache s' (remove1 0 [0, 1] @ [0]) (moved (\<lambda>_. []) 0 (hashfn RAMDISK 3)) \<and> holds (buffers s') 0 RAMDISK 3 \<and>
    same_core ((buffers ex_fs)[0 := claimed (buffers ex_fs ! 0) RAMDISK 3]) (buffers s')"
    by (intro getblk_lru [OF ex_wf_cache]) simp_all
  then show ?thesis by auto
qed

theorem getblk_cached_witness:
  "\<exists>s s'. getblk RAMDISK 3 ex_fs = Ret 0 s \<and> getblk RAMDISK 3 s = Ret 0 s' \<and> b_count (buffers s' ! 0) = 2"
proof -
  obtain bs ht fl z where run: "claim_buffer 0 RAMDISK 3 ex_fs = Ret 0 (ex_fs\<lparr>buffers := bs, hash_table := ht, free_list := fl, null_b_prev := z\<rparr>)"
    and c: "same_core ((buffers ex_fs)[0 := claimed (buffers ex_fs ! 0) RAMDISK 3]) bs"
    and wf: "wf_cache (ex_fs\<lparr>buffers := bs, hash_table := ht, free_list := fl, null_b_prev := z\<rparr>)
       (remove1 0 [0, 1] @ [0]) (moved (\<lambda>_. []) 0 (hashfn RAMDISK 3))"
    by (rule claim_buffer_run [OF ex_wf_cache _ _ ex_fs_empty, of 0]) simp_all
  let ?s = "ex_fs\<lparr>buffers := bs, hash_table := ht, free_list := fl, null_b_prev := z\<rparr>"
  have "find (\<lambda>i. reusable (buffers ex_fs ! i)) [0, 1] = Some 0" by (simp add: ex_buffer_def BADNESS_def)
  then have "getblk RAMDISK 3 ex_fs = Ret 0 ?s"
    using getblk_miss [OF ex_wf_cache _ ex_fs_empty] run by simp
  moreover have h: "holds (buffers ?s) 0 RAMDISK 3" "b_lock (buffers ?s ! 0) = 0" "b_count (bs ! 0) = 1"
    using same_coreD [OF c, of 0] same_core_len [OF c] by (simp_all add: holds_def claimed_def ex_buffer_def)
  ultimately show ?thesis
    using getblk_cached [OF wf _ h(1,2)] same_core_len [OF c] by auto
qed

end
