(* ===== verification/Inode.thy ===== *)
theory Inode
  imports Blockstore
begin

text \<open>
  Zones and inodes: \<open>fs/bitmap.c\<close>, \<open>fs/truncate.c\<close> and \<open>fs/inode.c\<close> (without \<open>write_inode\<close>
  and \<open>sync_inodes\<close>, which are in \<open>Buffer\<close>). The loops that the code repeats after a
  possible sleep are bounded by fuel; each bound exceeds what one task can use without
  sleeping.
\<close>

section \<open>Zones\<close>

definition S_IFMT :: u16 where "S_IFMT = 0xF000"

abbreviation S_ISREG :: "u16 \<Rightarrow> bool" where "S_ISREG m \<equiv> m AND S_IFMT = 0x8000"
abbreviation S_ISDIR :: "u16 \<Rightarrow> bool" where "S_ISDIR m \<equiv> m AND S_IFMT = 0x4000"
abbreviation S_ISCHR :: "u16 \<Rightarrow> bool" where "S_ISCHR m \<equiv> m AND S_IFMT = 0x2000"
abbreviation S_ISBLK :: "u16 \<Rightarrow> bool" where "S_ISBLK m \<equiv> m AND S_IFMT = 0x6000"

text \<open>The times of an inode are the low 32 bits of \<open>CURRENT_TIME\<close>.\<close>

definition now :: "'a sched_scheme \<Rightarrow> u32" where
  "now s = of_int (CURRENT_TIME s)"

definition free_block :: "u16 \<Rightarrow> u32 \<Rightarrow> ('a fsys_scheme, unit) km" where
  "free_block dev block =
     kbind (get_super dev) (\<lambda>q.
     case q of None \<Rightarrow> kstop (Panic ''trying to free block on nonexistent device'')
     | Some k \<Rightarrow> kbind (sb k) (\<lambda>x.
       if block < ucast (s_firstdatazone x) \<or> block \<ge> ucast (s_nzones x)
       then kstop (Panic ''trying to free block not in datazone'')
       else kbind (get_hash_table dev block) (\<lambda>h.
         kbind (case h of None \<Rightarrow> kreturn True
                | Some bh \<Rightarrow> kbind (buf bh) (\<lambda>b.
                    if b_count b \<noteq> 1 then kreturn False
                    else kseq (upd_buf bh (\<lambda>b. b\<lparr>b_dirt := 0, b_uptodate := 0\<rparr>))
                         (kseq (brelse (Some bh)) (kreturn True)))) (\<lambda>go.
         if \<not> go then kreturn ()
         else let nr = unat block + 1 - unat (s_firstdatazone x)
              in kbind (the_ptr ''s_zmap'' (s_zmap x ! (nr div 8192))) (\<lambda>m.
                 kbind (buf m) (\<lambda>b.
                 let (was_clear, d) = clear_bit (nr mod 8192) (b_data b)
                 in kseq (upd_buf m (\<lambda>b. b\<lparr>b_data := d\<rparr>))
                    (if was_clear then kstop (Panic ''free_block: bit already cleared'')
                     else upd_buf m (\<lambda>b. b\<lparr>b_dirt := 1\<rparr>))))))))"

text \<open>
  The search of \<open>new_block\<close> and \<open>new_inode\<close> through the bit maps: the values of \<open>i\<close>, \<open>bh\<close>
  and \<open>j\<close> when the loop ends.
\<close>

fun map_scan :: "buffer_head list \<Rightarrow> nat option list \<Rightarrow> nat \<Rightarrow> nat option \<Rightarrow> nat \<Rightarrow> nat \<times> nat option \<times> nat" where
  "map_scan bs [] i bh j = (i, bh, j)"
| "map_scan bs (None # ms) i bh j = map_scan bs ms (Suc i) None j"
| "map_scan bs (Some m # ms) i bh j =
     (let z = find_first_zero (b_data (bs ! m))
      in if z < 8192 then (i, Some m, z) else map_scan bs ms (Suc i) (Some m) z)"

definition new_block :: "u16 \<Rightarrow> ('a fsys_scheme, u32) km" where
  "new_block dev =
     kbind (get_super dev) (\<lambda>q.
     case q of None \<Rightarrow> kstop (Panic ''trying to get new block from nonexistant device'')
     | Some k \<Rightarrow> kbind (sb k) (\<lambda>x.
       kbind (kget (\<lambda>s. map_scan (buffers s) (s_zmap x) 0 None 8192)) (\<lambda>(i, bh, j).
       case bh of None \<Rightarrow> kreturn 0
       | Some m \<Rightarrow>
         if i \<ge> 8 \<or> j \<ge> 8192 then kreturn 0
         else kbind (buf m) (\<lambda>b.
           let (was_set, d) = set_bit j (b_data b)
           in kseq (upd_buf m (\<lambda>b. b\<lparr>b_data := d\<rparr>))
              (if was_set then kstop (Panic ''new_block: bit already set'')
               else kseq (upd_buf m (\<lambda>b. b\<lparr>b_dirt := 1\<rparr>))
                 (let z = int j + int i * 8192 + uint (s_firstdatazone x) - 1
                  in if z \<ge> uint (s_nzones x) then kreturn 0
                     else kbind (getblk dev (of_int z)) (\<lambda>g.
                       kbind (buf g) (\<lambda>c.
                       if b_count c \<noteq> 1 then kstop (Panic ''new block: count is != 1'')
                       else kseq (upd_buf g (\<lambda>c. c\<lparr>b_data := replicate BLOCK_SIZE 0, b_uptodate := 1, b_dirt := 1\<rparr>))
                            (kseq (brelse (Some g)) (kreturn (of_int z)))))))))))"

text \<open>\<open>memset(inode,0,sizeof( *inode))\<close>\<close>

definition zero_inode :: m_inode where
  "zero_inode = \<lparr>i_mode = 0, i_uid = 0, i_size = 0, i_mtime = 0, i_gid = 0, i_nlinks = 0, i_zone = replicate 9 0,
     i_wait = None, i_atime = 0, i_ctime = 0, i_dev = 0, i_num = 0, i_count = 0, i_lock = 0, i_dirt = 0, i_pipe = 0,
     i_mount = 0, i_seek = 0, i_update = 0\<rparr>"

definition free_inode :: "nat \<Rightarrow> ('a fsys_scheme, unit) km" where
  "free_inode i =
     kbind (ino i) (\<lambda>x.
     if i_dev x = 0 then upd_ino i (\<lambda>_. zero_inode)
     else if i_count x > 1 then kstop (Panic ''free_inode'')
     else if i_nlinks x \<noteq> 0 then kstop (Panic ''trying to free inode with links'')
     else kbind (get_super (i_dev x)) (\<lambda>q.
       case q of None \<Rightarrow> kstop (Panic ''trying to free inode on nonexistent device'')
       | Some k \<Rightarrow> kbind (sb k) (\<lambda>y.
         if i_num x < 1 \<or> i_num x > s_ninodes y then kstop (Panic ''trying to free inode 0 or nonexistant inode'')
         else case s_imap y ! (unat (i_num x) div 8192) of
                None \<Rightarrow> kstop (Panic ''nonexistent imap in superblock'')
              | Some m \<Rightarrow> kseq (upd_buf m (\<lambda>b. b\<lparr>b_data := snd (clear_bit (unat (i_num x) mod 8192) (b_data b)), b_dirt := 1\<rparr>))
                              (upd_ino i (\<lambda>_. zero_inode)))))"

section \<open>Truncation\<close>

definition free_ind :: "u16 \<Rightarrow> u16 \<Rightarrow> ('a fsys_scheme, unit) km" where
  "free_ind dev block =
     (if block = 0 then kreturn ()
      else kbind (bread dev (ucast block)) (\<lambda>q.
        kseq (case q of None \<Rightarrow> kreturn ()
              | Some bh \<Rightarrow> kseq (kfor [0..<512] (\<lambda>i. kbind (buf bh) (\<lambda>b.
                    kwhen (rd16 (b_data b) (2 * i) \<noteq> 0) (free_block dev (ucast (rd16 (b_data b) (2 * i)))))))
                  (brelse (Some bh)))
        (free_block dev (ucast block))))"

definition free_dind :: "u16 \<Rightarrow> u16 \<Rightarrow> ('a fsys_scheme, unit) km" where
  "free_dind dev block =
     (if block = 0 then kreturn ()
      else kbind (bread dev (ucast block)) (\<lambda>q.
        kseq (case q of None \<Rightarrow> kreturn ()
              | Some bh \<Rightarrow> kseq (kfor [0..<512] (\<lambda>i. kbind (buf bh) (\<lambda>b.
                    kwhen (rd16 (b_data b) (2 * i) \<noteq> 0) (free_ind dev (rd16 (b_data b) (2 * i))))))
                  (brelse (Some bh)))
        (free_block dev (ucast block))))"

definition truncate :: "nat \<Rightarrow> ('a fsys_scheme, unit) km" where
  "truncate i =
     kbind (ino i) (\<lambda>x.
     if \<not> (S_ISREG (i_mode x) \<or> S_ISDIR (i_mode x)) then kreturn ()
     else kseq (kfor [0..<7] (\<lambda>z. kbind (ino i) (\<lambda>x.
              kwhen (i_zone x ! z \<noteq> 0)
                (kseq (free_block (i_dev x) (ucast (i_zone x ! z)))
                (upd_ino i (\<lambda>x. x\<lparr>i_zone := (i_zone x)[z := 0]\<rparr>))))))
       (kbind (ino i) (\<lambda>x.
        kseq (free_ind (i_dev x) (i_zone x ! 7))
       (kbind (ino i) (\<lambda>x.
        kseq (free_dind (i_dev x) (i_zone x ! 8))
       (kbind (kget now) (\<lambda>t.
        upd_ino i (\<lambda>x. x\<lparr>i_zone := (i_zone x)[8 := 0, 7 := 0], i_size := 0, i_dirt := 1, i_ctime := t, i_mtime := t\<rparr>))))))))"

section \<open>Block maps\<close>

text \<open>\<open>if (create && !*p) if ( *p=new_block(dev)) ...\<close> on a zone of the inode itself.\<close>

definition bmap_zone :: "nat \<Rightarrow> nat \<Rightarrow> bool \<Rightarrow> ('a fsys_scheme, u16) km" where
  "bmap_zone i z create =
     kbind (ino i) (\<lambda>x.
     kseq (kwhen (create \<and> i_zone x ! z = 0)
            (kbind (new_block (i_dev x)) (\<lambda>n.
             kseq (upd_ino i (\<lambda>x. x\<lparr>i_zone := (i_zone x)[z := ucast n]\<rparr>))
             (kbind (kget now) (\<lambda>t.
              kwhen (ucast n \<noteq> (0 :: u16)) (upd_ino i (\<lambda>x. x\<lparr>i_dirt := 1, i_ctime := t\<rparr>)))))))
     (kbind (ino i) (\<lambda>x. kreturn (i_zone x ! z))))"

text \<open>The same on an entry of an indirect block; \<open>None\<close> when the block cannot be read.\<close>

definition bmap_entry :: "nat \<Rightarrow> u16 \<Rightarrow> nat \<Rightarrow> bool \<Rightarrow> ('a fsys_scheme, u16 option) km" where
  "bmap_entry i block k create =
     kbind (ino i) (\<lambda>x.
     kbind (bread (i_dev x) (ucast block)) (\<lambda>q.
     case q of None \<Rightarrow> kreturn None
     | Some bh \<Rightarrow> kbind (buf bh) (\<lambda>b.
         kbind (if create \<and> rd16 (b_data b) (2 * k) = 0
                then kbind (new_block (i_dev x)) (\<lambda>n.
                  kseq (kwhen (n \<noteq> 0) (upd_buf bh (\<lambda>b. b\<lparr>b_data := wr16 (2 * k) (ucast n) (b_data b), b_dirt := 1\<rparr>)))
                  (kreturn (ucast n)))
                else kreturn (rd16 (b_data b) (2 * k))) (\<lambda>v.
         kseq (brelse (Some bh)) (kreturn (Some v))))))"

definition bmap_n :: "nat \<Rightarrow> int \<Rightarrow> bool \<Rightarrow> ('a fsys_scheme, u16) km" where
  "bmap_n i block create =
     (if block < 0 then kstop (Panic ''_bmap: block<0'')
      else if block \<ge> 7 + 512 + 512 * 512 then kstop (Panic ''_bmap: block>big'')
      else if block < 7 then bmap_zone i (nat block) create
      else if block < 7 + 512 then
        kbind (bmap_zone i 7 create) (\<lambda>z.
        if z = 0 then kreturn 0
        else kbind (bmap_entry i z (nat block - 7) create) (\<lambda>r.
          kreturn (case r of None \<Rightarrow> 0 | Some v \<Rightarrow> v)))
      else
        kbind (bmap_zone i 8 create) (\<lambda>z.
        if z = 0 then kreturn 0
        else kbind (bmap_entry i z ((nat block - 519) div 512) create) (\<lambda>r.
          case r of None \<Rightarrow> kreturn 0
          | Some v \<Rightarrow> if v = 0 then kreturn 0
              else kbind (bmap_entry i v ((nat block - 519) mod 512) create) (\<lambda>r.
                kreturn (case r of None \<Rightarrow> 0 | Some w \<Rightarrow> w)))))"

definition bmap :: "nat \<Rightarrow> int \<Rightarrow> ('a fsys_scheme, u16) km" where
  "bmap i block = bmap_n i block False"

definition create_block :: "nat \<Rightarrow> int \<Rightarrow> ('a fsys_scheme, u16) km" where
  "create_block i block = bmap_n i block True"

section \<open>The inode table\<close>

text \<open>
  The \<open>repeat\<close> of \<open>iput\<close>: \<open>write_inode\<close> leaves the inode clean, so that the second turn
  releases it.
\<close>

fun iput_loop :: "nat \<Rightarrow> nat \<Rightarrow> ('a fsys_scheme, unit) km" where
  "iput_loop 0 i = kstop Diverges"
| "iput_loop (Suc n) i =
     kbind (ino i) (\<lambda>x.
     if i_count x > 1 then upd_ino i (\<lambda>x. x\<lparr>i_count := i_count x - 1\<rparr>)
     else if i_nlinks x = 0 then kseq (truncate i) (free_inode i)
     else if i_dirt x \<noteq> 0 then kseq (write_inode i) (kseq (wait_on_inode i) (iput_loop n i))
     else upd_ino i (\<lambda>x. x\<lparr>i_count := i_count x - 1\<rparr>))"

definition iput :: "nat option \<Rightarrow> ('a fsys_scheme, unit) km" where
  "iput q =
     (case q of None \<Rightarrow> kreturn ()
      | Some i \<Rightarrow>
        kseq (wait_on_inode i)
        (kbind (ino i) (\<lambda>x.
         if i_count x = 0 then kstop (Panic ''iput: trying to free free inode'')
         else if i_pipe x \<noteq> 0 then
           kseq (upd_ino i (\<lambda>x. x\<lparr>i_wait := None, i_count := i_count x - 1\<rparr>))
           (kseq (wake_wait (i_wait x))
           (if i_count x - 1 \<noteq> 0 then kreturn ()
            else kseq (free_page (i_size x)) (upd_ino i (\<lambda>x. x\<lparr>i_count := 0, i_dirt := 0, i_pipe := 0\<rparr>))))
         else if i_dev x = 0 then upd_ino i (\<lambda>x. x\<lparr>i_count := i_count x - 1\<rparr>)
         else kseq (kwhen (S_ISBLK (i_mode x))
                     (kbind (sync_dev (i_zone x ! 0)) (\<lambda>_. wait_on_inode i)))
              (iput_loop 3 i))))"

text \<open>The search of \<open>get_empty_inode\<close>: the new \<open>last_inode\<close> and the candidate.\<close>

fun empty_scan :: "nat \<Rightarrow> m_inode list \<Rightarrow> nat \<Rightarrow> nat option \<Rightarrow> nat \<times> nat option" where
  "empty_scan 0 tbl prev cand = (prev, cand)"
| "empty_scan (Suc n) tbl prev cand =
     (let l = (if Suc prev \<ge> NR_INODE then 0 else Suc prev)
      in if i_count (tbl ! l) = 0
         then if i_dirt (tbl ! l) = 0 \<and> i_lock (tbl ! l) = 0 then (l, Some l)
              else empty_scan n tbl l (Some l)
         else empty_scan n tbl l cand)"

fun clean_inode :: "nat \<Rightarrow> nat \<Rightarrow> ('a fsys_scheme, unit) km" where
  "clean_inode 0 i = kstop Diverges"
| "clean_inode (Suc n) i =
     kbind (ino i) (\<lambda>x.
     if i_dirt x = 0 then kreturn ()
     else kseq (write_inode i) (kseq (wait_on_inode i) (clean_inode n i)))"

fun get_empty_inode_n :: "nat \<Rightarrow> ('a fsys_scheme, nat) km" where
  "get_empty_inode_n 0 = kstop Diverges"
| "get_empty_inode_n (Suc n) =
     kbind (kget (\<lambda>s. empty_scan NR_INODE (inode_table s) (last_inode s) None)) (\<lambda>(l, cand).
     kseq (kmod (\<lambda>s. s\<lparr>last_inode := l\<rparr>))
     (case cand of None \<Rightarrow> kstop (Panic ''No free inodes in mem'')
      | Some i \<Rightarrow>
          kseq (wait_on_inode i)
          (kseq (clean_inode 3 i)
          (kbind (ino i) (\<lambda>x.
           if i_count x \<noteq> 0 then get_empty_inode_n n
           else kseq (upd_ino i (\<lambda>_. zero_inode\<lparr>i_count := 1\<rparr>)) (kreturn i))))))"

definition get_empty_inode :: "('a fsys_scheme, nat) km" where
  "get_empty_inode = get_empty_inode_n 3"

definition get_pipe_inode :: "('a fsys_scheme, nat option) km" where
  "get_pipe_inode =
     kbind get_empty_inode (\<lambda>i.
     kbind get_free_page (\<lambda>p.
     kseq (upd_ino i (\<lambda>x. x\<lparr>i_size := p\<rparr>))
     (if p = 0 then kseq (upd_ino i (\<lambda>x. x\<lparr>i_count := 0\<rparr>)) (kreturn None)
      else kseq (upd_ino i (\<lambda>x. x\<lparr>i_count := 2, i_zone := (i_zone x)[0 := 0, 1 := 0], i_pipe := 1\<rparr>))
           (kreturn (Some i)))))"

definition read_inode :: "nat \<Rightarrow> ('a fsys_scheme, unit) km" where
  "read_inode i =
     kseq (lock_inode i)
     (kbind (ino i) (\<lambda>x.
      kbind (get_super (i_dev x)) (\<lambda>q.
      case q of None \<Rightarrow> kstop (Panic ''trying to read inode without dev'')
      | Some k \<Rightarrow> kbind (sb k) (\<lambda>y.
          kbind (bread (i_dev x) (inode_block y (i_num x))) (\<lambda>r.
          case r of None \<Rightarrow> kstop (Panic ''unable to read i-node block'')
          | Some bh \<Rightarrow> kbind (buf bh) (\<lambda>b.
              kseq (upd_ino i (from_d_inode (get_d_inode (b_data b) (inode_slot (i_num x)))))
              (kseq (brelse (Some bh)) (unlock_inode i))))))))"

fun find_inode :: "m_inode list \<Rightarrow> u16 \<Rightarrow> u16 \<Rightarrow> nat \<Rightarrow> nat option" where
  "find_inode [] dev nr k = None"
| "find_inode (x # xs) dev nr k = (if i_dev x = dev \<and> i_num x = nr then Some k else find_inode xs dev nr (Suc k))"

fun find_mount :: "super_block list \<Rightarrow> nat \<Rightarrow> nat \<Rightarrow> nat option" where
  "find_mount [] i k = None"
| "find_mount (x # xs) i k = (if s_imount x = Some i then Some k else find_mount xs i (Suc k))"

fun iget_loop :: "nat \<Rightarrow> u16 \<Rightarrow> u16 \<Rightarrow> nat \<Rightarrow> ('a fsys_scheme, nat) km" where
  "iget_loop 0 dev nr emp = kstop Diverges"
| "iget_loop (Suc n) dev nr emp =
     kbind (kget (\<lambda>s. find_inode (take NR_INODE (inode_table s)) dev nr 0)) (\<lambda>q.
     case q of
       None \<Rightarrow> kseq (upd_ino emp (\<lambda>x. x\<lparr>i_dev := dev, i_num := nr\<rparr>))
               (kseq (read_inode emp) (kreturn emp))
     | Some i \<Rightarrow>
         kseq (wait_on_inode i)
         (kseq (upd_ino i (\<lambda>x. x\<lparr>i_count := i_count x + 1\<rparr>))
         (kbind (ino i) (\<lambda>x.
          if i_mount x = 0 then kseq (iput (Some emp)) (kreturn i)
          else kbind (kget (\<lambda>s. find_mount (take NR_SUPER (super_block s)) i 0)) (\<lambda>r.
            case r of
              None \<Rightarrow> kseq (iput (Some emp)) (kreturn i)
            | Some k \<Rightarrow> kseq (iput (Some i)) (kbind (sb k) (\<lambda>y. iget_loop n (s_dev y) ROOT_INO emp)))))))"

text \<open>Each turn follows one mount; there are at most \<open>NR_SUPER\<close> of them.\<close>

definition iget :: "u16 \<Rightarrow> u16 \<Rightarrow> ('a fsys_scheme, nat) km" where
  "iget dev nr =
     (if dev = 0 then kstop (Panic ''iget with dev==0'')
      else kbind get_empty_inode (\<lambda>emp. iget_loop (NR_SUPER + 2) dev nr emp))"

definition new_inode :: "u16 \<Rightarrow> ('a fsys_scheme, nat option) km" where
  "new_inode dev =
     kbind get_empty_inode (\<lambda>i.
     kbind (get_super dev) (\<lambda>q.
     case q of None \<Rightarrow> kstop (Panic ''new_inode with unknown device'')
     | Some k \<Rightarrow> kbind (sb k) (\<lambda>x.
       kbind (kget (\<lambda>s. map_scan (buffers s) (s_imap x) 0 None 8192)) (\<lambda>(n, bh, j).
       case bh of
         None \<Rightarrow> kseq (iput (Some i)) (kreturn None)
       | Some m \<Rightarrow>
           if j \<ge> 8192 \<or> j + n * 8192 > unat (s_ninodes x) then kseq (iput (Some i)) (kreturn None)
           else kbind (buf m) (\<lambda>b.
             let (was_set, d) = set_bit j (b_data b)
             in kseq (upd_buf m (\<lambda>b. b\<lparr>b_data := d\<rparr>))
                (if was_set then kstop (Panic ''new_inode: bit already set'')
                 else kseq (upd_buf m (\<lambda>b. b\<lparr>b_dirt := 1\<rparr>))
                   (kbind (kget (\<lambda>s. (cur s, now s))) (\<lambda>(me, t).
                    kseq (upd_ino i (\<lambda>y. y\<lparr>i_count := 1, i_nlinks := 1, i_dev := dev, i_uid := euid me,
                            i_gid := ucast (egid me), i_dirt := 1, i_num := of_nat (j + n * 8192),
                            i_mtime := t, i_atime := t, i_ctime := t\<rparr>))
                    (kreturn (Some i))))))))))"

definition invalidate_inodes :: "u16 \<Rightarrow> ('a fsys_scheme, unit) km" where
  "invalidate_inodes dev =
     kfor [0..<NR_INODE] (\<lambda>i.
       kseq (wait_on_inode i)
       (kbind (ino i) (\<lambda>x. kwhen (i_dev x = dev) (upd_ino i (\<lambda>x. x\<lparr>i_dev := 0, i_dirt := 0\<rparr>)))))"

section \<open>Bytes, shorts and bits of a block\<close>

lemma length_wr [simp]: "length (wr16 i v d) = length d" "length (wr32 i w d) = length d"
  by (simp_all add: wr16_def wr32_def)

lemma wr16_nth_other: "j \<noteq> i \<Longrightarrow> j \<noteq> i + 1 \<Longrightarrow> wr16 i v d ! j = d ! j"
  by (simp add: wr16_def)

lemma split16: "(ucast (ucast v :: u8) OR push_bit 8 (ucast (ucast (drop_bit 8 v) :: u8)) :: u16) = v"
  by (rule bit_word_eqI) (auto simp: bit_simps)

lemma split32: "(ucast (ucast v :: u16) OR push_bit 16 (ucast (ucast (drop_bit 16 v) :: u16)) :: u32) = v"
  by (rule bit_word_eqI) (auto simp: bit_simps)

lemma rd16_wr16: "i + 1 < length d \<Longrightarrow> rd16 (wr16 i v d) i = v"
  by (simp add: rd16_def wr16_def split16)

lemma rd16_wr16_other: "j + 1 < i \<or> i + 1 < j \<Longrightarrow> rd16 (wr16 i v d) j = rd16 d j"
  by (auto simp: rd16_def wr16_def)

lemma rd32_wr32: "i + 3 < length d \<Longrightarrow> rd32 (wr32 i v d) i = v"
  unfolding rd32_def wr32_def
  by (subst rd16_wr16_other, simp, subst rd16_wr16, simp, subst rd16_wr16, simp, rule split32)

lemma rd16_wr32_other: "j + 1 < i \<or> i + 3 < j \<Longrightarrow> rd16 (wr32 i v d) j = rd16 d j"
  by (elim disjE) (simp_all add: wr32_def rd16_wr16_other)

lemma rd32_wr16_other: "j + 3 < i \<or> i + 1 < j \<Longrightarrow> rd32 (wr16 i v d) j = rd32 d j"
  by (elim disjE) (simp_all add: rd32_def rd16_wr16_other)

lemma rd32_wr32_other: "j + 3 < i \<or> i + 3 < j \<Longrightarrow> rd32 (wr32 i v d) j = rd32 d j"
  by (elim disjE) (simp_all add: rd32_def rd16_wr32_other)

lemma rd16_upd_other: "k < j \<or> j + 1 < k \<Longrightarrow> rd16 (d[k := x]) j = rd16 d j"
  by (auto simp: rd16_def)

lemma rd32_upd_other: "k < j \<or> j + 3 < k \<Longrightarrow> rd32 (d[k := x]) j = rd32 d j"
  by (elim disjE) (simp_all add: rd32_def rd16_upd_other)

lemma nth_wr32_other: "j < i \<or> i + 3 < j \<Longrightarrow> wr32 i v d ! j = d ! j"
  by (auto simp: wr32_def wr16_def)

lemma nth_wr16_other: "j < i \<or> i + 1 < j \<Longrightarrow> wr16 i v d ! j = d ! j"
  by (auto simp: wr16_def)

lemmas wr_other = rd16_wr16_other rd16_wr32_other rd32_wr16_other rd32_wr32_other rd16_upd_other
  rd32_upd_other nth_wr32_other nth_wr16_other

text \<open>The zones of a disk inode are written by nine assignments.\<close>

lemma length_put_zones [simp]: "length (fold (\<lambda>j. wr16 (p + 2 * j) (z ! j)) js d) = length d"
  by (induction js arbitrary: d) simp_all

lemma rd16_put_zones:
  assumes "k < n" and "p + 2 * n \<le> length d"
  shows "rd16 (fold (\<lambda>j. wr16 (p + 2 * j) (z ! j)) [0..<n] d) (p + 2 * k) = z ! k"
  using assms
proof (induction n)
  case (Suc n)
  show ?case
  proof (cases "k = n")
    case True
    with Suc.prems show ?thesis by (simp add: rd16_wr16)
  next
    case False
    with Suc show ?thesis by (simp add: rd16_wr16_other)
  qed
qed simp

lemma nth_put_zones:
  assumes "j < p \<or> p + 2 * n \<le> j"
  shows "fold (\<lambda>j. wr16 (p + 2 * j) (z ! j)) [0..<n] d ! j = d ! j"
  using assms by (induction n) (auto simp: nth_wr16_other)

lemma rd_put_zones:
  "j + 1 < p \<or> p + 2 * n \<le> j \<Longrightarrow> rd16 (fold (\<lambda>j. wr16 (p + 2 * j) (z ! j)) [0..<n] d) j = rd16 d j"
  "j + 3 < p \<or> p + 2 * n \<le> j \<Longrightarrow> rd32 (fold (\<lambda>j. wr16 (p + 2 * j) (z ! j)) [0..<n] d) j = rd32 d j"
  by (auto simp: rd16_def rd32_def nth_put_zones)



section \<open>Bit maps\<close>

lemma tst_put_bit:
  assumes "j < 8 * length d" and "k < 8 * length d"
  shows "tst_bit k (put_bit j b d) = (if k = j then b else tst_bit k d)"
proof -
  have "j div 8 < length d" "k div 8 < length d" using assms by (simp_all add: less_mult_imp_div_less mult.commute)
  moreover have "k = j \<longleftrightarrow> k div 8 = j div 8 \<and> k mod 8 = j mod 8" by (metis div_mult_mod_eq)
  ultimately show ?thesis
    by (auto simp: tst_bit_def put_bit_def nth_list_update bit_simps)
qed

lemma zero_from_spec:
  "(\<forall>k. nr \<le> k \<longrightarrow> k < zero_from d nr n \<longrightarrow> tst_bit k d) \<and> nr \<le> zero_from d nr n \<and> zero_from d nr n \<le> nr + n \<and>
   (zero_from d nr n < nr + n \<longrightarrow> \<not> tst_bit (zero_from d nr n) d)"
proof (induction d nr n rule: zero_from.induct)
  case (2 d nr n)
  show ?case
  proof (cases "tst_bit nr d")
    case True
    have "tst_bit k d" if "nr \<le> k" "k < zero_from d (Suc nr) n" for k
      using True 2 that by (cases "k = nr") auto
    then show ?thesis using True 2 by auto
  qed auto
qed auto

text \<open>
  Allocation in a bit map: the bit that \<open>find_first_zero\<close> returns is the first clear one,
  so that \<open>set_bit\<close> on it reports a clear bit and sets exactly this bit; \<open>clear_bit\<close> on the
  result reports a set bit and restores the map.
\<close>

theorem bitmap_alloc_free:
  assumes "length d = BLOCK_SIZE" and "find_first_zero d < 8192"
  shows "\<exists>d'. set_bit (find_first_zero d) d = (False, d') \<and>
     (\<forall>k < find_first_zero d. tst_bit k d) \<and>
     (\<forall>k < 8192. tst_bit k d' = (tst_bit k d \<or> k = find_first_zero d)) \<and>
     (\<exists>d''. clear_bit (find_first_zero d) d' = (False, d'') \<and> (\<forall>k < 8192. tst_bit k d'' = tst_bit k d))"
proof -
  let ?j = "find_first_zero d"
  have j: "\<not> tst_bit ?j d" "\<forall>k < ?j. tst_bit k d"
    using zero_from_spec [of 0 d 8192] assms(2) by (auto simp: find_first_zero_def)
  have t: "tst_bit k (put_bit ?j b e) = (if k = ?j then b else tst_bit k e)" if "k < 8192" "length e = 1024" for k b e
    using tst_put_bit [of ?j e k b] that assms(2) by simp
  have l: "length (put_bit ?j b e) = length e" for b e by (simp add: put_bit_def)
  show ?thesis
    using j t assms l
    by (intro exI [of _ "put_bit ?j True d"] conjI exI [of _ "put_bit ?j False (put_bit ?j True d)"])
       (auto simp: set_bit_def clear_bit_def)
qed

theorem bitmap_alloc_free_witness:
  "find_first_zero (replicate 1024 1) = 1 \<and> (\<exists>d'. set_bit 1 (replicate 1024 1) = (False, d') \<and> tst_bit 1 d')"
proof -
  have z: "find_first_zero (replicate 1024 1) = 1"
  proof -
    have "(8192 :: nat) = Suc (Suc 8190)" by simp
    then show ?thesis unfolding find_first_zero_def by (simp only: zero_from.simps) (simp add: tst_bit_def bit_simps)
  qed
  have "\<exists>d'. set_bit (find_first_zero (replicate 1024 1)) (replicate 1024 1) = (False, d') \<and>
     (\<forall>k < find_first_zero (replicate 1024 1). tst_bit k (replicate 1024 1)) \<and>
     (\<forall>k < 8192. tst_bit k d' = (tst_bit k (replicate 1024 1) \<or> k = find_first_zero (replicate 1024 1))) \<and>
     (\<exists>d''. clear_bit (find_first_zero (replicate 1024 1)) d' = (False, d'') \<and> (\<forall>k < 8192. tst_bit k d'' = tst_bit k (replicate 1024 1)))"
    by (rule bitmap_alloc_free) (simp_all add: z)
  then show ?thesis unfolding z by auto
qed

section \<open>Reading the block map of a file\<close>

text \<open>The zone of a block of a file as the layout on disk defines it.\<close>

definition zone_of :: "(u32 \<Rightarrow> u8 list) \<Rightarrow> m_inode \<Rightarrow> nat \<Rightarrow> u16" where
  "zone_of V x n =
     (if n < 7 then i_zone x ! n
      else if n < 519 then (if i_zone x ! 7 = 0 then 0 else rd16 (V (ucast (i_zone x ! 7))) (2 * (n - 7)))
      else if i_zone x ! 8 = 0 then 0
      else let z = rd16 (V (ucast (i_zone x ! 8))) (2 * ((n - 519) div 512))
           in if z = 0 then 0 else rd16 (V (ucast z)) (2 * ((n - 519) mod 512)))"

lemma restD_fsys:
  assumes "rest s' = rest (s :: 'a fsys_scheme)"
  shows "inode_table s' = inode_table s" "super_block s' = super_block s" "file_table s' = file_table s"
    "user s' = user s" "task s' = task s" "current s' = current s" "mem_map s' = mem_map s" "phys s' = phys s"
  using arg_cong [OF assms, of inode_table] arg_cong [OF assms, of super_block] arg_cong [OF assms, of file_table]
    arg_cong [OF assms, of user] arg_cong [OF assms, of task] arg_cong [OF assms, of current]
    arg_cong [OF assms, of mem_map] arg_cong [OF assms, of phys]
  by (simp_all add: rest_def)

text \<open>The indirect blocks on the way to a block of the file lie on the device.\<close>

definition zones_exist :: "'a fsys_scheme \<Rightarrow> m_inode \<Rightarrow> nat \<Rightarrow> bool" where
  "zones_exist s x n \<longleftrightarrow>
     (if n < 7 then True
      else if n < 519 then i_zone x ! 7 = 0 \<or> rd_has s (ucast (i_zone x ! 7))
      else i_zone x ! 8 = 0 \<or> rd_has s (ucast (i_zone x ! 8)) \<and>
        (let z = rd16 (view s (ucast (i_zone x ! 8))) (2 * ((n - 519) div 512)) in z = 0 \<or> rd_has s (ucast z)))"

lemma bmap_entry_read:
  assumes use: "store_usable s" and i: "i < length (inode_table s)" "i_dev (inode_table s ! i) = RAMDISK" and has: "rd_has s (ucast z)"
  obtains s' where "bmap_entry i z k False s = Ret (Some (rd16 (view s (ucast z)) (2 * k))) s'" and "store_usable s'"
    and "rest s' = rest s" and "\<forall>m. rd_has s m \<longrightarrow> view s' m = view s m"
proof -
  obtain bh s1 s2 where r: "bread RAMDISK (ucast z) s = Ret (Some bh) s1" "bdata s1 bh = view s (ucast z)" "bh < length (buffers s1)"
      "brelse (Some bh) s1 = Ret () s2" and s2: "store_usable s2" "rest s2 = rest s" "\<And>m. rd_has s m \<Longrightarrow> view s2 m = view s m"
    by (rule cache.read_release [OF use has]) blast
  have "bmap_entry i z k False s = Ret (Some (rd16 (view s (ucast z)) (2 * k))) s2"
    using r i by (simp add: bmap_entry_def km_simps bdata_def)
  with s2 that show thesis by blast
qed

lemma bmap_zone_read:
  "i < length (inode_table s) \<Longrightarrow> bmap_zone i z False s = Ret (i_zone (inode_table s ! i) ! z) s"
  by (simp add: bmap_zone_def km_simps)

text \<open>
  C14: \<open>bmap\<close> computes the zone that the on-disk layout assigns to a block of a file (direct,
  indirect, double indirect), reading the indirect blocks through the cache; it changes
  neither the contents of the device nor the rest of the kernel state.
\<close>

theorem bmap_refines:
  assumes use: "store_usable s" and i: "i < length (inode_table s)" and x: "x = inode_table s ! i" "i_dev x = RAMDISK"
    and n: "n < 7 + 512 + 512 * 512" and all: "zones_exist s x n"
  shows "\<exists>s'. bmap i (int n) s = Ret (zone_of (view s) x n) s' \<and> store_usable s' \<and> rest s' = rest s \<and>
    (\<forall>m. rd_has s m \<longrightarrow> view s' m = view s m)"
proof -
  note bz = bmap_zone_read [OF i, folded x(1)]
  have dev: "i_dev (inode_table s ! i) = RAMDISK" using x by simp
  consider "n < 7" | "7 \<le> n" "n < 519" | "519 \<le> n" by linarith
  then show ?thesis
  proof cases
    case 1
    then show ?thesis using bz use by (auto simp: bmap_def bmap_n_def zone_of_def)
  next
    case 2
    show ?thesis
    proof (cases "i_zone x ! 7 = 0")
      case True
      then show ?thesis using 2 bz use by (auto simp: bmap_def bmap_n_def zone_of_def km_simps)
    next
      case False
      have has: "rd_has s (ucast (i_zone x ! 7))" using 2 False all by (simp add: zones_exist_def)
      obtain s' where s': "bmap_entry i (i_zone x ! 7) (n - 7) False s = Ret (Some (rd16 (view s (ucast (i_zone x ! 7))) (2 * (n - 7)))) s'"
          "store_usable s'" "rest s' = rest s" "\<forall>m. rd_has s m \<longrightarrow> view s' m = view s m"
        by (rule bmap_entry_read [OF use i dev has, where k = "n - 7"])
      then show ?thesis using 2 False bz
        by (intro exI [of _ s']) (simp add: bmap_def bmap_n_def zone_of_def km_simps)
    qed
  next
    case 3
    show ?thesis
    proof (cases "i_zone x ! 8 = 0")
      case True
      then show ?thesis using 3 n bz use by (auto simp: bmap_def bmap_n_def zone_of_def km_simps)
    next
      case False
      define z where "z = rd16 (view s (ucast (i_zone x ! 8))) (2 * ((n - 519) div 512))"
      have has: "rd_has s (ucast (i_zone x ! 8))" using 3 False all by (simp add: zones_exist_def)
      obtain s1 where s1: "bmap_entry i (i_zone x ! 8) ((n - 519) div 512) False s = Ret (Some z) s1"
          "store_usable s1" "rest s1 = rest s" "\<forall>m. rd_has s m \<longrightarrow> view s1 m = view s m"
        unfolding z_def by (rule bmap_entry_read [OF use i dev has, where k = "(n - 519) div 512"])
      have i1: "i < length (inode_table s1)" "i_dev (inode_table s1 ! i) = RAMDISK"
        using i dev restD_fsys(1) [OF s1(3)] by simp_all
      show ?thesis
      proof (cases "z = 0")
        case True
        then show ?thesis using 3 n False bz s1
          by (intro exI [of _ s1]) (simp add: bmap_def bmap_n_def zone_of_def km_simps z_def [symmetric])
      next
        case nz: False
        then have has: "rd_has s (ucast z)" using 3 False all by (simp add: zones_exist_def z_def Let_def)
        then have has1: "rd_has s1 (ucast z)" using rd_same [OF restD(1) [OF s1(3)]] by simp
        obtain s2 where s2: "bmap_entry i z ((n - 519) mod 512) False s1 = Ret (Some (rd16 (view s1 (ucast z)) (2 * ((n - 519) mod 512)))) s2"
            "store_usable s2" "rest s2 = rest s1" "\<forall>m. rd_has s1 m \<longrightarrow> view s2 m = view s1 m"
          by (rule bmap_entry_read [OF s1(2) i1 has1, where k = "(n - 519) mod 512"])
        have "view s1 (ucast z) = view s (ucast z)" using s1(4) has by simp
        moreover have "view s2 m = view s m" if "rd_has s m" for m
          using s1(4) s2(4) that rd_same [OF restD(1) [OF s1(3)]] by simp
        ultimately show ?thesis using 3 n False nz bz s1 s2
          by (intro exI [of _ s2]) (simp add: bmap_def bmap_n_def zone_of_def km_simps z_def [symmetric])
      qed
    qed
  qed
qed

lemma usable_inode_table [simp]: "store_usable (s\<lparr>inode_table := t\<rparr>) = store_usable s"
  by (simp add: store_usable_def store_inv_def wf_cache_def rd_idle_def buf_ok_def rd_has_def rd_block_def cnt_def dirty_def Let_def)

definition ex_ind :: fsys where
  "ex_ind = ex_fs\<lparr>inode_table := [zero_inode\<lparr>i_dev := RAMDISK, i_zone := [0, 0, 0, 0, 0, 0, 0, 2, 0]\<rparr>]\<rparr>"

theorem bmap_refines_witness:
  "zones_exist ex_ind (inode_table ex_ind ! 0) 8 \<and> (\<exists>s'. bmap 0 8 ex_ind = Ret (zone_of (view ex_ind) (inode_table ex_ind ! 0) 8) s')"
proof -
  have z: "zones_exist ex_ind (inode_table ex_ind ! 0) 8"
    by (simp add: zones_exist_def ex_ind_def rd_has_def)
  moreover have "store_usable ex_ind" using ex_store_usable by (simp add: ex_ind_def)
  ultimately show ?thesis
    using bmap_refines [of ex_ind 0 "inode_table ex_ind ! 0" 8] by (auto simp: ex_ind_def)
qed

end
