(* ===== verification/Namei.thy ===== *)
theory Namei
  imports Inode
begin

text \<open>
  Path names and directories: \<open>fs/namei.c\<close>. A name in user memory is an address and a
  length; an entry of a directory is the buffer that holds it and its index there. \<open>iget\<close> and
  \<open>getblk\<close> never return a null pointer, so that the branches of the code that test for one are
  not taken.
\<close>

section \<open>Error numbers and flags\<close>

abbreviation (input) ERROR :: int where "ERROR \<equiv> 99"
abbreviation (input) EPERM :: int where "EPERM \<equiv> 1"
abbreviation (input) ENOENT :: int where "ENOENT \<equiv> 2"
abbreviation (input) ESRCH :: int where "ESRCH \<equiv> 3"
abbreviation (input) EINTR :: int where "EINTR \<equiv> 4"
abbreviation (input) EIO :: int where "EIO \<equiv> 5"
abbreviation (input) EBADF :: int where "EBADF \<equiv> 9"
abbreviation (input) ECHILD :: int where "ECHILD \<equiv> 10"
abbreviation (input) EAGAIN :: int where "EAGAIN \<equiv> 11"
abbreviation (input) ENOMEM :: int where "ENOMEM \<equiv> 12"
abbreviation (input) EACCES :: int where "EACCES \<equiv> 13"
abbreviation (input) ENOTBLK :: int where "ENOTBLK \<equiv> 15"
abbreviation (input) EBUSY :: int where "EBUSY \<equiv> 16"
abbreviation (input) EEXIST :: int where "EEXIST \<equiv> 17"
abbreviation (input) EXDEV :: int where "EXDEV \<equiv> 18"
abbreviation (input) ENODEV :: int where "ENODEV \<equiv> 19"
abbreviation (input) ENOTDIR :: int where "ENOTDIR \<equiv> 20"
abbreviation (input) EISDIR :: int where "EISDIR \<equiv> 21"
abbreviation (input) EINVAL :: int where "EINVAL \<equiv> 22"
abbreviation (input) EMFILE :: int where "EMFILE \<equiv> 24"
abbreviation (input) ENOTTY :: int where "ENOTTY \<equiv> 25"
abbreviation (input) ENOSPC :: int where "ENOSPC \<equiv> 28"
abbreviation (input) ESPIPE :: int where "ESPIPE \<equiv> 29"
abbreviation (input) ENOSYS :: int where "ENOSYS \<equiv> 38"
abbreviation (input) ENOTEMPTY :: int where "ENOTEMPTY \<equiv> 39"

abbreviation (input) O_ACCMODE :: u32 where "O_ACCMODE \<equiv> 3"
abbreviation (input) O_WRONLY :: u32 where "O_WRONLY \<equiv> 1"
abbreviation (input) O_CREAT :: u32 where "O_CREAT \<equiv> 0x40"
abbreviation (input) O_EXCL :: u32 where "O_EXCL \<equiv> 0x80"
abbreviation (input) O_TRUNC :: u32 where "O_TRUNC \<equiv> 0x200"
abbreviation (input) O_APPEND :: u32 where "O_APPEND \<equiv> 0x400"
abbreviation (input) O_NONBLOCK :: u32 where "O_NONBLOCK \<equiv> 0x800"

abbreviation (input) I_REGULAR :: u16 where "I_REGULAR \<equiv> 0x8000"
abbreviation (input) I_DIRECTORY :: u16 where "I_DIRECTORY \<equiv> 0x4000"
abbreviation (input) S_ISVTX :: u16 where "S_ISVTX \<equiv> 0x200"

abbreviation (input) MAY_EXEC :: int where "MAY_EXEC \<equiv> 1"
abbreviation (input) MAY_WRITE :: int where "MAY_WRITE \<equiv> 2"
abbreviation (input) MAY_READ :: int where "MAY_READ \<equiv> 4"

section \<open>Permissions and names\<close>

text \<open>The character \<open>"\004\002\006\377"[x & O_ACCMODE]\<close>; the last one is negative.\<close>

definition ACC_MODE :: "u32 \<Rightarrow> int" where
  "ACC_MODE x = [4, 2, 6, -1] ! unat (x AND O_ACCMODE)"

definition permission :: "m_inode \<Rightarrow> int \<Rightarrow> 'a sched_scheme \<Rightarrow> bool" where
  "permission x msk s =
     (if i_dev x \<noteq> 0 \<and> i_nlinks x = 0 then False
      else let mode = uint (i_mode x);
               mode' = (if euid (cur s) = i_uid x then drop_bit 6 mode
                        else if egid (cur s) = ucast (i_gid x) then drop_bit 3 mode
                        else mode)
           in mode' AND msk AND 7 = msk \<or> suser s)"

text \<open>
  \<open>match\<close> compares a name in user memory (address and length) with an entry. It is only called
  with a positive length (\<open>repe cmpsb\<close> would leave the flags alone otherwise).
\<close>

definition match :: "(u32 \<Rightarrow> u8) \<Rightarrow> nat \<Rightarrow> u32 \<Rightarrow> dir_entry \<Rightarrow> bool" where
  "match mem len name de \<longleftrightarrow> de_inode de \<noteq> 0 \<and> len \<le> NAME_LEN \<and>
     (len < NAME_LEN \<longrightarrow> de_name de ! len = 0) \<and>
     list_all (\<lambda>k. mem (name + of_nat k) = de_name de ! k) [0..<len]"

text \<open>
  The bytes of a string in user memory without the terminating zero; \<open>None\<close> when the string
  runs off the end of the address space.
\<close>

function user_str :: "(u32 \<Rightarrow> u8) \<Rightarrow> u32 \<Rightarrow> u8 list option" where
  "user_str mem a =
     (if mem a = 0 then Some []
      else if a = -1 then None
      else map_option (\<lambda>cs. mem a # cs) (user_str mem (a + 1)))"
  by pat_completeness auto
termination
proof (relation "measure (\<lambda>(mem, a). 2 ^ 32 - unat a)")
  fix mem :: "u32 \<Rightarrow> u8" and a :: u32
  assume "a \<noteq> -1"
  then have "unat (a + 1) = unat a + 1" by (metis add.commute add_eq_0_iff2 unatSuc Suc_eq_plus1)
  then show "((mem, a + 1), mem, a) \<in> measure (\<lambda>(mem, a). 2 ^ 32 - unat a)"
    using unat32_less [of "a + 1"] by simp
qed simp

declare user_str.simps [simp del]

section \<open>Directories\<close>

text \<open>The inode that \<open>..\<close> leads on from, and the length of the name to look for.\<close>

definition dotdot :: "nat \<Rightarrow> u32 \<Rightarrow> nat \<Rightarrow> ('a fsys_scheme, nat \<times> nat) km" where
  "dotdot dir name namelen =
     kbind (kget (\<lambda>s. (user s, root (cur s)))) (\<lambda>(mem, rt).
     if namelen = 2 \<and> mem name = 46 \<and> mem (name + 1) = 46
     then if Some dir = rt then kreturn (dir, 1)
       else kbind (ino dir) (\<lambda>x.
         if i_num x \<noteq> ROOT_INO then kreturn (dir, namelen)
         else kbind (get_super (i_dev x)) (\<lambda>q.
           kbind (the_ptr ''sb'' q) (\<lambda>k.
           kbind (sb k) (\<lambda>y.
           case s_imount y of None \<Rightarrow> kreturn (dir, namelen)
           | Some m \<Rightarrow>
               kseq (iput (Some dir))
               (kseq (upd_ino m (\<lambda>z. z\<lparr>i_count := i_count z + 1\<rparr>))
               (kreturn (m, namelen)))))))
     else kreturn (dir, namelen))"

text \<open>
  The loop of \<open>find_entry\<close>: \<open>i\<close> counts entries, \<open>bh\<close> is the buffer and \<open>k\<close> the index of
  \<open>de\<close> in it. After a block that cannot be read \<open>bh\<close> is null, and the next turn uses it.
\<close>

fun find_loop :: "nat \<Rightarrow> nat \<Rightarrow> u32 \<Rightarrow> nat \<Rightarrow> nat \<Rightarrow> nat \<Rightarrow> nat option \<Rightarrow> nat \<Rightarrow> ('a fsys_scheme, (nat \<times> nat) option) km" where
  "find_loop 0 dir name len entries i bh k = kstop Diverges"
| "find_loop (Suc n) dir name len entries i bh k =
     (if \<not> i < entries then kseq (brelse bh) (kreturn None)
      else kbind (the_ptr ''bh'' bh) (\<lambda>b.
        kbind (if k < DIR_ENTRIES_PER_BLOCK then kreturn (Some (b, k))
               else kseq (brelse (Some b))
                 (kbind (bmap dir (int (i div DIR_ENTRIES_PER_BLOCK))) (\<lambda>block.
                  if block = 0 then kreturn None
                  else kbind (ino dir) (\<lambda>x.
                    kbind (bread (i_dev x) (ucast block)) (\<lambda>q.
                    kreturn (map_option (\<lambda>b. (b, 0)) q)))))) (\<lambda>r.
        case r of None \<Rightarrow> find_loop n dir name len entries (i + DIR_ENTRIES_PER_BLOCK) None k
        | Some (b, k) \<Rightarrow> kbind (buf b) (\<lambda>d.
            kbind (kget user) (\<lambda>mem.
            if match mem len name (get_dir_entry (b_data d) k) then kreturn (Some (b, k))
            else find_loop n dir name len entries (i + 1) (Some b) (k + 1))))))"

text \<open>The result is the new value of \<open>*dir\<close> and, if there is one, the buffer and the index of the entry.\<close>

definition find_entry :: "nat \<Rightarrow> u32 \<Rightarrow> nat \<Rightarrow> ('a fsys_scheme, nat \<times> (nat \<times> nat) option) km" where
  "find_entry dir name namelen =
     (let len = min namelen NAME_LEN
      in kbind (ino dir) (\<lambda>x.
         let entries = unat (i_size x) div 16
         in if len = 0 then kreturn (dir, None)
            else kbind (dotdot dir name len) (\<lambda>(dir, len).
              kbind (ino dir) (\<lambda>x.
              if i_zone x ! 0 = 0 then kreturn (dir, None)
              else kbind (bread (i_dev x) (ucast (i_zone x ! 0))) (\<lambda>q.
                case q of None \<Rightarrow> kreturn (dir, None)
                | Some bh \<Rightarrow> kbind (find_loop (Suc entries) dir name len entries 0 (Some bh) 0) (\<lambda>r.
                    kreturn (dir, r)))))))"

text \<open>
  The loop of \<open>add_entry\<close>. It stops at the first entry past the end of the directory, unless
  a block cannot be read, when the next turn uses the null \<open>bh\<close>.
\<close>

definition put_name :: "nat \<Rightarrow> nat \<Rightarrow> u32 \<Rightarrow> nat \<Rightarrow> ('a fsys_scheme, unit) km" where
  "put_name b k name len =
     kbind (kget user) (\<lambda>mem.
     upd_buf b (\<lambda>d. d\<lparr>b_data := put_de_name k (map (\<lambda>j. if j < len then mem (name + of_nat j) else 0) [0..<NAME_LEN]) (b_data d),
                      b_dirt := 1\<rparr>))"

fun add_loop :: "nat \<Rightarrow> nat \<Rightarrow> u32 \<Rightarrow> nat \<Rightarrow> nat \<Rightarrow> nat option \<Rightarrow> nat \<Rightarrow> ('a fsys_scheme, (nat \<times> nat) option) km" where
  "add_loop 0 dir name len i bh k = kstop Diverges"
| "add_loop (Suc n) dir name len i bh k =
     kbind (the_ptr ''bh'' bh) (\<lambda>b.
     kbind (if k < DIR_ENTRIES_PER_BLOCK then kreturn (Inr (Some (b, k)))
            else kseq (brelse (Some b))
              (kbind (create_block dir (int (i div DIR_ENTRIES_PER_BLOCK))) (\<lambda>block.
               if block = 0 then kreturn (Inl ())
               else kbind (ino dir) (\<lambda>x.
                 kbind (bread (i_dev x) (ucast block)) (\<lambda>q.
                 kreturn (Inr (map_option (\<lambda>b. (b, 0)) q))))))) (\<lambda>r.
     case r of Inl _ \<Rightarrow> kreturn None
     | Inr None \<Rightarrow> add_loop n dir name len (i + DIR_ENTRIES_PER_BLOCK) None k
     | Inr (Some (b, k)) \<Rightarrow>
         kbind (ino dir) (\<lambda>x.
         kbind (kget now) (\<lambda>t.
         kseq (kwhen (of_nat (16 * i) \<ge> i_size x)
                (kseq (upd_buf b (\<lambda>d. d\<lparr>b_data := put_de_inode k 0 (b_data d)\<rparr>))
                (upd_ino dir (\<lambda>x. x\<lparr>i_size := of_nat (16 * (i + 1)), i_dirt := 1, i_ctime := t\<rparr>))))
         (kbind (buf b) (\<lambda>d.
          if de_inode (get_dir_entry (b_data d) k) = 0
          then kseq (upd_ino dir (\<lambda>x. x\<lparr>i_mtime := t\<rparr>))
               (kseq (put_name b k name len) (kreturn (Some (b, k))))
          else add_loop n dir name len (i + 1) (Some b) (k + 1)))))))"

definition add_entry :: "nat \<Rightarrow> u32 \<Rightarrow> nat \<Rightarrow> ('a fsys_scheme, (nat \<times> nat) option) km" where
  "add_entry dir name namelen =
     (let len = min namelen NAME_LEN
      in if len = 0 then kreturn None
         else kbind (ino dir) (\<lambda>x.
           if i_zone x ! 0 = 0 then kreturn None
           else kbind (bread (i_dev x) (ucast (i_zone x ! 0))) (\<lambda>q.
             case q of None \<Rightarrow> kreturn None
             | Some bh \<Rightarrow> add_loop (unat (i_size x) div 16 + 2) dir name len 0 (Some bh) 0)))"

definition entry_inode :: "nat \<times> nat \<Rightarrow> ('a fsys_scheme, u16) km" where
  "entry_inode e = kbind (buf (fst e)) (\<lambda>d. kreturn (de_inode (get_dir_entry (b_data d) (snd e))))"

text \<open>\<open>de->inode = nr; bh->b_dirt = 1;\<close>\<close>

definition set_entry :: "nat \<times> nat \<Rightarrow> u16 \<Rightarrow> ('a fsys_scheme, unit) km" where
  "set_entry e nr = upd_buf (fst e) (\<lambda>d. d\<lparr>b_data := put_de_inode (snd e) nr (b_data d), b_dirt := 1\<rparr>)"

section \<open>Paths\<close>

text \<open>
  \<open>get_dir\<close> walks along the components; \<open>p\<close> is what is left of the path and \<open>a\<close> its address.
  The kernel writes no user memory on the way, so that the path is read once at the start.
\<close>

function get_dir_loop :: "u8 list \<Rightarrow> u32 \<Rightarrow> nat \<Rightarrow> ('a fsys_scheme, nat option) km" where
  "get_dir_loop p a i =
     kbind (ino i) (\<lambda>x.
     kbind (kget (\<lambda>s. permission x MAY_EXEC s)) (\<lambda>ok.
     if \<not> S_ISDIR (i_mode x) \<or> \<not> ok then kseq (iput (Some i)) (kreturn None)
     else let namelen = length (takeWhile (\<lambda>c. c \<noteq> 47) p)
          in if \<not> namelen < length p then kreturn (Some i)
             else kbind (find_entry i a namelen) (\<lambda>(i, r).
               case r of None \<Rightarrow> kseq (iput (Some i)) (kreturn None)
               | Some e \<Rightarrow>
                   kbind (entry_inode e) (\<lambda>inr.
                   kbind (ino i) (\<lambda>x.
                   kseq (brelse (Some (fst e)))
                   (kseq (iput (Some i))
                   (kbind (iget (i_dev x) inr) (\<lambda>i.
                    get_dir_loop (drop (namelen + 1) p) (a + of_nat (namelen + 1)) i))))))))"
  by pat_completeness auto
termination
  by (relation "measure (\<lambda>(p, a, i). length p)") auto

declare get_dir_loop.simps [simp del]

definition live_inode :: "nat option \<Rightarrow> string \<Rightarrow> ('a fsys_scheme, nat) km" where
  "live_inode q what =
     (case q of None \<Rightarrow> kstop (Panic what)
      | Some i \<Rightarrow> kbind (ino i) (\<lambda>x. if i_count x = 0 then kstop (Panic what) else kreturn i))"

definition get_dir :: "u32 \<Rightarrow> ('a fsys_scheme, nat option) km" where
  "get_dir pathname =
     kbind (kget (\<lambda>s. (cur s, user_str (user s) pathname))) (\<lambda>(me, str).
     kbind (live_inode (root me) ''No root inode'') (\<lambda>rt.
     kbind (live_inode (pwd me) ''No cwd inode'') (\<lambda>wd.
     case str of None \<Rightarrow> kstop (Fault ''pathname'')
     | Some [] \<Rightarrow> kreturn None
     | Some (c # cs) \<Rightarrow>
         let i = (if c = 47 then rt else wd);
             p = (if c = 47 then cs else c # cs);
             a = (if c = 47 then pathname + 1 else pathname)
         in kseq (upd_ino i (\<lambda>x. x\<lparr>i_count := i_count x + 1\<rparr>)) (get_dir_loop p a i))))"

text \<open>The part of a path after the last slash, with its offset.\<close>

definition base_off :: "u8 list \<Rightarrow> nat" where
  "base_off p = length p - length (takeWhile (\<lambda>c. c \<noteq> 47) (rev p))"

definition dir_namei :: "u32 \<Rightarrow> ('a fsys_scheme, (nat \<times> nat \<times> u32) option) km" where
  "dir_namei pathname =
     kbind (get_dir pathname) (\<lambda>q.
     case q of None \<Rightarrow> kreturn None
     | Some dir \<Rightarrow> kbind (kget (\<lambda>s. user_str (user s) pathname)) (\<lambda>str.
         case str of None \<Rightarrow> kstop (Fault ''pathname'')
         | Some p \<Rightarrow> kreturn (Some (dir, length p - base_off p, pathname + of_nat (base_off p)))))"

definition namei :: "u32 \<Rightarrow> ('a fsys_scheme, nat option) km" where
  "namei pathname =
     kbind (dir_namei pathname) (\<lambda>q.
     case q of None \<Rightarrow> kreturn None
     | Some (dir, namelen, basename) \<Rightarrow>
         if namelen = 0 then kreturn (Some dir)
         else kbind (find_entry dir basename namelen) (\<lambda>(dir, r).
           case r of None \<Rightarrow> kseq (iput (Some dir)) (kreturn None)
           | Some e \<Rightarrow>
               kbind (entry_inode e) (\<lambda>inr.
               kbind (ino dir) (\<lambda>x.
               kseq (brelse (Some (fst e)))
               (kseq (iput (Some dir))
               (kbind (iget (i_dev x) inr) (\<lambda>i.
                kbind (kget now) (\<lambda>t.
                kseq (upd_ino i (\<lambda>y. y\<lparr>i_atime := t, i_dirt := 1\<rparr>))
                (kreturn (Some i)))))))))) "


section \<open>Opening\<close>

text \<open>\<open>iput(i); return -e;\<close> and the variants with a second inode and a buffer.\<close>

definition put_err :: "nat \<Rightarrow> int \<Rightarrow> ('a fsys_scheme, int) km" where
  "put_err i e = kseq (iput (Some i)) (kreturn (- e))"

definition put2_err :: "nat \<Rightarrow> nat \<Rightarrow> int \<Rightarrow> ('a fsys_scheme, int) km" where
  "put2_err i j e = kseq (iput (Some i)) (kseq (iput (Some j)) (kreturn (- e)))"

definition put3_err :: "nat \<Rightarrow> nat \<Rightarrow> nat \<Rightarrow> int \<Rightarrow> ('a fsys_scheme, int) km" where
  "put3_err i j bh e = kseq (iput (Some i)) (kseq (iput (Some j)) (kseq (brelse (Some bh)) (kreturn (- e))))"

definition fail_with :: "('s, int) km \<Rightarrow> ('s, int + 'b) km" where
  "fail_with m = kbind m (\<lambda>e. kreturn (Inl e))"

definition open_namei :: "u32 \<Rightarrow> u32 \<Rightarrow> u32 \<Rightarrow> ('a fsys_scheme, int + nat) km" where
  "open_namei pathname flag0 mode0 =
     (let flag = (if flag0 AND O_TRUNC \<noteq> 0 \<and> flag0 AND O_ACCMODE = 0 then flag0 OR O_WRONLY else flag0)
      in kbind (kget cur) (\<lambda>me.
     let mode = ucast (mode0 AND 0x1FF AND NOT (ucast (umask me))) OR I_REGULAR
      in kbind (dir_namei pathname) (\<lambda>q.
     case q of None \<Rightarrow> kreturn (Inl (- ENOENT))
     | Some (dir, namelen, basename) \<Rightarrow>
       if namelen = 0 then
         (if flag AND (O_ACCMODE OR O_CREAT OR O_TRUNC) = 0 then kreturn (Inr dir) else fail_with (put_err dir EISDIR))
       else kbind (find_entry dir basename namelen) (\<lambda>(dir, r).
       case r of
         None \<Rightarrow>
           if flag AND O_CREAT = 0 then fail_with (put_err dir ENOENT)
           else kbind (ino dir) (\<lambda>x.
             kbind (kget (permission x MAY_WRITE)) (\<lambda>ok.
             if \<not> ok then fail_with (put_err dir EACCES)
             else kbind (new_inode (i_dev x)) (\<lambda>n.
             case n of None \<Rightarrow> fail_with (put_err dir ENOSPC)
             | Some i \<Rightarrow>
               kseq (upd_ino i (\<lambda>y. y\<lparr>i_uid := euid me, i_mode := mode, i_dirt := 1\<rparr>))
               (kbind (add_entry dir basename namelen) (\<lambda>r.
               case r of
                 None \<Rightarrow> kseq (upd_ino i (\<lambda>y. y\<lparr>i_nlinks := i_nlinks y - 1\<rparr>)) (fail_with (put2_err i dir ENOSPC))
               | Some e \<Rightarrow>
                 kbind (ino i) (\<lambda>y.
                 kseq (set_entry e (i_num y))
                 (kseq (brelse (Some (fst e)))
                 (kseq (iput (Some dir)) (kreturn (Inr i))))))))))
       | Some e \<Rightarrow>
           kbind (entry_inode e) (\<lambda>inr.
           kbind (ino dir) (\<lambda>x.
           kseq (brelse (Some (fst e)))
           (kseq (iput (Some dir))
           (if flag AND O_EXCL \<noteq> 0 then kreturn (Inl (- EEXIST))
            else kbind (iget (i_dev x) inr) (\<lambda>i.
              kbind (ino i) (\<lambda>y.
              kbind (kget (permission y (ACC_MODE flag))) (\<lambda>ok.
              if (S_ISDIR (i_mode y) \<and> flag AND O_ACCMODE \<noteq> 0) \<or> \<not> ok then fail_with (put_err i EPERM)
              else kbind (kget now) (\<lambda>t.
                kseq (upd_ino i (\<lambda>y. y\<lparr>i_atime := t\<rparr>))
                (kseq (kwhen (flag AND O_TRUNC \<noteq> 0) (truncate i))
                (kreturn (Inr i)))))))))))))))"

section \<open>Creating\<close>

definition sys_mknod :: "u32 \<Rightarrow> u32 \<Rightarrow> u32 \<Rightarrow> ('a fsys_scheme, int) km" where
  "sys_mknod filename mode dev =
     kbind (kget suser) (\<lambda>su.
     if \<not> su then kreturn (- EPERM)
     else kbind (dir_namei filename) (\<lambda>q.
     case q of None \<Rightarrow> kreturn (- ENOENT)
     | Some (dir, namelen, basename) \<Rightarrow>
       if namelen = 0 then put_err dir ENOENT
       else kbind (ino dir) (\<lambda>x.
       kbind (kget (permission x MAY_WRITE)) (\<lambda>ok.
       if \<not> ok then put_err dir EPERM
       else kbind (find_entry dir basename namelen) (\<lambda>(dir, r).
       case r of Some e \<Rightarrow> kseq (brelse (Some (fst e))) (put_err dir EEXIST)
       | None \<Rightarrow>
         kbind (ino dir) (\<lambda>x.
         kbind (new_inode (i_dev x)) (\<lambda>n.
         case n of None \<Rightarrow> put_err dir ENOSPC
         | Some i \<Rightarrow>
           kbind (kget now) (\<lambda>t.
           kseq (upd_ino i (\<lambda>y. y\<lparr>i_mode := ucast mode\<rparr>))
           (kseq (kwhen (S_ISBLK (ucast mode) \<or> S_ISCHR (ucast mode))
                   (upd_ino i (\<lambda>y. y\<lparr>i_zone := (i_zone y)[0 := ucast dev]\<rparr>)))
           (kseq (upd_ino i (\<lambda>y. y\<lparr>i_mtime := t, i_atime := t, i_dirt := 1\<rparr>))
           (kbind (add_entry dir basename namelen) (\<lambda>r.
            case r of
              None \<Rightarrow> kseq (iput (Some dir))
                      (kseq (upd_ino i (\<lambda>y. y\<lparr>i_nlinks := 0\<rparr>)) (put_err i ENOSPC))
            | Some e \<Rightarrow>
                kbind (ino i) (\<lambda>y.
                kseq (set_entry e (i_num y))
                (kseq (iput (Some dir))
                (kseq (iput (Some i))
                (kseq (brelse (Some (fst e))) (kreturn 0)))))))))))))))))"

text \<open>The entries \<open>.\<close> and \<open>..\<close> of a new directory (\<open>strcpy\<close> copies the terminating zero).\<close>

definition new_dir_block :: "u16 \<Rightarrow> u16 \<Rightarrow> u8 list \<Rightarrow> u8 list" where
  "new_dir_block self parent d =
     put_de_name 1 [46, 46, 0] (put_de_inode 1 parent (put_de_name 0 [46, 0] (put_de_inode 0 self d)))"

definition sys_mkdir :: "u32 \<Rightarrow> u32 \<Rightarrow> ('a fsys_scheme, int) km" where
  "sys_mkdir pathname mode =
     kbind (kget suser) (\<lambda>su.
     if \<not> su then kreturn (- EPERM)
     else kbind (dir_namei pathname) (\<lambda>q.
     case q of None \<Rightarrow> kreturn (- ENOENT)
     | Some (dir, namelen, basename) \<Rightarrow>
       if namelen = 0 then put_err dir ENOENT
       else kbind (ino dir) (\<lambda>x.
       kbind (kget (permission x MAY_WRITE)) (\<lambda>ok.
       if \<not> ok then put_err dir EPERM
       else kbind (find_entry dir basename namelen) (\<lambda>(dir, r).
       case r of Some e \<Rightarrow> kseq (brelse (Some (fst e))) (put_err dir EEXIST)
       | None \<Rightarrow>
         kbind (ino dir) (\<lambda>x.
         kbind (new_inode (i_dev x)) (\<lambda>n.
         case n of None \<Rightarrow> put_err dir ENOSPC
         | Some i \<Rightarrow>
           kbind (kget now) (\<lambda>t.
           kseq (upd_ino i (\<lambda>y. y\<lparr>i_size := 32, i_dirt := 1, i_mtime := t, i_atime := t\<rparr>))
           (kbind (ino i) (\<lambda>y.
            kbind (new_block (i_dev y)) (\<lambda>z.
            kseq (upd_ino i (\<lambda>y. y\<lparr>i_zone := (i_zone y)[0 := ucast z]\<rparr>))
            (if ucast z = (0 :: u16) then
               kseq (iput (Some dir))
               (kseq (upd_ino i (\<lambda>y. y\<lparr>i_nlinks := i_nlinks y - 1\<rparr>)) (put_err i ENOSPC))
             else kseq (upd_ino i (\<lambda>y. y\<lparr>i_dirt := 1\<rparr>))
               (kbind (bread (i_dev y) (ucast (ucast z :: u16))) (\<lambda>b.
                case b of
                  None \<Rightarrow>
                    kseq (iput (Some dir))
                    (kseq (free_block (i_dev y) (ucast (ucast z :: u16)))
                    (kseq (upd_ino i (\<lambda>y. y\<lparr>i_nlinks := i_nlinks y - 1\<rparr>)) (put_err i ERROR)))
                | Some db \<Rightarrow>
                    kbind (ino dir) (\<lambda>x.
                    kseq (upd_buf db (\<lambda>d. d\<lparr>b_data := new_dir_block (i_num y) (i_num x) (b_data d), b_dirt := 1\<rparr>))
                    (kseq (brelse (Some db))
                    (kbind (kget cur) (\<lambda>me.
                     kseq (upd_ino i (\<lambda>y. y\<lparr>i_nlinks := 2,
                             i_mode := I_DIRECTORY OR ucast (mode AND 0x1FF AND NOT (ucast (umask me))), i_dirt := 1\<rparr>))
                    (kbind (add_entry dir basename namelen) (\<lambda>r.
                     case r of
                       None \<Rightarrow>
                         kseq (iput (Some dir))
                         (kseq (free_block (i_dev y) (ucast (ucast z :: u16)))
                         (kseq (upd_ino i (\<lambda>y. y\<lparr>i_nlinks := 0\<rparr>)) (put_err i ENOSPC)))
                     | Some e \<Rightarrow>
                         kseq (set_entry e (i_num y))
                         (kseq (upd_ino dir (\<lambda>x. x\<lparr>i_nlinks := i_nlinks x + 1, i_dirt := 1\<rparr>))
                         (kseq (iput (Some dir))
                         (kseq (iput (Some i))
                         (kseq (brelse (Some (fst e))) (kreturn 0)))))))))))))))))))))))))"

section \<open>Removing\<close>

text \<open>
  The loop of \<open>empty_dir\<close>. After a hole \<open>bh\<close> still points to the released buffer, which is
  then released again.
\<close>

fun empty_loop :: "nat \<Rightarrow> nat \<Rightarrow> nat \<Rightarrow> nat \<Rightarrow> nat \<Rightarrow> nat \<Rightarrow> ('a fsys_scheme, bool) km" where
  "empty_loop 0 i len nr bh k = kstop Diverges"
| "empty_loop (Suc n) i len nr bh k =
     (if \<not> nr < len then kseq (brelse (Some bh)) (kreturn True)
      else kbind (if k < DIR_ENTRIES_PER_BLOCK then kreturn (Inr (Some (bh, k)))
                  else kseq (brelse (Some bh))
                    (kbind (bmap i (int (nr div DIR_ENTRIES_PER_BLOCK))) (\<lambda>block.
                     if block = 0 then kreturn (Inr None)
                     else kbind (ino i) (\<lambda>x.
                       kbind (bread (i_dev x) (ucast block)) (\<lambda>q.
                       kreturn (case q of None \<Rightarrow> Inl () | Some b \<Rightarrow> Inr (Some (b, 0)))))))) (\<lambda>r.
        case r of Inl _ \<Rightarrow> kreturn False
        | Inr None \<Rightarrow> empty_loop n i len (nr + DIR_ENTRIES_PER_BLOCK) bh k
        | Inr (Some (bh, k)) \<Rightarrow> kbind (buf bh) (\<lambda>d.
            if de_inode (get_dir_entry (b_data d) k) \<noteq> 0 then kseq (brelse (Some bh)) (kreturn False)
            else empty_loop n i len (nr + 1) bh (k + 1))))"

definition empty_dir :: "nat \<Rightarrow> ('a fsys_scheme, bool) km" where
  "empty_dir i =
     kbind (ino i) (\<lambda>x.
     let len = unat (i_size x) div 16
     in if len < 2 \<or> i_zone x ! 0 = 0 then kreturn False
        else kbind (bread (i_dev x) (ucast (i_zone x ! 0))) (\<lambda>q.
        case q of None \<Rightarrow> kreturn False
        | Some bh \<Rightarrow> kbind (buf bh) (\<lambda>d.
            let e0 = get_dir_entry (b_data d) 0; e1 = get_dir_entry (b_data d) 1
            in if de_inode e0 \<noteq> i_num x \<or> de_inode e1 = 0 \<or> take 2 (de_name e0) \<noteq> [46, 0] \<or> take 3 (de_name e1) \<noteq> [46, 46, 0]
               then kreturn False
               else empty_loop (Suc len) i len 2 bh 2)))"

definition sys_rmdir :: "u32 \<Rightarrow> ('a fsys_scheme, int) km" where
  "sys_rmdir name =
     kbind (kget suser) (\<lambda>su.
     if \<not> su then kreturn (- EPERM)
     else kbind (dir_namei name) (\<lambda>q.
     case q of None \<Rightarrow> kreturn (- ENOENT)
     | Some (dir, namelen, basename) \<Rightarrow>
       if namelen = 0 then put_err dir ENOENT
       else kbind (ino dir) (\<lambda>x.
       kbind (kget (permission x MAY_WRITE)) (\<lambda>ok.
       if \<not> ok then put_err dir EPERM
       else kbind (find_entry dir basename namelen) (\<lambda>(dir, r).
       case r of None \<Rightarrow> put_err dir ENOENT
       | Some e \<Rightarrow>
         kbind (ino dir) (\<lambda>x.
         kbind (entry_inode e) (\<lambda>inr.
         kbind (iget (i_dev x) inr) (\<lambda>i.
         kbind (ino dir) (\<lambda>x.
         kbind (ino i) (\<lambda>y.
         kbind (kget (\<lambda>s. euid (cur s))) (\<lambda>eu.
         if i_mode x AND S_ISVTX \<noteq> 0 \<and> eu \<noteq> 0 \<and> i_uid y \<noteq> eu then put3_err dir i (fst e) EPERM
         else if i_dev y \<noteq> i_dev x \<or> i_count y > 1 then put3_err dir i (fst e) EPERM
         else if i = dir then put3_err i dir (fst e) EPERM
         else if \<not> S_ISDIR (i_mode y) then put3_err i dir (fst e) ENOTDIR
         else kbind (empty_dir i) (\<lambda>em.
           if \<not> em then put3_err i dir (fst e) ENOTEMPTY
           else kbind (kget now) (\<lambda>t.
             kseq (set_entry e 0)
             (kseq (brelse (Some (fst e)))
             (kseq (upd_ino i (\<lambda>y. y\<lparr>i_nlinks := 0, i_dirt := 1\<rparr>))
             (kseq (upd_ino dir (\<lambda>x. x\<lparr>i_nlinks := i_nlinks x - 1, i_ctime := t, i_mtime := t, i_dirt := 1\<rparr>))
             (kseq (iput (Some dir))
             (kseq (iput (Some i)) (kreturn 0)))))))))))))))))))"

definition sys_unlink :: "u32 \<Rightarrow> ('a fsys_scheme, int) km" where
  "sys_unlink name =
     kbind (dir_namei name) (\<lambda>q.
     case q of None \<Rightarrow> kreturn (- ENOENT)
     | Some (dir, namelen, basename) \<Rightarrow>
       if namelen = 0 then put_err dir ENOENT
       else kbind (ino dir) (\<lambda>x.
       kbind (kget (permission x MAY_WRITE)) (\<lambda>ok.
       if \<not> ok then put_err dir EPERM
       else kbind (find_entry dir basename namelen) (\<lambda>(dir, r).
       case r of None \<Rightarrow> put_err dir ENOENT
       | Some e \<Rightarrow>
         kbind (ino dir) (\<lambda>x.
         kbind (entry_inode e) (\<lambda>inr.
         kbind (iget (i_dev x) inr) (\<lambda>i.
         kbind (ino dir) (\<lambda>x.
         kbind (ino i) (\<lambda>y.
         kbind (kget (\<lambda>s. (suser s, euid (cur s)))) (\<lambda>(su, eu).
         if i_mode x AND S_ISVTX \<noteq> 0 \<and> \<not> su \<and> eu \<noteq> i_uid y \<and> eu \<noteq> i_uid x then put3_err dir i (fst e) EPERM
         else if S_ISDIR (i_mode y) then put3_err i dir (fst e) EPERM
         else kbind (kget now) (\<lambda>t.
           kseq (upd_ino i (\<lambda>y. y\<lparr>i_nlinks := if i_nlinks y = 0 then 1 else i_nlinks y\<rparr>))
           (kseq (set_entry e 0)
           (kseq (brelse (Some (fst e)))
           (kseq (upd_ino i (\<lambda>y. y\<lparr>i_nlinks := i_nlinks y - 1, i_dirt := 1, i_ctime := t\<rparr>))
           (kseq (iput (Some i))
           (kseq (iput (Some dir)) (kreturn 0)))))))))))))))))"

definition sys_link :: "u32 \<Rightarrow> u32 \<Rightarrow> ('a fsys_scheme, int) km" where
  "sys_link oldname newname =
     kbind (namei oldname) (\<lambda>w.
     case w of None \<Rightarrow> kreturn (- ENOENT)
     | Some old \<Rightarrow>
       kbind (ino old) (\<lambda>y.
       if S_ISDIR (i_mode y) then put_err old EPERM
       else kbind (dir_namei newname) (\<lambda>q.
       case q of None \<Rightarrow> put_err old EACCES
       | Some (dir, namelen, basename) \<Rightarrow>
         if namelen = 0 then put2_err old dir EPERM
         else kbind (ino dir) (\<lambda>x.
         kbind (ino old) (\<lambda>y.
         if i_dev x \<noteq> i_dev y then put2_err dir old EXDEV
         else kbind (kget (permission x MAY_WRITE)) (\<lambda>ok.
         if \<not> ok then put2_err dir old EACCES
         else kbind (find_entry dir basename namelen) (\<lambda>(dir, r).
         case r of Some e \<Rightarrow> kseq (brelse (Some (fst e))) (put2_err dir old EEXIST)
         | None \<Rightarrow> kbind (add_entry dir basename namelen) (\<lambda>r.
           case r of None \<Rightarrow> put2_err dir old ENOSPC
           | Some e \<Rightarrow>
             kbind (ino old) (\<lambda>y.
             kbind (kget now) (\<lambda>t.
             kseq (set_entry e (i_num y))
             (kseq (brelse (Some (fst e)))
             (kseq (iput (Some dir))
             (kseq (upd_ino old (\<lambda>y. y\<lparr>i_nlinks := i_nlinks y + 1, i_ctime := t, i_dirt := 1\<rparr>))
             (kseq (iput (Some old)) (kreturn 0)))))))))))))))"

end
