(* ===== verification/Super.thy ===== *)
theory Super
  imports Namei
begin

text \<open>
  Super blocks and mounting: \<open>fs/super.c\<close> (without \<open>get_super\<close>, which is in \<open>Buffer\<close>),
  \<open>check_disk_change\<close> of \<open>fs/buffer.c\<close> and \<open>rd_load\<close> of \<open>kernel/blk_drv/ramdisk.c\<close>.
\<close>

section \<open>The table of super blocks\<close>

abbreviation (input) MAP_SLOTS :: nat where "MAP_SLOTS \<equiv> 8"

definition lock_super :: "nat \<Rightarrow> ('a fsys_scheme, unit) km" where
  "lock_super k = kbind (sb k) (\<lambda>x.
     if s_lock x \<noteq> 0 then kstop Sleeps else upd_sb k (\<lambda>x. x\<lparr>s_lock := 1\<rparr>))"

definition free_super :: "nat \<Rightarrow> ('a fsys_scheme, unit) km" where
  "free_super k = kbind (sb k) (\<lambda>x.
     kseq (upd_sb k (\<lambda>x. x\<lparr>s_lock := 0, s_wait := None\<rparr>)) (wake_wait (s_wait x)))"

text \<open>\<open>for(i=0;i<8;i++) brelse(s_imap[i]);\<close> and the same for \<open>s_zmap\<close>.\<close>

definition release_maps :: "nat \<Rightarrow> ('a fsys_scheme, unit) km" where
  "release_maps k =
     kseq (kfor [0..<MAP_SLOTS] (\<lambda>i. kbind (sb k) (\<lambda>x. brelse (s_imap x ! i))))
     (kfor [0..<MAP_SLOTS] (\<lambda>i. kbind (sb k) (\<lambda>x. brelse (s_zmap x ! i))))"

definition put_super :: "u16 \<Rightarrow> ('a fsys_scheme, unit) km" where
  "put_super dev =
     kbind (kget ROOT_DEV) (\<lambda>rd.
     if dev = rd then kreturn ()
     else kbind (get_super dev) (\<lambda>q.
     case q of None \<Rightarrow> kreturn ()
     | Some k \<Rightarrow> kbind (sb k) (\<lambda>x.
       if s_imount x \<noteq> None then kreturn ()
       else kseq (lock_super k)
         (kseq (upd_sb k (\<lambda>x. x\<lparr>s_dev := 0\<rparr>))
         (kseq (release_maps k) (free_super k))))))"

text \<open>
  \<open>check_disk_change\<close> of \<open>fs/buffer.c\<close> asks the floppy driver whether the disk was changed;
  the driver is an argument. Where the code runs without it, a floppy ends in \<open>Driver 2\<close>.
\<close>

definition check_disk_change_with :: "(u16 \<Rightarrow> ('a fsys_scheme, bool) km) \<Rightarrow> u16 \<Rightarrow> ('a fsys_scheme, unit) km" where
  "check_disk_change_with floppy_change dev =
     (if MAJOR dev \<noteq> 2 then kreturn ()
      else kbind (floppy_change (dev AND 3)) (\<lambda>changed.
        if \<not> changed then kreturn ()
        else kseq (kfor [0..<NR_SUPER] (\<lambda>i. kbind (sb i) (\<lambda>x. kwhen (s_dev x = dev) (put_super (s_dev x)))))
          (kseq (invalidate_inodes dev) (invalidate_buffers dev))))"

definition check_disk_change :: "u16 \<Rightarrow> ('a fsys_scheme, unit) km" where
  "check_disk_change dev = check_disk_change_with (\<lambda>_. kstop (Driver 2)) dev"

text \<open>
  The loops that read the bit maps; the result is the next block. An index past the eight
  slots of \<open>s_imap\<close> or \<open>s_zmap\<close> is outside the array.
\<close>

fun read_maps :: "nat \<Rightarrow> nat \<Rightarrow> nat \<Rightarrow> (nat \<Rightarrow> nat option \<Rightarrow> super_block \<Rightarrow> super_block) \<Rightarrow> u16 \<Rightarrow> u32 \<Rightarrow>
    ('a fsys_scheme, u32) km" where
  "read_maps 0 i k put dev block = kreturn block"
| "read_maps (Suc n) i k put dev block =
     (if i \<ge> MAP_SLOTS then kstop (Fault ''s_imap'')
      else kbind (bread dev block) (\<lambda>q.
        kseq (upd_sb k (put i q))
        (case q of None \<Rightarrow> kreturn block | Some _ \<Rightarrow> read_maps n (Suc i) k put dev (block + 1))))"

definition put_imap :: "nat \<Rightarrow> nat option \<Rightarrow> super_block \<Rightarrow> super_block" where
  "put_imap i q x = x\<lparr>s_imap := (s_imap x)[i := q]\<rparr>"

definition put_zmap :: "nat \<Rightarrow> nat option \<Rightarrow> super_block \<Rightarrow> super_block" where
  "put_zmap i q x = x\<lparr>s_zmap := (s_zmap x)[i := q]\<rparr>"

text \<open>\<open>s->s_dev = 0; free_super(s); return NULL;\<close>\<close>

definition drop_super :: "nat \<Rightarrow> ('a fsys_scheme, nat option) km" where
  "drop_super k = kseq (upd_sb k (\<lambda>x. x\<lparr>s_dev := 0\<rparr>)) (kseq (free_super k) (kreturn None))"

text \<open>\<open>s_imap[0]->b_data[0] |= 1;\<close>\<close>

definition mark_first :: "nat option \<Rightarrow> ('a fsys_scheme, unit) km" where
  "mark_first q = kbind (the_ptr ''map'' q) (\<lambda>m. upd_buf m (\<lambda>b. b\<lparr>b_data := (b_data b)[0 := b_data b ! 0 OR 1]\<rparr>))"

definition fill_super :: "nat \<Rightarrow> u16 \<Rightarrow> ('a fsys_scheme, nat option) km" where
  "fill_super k dev =
     kseq (upd_sb k (\<lambda>x. x\<lparr>s_dev := dev, s_isup := None, s_imount := None, s_time := 0, s_rd_only := 0, s_dirt := 0\<rparr>))
     (kseq (lock_super k)
     (kbind (bread dev 1) (\<lambda>q.
      case q of None \<Rightarrow> drop_super k
      | Some bh \<Rightarrow>
        kbind (buf bh) (\<lambda>b.
        kseq (upd_sb k (get_d_super (b_data b)))
        (kseq (brelse (Some bh))
        (kbind (sb k) (\<lambda>x.
         if s_magic x \<noteq> SUPER_MAGIC then drop_super k
         else kseq (upd_sb k (\<lambda>x. x\<lparr>s_imap := replicate MAP_SLOTS None, s_zmap := replicate MAP_SLOTS None\<rparr>))
           (kbind (read_maps (unat (s_imap_blocks x)) 0 k put_imap dev 2) (\<lambda>block.
            kbind (read_maps (unat (s_zmap_blocks x)) 0 k put_zmap dev block) (\<lambda>block.
            if block \<noteq> 2 + ucast (s_imap_blocks x) + ucast (s_zmap_blocks x)
            then kseq (release_maps k) (drop_super k)
            else kbind (sb k) (\<lambda>x.
              kseq (mark_first (s_imap x ! 0))
              (kseq (mark_first (s_zmap x ! 0))
              (kseq (free_super k) (kreturn (Some k)))))))))))))))"

definition read_super :: "u16 \<Rightarrow> ('a fsys_scheme, nat option) km" where
  "read_super dev =
     (if dev = 0 then kreturn None
      else kseq (check_disk_change dev)
        (kbind (get_super dev) (\<lambda>q.
         case q of Some k \<Rightarrow> kreturn (Some k)
         | None \<Rightarrow> kbind (kget (\<lambda>s. super_walk (take NR_SUPER (super_block s)) 0 0)) (\<lambda>r.
             case r of None \<Rightarrow> kreturn None | Some k \<Rightarrow> fill_super k dev))))"

section \<open>Mounting\<close>

definition sys_umount :: "u32 \<Rightarrow> ('a fsys_scheme, int) km" where
  "sys_umount dev_name =
     kbind (namei dev_name) (\<lambda>q.
     case q of None \<Rightarrow> kreturn (- ENOENT)
     | Some i \<Rightarrow> kbind (ino i) (\<lambda>x.
       let dev = i_zone x ! 0
       in if \<not> S_ISBLK (i_mode x) then put_err i ENOTBLK
          else kseq (iput (Some i))
          (kbind (kget ROOT_DEV) (\<lambda>rd.
           if dev = rd then kreturn (- EBUSY)
           else kbind (get_super dev) (\<lambda>r.
           case r of None \<Rightarrow> kreturn (- ENOENT)
           | Some k \<Rightarrow> kbind (sb k) (\<lambda>y.
             case s_imount y of None \<Rightarrow> kreturn (- ENOENT)
             | Some m \<Rightarrow>
               kbind (kget (\<lambda>s. list_ex (\<lambda>z. i_dev z = dev \<and> i_count z \<noteq> 0) (take NR_INODE (inode_table s)))) (\<lambda>busy.
               if busy then kreturn (- EBUSY)
               else kseq (upd_ino m (\<lambda>z. z\<lparr>i_mount := 0\<rparr>))
                 (kseq (iput (Some m))
                 (kseq (upd_sb k (\<lambda>y. y\<lparr>s_imount := None\<rparr>))
                 (kbind (sb k) (\<lambda>y.
                  kseq (iput (s_isup y))
                  (kseq (upd_sb k (\<lambda>y. y\<lparr>s_isup := None\<rparr>))
                  (kseq (put_super dev)
                  (kbind (sync_dev dev) (\<lambda>_. kreturn 0)))))))))))))))"

definition sys_mount :: "u32 \<Rightarrow> u32 \<Rightarrow> int \<Rightarrow> ('a fsys_scheme, int) km" where
  "sys_mount dev_name dir_name rw_flag =
     kbind (namei dev_name) (\<lambda>q.
     case q of None \<Rightarrow> kreturn (- ENOENT)
     | Some d \<Rightarrow> kbind (ino d) (\<lambda>x.
       let dev = i_zone x ! 0
       in if \<not> S_ISBLK (i_mode x) then put_err d EPERM
          else kseq (iput (Some d))
          (kbind (namei dir_name) (\<lambda>q.
           case q of None \<Rightarrow> kreturn (- ENOENT)
           | Some i \<Rightarrow> kbind (ino i) (\<lambda>y.
             if i_count y \<noteq> 1 \<or> i_num y = ROOT_INO then put_err i EBUSY
             else if \<not> S_ISDIR (i_mode y) then put_err i EPERM
             else kbind (read_super dev) (\<lambda>r.
             case r of None \<Rightarrow> put_err i EBUSY
             | Some k \<Rightarrow> kbind (sb k) (\<lambda>z.
               kbind (ino i) (\<lambda>y.
               if s_imount z \<noteq> None then put_err i EBUSY
               else if i_mount y \<noteq> 0 then put_err i EPERM
               else kseq (upd_sb k (\<lambda>z. z\<lparr>s_imount := Some i\<rparr>))
                 (kseq (upd_ino i (\<lambda>y. y\<lparr>i_mount := 1, i_dirt := 1\<rparr>)) (kreturn 0))))))))))"

text \<open>The number of clear bits below a bound, which \<open>mount_root\<close> prints.\<close>

fun count_clear :: "nat \<Rightarrow> nat option list \<Rightarrow> ('a fsys_scheme, nat) km" where
  "count_clear 0 maps = kreturn 0"
| "count_clear (Suc i) maps =
     kbind (the_ptr ''map'' (maps ! (i div 8192))) (\<lambda>m.
     kbind (buf m) (\<lambda>b.
     kbind (count_clear i maps) (\<lambda>c.
     kreturn (if tst_bit (i mod 8192) (b_data b) then c else c + 1))))"

text \<open>\<open>mount_root\<close> returns the two numbers it prints: free blocks and free inodes.\<close>

definition mount_root :: "('a fsys_scheme, nat \<times> nat) km" where
  "mount_root =
     kseq (kfor [0..<NR_FILE] (\<lambda>i. upd_fil i (\<lambda>f. f\<lparr>f_count := 0\<rparr>)))
     (kbind (kget ROOT_DEV) (\<lambda>rd.
      kseq (kwhen (MAJOR rd = 2) (kstop (Driver 4)))
     (kseq (kfor [0..<NR_SUPER] (\<lambda>k. upd_sb k (\<lambda>x. x\<lparr>s_dev := 0, s_lock := 0, s_wait := None\<rparr>)))
     (kbind (read_super rd) (\<lambda>q.
      case q of None \<Rightarrow> kstop (Panic ''Unable to mount root'')
      | Some k \<Rightarrow>
        kbind (iget rd ROOT_INO) (\<lambda>mi.
        kseq (upd_ino mi (\<lambda>x. x\<lparr>i_count := i_count x + 3\<rparr>))
        (kseq (upd_sb k (\<lambda>x. x\<lparr>s_isup := Some mi, s_imount := Some mi\<rparr>))
        (kseq (kmod (upd_cur (\<lambda>p. p\<lparr>pwd := Some mi, root := Some mi\<rparr>)))
        (kbind (sb k) (\<lambda>x.
         kbind (count_clear (unat (s_nzones x)) (s_zmap x)) (\<lambda>fb.
         kbind (count_clear (unat (s_ninodes x) + 1) (s_imap x)) (\<lambda>fi.
         kreturn (fb, fi)))))))))))))"

section \<open>Loading the ram disk\<close>

text \<open>The loop of \<open>rd_load\<close>: \<open>i\<close> counts the blocks copied so far.\<close>

fun rd_load_loop :: "nat \<Rightarrow> u16 \<Rightarrow> u32 \<Rightarrow> nat \<Rightarrow> ('a fsys_scheme, bool) km" where
  "rd_load_loop 0 dev block i = kreturn True"
| "rd_load_loop (Suc n) dev block i =
     kbind (if Suc n > 2 then breada dev block [block + 1, block + 2] else bread dev block) (\<lambda>q.
     case q of None \<Rightarrow> kreturn False
     | Some bh \<Rightarrow> kbind (buf bh) (\<lambda>b.
         kseq (kmod (\<lambda>s. s\<lparr>rd_data := rd_write (BLOCK_SIZE * i) (b_data b) (rd_data s)\<rparr>))
         (kseq (brelse (Some bh)) (rd_load_loop n dev (block + 1) (i + 1)))))"

definition rd_load :: "('a fsys_scheme, unit) km" where
  "rd_load =
     kbind (kget (\<lambda>s. (length (rd_data s), ROOT_DEV s))) (\<lambda>(len, rd).
     if len = 0 \<or> MAJOR rd \<noteq> 2 then kreturn ()
     else kbind (breada rd 257 [256, 258]) (\<lambda>q.
     case q of None \<Rightarrow> kreturn ()
     | Some bh \<Rightarrow> kbind (buf bh) (\<lambda>b.
       let nblocks = unat (rd16 (b_data b) 2) * 2 ^ unat (rd16 (b_data b) 10)
       in kseq (brelse (Some bh))
          (if rd16 (b_data b) 16 \<noteq> SUPER_MAGIC \<or> nblocks > len div BLOCK_SIZE then kreturn ()
           else kbind (rd_load_loop nblocks rd 256 0) (\<lambda>ok.
             kwhen ok (kmod (\<lambda>s. s\<lparr>ROOT_DEV := 0x0101\<rparr>)))))))"

end
