(* ===== verification/Files.thy ===== *)
theory Files
  imports Super "HOL-Library.Signed_Division"
begin

text \<open>
  Files: \<open>fs/file_dev.c\<close>, \<open>fs/block_dev.c\<close>, \<open>fs/char_dev.c\<close>, \<open>fs/pipe.c\<close>, \<open>fs/read_write.c\<close>,
  \<open>fs/open.c\<close>, \<open>fs/fcntl.c\<close>, \<open>fs/stat.c\<close> and \<open>fs/ioctl.c\<close>, with \<open>verify_area\<close> of
  \<open>kernel/fork.c\<close>, which they call. Loops that transfer bytes take the number of bytes as
  fuel, since every turn transfers at least one.
\<close>

section \<open>State\<close>

text \<open>
  \<open>tty_pgrp\<close> is the field \<open>pgrp\<close> of \<open>tty_table[]\<close>, \<open>gdt\<close> the global descriptor table (the low
  and the high word of each entry).
\<close>

record kern = fsys +
  tty_pgrp :: "int list"
  gdt :: "(u32 \<times> u32) list"

section \<open>Segments\<close>

text \<open>A descriptor is the pair of its two long words \<open>a\<close>, \<open>b\<close>.\<close>

definition get_base :: "u32 \<times> u32 \<Rightarrow> u32" where
  "get_base d = drop_bit 16 (fst d) OR push_bit 16 (snd d AND 0xff) OR (snd d AND 0xff000000)"

definition set_base :: "u32 \<Rightarrow> u32 \<times> u32 \<Rightarrow> u32 \<times> u32" where
  "set_base base d =
     ((fst d AND 0xffff) OR push_bit 16 base,
      (snd d AND 0x00ffff00) OR (drop_bit 16 base AND 0xff) OR (base AND 0xff000000))"

text \<open>\<open>lsl\<close> gives the limit in bytes, counting pages when the granularity bit is set; then 1 is added.\<close>

definition get_limit :: "u32 \<times> u32 \<Rightarrow> u32" where
  "get_limit d = (let l = (fst d AND 0xffff) OR (snd d AND 0xf0000)
     in (if bit (snd d) 23 then push_bit 12 l OR 0xfff else l) + 1)"

definition ldt_desc :: "nat \<Rightarrow> ('a sched_scheme, u32 \<times> u32) km" where
  "ldt_desc i = kget (\<lambda>s. ldt (cur s) ! i)"

fun verify_loop :: "nat \<Rightarrow> u32 \<Rightarrow> ('a mm_scheme, unit) km" where
  "verify_loop 0 a = kreturn ()"
| "verify_loop (Suc n) a = kseq (write_verify a) (verify_loop n (a + 4096))"

definition verify_area :: "u32 \<Rightarrow> int \<Rightarrow> ('a mm_scheme, unit) km" where
  "verify_area addr size0 =
     kbind (ldt_desc 2) (\<lambda>d.
     let sz = size0 + uint (addr AND 0xfff)
     in verify_loop (nat ((sz + 4095) div 4096)) ((addr AND 0xfffff000) + get_base d))"

section \<open>Bytes of user memory and of pages\<close>

definition put_fs_bytes :: "u8 list \<Rightarrow> u32 \<Rightarrow> ('a fsys_scheme, unit) km" where
  "put_fs_bytes d a = kfor [0..<length d] (\<lambda>k. put_fs_byte (d ! k) (a + of_nat k))"

definition get_fs_bytes :: "nat \<Rightarrow> u32 \<Rightarrow> ('a fsys_scheme, u8 list) km" where
  "get_fs_bytes n a = kget (\<lambda>s. map (\<lambda>k. user s (a + of_nat k)) [0..<n])"

definition splice :: "nat \<Rightarrow> u8 list \<Rightarrow> u8 list \<Rightarrow> u8 list" where
  "splice off d m = take off m @ d @ drop (off + length d) m"

text \<open>A byte of physical memory, which the model keeps in long words.\<close>

definition peek8 :: "(u32 \<Rightarrow> u32) \<Rightarrow> u32 \<Rightarrow> u8" where
  "peek8 m a = ucast (drop_bit (8 * unat (a AND 3)) (m (a AND NOT 3)))"

definition poke8 :: "u32 \<Rightarrow> u8 \<Rightarrow> (u32 \<Rightarrow> u32) \<Rightarrow> (u32 \<Rightarrow> u32)" where
  "poke8 a v m = (let w = a AND NOT 3; k = 8 * unat (a AND 3)
     in m(w := (m w AND NOT (push_bit k 0xff)) OR push_bit k (ucast v)))"

section \<open>Regular files\<close>

text \<open>
  The loop of \<open>file_read\<close>; the result is what is left of \<open>count\<close>. Each turn transfers at least
  one byte. \<open>/\<close> and \<open>%\<close> truncate towards zero, as in C.
\<close>

fun file_read_loop :: "nat \<Rightarrow> nat \<Rightarrow> nat \<Rightarrow> u32 \<Rightarrow> int \<Rightarrow> ('a fsys_scheme, int) km" where
  "file_read_loop 0 i f ubuf left = kstop Diverges"
| "file_read_loop (Suc n) i f ubuf left =
     (if left = 0 then kreturn 0
      else kbind (fil f) (\<lambda>x.
        kbind (bmap i (f_pos x sdiv 1024)) (\<lambda>nr.
        kbind (if nr \<noteq> 0 then kbind (ino i) (\<lambda>y. kbind (bread (i_dev y) (ucast nr)) (\<lambda>q.
                 kreturn (case q of None \<Rightarrow> Inl () | Some bh \<Rightarrow> Inr (Some bh))))
               else kreturn (Inr None)) (\<lambda>r.
        case r of Inl _ \<Rightarrow> kreturn left
        | Inr q \<Rightarrow>
          let off = f_pos x smod 1024; chars = min (1024 - off) left
          in kseq (upd_fil f (\<lambda>x. x\<lparr>f_pos := f_pos x + chars\<rparr>))
             (kseq (case q of
                None \<Rightarrow> put_fs_bytes (replicate (nat chars) 0) ubuf
              | Some bh \<Rightarrow>
                  if off < 0 then kstop (Fault ''b_data'')
                  else kbind (buf bh) (\<lambda>b.
                    kseq (put_fs_bytes (take (nat chars) (drop (nat off) (b_data b))) ubuf) (brelse (Some bh))))
             (file_read_loop n i f (ubuf + of_int chars) (left - chars)))))))"

definition file_read :: "nat \<Rightarrow> nat \<Rightarrow> u32 \<Rightarrow> int \<Rightarrow> ('a fsys_scheme, int) km" where
  "file_read i f ubuf count =
     (if count \<le> 0 then kreturn 0
      else kbind (file_read_loop (Suc (nat count)) i f ubuf count) (\<lambda>left.
        kbind (kget now) (\<lambda>t.
        kseq (upd_ino i (\<lambda>y. y\<lparr>i_atime := t\<rparr>))
        (kreturn (if count - left \<noteq> 0 then count - left else - ERROR)))))"

text \<open>The loop of \<open>file_write\<close>: the final \<open>pos\<close> and the number \<open>done\<close> of bytes written.\<close>

fun file_write_loop :: "nat \<Rightarrow> nat \<Rightarrow> u32 \<Rightarrow> int \<Rightarrow> int \<Rightarrow> int \<Rightarrow> ('a fsys_scheme, int \<times> int) km" where
  "file_write_loop 0 i ubuf count pos k = kstop Diverges"
| "file_write_loop (Suc n) i ubuf count pos k =
     (if \<not> k < count then kreturn (pos, k)
      else kbind (create_block i (pos sdiv 1024)) (\<lambda>block.
        if block = 0 then kreturn (pos, k)
        else kbind (ino i) (\<lambda>y.
        kbind (bread (i_dev y) (ucast block)) (\<lambda>q.
        case q of None \<Rightarrow> kreturn (pos, k)
        | Some bh \<Rightarrow>
          let off = pos smod 1024; c = min (1024 - off) (count - k)
          in if off < 0 then kstop (Fault ''b_data'')
             else kbind (ino i) (\<lambda>y.
               kseq (kwhen ((of_int (pos + c) :: u32) > i_size y)
                      (upd_ino i (\<lambda>y. y\<lparr>i_size := of_int (pos + c), i_dirt := 1\<rparr>)))
               (kbind (get_fs_bytes (nat c) ubuf) (\<lambda>d.
                kseq (upd_buf bh (\<lambda>b. b\<lparr>b_data := splice (nat off) d (b_data b), b_dirt := 1\<rparr>))
                (kseq (brelse (Some bh))
                (file_write_loop n i (ubuf + of_int c) count (pos + c) (k + c))))))))))"

definition file_write :: "nat \<Rightarrow> nat \<Rightarrow> u32 \<Rightarrow> int \<Rightarrow> ('a fsys_scheme, int) km" where
  "file_write i f ubuf count =
     kbind (fil f) (\<lambda>x.
     kbind (ino i) (\<lambda>y.
     let app = (ucast (f_flags x) AND O_APPEND \<noteq> 0)
     in kbind (file_write_loop (Suc (nat count)) i ubuf count (if app then sint (i_size y) else f_pos x) 0) (\<lambda>(pos, k).
        kbind (kget now) (\<lambda>t.
        kseq (upd_ino i (\<lambda>y. y\<lparr>i_mtime := t\<rparr>))
        (kseq (kwhen (\<not> app)
                (kseq (upd_fil f (\<lambda>x. x\<lparr>f_pos := pos\<rparr>)) (upd_ino i (\<lambda>y. y\<lparr>i_ctime := t\<rparr>))))
        (kreturn (if k \<noteq> 0 then k else -1)))))))"

section \<open>Block devices\<close>

text \<open>The read-ahead arguments \<open>block+1, block+2, -1\<close> up to the first negative one.\<close>

definition ahead :: "int \<Rightarrow> u32 list" where
  "ahead block = map of_int (takeWhile (\<lambda>n. n \<ge> 0) [block + 1, block + 2])"

text \<open>The argument \<open>f\<close> is the file whose \<open>f_pos\<close> is \<open>*pos\<close>.\<close>

fun block_write_loop :: "nat \<Rightarrow> u16 \<Rightarrow> nat \<Rightarrow> u32 \<Rightarrow> int \<Rightarrow> int \<Rightarrow> int \<Rightarrow> int \<Rightarrow> ('a fsys_scheme, int) km" where
  "block_write_loop 0 dev f ubuf count block offset written = kstop Diverges"
| "block_write_loop (Suc n) dev f ubuf count block offset written =
     (if \<not> count > 0 then kreturn written
      else let chars = min (1024 - offset) count
        in kbind (if chars = 1024 then kbind (getblk dev (of_int block)) (\<lambda>bh. kreturn (Some bh))
                  else breada dev (of_int block) (ahead block)) (\<lambda>q.
           case q of None \<Rightarrow> kreturn (if written \<noteq> 0 then written else - EIO)
           | Some bh \<Rightarrow>
             kseq (upd_fil f (\<lambda>x. x\<lparr>f_pos := f_pos x + chars\<rparr>))
             (kbind (get_fs_bytes (nat chars) ubuf) (\<lambda>d.
              kseq (upd_buf bh (\<lambda>b. b\<lparr>b_data := splice (nat offset) d (b_data b), b_dirt := 1\<rparr>))
              (kseq (brelse (Some bh))
              (block_write_loop n dev f (ubuf + of_int chars) (count - chars) (block + 1) 0 (written + chars)))))))"

definition block_write :: "u16 \<Rightarrow> nat \<Rightarrow> u32 \<Rightarrow> int \<Rightarrow> ('a fsys_scheme, int) km" where
  "block_write dev f ubuf count =
     kbind (fil f) (\<lambda>x.
     block_write_loop (Suc (nat count)) dev f ubuf count (f_pos x div 1024) (f_pos x mod 1024) 0)"

fun block_read_loop :: "nat \<Rightarrow> u16 \<Rightarrow> nat \<Rightarrow> u32 \<Rightarrow> int \<Rightarrow> int \<Rightarrow> int \<Rightarrow> int \<Rightarrow> ('a fsys_scheme, int) km" where
  "block_read_loop 0 dev f ubuf count block offset rd = kstop Diverges"
| "block_read_loop (Suc n) dev f ubuf count block offset rd =
     (if \<not> count > 0 then kreturn rd
      else let chars = min (1024 - offset) count
        in kbind (breada dev (of_int block) (ahead block)) (\<lambda>q.
           case q of None \<Rightarrow> kreturn (if rd \<noteq> 0 then rd else - EIO)
           | Some bh \<Rightarrow>
             kseq (upd_fil f (\<lambda>x. x\<lparr>f_pos := f_pos x + chars\<rparr>))
             (kbind (buf bh) (\<lambda>b.
              kseq (put_fs_bytes (take (nat chars) (drop (nat offset) (b_data b))) ubuf)
              (kseq (brelse (Some bh))
              (block_read_loop n dev f (ubuf + of_int chars) (count - chars) (block + 1) 0 (rd + chars)))))))"

text \<open>Here \<open>*pos\<close> is taken as unsigned.\<close>

definition block_read :: "u16 \<Rightarrow> nat \<Rightarrow> u32 \<Rightarrow> int \<Rightarrow> ('a fsys_scheme, int) km" where
  "block_read dev f ubuf count =
     kbind (fil f) (\<lambda>x.
     let p = uint (of_int (f_pos x) :: u32)
     in block_read_loop (Suc (nat count)) dev f ubuf count (p div 1024) (p mod 1024) 0)"

section \<open>Character devices\<close>

text \<open>
  The terminal driver is a layer above, in \<open>Tty\<close>: its entries \<open>rw_ttyx\<close> and \<open>tty_ioctl\<close>, which the code
  finds in tables of functions, are arguments here.
\<close>

type_synonym 's tty_rw = "nat \<Rightarrow> int \<Rightarrow> u32 \<Rightarrow> int \<Rightarrow> ('s, int) km"

definition rw_tty :: "'a fsys_scheme tty_rw \<Rightarrow> nat \<Rightarrow> int \<Rightarrow> u32 \<Rightarrow> int \<Rightarrow> ('a fsys_scheme, int) km" where
  "rw_tty ttyx rw minor ubuf count =
     kbind (kget (\<lambda>s. tty (cur s))) (\<lambda>t. if t < 0 then kreturn (- EPERM) else ttyx rw t ubuf count)"

text \<open>\<open>inb\<close> is what the hardware returns on each port; a call reads a port at most once.\<close>

fun rw_port_loop :: "(u16 \<Rightarrow> u8) \<Rightarrow> nat \<Rightarrow> nat \<Rightarrow> u32 \<Rightarrow> int \<Rightarrow> ('a fsys_scheme, int) km" where
  "rw_port_loop inb rw 0 ubuf i = kreturn i"
| "rw_port_loop inb rw (Suc n) ubuf i =
     (if \<not> i < 65536 then kreturn i
      else kseq (if rw = READ then put_fs_byte (inb (of_int i)) ubuf
                 else kbind (get_fs_byte ubuf) (\<lambda>v. kmod (outb v (of_int i))))
           (rw_port_loop inb rw n (ubuf + 1) (i + 1)))"

definition rw_port :: "(u16 \<Rightarrow> u8) \<Rightarrow> nat \<Rightarrow> u32 \<Rightarrow> int \<Rightarrow> nat \<Rightarrow> ('a fsys_scheme, int) km" where
  "rw_port inb rw ubuf count f =
     kbind (fil f) (\<lambda>x.
     kbind (rw_port_loop inb rw (nat count) ubuf (f_pos x)) (\<lambda>i.
     kseq (upd_fil f (\<lambda>x. x\<lparr>f_pos := i\<rparr>))
     (kreturn (i - f_pos x))))"

definition rw_memory :: "(u16 \<Rightarrow> u8) \<Rightarrow> nat \<Rightarrow> nat \<Rightarrow> u32 \<Rightarrow> int \<Rightarrow> nat \<Rightarrow> ('a fsys_scheme, int) km" where
  "rw_memory inb rw minor ubuf count f =
     (if minor = 3 then kreturn (if rw = READ then 0 else count)
      else if minor = 4 then rw_port inb rw ubuf count f
      else kreturn (- EIO))"

definition rw_char :: "'a fsys_scheme tty_rw \<Rightarrow> (u16 \<Rightarrow> u8) \<Rightarrow> nat \<Rightarrow> u16 \<Rightarrow> u32 \<Rightarrow> int \<Rightarrow> nat \<Rightarrow> ('a fsys_scheme, int) km" where
  "rw_char ttyx inb rw dev ubuf count f =
     (if MAJOR dev = 1 then rw_memory inb rw (MINOR dev) ubuf count f
      else if MAJOR dev = 4 then ttyx rw (int (MINOR dev)) ubuf count
      else if MAJOR dev = 5 then rw_tty ttyx rw (int (MINOR dev)) ubuf count
      else kreturn (- ENODEV))"

section \<open>Pipes\<close>

definition PIPE_SIZE :: "m_inode \<Rightarrow> nat" where
  "PIPE_SIZE x = unat ((i_zone x ! 0 - i_zone x ! 1) AND 0xfff)"

definition wake_inode :: "nat \<Rightarrow> ('a fsys_scheme, unit) km" where
  "wake_inode i = kbind (ino i) (\<lambda>x. kseq (upd_ino i (\<lambda>x. x\<lparr>i_wait := None\<rparr>)) (wake_wait (i_wait x)))"

text \<open>One turn of the outer loop when the pipe is not empty: the number of bytes read.\<close>

definition read_pipe_chunk :: "nat \<Rightarrow> u32 \<Rightarrow> nat \<Rightarrow> ('a fsys_scheme, nat) km" where
  "read_pipe_chunk i ubuf count =
     kbind (ino i) (\<lambda>x.
     let tl = unat (i_zone x ! 1); chars = min (min (4096 - tl) count) (PIPE_SIZE x)
     in kseq (upd_ino i (\<lambda>x. x\<lparr>i_zone := (i_zone x)[1 := (i_zone x ! 1 + of_nat chars) AND 0xfff]\<rparr>))
        (kbind (kget phys) (\<lambda>m.
         kseq (put_fs_bytes (map (\<lambda>k. peek8 m (i_size x + of_nat (tl + k))) [0..<chars]) ubuf)
         (kreturn chars))))"

fun read_pipe_loop :: "nat \<Rightarrow> nat \<Rightarrow> u32 \<Rightarrow> nat \<Rightarrow> nat \<Rightarrow> ('a fsys_scheme, int) km" where
  "read_pipe_loop 0 i ubuf count rd = kstop Diverges"
| "read_pipe_loop (Suc n) i ubuf count rd =
     (if count = 0 then kseq (wake_inode i) (kreturn (int rd))
      else kbind (ino i) (\<lambda>x.
        if PIPE_SIZE x = 0
        then kseq (wake_inode i) (if i_count x \<noteq> 2 then kreturn (int rd) else kstop Sleeps)
        else kbind (read_pipe_chunk i ubuf count) (\<lambda>chars.
          read_pipe_loop n i (ubuf + of_nat chars) (count - chars) (rd + chars))))"

definition read_pipe :: "nat \<Rightarrow> u32 \<Rightarrow> int \<Rightarrow> ('a fsys_scheme, int) km" where
  "read_pipe i ubuf count = read_pipe_loop (Suc (nat count)) i ubuf (nat count) 0"

definition write_pipe_chunk :: "nat \<Rightarrow> u32 \<Rightarrow> nat \<Rightarrow> ('a fsys_scheme, nat) km" where
  "write_pipe_chunk i ubuf count =
     kbind (ino i) (\<lambda>x.
     let hd = unat (i_zone x ! 0); chars = min (min (4096 - hd) count) (4095 - PIPE_SIZE x)
     in kseq (upd_ino i (\<lambda>x. x\<lparr>i_zone := (i_zone x)[0 := (i_zone x ! 0 + of_nat chars) AND 0xfff]\<rparr>))
        (kbind (get_fs_bytes chars ubuf) (\<lambda>d.
         kseq (kmod (\<lambda>s. s\<lparr>phys := fold (\<lambda>k. poke8 (i_size x + of_nat (hd + k)) (d ! k)) [0..<chars] (phys s)\<rparr>))
         (kreturn chars))))"

definition send_sigpipe :: "nat \<Rightarrow> ('a sched_scheme, int) km" where
  "send_sigpipe wr =
     kseq (kmod (upd_cur (\<lambda>p. p\<lparr>signal := signal p OR sigbit SIGPIPE\<rparr>)))
     (kreturn (if wr \<noteq> 0 then int wr else -1))"

fun write_pipe_loop :: "nat \<Rightarrow> nat \<Rightarrow> u32 \<Rightarrow> nat \<Rightarrow> nat \<Rightarrow> ('a fsys_scheme, int) km" where
  "write_pipe_loop 0 i ubuf count wr = kstop Diverges"
| "write_pipe_loop (Suc n) i ubuf count wr =
     (if count = 0 then kseq (wake_inode i) (kreturn (int wr))
      else kbind (ino i) (\<lambda>x.
        if PIPE_SIZE x = 4095
        then kseq (wake_inode i) (if i_count x \<noteq> 2 then send_sigpipe wr else kstop Sleeps)
        else kbind (write_pipe_chunk i ubuf count) (\<lambda>chars.
          write_pipe_loop n i (ubuf + of_nat chars) (count - chars) (wr + chars))))"

definition write_pipe :: "nat \<Rightarrow> u32 \<Rightarrow> int \<Rightarrow> ('a fsys_scheme, int) km" where
  "write_pipe i ubuf count = write_pipe_loop (Suc (nat count)) i ubuf (nat count) 0"

section \<open>Descriptors\<close>

definition cur_filp :: "nat \<Rightarrow> ('a sched_scheme, nat option) km" where
  "cur_filp fd = (\<lambda>s. if fd < length (filp (cur s)) then Ret (filp (cur s) ! fd) s else Stop (Fault ''filp'') s)"

definition set_filp :: "nat \<Rightarrow> nat option \<Rightarrow> ('a sched_scheme, unit) km" where
  "set_filp fd q = kmod (upd_cur (\<lambda>p. p\<lparr>filp := (filp p)[fd := q]\<rparr>))"

definition fd_file :: "nat \<Rightarrow> ('a sched_scheme, nat option) km" where
  "fd_file fd = (if fd \<ge> NR_OPEN then kreturn None else cur_filp fd)"

text \<open>The first two free entries of \<open>file_table\<close>, or of \<open>filp\<close>.\<close>

definition free_slots :: "('b \<Rightarrow> bool) \<Rightarrow> nat \<Rightarrow> 'b list \<Rightarrow> nat list" where
  "free_slots is_free n xs = take 2 (filter (\<lambda>i. is_free (xs ! i)) [0..<n])"

definition sys_pipe :: "u32 \<Rightarrow> ('a fsys_scheme, int) km" where
  "sys_pipe fildes =
     kbind (kget (\<lambda>s. free_slots (\<lambda>x. f_count x = 0) NR_FILE (file_table s))) (\<lambda>fs.
     case fs of
       [f0, f1] \<Rightarrow>
         kseq (upd_fil f0 (\<lambda>x. x\<lparr>f_count := f_count x + 1\<rparr>))
         (kseq (upd_fil f1 (\<lambda>x. x\<lparr>f_count := f_count x + 1\<rparr>))
         (let undo = kseq (upd_fil f1 (\<lambda>x. x\<lparr>f_count := 0\<rparr>)) (kseq (upd_fil f0 (\<lambda>x. x\<lparr>f_count := 0\<rparr>)) (kreturn (-1)))
          in kbind (kget (\<lambda>s. free_slots (\<lambda>q. q = None) NR_OPEN (filp (cur s)))) (\<lambda>fds.
          case fds of
            [d0, d1] \<Rightarrow>
              kseq (set_filp d0 (Some f0)) (kseq (set_filp d1 (Some f1))
              (kbind get_pipe_inode (\<lambda>q.
               case q of
                 None \<Rightarrow> kseq (set_filp d1 None) (kseq (set_filp d0 None) undo)
               | Some i \<Rightarrow>
                   kseq (upd_fil f0 (\<lambda>x. x\<lparr>f_inode := Some i, f_pos := 0, f_mode := 1\<rparr>))
                   (kseq (upd_fil f1 (\<lambda>x. x\<lparr>f_inode := Some i, f_pos := 0, f_mode := 2\<rparr>))
                   (kseq (put_fs_long (of_nat d0) fildes)
                   (kseq (put_fs_long (of_nat d1) (fildes + 4)) (kreturn 0)))))))
          | _ \<Rightarrow> undo)))
     | _ \<Rightarrow> kreturn (-1))"

section \<open>Reading, writing and seeking\<close>

text \<open>An \<open>int\<close> from the bits of an unsigned value.\<close>

abbreviation (input) as_int :: "u32 \<Rightarrow> int" where "as_int \<equiv> sint"

definition sys_lseek :: "nat \<Rightarrow> int \<Rightarrow> int \<Rightarrow> ('a fsys_scheme, int) km" where
  "sys_lseek fd offset origin =
     kbind (fd_file fd) (\<lambda>q.
     case q of None \<Rightarrow> kreturn (- EBADF)
     | Some f \<Rightarrow> kbind (fil f) (\<lambda>x.
       case f_inode x of None \<Rightarrow> kreturn (- EBADF)
       | Some i \<Rightarrow> kbind (ino i) (\<lambda>y.
         let seek = (\<lambda>p. kseq (upd_fil f (\<lambda>x. x\<lparr>f_pos := p\<rparr>)) (kreturn p))
         in if \<not> IS_SEEKABLE (MAJOR (i_dev y)) then kreturn (- EBADF)
            else if i_pipe y \<noteq> 0 then kreturn (- ESPIPE)
            else if origin = 0 then (if offset < 0 then kreturn (- EINVAL) else seek offset)
            else if origin = 1 then (if f_pos x + offset < 0 then kreturn (- EINVAL) else seek (f_pos x + offset))
            else if origin = 2 then
              (let tmp = as_int (i_size y + of_int offset)
               in if tmp < 0 then kreturn (- EINVAL) else seek tmp)
            else kreturn (- EINVAL))))"

definition sys_read :: "'a fsys_scheme tty_rw \<Rightarrow> (u16 \<Rightarrow> u8) \<Rightarrow> nat \<Rightarrow> u32 \<Rightarrow> int \<Rightarrow> ('a fsys_scheme, int) km" where
  "sys_read ttyx inb fd ubuf count =
     (if fd \<ge> NR_OPEN \<or> count < 0 then kreturn (- EINVAL)
      else kbind (cur_filp fd) (\<lambda>q.
      case q of None \<Rightarrow> kreturn (- EINVAL)
      | Some f \<Rightarrow>
        if count = 0 then kreturn 0
        else kseq (verify_area ubuf count)
        (kbind (fil f) (\<lambda>x.
         kbind (the_ptr ''f_inode'' (f_inode x)) (\<lambda>i.
         kbind (ino i) (\<lambda>y.
         if i_pipe y \<noteq> 0 then (if f_mode x AND 1 \<noteq> 0 then read_pipe i ubuf count else kreturn (- EIO))
         else if S_ISCHR (i_mode y) then rw_char ttyx inb READ (i_zone y ! 0) ubuf count f
         else if S_ISBLK (i_mode y) then block_read (i_zone y ! 0) f ubuf count
         else if S_ISDIR (i_mode y) \<or> S_ISREG (i_mode y) then
           (let n = (if (of_int (count + f_pos x) :: u32) > i_size y then as_int (i_size y - of_int (f_pos x)) else count)
            in if n \<le> 0 then kreturn 0 else file_read i f ubuf n)
         else kreturn (- EINVAL)))))))"

definition sys_write :: "'a fsys_scheme tty_rw \<Rightarrow> (u16 \<Rightarrow> u8) \<Rightarrow> nat \<Rightarrow> u32 \<Rightarrow> int \<Rightarrow> ('a fsys_scheme, int) km" where
  "sys_write ttyx inb fd ubuf count =
     (if fd \<ge> NR_OPEN \<or> count < 0 then kreturn (- EINVAL)
      else kbind (cur_filp fd) (\<lambda>q.
      case q of None \<Rightarrow> kreturn (- EINVAL)
      | Some f \<Rightarrow>
        if count = 0 then kreturn 0
        else kbind (fil f) (\<lambda>x.
         kbind (the_ptr ''f_inode'' (f_inode x)) (\<lambda>i.
         kbind (ino i) (\<lambda>y.
         if i_pipe y \<noteq> 0 then (if f_mode x AND 2 \<noteq> 0 then write_pipe i ubuf count else kreturn (- EIO))
         else if S_ISCHR (i_mode y) then rw_char ttyx inb WRITE (i_zone y ! 0) ubuf count f
         else if S_ISBLK (i_mode y) then block_write (i_zone y ! 0) f ubuf count
         else if S_ISREG (i_mode y) then file_write i f ubuf count
         else kreturn (- EINVAL))))))"

section \<open>Opening and closing\<close>

definition sys_ustat :: "('a fsys_scheme, int) km" where
  "sys_ustat = kreturn (- ENOSYS)"

definition sys_utime :: "u32 \<Rightarrow> u32 \<Rightarrow> ('a fsys_scheme, int) km" where
  "sys_utime filename tbuf =
     kbind (namei filename) (\<lambda>q.
     case q of None \<Rightarrow> kreturn (- ENOENT)
     | Some i \<Rightarrow>
       kbind (if tbuf \<noteq> 0 then kbind (get_fs_long tbuf) (\<lambda>a. kbind (get_fs_long (tbuf + 4)) (\<lambda>m. kreturn (a, m)))
              else kbind (kget now) (\<lambda>t. kreturn (t, t))) (\<lambda>(actime, modtime).
       kseq (upd_ino i (\<lambda>x. x\<lparr>i_atime := actime, i_mtime := modtime, i_dirt := 1\<rparr>))
       (kseq (iput (Some i)) (kreturn 0))))"

text \<open>
  \<open>sys_access\<close> reads \<open>inode->i_uid\<close> and \<open>i_gid\<close> after \<open>iput\<close>. The group shifts the mode by 6, too.
\<close>

definition sys_access :: "u32 \<Rightarrow> u32 \<Rightarrow> ('a fsys_scheme, int) km" where
  "sys_access filename mode0 =
     (let mode = ucast (mode0 AND 7) :: u16
      in kbind (namei filename) (\<lambda>q.
      case q of None \<Rightarrow> kreturn (- EACCES)
      | Some i \<Rightarrow> kbind (ino i) (\<lambda>x.
        let m = i_mode x AND 0x1FF
        in kseq (iput (Some i))
           (kbind (ino i) (\<lambda>x.
            kbind (kget cur) (\<lambda>me.
            let res = (if uid me = i_uid x \<or> gid me = ucast (i_gid x) then drop_bit 6 m else m)
            in if res AND 7 AND mode = mode then kreturn 0
               else if uid me = 0 \<and> (mode AND 1 = 0 \<or> m AND 0x49 \<noteq> 0) then kreturn 0
               else kreturn (- EACCES)))))))"

definition chdir_with :: "(task_struct \<Rightarrow> nat option) \<Rightarrow> (nat \<Rightarrow> task_struct \<Rightarrow> task_struct) \<Rightarrow> u32 \<Rightarrow> ('a fsys_scheme, int) km" where
  "chdir_with old new filename =
     kbind (namei filename) (\<lambda>q.
     case q of None \<Rightarrow> kreturn (- ENOENT)
     | Some i \<Rightarrow> kbind (ino i) (\<lambda>x.
       if \<not> S_ISDIR (i_mode x) then put_err i ENOTDIR
       else kbind (kget cur) (\<lambda>me.
         kseq (iput (old me)) (kseq (kmod (upd_cur (new i))) (kreturn 0)))))"

definition sys_chdir :: "u32 \<Rightarrow> ('a fsys_scheme, int) km" where
  "sys_chdir filename = chdir_with pwd (\<lambda>i p. p\<lparr>pwd := Some i\<rparr>) filename"

definition sys_chroot :: "u32 \<Rightarrow> ('a fsys_scheme, int) km" where
  "sys_chroot filename = chdir_with root (\<lambda>i p. p\<lparr>root := Some i\<rparr>) filename"

definition sys_chmod :: "u32 \<Rightarrow> u32 \<Rightarrow> ('a fsys_scheme, int) km" where
  "sys_chmod filename mode =
     kbind (namei filename) (\<lambda>q.
     case q of None \<Rightarrow> kreturn (- ENOENT)
     | Some i \<Rightarrow> kbind (ino i) (\<lambda>x.
       kbind (kget (\<lambda>s. (euid (cur s), suser s))) (\<lambda>(eu, su).
       if eu \<noteq> i_uid x \<and> \<not> su then put_err i EACCES
       else kseq (upd_ino i (\<lambda>x. x\<lparr>i_mode := (ucast mode AND 0xFFF) OR (i_mode x AND NOT 0xFFF), i_dirt := 1\<rparr>))
            (kseq (iput (Some i)) (kreturn 0)))))"

definition sys_chown :: "u32 \<Rightarrow> u32 \<Rightarrow> u32 \<Rightarrow> ('a fsys_scheme, int) km" where
  "sys_chown filename u g =
     kbind (namei filename) (\<lambda>q.
     case q of None \<Rightarrow> kreturn (- ENOENT)
     | Some i \<Rightarrow> kbind (kget suser) (\<lambda>su.
       if \<not> su then put_err i EACCES
       else kseq (upd_ino i (\<lambda>x. x\<lparr>i_uid := ucast u, i_gid := ucast g, i_dirt := 1\<rparr>))
            (kseq (iput (Some i)) (kreturn 0))))"

definition cloexec_off :: "nat \<Rightarrow> task_struct \<Rightarrow> task_struct" where
  "cloexec_off fd p = p\<lparr>close_on_exec := close_on_exec p AND NOT (push_bit fd 1)\<rparr>"

definition sys_open :: "u32 \<Rightarrow> u32 \<Rightarrow> u32 \<Rightarrow> ('a kern_scheme, int) km" where
  "sys_open filename flag mode0 =
     kbind (kget cur) (\<lambda>me.
     let mode = mode0 AND 0x1FF AND NOT (ucast (umask me))
     in case find (\<lambda>fd. filp me ! fd = None) [0..<NR_OPEN] of
       None \<Rightarrow> kreturn (- EINVAL)
     | Some fd \<Rightarrow>
       kseq (kmod (upd_cur (cloexec_off fd)))
       (kbind (kget (\<lambda>s. find (\<lambda>i. f_count (file_table s ! i) = 0) [0..<NR_FILE])) (\<lambda>q.
       case q of None \<Rightarrow> kreturn (- EINVAL)
       | Some f \<Rightarrow>
         let undo = (\<lambda>e. kseq (set_filp fd None) (kseq (upd_fil f (\<lambda>x. x\<lparr>f_count := 0\<rparr>)) (kreturn e)))
         in kseq (set_filp fd (Some f))
         (kseq (upd_fil f (\<lambda>x. x\<lparr>f_count := f_count x + 1\<rparr>))
         (kbind (open_namei filename flag mode) (\<lambda>r.
         case r of Inl e \<Rightarrow> undo e
         | Inr i \<Rightarrow>
           kbind (ino i) (\<lambda>y.
           kbind (kget cur) (\<lambda>me.
           let dev = i_zone y ! 0
           in if S_ISCHR (i_mode y) \<and> MAJOR dev = 5 \<and> tty me < 0 then kseq (iput (Some i)) (undo (- EPERM))
              else kseq (kwhen (S_ISCHR (i_mode y) \<and> MAJOR dev = 4 \<and> leader me \<noteq> 0 \<and> tty me < 0)
                     (kseq (kmod (upd_cur (\<lambda>p. p\<lparr>tty := int (MINOR dev)\<rparr>)))
                     (\<lambda>s. if MINOR dev < length (tty_pgrp s)
                           then Ret () (s\<lparr>tty_pgrp := (tty_pgrp s)[MINOR dev := pgrp me]\<rparr>)
                           else Stop (Fault ''tty_table'') s)))
                (kseq (kwhen (S_ISBLK (i_mode y)) (check_disk_change dev))
                (kseq (upd_fil f (\<lambda>x. x\<lparr>f_mode := i_mode y, f_flags := ucast flag, f_count := 1, f_inode := Some i, f_pos := 0\<rparr>))
                (kreturn (int fd))))))))))))"

definition sys_creat :: "u32 \<Rightarrow> u32 \<Rightarrow> ('a kern_scheme, int) km" where
  "sys_creat pathname mode = sys_open pathname (O_CREAT OR O_TRUNC) mode"

definition sys_close :: "nat \<Rightarrow> ('a fsys_scheme, int) km" where
  "sys_close fd =
     (if fd \<ge> NR_OPEN then kreturn (- EINVAL)
      else kseq (kmod (upd_cur (cloexec_off fd)))
        (kbind (cur_filp fd) (\<lambda>q.
         case q of None \<Rightarrow> kreturn (- EINVAL)
         | Some f \<Rightarrow>
           kseq (set_filp fd None)
           (kbind (fil f) (\<lambda>x.
            if f_count x = 0 then kstop (Panic ''Close: file count is 0'')
            else kseq (upd_fil f (\<lambda>x. x\<lparr>f_count := f_count x - 1\<rparr>))
              (if f_count x - 1 \<noteq> 0 then kreturn 0
               else kseq (iput (f_inode x)) (kreturn 0)))))))"

section \<open>Descriptor control\<close>

definition dupfd :: "nat \<Rightarrow> nat \<Rightarrow> ('a fsys_scheme, int) km" where
  "dupfd fd arg =
     kbind (fd_file fd) (\<lambda>q.
     case q of None \<Rightarrow> kreturn (- EBADF)
     | Some f \<Rightarrow>
       if arg \<ge> NR_OPEN then kreturn (- EINVAL)
       else kbind (kget (\<lambda>s. find (\<lambda>a. filp (cur s) ! a = None) [arg..<NR_OPEN])) (\<lambda>r.
       case r of None \<Rightarrow> kreturn (- EMFILE)
       | Some a \<Rightarrow>
         kseq (kmod (upd_cur (cloexec_off a)))
         (kseq (set_filp a (Some f))
         (kseq (upd_fil f (\<lambda>x. x\<lparr>f_count := f_count x + 1\<rparr>))
         (kreturn (int a))))))"

definition sys_dup2 :: "nat \<Rightarrow> nat \<Rightarrow> ('a fsys_scheme, int) km" where
  "sys_dup2 oldfd newfd = kbind (sys_close newfd) (\<lambda>_. dupfd oldfd newfd)"

definition sys_dup :: "nat \<Rightarrow> ('a fsys_scheme, int) km" where
  "sys_dup fildes = dupfd fildes 0"

definition sys_fcntl :: "nat \<Rightarrow> nat \<Rightarrow> u32 \<Rightarrow> ('a fsys_scheme, int) km" where
  "sys_fcntl fd cmd arg =
     kbind (fd_file fd) (\<lambda>q.
     case q of None \<Rightarrow> kreturn (- EBADF)
     | Some f \<Rightarrow>
       if cmd = 0 then dupfd fd (unat arg)
       else if cmd = 1 then kget (\<lambda>s. uint (drop_bit fd (close_on_exec (cur s)) AND 1))
       else if cmd = 2 then
         kseq (kmod (upd_cur (if arg AND 1 \<noteq> 0 then (\<lambda>p. p\<lparr>close_on_exec := close_on_exec p OR push_bit fd 1\<rparr>)
                              else cloexec_off fd)))
         (kreturn 0)
       else if cmd = 3 then kbind (fil f) (\<lambda>x. kreturn (uint (f_flags x)))
       else if cmd = 4 then
         kseq (upd_fil f (\<lambda>x. x\<lparr>f_flags := (f_flags x AND NOT 0xC00) OR (ucast arg AND 0xC00)\<rparr>)) (kreturn 0)
       else kreturn (-1))"

section \<open>Status\<close>

text \<open>
  The 32 bytes of \<open>struct stat\<close>; \<open>pad\<close> is what the stack held in the four bytes of padding (at
  7, 11, 14 and 15), which \<open>cp_stat\<close> copies to the user.
\<close>

definition stat_bytes :: "u8 list \<Rightarrow> m_inode \<Rightarrow> u8 list" where
  "stat_bytes pad x =
     wr32 28 (i_ctime x) (wr32 24 (i_mtime x) (wr32 20 (i_atime x) (wr32 16 (i_size x)
     (wr16 12 (i_zone x ! 0) (wr16 8 (i_uid x) (wr16 4 (i_mode x) (wr16 2 (i_num x) (wr16 0 (i_dev x)
       ((replicate 32 0)[6 := i_nlinks x, 7 := pad ! 0, 10 := i_gid x, 11 := pad ! 1, 14 := pad ! 2, 15 := pad ! 3])))))))))"

definition cp_stat :: "u8 list \<Rightarrow> nat \<Rightarrow> u32 \<Rightarrow> ('a fsys_scheme, unit) km" where
  "cp_stat pad i statbuf =
     kseq (verify_area statbuf 32)
     (kbind (ino i) (\<lambda>x. put_fs_bytes (stat_bytes pad x) statbuf))"

definition sys_stat :: "u8 list \<Rightarrow> u32 \<Rightarrow> u32 \<Rightarrow> ('a fsys_scheme, int) km" where
  "sys_stat pad filename statbuf =
     kbind (namei filename) (\<lambda>q.
     case q of None \<Rightarrow> kreturn (- ENOENT)
     | Some i \<Rightarrow> kseq (cp_stat pad i statbuf) (kseq (iput (Some i)) (kreturn 0)))"

definition sys_fstat :: "u8 list \<Rightarrow> nat \<Rightarrow> u32 \<Rightarrow> ('a fsys_scheme, int) km" where
  "sys_fstat pad fd statbuf =
     kbind (fd_file fd) (\<lambda>q.
     case q of None \<Rightarrow> kreturn (- EBADF)
     | Some f \<Rightarrow> kbind (fil f) (\<lambda>x.
       case f_inode x of None \<Rightarrow> kreturn (- EBADF)
       | Some i \<Rightarrow> kseq (cp_stat pad i statbuf) (kreturn 0)))"

definition sys_ioctl :: "(u16 \<Rightarrow> u32 \<Rightarrow> u32 \<Rightarrow> ('a fsys_scheme, int) km) \<Rightarrow> nat \<Rightarrow> u32 \<Rightarrow> u32 \<Rightarrow> ('a fsys_scheme, int) km" where
  "sys_ioctl ttyio fd cmd arg =
     kbind (fd_file fd) (\<lambda>q.
     case q of None \<Rightarrow> kreturn (- EBADF)
     | Some f \<Rightarrow> kbind (fil f) (\<lambda>x.
       kbind (the_ptr ''f_inode'' (f_inode x)) (\<lambda>i.
       kbind (ino i) (\<lambda>y.
       if \<not> S_ISCHR (i_mode y) \<and> \<not> S_ISBLK (i_mode y) then kreturn (- EINVAL)
       else let m = MAJOR (i_zone y ! 0)
         in if m \<ge> 8 then kreturn (- ENODEV)
            else if m = 4 \<or> m = 5 then ttyio (i_zone y ! 0) cmd arg
            else kreturn (- ENOTTY)))))"

section \<open>Segment descriptors\<close>

text \<open>Two words are equal when a computation finds all their bits equal.\<close>

lemma word32_by_bits: "list_all (\<lambda>n. bit a n = bit b n) [0..<32] \<Longrightarrow> a = (b :: u32)"
  by (rule bit_word_eqI) (simp add: list_all_iff)

lemma get_set_base: "get_base (set_base base d) = base"
  by (rule word32_by_bits) (simp add: get_base_def set_base_def bit_simps upt_rec, simp add: eval_nat_numeral)

lemma access_set_base:
  "snd (set_base base d) AND 0x00ffff00 = snd d AND 0x00ffff00" "fst (set_base base d) AND 0xffff = fst d AND 0xffff"
  by (rule word32_by_bits, simp add: set_base_def bit_simps upt_rec)+

lemma limit_set_base: "get_limit (set_base base d) = get_limit d"
proof -
  have 2: "snd (set_base base d) AND 0xf0000 = snd d AND 0xf0000"
    by (rule word32_by_bits) (simp add: set_base_def bit_simps upt_rec)
  have 3: "bit (snd (set_base base d)) 23 = bit (snd d) 23" by (simp add: set_base_def bit_simps)
  show ?thesis unfolding get_limit_def access_set_base(2) 2 3 ..
qed

text \<open>
  C33: \<open>set_base\<close> spreads the base over the three places of a descriptor that \<open>get_base\<close> collects it
  from, for every 32-bit base, and leaves the limit and the access bits of the descriptor as they
  were.
\<close>

theorem set_base_roundtrip:
  "get_base (set_base base d) = base \<and> get_limit (set_base base d) = get_limit d \<and>
    snd (set_base base d) AND 0x00ffff00 = snd d AND 0x00ffff00 \<and> fst (set_base base d) AND 0xffff = fst d AND 0xffff"
  using get_set_base limit_set_base access_set_base by blast

end
