(* ===== verification/Process.thy ===== *)
theory Process
  imports Files
begin

text \<open>
  Processes: \<open>kernel/fork.c\<close>, \<open>kernel/exit.c\<close>, \<open>kernel/signal.c\<close>, \<open>kernel/sys.c\<close>, the
  identity calls of \<open>kernel/sched.c\<close>, and the page faults of \<open>mm/memory.c\<close> that read the
  executable (\<open>share_page\<close>, \<open>do_no_page\<close>). A pointer to a task is its index in \<open>task[]\<close>. The
  image of the coprocessor is not modelled.
\<close>

section \<open>Giving up the processor\<close>

text \<open>
  \<open>schedule()\<close> called by the current task: when another task is chosen, control leaves this
  one, and what follows depends on the others.
\<close>

definition yield_cpu :: "('a sched_scheme, unit) km" where
  "yield_cpu =
     kbind (kget current) (\<lambda>me.
     kseq schedule
     (kbind (kget current) (\<lambda>c. if c = me then kreturn () else kstop Sleeps)))"

text \<open>The structure of a task is at the start of the page whose end is its kernel stack.\<close>

definition task_addr :: "task_struct \<Rightarrow> u32" where
  "task_addr p = esp0 (tss p) - 4096"

definition set_task :: "nat \<Rightarrow> task_struct option \<Rightarrow> ('a sched_scheme, unit) km" where
  "set_task i q = kmod (\<lambda>s. s\<lparr>task := (task s)[i := q]\<rparr>)"

section \<open>Fork\<close>

text \<open>The registers that \<open>sys_fork\<close> passes on the stack.\<close>

record fork_frame =
  r_ebp :: u32
  r_edi :: u32
  r_esi :: u32
  r_gs :: u32
  r_ebx :: u32
  r_ecx :: u32
  r_edx :: u32
  r_fs :: u32
  r_es :: u32
  r_ds :: u32
  r_eip :: u32
  r_cs :: u32
  r_eflags :: u32
  r_esp :: u32
  r_ss :: u32

definition copy_mem :: "nat \<Rightarrow> ('a mm_scheme, int) km" where
  "copy_mem nr =
     kbind (ldt_desc 1) (\<lambda>code.
     kbind (ldt_desc 2) (\<lambda>data.
     let code_limit = get_limit code; data_limit = get_limit data; new_base = of_nat nr * 0x4000000
     in if get_base data \<noteq> get_base code then kstop (Panic ''We don't support separate I&D'')
        else if data_limit < code_limit then kstop (Panic ''Bad data_limit'')
        else kseq (kmod (upd_task nr (\<lambda>p. p\<lparr>start_code := new_base,
                    ldt := (ldt p)[1 := set_base new_base (ldt p ! 1), 2 := set_base new_base (ldt p ! 2)]\<rparr>)))
          (kbind (copy_page_tables (get_base data) new_base data_limit) (\<lambda>r.
           if r \<noteq> 0 then kbind (free_page_tables new_base data_limit) (\<lambda>_. kreturn (- ENOMEM))
           else kreturn 0))))"

text \<open>The child before its memory is copied; \<open>a\<close> is the address of its page.\<close>

definition child_task :: "nat \<Rightarrow> u32 \<Rightarrow> fork_frame \<Rightarrow> int \<Rightarrow> int \<Rightarrow> task_struct \<Rightarrow> task_struct" where
  "child_task nr a r new_pid t p =
     p\<lparr>state := TASK_UNINTERRUPTIBLE, pid := new_pid, father := pid p, counter := priority p, signal := 0, alarm := 0,
       leader := 0, utime := 0, stime := 0, cutime := 0, cstime := 0, start_time := t,
       tss := (tss p)\<lparr>back_link := 0, esp0 := 4096 + a, ss0 := 0x10, eip := r_eip r, eflags := r_eflags r, eax := 0,
         ecx := r_ecx r, edx := r_edx r, ebx := r_ebx r, esp := r_esp r, ebp := r_ebp r, esi := r_esi r, edi := r_edi r,
         tss_es := r_es r AND 0xffff, tss_cs := r_cs r AND 0xffff, tss_ss := r_ss r AND 0xffff,
         tss_ds := r_ds r AND 0xffff, tss_fs := r_fs r AND 0xffff, tss_gs := r_gs r AND 0xffff,
         ldt_sel := LDT_sel nr, trace_bitmap := 0x80000000\<rparr>\<rparr>"

text \<open>\<open>_set_tssldt_desc\<close>; \<open>ldt\<close> and \<open>tss\<close> are 720 and 744 bytes into \<open>struct task_struct\<close>.\<close>

definition tssldt_desc :: "u32 \<Rightarrow> u32 \<Rightarrow> u32 \<times> u32" where
  "tssldt_desc addr type =
     (push_bit 16 addr OR 104, (drop_bit 16 addr AND 0xff) OR push_bit 8 type OR (addr AND 0xff000000))"

definition inc_file :: "nat option \<Rightarrow> ('a fsys_scheme, unit) km" where
  "inc_file q = (case q of None \<Rightarrow> kreturn () | Some f \<Rightarrow> upd_fil f (\<lambda>x. x\<lparr>f_count := f_count x + 1\<rparr>))"

definition inc_inode :: "nat option \<Rightarrow> ('a fsys_scheme, unit) km" where
  "inc_inode q = (case q of None \<Rightarrow> kreturn () | Some i \<Rightarrow> upd_ino i (\<lambda>x. x\<lparr>i_count := i_count x + 1\<rparr>))"

definition copy_process :: "nat \<Rightarrow> fork_frame \<Rightarrow> ('a kern_scheme, int) km" where
  "copy_process nr r =
     kbind get_free_page (\<lambda>a.
     if a = 0 then kreturn (- EAGAIN)
     else kbind (kget (\<lambda>s. (cur s, last_pid s, jiffies s))) (\<lambda>(me, new_pid, t).
       kseq (set_task nr (Some (child_task nr a r new_pid t me)))
       (kbind (copy_mem nr) (\<lambda>e.
        if e \<noteq> 0 then kseq (set_task nr None) (kseq (free_page a) (kreturn (- EAGAIN)))
        else kseq (kfor [0..<NR_OPEN] (\<lambda>i. inc_file (filp me ! i)))
          (kseq (inc_inode (pwd me))
          (kseq (inc_inode (root me))
          (kseq (inc_inode (executable me))
          (kseq (kmod (\<lambda>s. s\<lparr>gdt := (gdt s)[2 * nr + 4 := tssldt_desc (a + 744) 0x89,
                                              2 * nr + 5 := tssldt_desc (a + 720) 0x82]\<rparr>))
          (kseq (kmod (upd_task nr (\<lambda>p. p\<lparr>state := TASK_RUNNING\<rparr>)))
          (kget last_pid))))))))))"

text \<open>\<open>if ((++last_pid)<0) last_pid=1;\<close> on a 32-bit long.\<close>

definition next_pid :: "int \<Rightarrow> int" where
  "next_pid p = (if p + 1 < 0 \<or> p + 1 \<ge> 2 ^ 31 then 1 else p + 1)"

fun pid_loop :: "nat \<Rightarrow> task_table \<Rightarrow> int \<Rightarrow> int option" where
  "pid_loop 0 ts p = None"
| "pid_loop (Suc n) ts p =
     (if list_ex (\<lambda>q. case q of None \<Rightarrow> False | Some t \<Rightarrow> pid t = next_pid p) (take NR_TASKS ts)
      then pid_loop n ts (next_pid p) else Some (next_pid p))"

text \<open>There are at most \<open>NR_TASKS\<close> pids in use, so that one more turn finds a free one.\<close>

definition find_empty_process :: "('a sched_scheme, int) km" where
  "find_empty_process =
     kbind (kget (\<lambda>s. pid_loop (NR_TASKS + 1) (task s) (last_pid s))) (\<lambda>q.
     case q of None \<Rightarrow> kstop Diverges
     | Some p \<Rightarrow>
       kseq (kmod (\<lambda>s. s\<lparr>last_pid := p\<rparr>))
       (kbind (kget (\<lambda>s. find (\<lambda>i. task s ! i = None) [1..<NR_TASKS])) (\<lambda>r.
        kreturn (case r of None \<Rightarrow> - EAGAIN | Some i \<Rightarrow> int i))))"

section \<open>Exit and wait\<close>

definition release :: "nat \<Rightarrow> ('a mm_scheme, unit) km" where
  "release j =
     kbind (kget (\<lambda>s. task s ! j)) (\<lambda>q.
     case q of None \<Rightarrow> kreturn ()
     | Some p \<Rightarrow>
       if \<not> (1 \<le> j \<and> j < NR_TASKS) then kstop (Panic ''trying to release non-existent task'')
       else kseq (set_task j None) (kseq (free_page (task_addr p)) yield_cpu))"

definition send_sig :: "int \<Rightarrow> nat \<Rightarrow> bool \<Rightarrow> ('a sched_scheme, int) km" where
  "send_sig sig i priv =
     kbind (kget (\<lambda>s. (task s ! i, cur s, suser s))) (\<lambda>(q, me, su).
     case q of None \<Rightarrow> kreturn (- EINVAL)
     | Some p \<Rightarrow>
       if sig < 1 \<or> sig > 32 then kreturn (- EINVAL)
       else if priv \<or> euid me = euid p \<or> su
       then kseq (kmod (upd_task i (\<lambda>p. p\<lparr>signal := signal p OR sigbit (nat sig)\<rparr>))) (kreturn 0)
       else kreturn (- EPERM))"

definition kill_session :: "('a sched_scheme, unit) km" where
  "kill_session =
     kbind (kget (\<lambda>s. session (cur s))) (\<lambda>ses.
     kfor (rev [1..<NR_TASKS]) (\<lambda>i.
       kmod (upd_task i (\<lambda>p. if session p = ses then p\<lparr>signal := signal p OR sigbit SIGHUP\<rparr> else p))))"

text \<open>The loops of \<open>sys_kill\<close> over the slots of the task table; \<open>sel\<close> chooses the slots.\<close>

fun kill_loop :: "nat list \<Rightarrow> (task_struct option \<Rightarrow> bool) \<Rightarrow> int \<Rightarrow> bool \<Rightarrow> int \<Rightarrow> ('a sched_scheme, int) km" where
  "kill_loop [] sel sig priv retval = kreturn retval"
| "kill_loop (i # is) sel sig priv retval =
     kbind (kget (\<lambda>s. sel (task s ! i))) (\<lambda>b.
     if b then kbind (send_sig sig i priv) (\<lambda>e. kill_loop is sel sig priv (if e \<noteq> 0 then e else retval))
     else kill_loop is sel sig priv retval)"

definition sys_kill :: "int \<Rightarrow> int \<Rightarrow> ('a sched_scheme, int) km" where
  "sys_kill p sig =
     kbind (kget cur) (\<lambda>me.
     let slots = rev [1..<NR_TASKS]
     in if p = 0 then kill_loop slots (\<lambda>q. case q of None \<Rightarrow> False | Some t \<Rightarrow> pgrp t = pid me) sig True 0
        else if p > 0 then kill_loop slots (\<lambda>q. case q of None \<Rightarrow> False | Some t \<Rightarrow> pid t = p) sig False 0
        else if p = -1 then kill_loop slots (\<lambda>q. True) sig False 0
        else kill_loop slots (\<lambda>q. case q of None \<Rightarrow> False | Some t \<Rightarrow> pgrp t = - p) sig False 0)"

definition tell_father :: "int \<Rightarrow> ('a mm_scheme, unit) km" where
  "tell_father f =
     kbind (kget (\<lambda>s. (if f = 0 then None
        else find (\<lambda>i. case task s ! i of None \<Rightarrow> False | Some t \<Rightarrow> pid t = f) [0..<NR_TASKS]))) (\<lambda>q.
     case q of Some i \<Rightarrow> kmod (upd_task i (\<lambda>p. p\<lparr>signal := signal p OR sigbit SIGCHLD\<rparr>))
     | None \<Rightarrow> kbind (kget current) release)"

text \<open>The children of the current task go to task 1, which hears about the zombies.\<close>

definition orphan :: "int \<Rightarrow> nat \<Rightarrow> ('a sched_scheme, unit) km" where
  "orphan mypid i =
     kbind (kget (\<lambda>s. task s ! i)) (\<lambda>q.
     case q of None \<Rightarrow> kreturn ()
     | Some p \<Rightarrow> kwhen (father p = mypid)
         (kseq (kmod (upd_task i (\<lambda>p. p\<lparr>father := 1\<rparr>)))
         (kwhen (state p = TASK_ZOMBIE) (kbind (send_sig (int SIGCHLD) 1 True) (\<lambda>_. kreturn ())))))"

definition put_inode_field :: "(task_struct \<Rightarrow> nat option) \<Rightarrow> (task_struct \<Rightarrow> task_struct) \<Rightarrow> ('a fsys_scheme, unit) km" where
  "put_inode_field get clr = kbind (kget (\<lambda>s. get (cur s))) (\<lambda>q. kseq (iput q) (kmod (upd_cur clr)))"

definition do_exit :: "int \<Rightarrow> ('a kern_scheme, int) km" where
  "do_exit code =
     kbind (ldt_desc 1) (\<lambda>cd.
     kbind (ldt_desc 2) (\<lambda>dd.
     kbind (free_page_tables (get_base cd) (get_limit cd)) (\<lambda>_.
     kbind (free_page_tables (get_base dd) (get_limit dd)) (\<lambda>_.
     kbind (kget (\<lambda>s. pid (cur s))) (\<lambda>mypid.
     kseq (kfor [0..<NR_TASKS] (orphan mypid))
     (kseq (kfor [0..<NR_OPEN] (\<lambda>i. kbind (cur_filp i) (\<lambda>q.
              kwhen (q \<noteq> None) (kbind (sys_close i) (\<lambda>_. kreturn ())))))
     (kseq (put_inode_field pwd (\<lambda>p. p\<lparr>pwd := None\<rparr>))
     (kseq (put_inode_field root (\<lambda>p. p\<lparr>root := None\<rparr>))
     (kseq (put_inode_field executable (\<lambda>p. p\<lparr>executable := None\<rparr>))
     (kbind (kget cur) (\<lambda>me.
      kseq (kwhen (leader me \<noteq> 0 \<and> tty me \<ge> 0)
             (\<lambda>s. if nat (tty me) < length (tty_pgrp s) then Ret () (s\<lparr>tty_pgrp := (tty_pgrp s)[nat (tty me) := 0]\<rparr>)
                   else Stop (Fault ''tty_table'') s))
     (kseq (kmod (\<lambda>s. if last_task_used_math s = Some (current s) then s\<lparr>last_task_used_math := None\<rparr> else s))
     (kseq (kwhen (leader me \<noteq> 0) kill_session)
     (kseq (kmod (upd_cur (\<lambda>p. p\<lparr>state := TASK_ZOMBIE, exit_code := code\<rparr>)))
     (kseq (tell_father (father me))
     (kseq schedule (kstop (Exits code))))))))))))))))))"

definition sys_exit :: "int \<Rightarrow> ('a kern_scheme, int) km" where
  "sys_exit error_code = do_exit (error_code mod 256 * 256)"

text \<open>
  The scan of \<open>sys_waitpid\<close>: \<open>Inl\<close> is the result of the call, \<open>Inr\<close> tells whether there are
  children that still run.
\<close>

definition wait_matches :: "int \<Rightarrow> task_struct \<Rightarrow> task_struct \<Rightarrow> bool" where
  "wait_matches p me t \<longleftrightarrow> father t = pid me \<and>
     (if p > 0 then pid t = p else if p = 0 then pgrp t = pgrp me else p = -1 \<or> pgrp t = - p)"

definition reap :: "nat \<Rightarrow> task_struct \<Rightarrow> u32 \<Rightarrow> ('a fsys_scheme, int) km" where
  "reap i t stat_addr =
     kseq (kmod (upd_cur (\<lambda>p. p\<lparr>cutime := cutime p + utime t, cstime := cstime p + stime t\<rparr>)))
     (kseq (release i)
     (kseq (put_fs_long (of_int (exit_code t)) stat_addr)
     (kreturn (pid t))))"

fun wait_scan :: "nat list \<Rightarrow> int \<Rightarrow> u32 \<Rightarrow> u32 \<Rightarrow> bool \<Rightarrow> ('a fsys_scheme, int + bool) km" where
  "wait_scan [] p stat_addr options flag = kreturn (Inr flag)"
| "wait_scan (i # is) p stat_addr options flag =
     kbind (kget (\<lambda>s. (task s ! i, current s, cur s))) (\<lambda>(q, c, me).
     case q of None \<Rightarrow> wait_scan is p stat_addr options flag
     | Some t \<Rightarrow>
       if i = c \<or> \<not> wait_matches p me t then wait_scan is p stat_addr options flag
       else if state t = TASK_STOPPED then
         (if options AND 2 = 0 then wait_scan is p stat_addr options flag
          else kseq (put_fs_long 0x7f stat_addr) (kreturn (Inl (pid t))))
       else if state t = TASK_ZOMBIE then kbind (reap i t stat_addr) (\<lambda>r. kreturn (Inl r))
       else wait_scan is p stat_addr options True)"

text \<open>
  A task that goes to sleep here and is chosen at once had a signal; \<open>SIGCHLD\<close> is cleared, so
  that it repeats the scan at most once without leaving the processor.
\<close>

fun wait_loop :: "nat \<Rightarrow> int \<Rightarrow> u32 \<Rightarrow> u32 \<Rightarrow> ('a fsys_scheme, int) km" where
  "wait_loop 0 p stat_addr options = kstop Diverges"
| "wait_loop (Suc n) p stat_addr options =
     kbind (wait_scan (rev [1..<NR_TASKS]) p stat_addr options False) (\<lambda>r.
     case r of Inl v \<Rightarrow> kreturn v
     | Inr flag \<Rightarrow>
       if \<not> flag then kreturn (- ECHILD)
       else if options AND 1 \<noteq> 0 then kreturn 0
       else kseq (kmod (upd_cur (\<lambda>p. p\<lparr>state := TASK_INTERRUPTIBLE\<rparr>)))
         (kseq yield_cpu
         (kseq (kmod (upd_cur (\<lambda>p. p\<lparr>signal := signal p AND NOT (sigbit SIGCHLD)\<rparr>)))
         (kbind (kget (\<lambda>s. signal (cur s))) (\<lambda>sg.
          if sg = 0 then wait_loop n p stat_addr options else kreturn (- EINTR))))))"

definition sys_waitpid :: "int \<Rightarrow> u32 \<Rightarrow> u32 \<Rightarrow> ('a fsys_scheme, int) km" where
  "sys_waitpid p stat_addr options = kseq (verify_area stat_addr 4) (wait_loop 3 p stat_addr options)"

section \<open>Signals\<close>

abbreviation (input) SA_NOMASK :: u32 where "SA_NOMASK \<equiv> 0x40000000"
abbreviation (input) SA_ONESHOT :: u32 where "SA_ONESHOT \<equiv> 0x80000000"

definition sys_sgetmask :: "('a sched_scheme, int) km" where
  "sys_sgetmask = kget (\<lambda>s. sint (blocked (cur s)))"

definition sys_ssetmask :: "u32 \<Rightarrow> ('a sched_scheme, int) km" where
  "sys_ssetmask newmask =
     kbind (kget (\<lambda>s. sint (blocked (cur s)))) (\<lambda>old.
     kseq (kmod (upd_cur (\<lambda>p. p\<lparr>blocked := newmask AND NOT (sigbit SIGKILL)\<rparr>))) (kreturn old))"

definition set_action :: "nat \<Rightarrow> (sigaction \<Rightarrow> sigaction) \<Rightarrow> ('a sched_scheme, unit) km" where
  "set_action i f = kmod (upd_cur (\<lambda>p. p\<lparr>sigactions := (sigactions p)[i := f (sigactions p ! i)]\<rparr>))"

definition save_old :: "sigaction \<Rightarrow> u32 \<Rightarrow> ('a fsys_scheme, unit) km" where
  "save_old a to =
     kseq (verify_area to 16)
     (kseq (put_fs_long (sa_handler a) to)
     (kseq (put_fs_long (sa_mask a) (to + 4))
     (kseq (put_fs_long (sa_flags a) (to + 8))
     (put_fs_long (sa_restorer a) (to + 12)))))"

definition get_new :: "u32 \<Rightarrow> ('a fsys_scheme, sigaction) km" where
  "get_new from =
     kbind (get_fs_long from) (\<lambda>h.
     kbind (get_fs_long (from + 4)) (\<lambda>m.
     kbind (get_fs_long (from + 8)) (\<lambda>f.
     kbind (get_fs_long (from + 12)) (\<lambda>r.
     kreturn \<lparr>sa_handler = h, sa_mask = m, sa_flags = f, sa_restorer = r\<rparr>))))"

definition sys_signal :: "int \<Rightarrow> u32 \<Rightarrow> u32 \<Rightarrow> ('a sched_scheme, int) km" where
  "sys_signal signum handler restorer =
     (if signum < 1 \<or> signum > 32 \<or> signum = int SIGKILL then kreturn (-1)
      else let i = nat signum - 1
        in kbind (kget (\<lambda>s. sint (sa_handler (sigactions (cur s) ! i)))) (\<lambda>old.
           kseq (set_action i (\<lambda>_. \<lparr>sa_handler = handler, sa_mask = 0, sa_flags = SA_ONESHOT OR SA_NOMASK, sa_restorer = restorer\<rparr>))
           (kreturn old)))"

definition sys_sigaction :: "int \<Rightarrow> u32 \<Rightarrow> u32 \<Rightarrow> ('a fsys_scheme, int) km" where
  "sys_sigaction signum action oldaction =
     (if signum < 1 \<or> signum > 32 \<or> signum = int SIGKILL then kreturn (-1)
      else let i = nat signum - 1
        in kbind (kget (\<lambda>s. sigactions (cur s) ! i)) (\<lambda>tmp.
           kbind (get_new action) (\<lambda>a.
           kseq (set_action i (\<lambda>_. a))
           (kseq (kwhen (oldaction \<noteq> 0) (save_old tmp oldaction))
           (kseq (set_action i (\<lambda>a. if sa_flags a AND SA_NOMASK \<noteq> 0 then a\<lparr>sa_mask := 0\<rparr>
                                      else a\<lparr>sa_mask := sa_mask a OR sigbit (nat signum)\<rparr>))
           (kreturn 0))))))"

text \<open>
  \<open>do_signal\<close> changes the saved \<open>eip\<close> and \<open>esp\<close> on the stack of the system call; here it takes
  the saved registers it uses and returns the new values of these two.
\<close>

fun push_longs :: "u32 list \<Rightarrow> u32 \<Rightarrow> ('a fsys_scheme, unit) km" where
  "push_longs [] a = kreturn ()"
| "push_longs (v # vs) a = kseq (put_fs_long v a) (push_longs vs (a + 4))"

definition do_signal :: "nat \<Rightarrow> u32 \<Rightarrow> u32 \<Rightarrow> u32 \<Rightarrow> u32 \<Rightarrow> u32 \<Rightarrow> u32 \<Rightarrow> ('a kern_scheme, u32 \<times> u32) km" where
  "do_signal signr saved_eax saved_ecx saved_edx saved_eip saved_eflags saved_esp =
     kbind (kget (\<lambda>s. sigactions (cur s) ! (signr - 1))) (\<lambda>sa.
     if sa_handler sa = 1 then kreturn (saved_eip, saved_esp)
     else if sa_handler sa = 0 then
       (if signr = SIGCHLD then kreturn (saved_eip, saved_esp)
        else kbind (do_exit (2 ^ (signr - 1))) (\<lambda>_. kreturn (saved_eip, saved_esp)))
     else
       let nomask = (sa_flags sa AND SA_NOMASK \<noteq> 0);
           longs = (if nomask then 7 else 8) :: nat;
           esp_new = saved_esp - of_nat (4 * longs)
       in kseq (kwhen (sa_flags sa AND SA_ONESHOT \<noteq> 0) (set_action (signr - 1) (\<lambda>a. a\<lparr>sa_handler := 0\<rparr>)))
          (kseq (verify_area esp_new (int longs * 4))
          (kbind (kget (\<lambda>s. blocked (cur s))) (\<lambda>bl.
           kseq (push_longs ([sa_restorer sa, of_nat signr] @ (if nomask then [] else [bl]) @
                   [saved_eax, saved_ecx, saved_edx, saved_eflags, saved_eip]) esp_new)
           (kseq (kmod (upd_cur (\<lambda>p. p\<lparr>blocked := blocked p OR sa_mask sa\<rparr>)))
           (kreturn (sa_handler sa, esp_new)))))))"

section \<open>Simple calls\<close>

definition sys_ftime :: "('a sched_scheme, int) km" where "sys_ftime = kreturn (- ENOSYS)"
definition sys_break :: "('a sched_scheme, int) km" where "sys_break = kreturn (- ENOSYS)"
definition sys_ptrace :: "('a sched_scheme, int) km" where "sys_ptrace = kreturn (- ENOSYS)"
definition sys_stty :: "('a sched_scheme, int) km" where "sys_stty = kreturn (- ENOSYS)"
definition sys_gtty :: "('a sched_scheme, int) km" where "sys_gtty = kreturn (- ENOSYS)"
definition sys_rename :: "('a sched_scheme, int) km" where "sys_rename = kreturn (- ENOSYS)"
definition sys_prof :: "('a sched_scheme, int) km" where "sys_prof = kreturn (- ENOSYS)"
definition sys_acct :: "('a sched_scheme, int) km" where "sys_acct = kreturn (- ENOSYS)"
definition sys_phys :: "('a sched_scheme, int) km" where "sys_phys = kreturn (- ENOSYS)"
definition sys_lock :: "('a sched_scheme, int) km" where "sys_lock = kreturn (- ENOSYS)"
definition sys_mpx :: "('a sched_scheme, int) km" where "sys_mpx = kreturn (- ENOSYS)"
definition sys_ulimit :: "('a sched_scheme, int) km" where "sys_ulimit = kreturn (- ENOSYS)"

definition sys_setregid :: "int \<Rightarrow> int \<Rightarrow> ('a sched_scheme, int) km" where
  "sys_setregid rg eg =
     kbind (kget (\<lambda>s. (cur s, suser s))) (\<lambda>(me, su).
     if rg > 0 \<and> \<not> (uint (gid me) = rg \<or> su) then kreturn (- EPERM)
     else kseq (kwhen (rg > 0) (kmod (upd_cur (\<lambda>p. p\<lparr>gid := of_int rg\<rparr>))))
       (kbind (kget (\<lambda>s. (cur s, suser s))) (\<lambda>(me, su).
        if eg > 0 \<and> \<not> (uint (gid me) = eg \<or> uint (egid me) = eg \<or> uint (sgid me) = eg \<or> su) then kreturn (- EPERM)
        else kseq (kwhen (eg > 0) (kmod (upd_cur (\<lambda>p. p\<lparr>egid := of_int eg\<rparr>)))) (kreturn 0))))"

definition sys_setgid :: "int \<Rightarrow> ('a sched_scheme, int) km" where
  "sys_setgid g = sys_setregid g g"

definition sys_time :: "u32 \<Rightarrow> ('a fsys_scheme, int) km" where
  "sys_time tloc =
     kbind (kget CURRENT_TIME) (\<lambda>i.
     kseq (kwhen (tloc \<noteq> 0) (kseq (verify_area tloc 4) (put_fs_long (of_int i) tloc)))
     (kreturn i))"

definition sys_setreuid :: "int \<Rightarrow> int \<Rightarrow> ('a sched_scheme, int) km" where
  "sys_setreuid ru eu =
     kbind (kget (\<lambda>s. (cur s, suser s))) (\<lambda>(me, su).
     let old_ruid = uid me
     in if ru > 0 \<and> \<not> (uint (euid me) = ru \<or> uint old_ruid = ru \<or> su) then kreturn (- EPERM)
        else kseq (kwhen (ru > 0) (kmod (upd_cur (\<lambda>p. p\<lparr>uid := of_int ru\<rparr>))))
          (if eu > 0 then
             (if uint old_ruid = eu \<or> uint (euid me) = eu \<or> su
              then kseq (kmod (upd_cur (\<lambda>p. p\<lparr>euid := of_int eu\<rparr>))) (kreturn 0)
              else kseq (kmod (upd_cur (\<lambda>p. p\<lparr>uid := old_ruid\<rparr>))) (kreturn (- EPERM)))
           else kreturn 0))"

definition sys_setuid :: "int \<Rightarrow> ('a sched_scheme, int) km" where
  "sys_setuid u = sys_setreuid u u"

definition sys_stime :: "u32 \<Rightarrow> ('a fsys_scheme, int) km" where
  "sys_stime tptr =
     kbind (kget suser) (\<lambda>su.
     if \<not> su then kreturn (- EPERM)
     else kbind (get_fs_long tptr) (\<lambda>v.
       kseq (kmod (\<lambda>s. s\<lparr>startup_time := sint (v - of_int (jiffies s div HZ))\<rparr>)) (kreturn 0)))"

definition sys_times :: "u32 \<Rightarrow> ('a fsys_scheme, int) km" where
  "sys_times tbuf =
     kseq (kwhen (tbuf \<noteq> 0)
            (kseq (verify_area tbuf 16)
            (kbind (kget cur) (\<lambda>me.
             push_longs [of_int (utime me), of_int (stime me), of_int (cutime me), of_int (cstime me)] tbuf))))
     (kget jiffies)"

definition sys_brk :: "u32 \<Rightarrow> ('a sched_scheme, int) km" where
  "sys_brk end_data_seg =
     kseq (kmod (upd_cur (\<lambda>p. if end_data_seg \<ge> end_code p \<and> end_data_seg < start_stack p - 16384
                               then p\<lparr>brk := end_data_seg\<rparr> else p)))
     (kget (\<lambda>s. sint (brk (cur s))))"

definition sys_setpgid :: "int \<Rightarrow> int \<Rightarrow> ('a sched_scheme, int) km" where
  "sys_setpgid p0 pg0 =
     kbind (kget cur) (\<lambda>me.
     let p = (if p0 = 0 then pid me else p0); pg = (if pg0 = 0 then pid me else pg0)
     in kbind (kget (\<lambda>s. find (\<lambda>i. case task s ! i of None \<Rightarrow> False | Some t \<Rightarrow> pid t = p) [0..<NR_TASKS])) (\<lambda>q.
        case q of None \<Rightarrow> kreturn (- ESRCH)
        | Some i \<Rightarrow> kbind (kget (\<lambda>s. the (task s ! i))) (\<lambda>t.
            if leader t \<noteq> 0 then kreturn (- EPERM)
            else if session t \<noteq> session me then kreturn (- EPERM)
            else kseq (kmod (upd_task i (\<lambda>t. t\<lparr>pgrp := pg\<rparr>))) (kreturn 0))))"

definition sys_getpgrp :: "('a sched_scheme, int) km" where
  "sys_getpgrp = kget (\<lambda>s. pgrp (cur s))"

definition sys_setsid :: "('a sched_scheme, int) km" where
  "sys_setsid =
     kbind (kget (\<lambda>s. (cur s, suser s))) (\<lambda>(me, su).
     if leader me \<noteq> 0 \<and> \<not> su then kreturn (- EPERM)
     else kseq (kmod (upd_cur (\<lambda>p. p\<lparr>leader := 1, session := pid p, pgrp := pid p, tty := -1\<rparr>)))
          (kget (\<lambda>s. pgrp (cur s))))"

definition thisname :: "u8 list" where
  "thisname = concat (map (\<lambda>w. map of_char w @ [0]) [''linux .0'', ''nodename'', ''release '', ''version '', ''machine ''])"

definition sys_uname :: "u32 \<Rightarrow> ('a fsys_scheme, int) km" where
  "sys_uname name =
     (if name = 0 then kreturn (- ERROR)
      else kseq (verify_area name 45) (kseq (put_fs_bytes thisname name) (kreturn 0)))"

definition sys_umask :: "u32 \<Rightarrow> ('a sched_scheme, int) km" where
  "sys_umask msk =
     kbind (kget (\<lambda>s. uint (umask (cur s)))) (\<lambda>old.
     kseq (kmod (upd_cur (\<lambda>p. p\<lparr>umask := ucast msk AND 0x1FF\<rparr>))) (kreturn old))"

definition sys_getpid :: "('a sched_scheme, int) km" where "sys_getpid = kget (\<lambda>s. pid (cur s))"
definition sys_getppid :: "('a sched_scheme, int) km" where "sys_getppid = kget (\<lambda>s. father (cur s))"
definition sys_getuid :: "('a sched_scheme, int) km" where "sys_getuid = kget (\<lambda>s. uint (uid (cur s)))"
definition sys_geteuid :: "('a sched_scheme, int) km" where "sys_geteuid = kget (\<lambda>s. uint (euid (cur s)))"
definition sys_getgid :: "('a sched_scheme, int) km" where "sys_getgid = kget (\<lambda>s. uint (gid (cur s)))"
definition sys_getegid :: "('a sched_scheme, int) km" where "sys_getegid = kget (\<lambda>s. uint (egid (cur s)))"

section \<open>Missing pages\<close>

fun share_loop :: "nat list \<Rightarrow> u32 \<Rightarrow> ('a fsys_scheme, bool) km" where
  "share_loop [] a = kreturn False"
| "share_loop (i # is) a =
     kbind (kget (\<lambda>s. (task s ! i, current s, cur s))) (\<lambda>(q, c, me).
     case q of None \<Rightarrow> share_loop is a
     | Some t \<Rightarrow>
       if i = c \<or> executable t \<noteq> executable me then share_loop is a
       else kbind (try_to_share a t) (\<lambda>ok. if ok then kreturn True else share_loop is a))"

definition share_page :: "u32 \<Rightarrow> ('a fsys_scheme, bool) km" where
  "share_page a =
     kbind (kget (\<lambda>s. executable (cur s))) (\<lambda>q.
     case q of None \<Rightarrow> kreturn False
     | Some e \<Rightarrow> kbind (ino e) (\<lambda>x. if i_count x < 2 then kreturn False else share_loop (rev [1..<NR_TASKS]) a))"

fun bmap_list :: "nat \<Rightarrow> int list \<Rightarrow> ('a fsys_scheme, u32 list) km" where
  "bmap_list e [] = kreturn []"
| "bmap_list e (b # bs) = kbind (bmap e b) (\<lambda>z. kbind (bmap_list e bs) (\<lambda>zs. kreturn (ucast z # zs)))"

text \<open>\<open>oom()\<close> ends the task, so that nothing follows it.\<close>

definition do_no_page :: "u32 \<Rightarrow> u32 \<Rightarrow> ('a fsys_scheme, unit) km" where
  "do_no_page error_code address0 =
     kbind (kget cur) (\<lambda>me.
     let address = address0 AND 0xfffff000; tmp = address - start_code me
     in case executable me of None \<Rightarrow> get_empty_page address
        | Some e \<Rightarrow>
          if tmp \<ge> end_data me then get_empty_page address
          else kbind (share_page tmp) (\<lambda>ok.
          if ok then kreturn ()
          else kbind get_free_page (\<lambda>page.
          kseq (kwhen (page = 0) oom)
          (let block = 1 + uint (tmp div 1024)
           in kbind (bmap_list e [block, block + 1, block + 2, block + 3]) (\<lambda>nr.
          kbind (ino e) (\<lambda>x.
          kseq (bread_page page (i_dev x) nr)
          (let n = nat (sint (tmp + 4096 - end_data me))
           in kseq (kfor [0..<n] (\<lambda>k. kmod (\<lambda>s. s\<lparr>phys := poke8 (page + 4095 - of_nat k) 0 (phys s)\<rparr>)))
          (kbind (put_page page address) (\<lambda>r.
           if r \<noteq> 0 then kreturn ()
           else kseq (free_page page) oom)))))))))"

lemma find_upt_Some:
  assumes "find P [a..<b] = Some i"
  shows "a \<le> i \<and> i < b \<and> P i \<and> (\<forall>j. a \<le> j \<longrightarrow> j < i \<longrightarrow> \<not> P j)"
proof -
  obtain k where k: "k < b - a" "P (a + k)" "i = a + k" "\<And>l. l < k \<Longrightarrow> \<not> P (a + l)"
    using assms by (auto simp: find_Some_iff)
  have "\<not> P j" if "a \<le> j" "j < i" for j using k(4) [of "j - a"] k(3) that by simp
  then show ?thesis using k by auto
qed

section \<open>Process numbers\<close>

definition used_pids :: "task_table \<Rightarrow> int set" where
  "used_pids ts = {pid t | t. Some t \<in> set (take NR_TASKS ts)}"

lemma finite_used_pids: "finite (used_pids ts)" and card_used_pids: "card (used_pids ts) \<le> NR_TASKS"
proof -
  have sub: "used_pids ts \<subseteq> (\<lambda>q. pid (the q)) ` set (take NR_TASKS ts)"
    by (force simp: used_pids_def)
  then show "finite (used_pids ts)" by (rule finite_subset) simp
  have "card (used_pids ts) \<le> card ((\<lambda>q. pid (the q)) ` set (take NR_TASKS ts))"
    using sub by (intro card_mono) simp_all
  also have "\<dots> \<le> card (set (take NR_TASKS ts))" by (rule card_image_le) simp
  also have "\<dots> \<le> length (take NR_TASKS ts)" by (rule card_length)
  finally show "card (used_pids ts) \<le> NR_TASKS" by simp
qed

lemma pid_used_iff:
  "list_ex (\<lambda>q. case q of None \<Rightarrow> False | Some t \<Rightarrow> pid t = p) (take NR_TASKS ts) \<longleftrightarrow> p \<in> used_pids ts"
  by (auto simp: list_ex_iff used_pids_def split: option.splits)

lemma next_pid_range: "0 \<le> p \<Longrightarrow> p < 2 ^ 31 \<Longrightarrow> 1 \<le> next_pid p \<and> next_pid p < 2 ^ 31"
  by (auto simp: next_pid_def)

text \<open>The candidates form one cycle through the positive numbers.\<close>

lemma next_pid_iter: "0 \<le> p \<Longrightarrow> p < 2 ^ 31 \<Longrightarrow> (next_pid ^^ Suc n) p = (p - 1 + int (Suc n)) mod (2 ^ 31 - 1) + 1"
proof (induction n)
  case 0
  show ?case
  proof (cases "p = 2 ^ 31 - 1")
    case False
    with 0 show ?thesis by (simp add: next_pid_def)
  qed (simp add: next_pid_def)
next
  case (Suc n)
  define m where "m = (2 ^ 31 - 1 :: int)"
  define r where "r = (p - 1 + int (Suc n)) mod m"
  have r: "0 \<le> r" "r < m" by (simp_all add: r_def m_def)
  have "(next_pid ^^ Suc (Suc n)) p = next_pid (r + 1)"
    using Suc by (simp add: r_def m_def)
  moreover have "(p - 1 + int (Suc (Suc n))) mod m = (r + 1) mod m"
    unfolding r_def by (simp add: mod_simps ac_simps)
  moreover have "next_pid (r + 1) = (r + 1) mod m + 1"
    using r by (cases "r + 1 = m") (auto simp: next_pid_def m_def)
  ultimately show ?case by (simp add: m_def)
qed

lemma pid_loop_Some:
  "pid_loop n ts p = Some q \<Longrightarrow> q \<notin> used_pids ts \<and> (0 \<le> p \<and> p < 2 ^ 31 \<longrightarrow> 1 \<le> q \<and> q < 2 ^ 31)"
proof (induction n arbitrary: p)
  case (Suc n)
  then show ?case
    using next_pid_range [of p] by (fastforce simp: pid_used_iff split: if_splits)
qed simp

lemma pid_loop_None:
  "pid_loop n ts p = None \<Longrightarrow> \<forall>k < n. (next_pid ^^ Suc k) p \<in> used_pids ts"
proof (induction n arbitrary: p)
  case (Suc n)
  then have 1: "next_pid p \<in> used_pids ts" and "pid_loop n ts (next_pid p) = None"
    by (auto simp: pid_used_iff split: if_splits)
  then have IH: "\<forall>k < n. (next_pid ^^ Suc k) (next_pid p) \<in> used_pids ts" using Suc.IH by blast
  show ?case
  proof (intro allI impI)
    fix k assume "k < Suc n"
    then show "(next_pid ^^ Suc k) p \<in> used_pids ts"
      using 1 IH by (cases k) (simp_all del: funpow.simps add: funpow_Suc_right)
  qed
qed simp

lemma pid_loop_finds:
  assumes "0 \<le> p" and "p < 2 ^ 31"
  shows "pid_loop (NR_TASKS + 1) ts p \<noteq> None"
proof
  assume "pid_loop (NR_TASKS + 1) ts p = None"
  then have all: "\<forall>k < 65. (next_pid ^^ Suc k) p \<in> used_pids ts" using pid_loop_None by fastforce
  let ?f = "\<lambda>k. (next_pid ^^ Suc k) p"
  have "inj_on ?f {..<65}"
  proof (rule inj_onI)
    fix i j assume ij: "i \<in> {..<65 :: nat}" "j \<in> {..<65 :: nat}" and "?f i = ?f j"
    then have "(p - 1 + int (Suc i)) mod (2 ^ 31 - 1) = (p - 1 + int (Suc j)) mod (2 ^ 31 - 1)"
      using assms by (simp only: next_pid_iter)
    then have "(2 ^ 31 - 1) dvd (int i - int j)" by (simp add: mod_eq_dvd_iff)
    then have dvd: "2147483647 dvd (int i - int j)" by simp
    show "i = j"
    proof (rule ccontr)
      assume "i \<noteq> j"
      then have "\<bar>2147483647\<bar> \<le> \<bar>int i - int j\<bar>" using dvd by (intro dvd_imp_le_int) simp_all
      then show False using ij by simp
    qed
  qed
  then have "card (?f ` {..<65}) = 65" by (simp add: card_image)
  moreover have "?f ` {..<65} \<subseteq> used_pids ts" using all by auto
  ultimately have "65 \<le> card (used_pids ts)" using card_mono [OF finite_used_pids] by metis
  then show False using card_used_pids [of ts] by simp
qed


text \<open>
  C30: \<open>find_empty_process\<close> always returns; \<open>last_pid\<close> becomes a positive number that no task
  has, and the result is the first free slot above 0, or \<open>-EAGAIN\<close> when there is none. Nothing
  else changes.
\<close>

theorem find_empty_process_fresh:
  assumes "0 \<le> last_pid s" and "last_pid s < 2 ^ 31"
  shows "\<exists>r s'. find_empty_process s = Ret r s' \<and> s' = s\<lparr>last_pid := last_pid s'\<rparr> \<and>
    1 \<le> last_pid s' \<and> last_pid s' < 2 ^ 31 \<and> last_pid s' \<notin> used_pids (task s) \<and>
    (if r = - EAGAIN then \<forall>i \<in> {1..<NR_TASKS}. task s ! i \<noteq> None
     else r = int (LEAST i. 1 \<le> i \<and> task s ! i = None) \<and> 1 \<le> r \<and> r < int NR_TASKS \<and> task s ! nat r = None)"
proof -
  obtain p where p: "pid_loop 65 (task s) (last_pid s) = Some p"
    using pid_loop_finds [OF assms] by auto
  note q = pid_loop_Some [OF p]
  note fe = find_upt_Some [of "\<lambda>i. task s ! i = None" 1 64]
  show ?thesis
  proof (cases "find (\<lambda>i. task s ! i = None) [1..<64]")
    case None
    then have "\<forall>i \<in> {1..<NR_TASKS}. task s ! i \<noteq> None" by (auto simp: find_None_iff)
    then show ?thesis using None p q assms
      by (auto simp: find_empty_process_def km_simps)
  next
    case (Some i)
    have "(LEAST i. 1 \<le> i \<and> task s ! i = None) = i"
      using fe [OF Some] by (intro Least_equality) (auto intro: leI)
    then show ?thesis using fe [OF Some] Some p q assms
      by (auto simp: find_empty_process_def km_simps)
  qed
qed

theorem find_empty_process_fresh_witness:
  "\<exists>s'. find_empty_process boot_sched = Ret 2 s' \<and> 1 \<le> last_pid s' \<and> last_pid s' \<notin> used_pids (task boot_sched)"
proof -
  have b: "0 \<le> last_pid boot_sched" "last_pid boot_sched < 2 ^ 31" "task boot_sched ! 2 = None"
    "task boot_sched ! 1 \<noteq> None"
    by (simp_all add: boot_sched_def two_tasks_def)
  have "(LEAST i. 1 \<le> i \<and> task boot_sched ! i = None) = 2"
    using b(3,4) by (intro Least_equality) (auto simp: numeral_2_eq_2 not_less_eq_eq [symmetric] le_Suc_eq intro: le_neq_trans)
  moreover have "\<not> (\<forall>i \<in> {1..<NR_TASKS}. task boot_sched ! i \<noteq> None)" using b(3) by fastforce
  ultimately show ?thesis using find_empty_process_fresh [OF b(1,2)] by (auto split: if_splits)
qed

section \<open>The current task\<close>

definition wf_cur :: "'a sched_scheme \<Rightarrow> bool" where
  "wf_cur s \<longleftrightarrow> current s < length (task s) \<and> task s ! current s \<noteq> None"

lemma cur_upd_cur [simp]: "wf_cur s \<Longrightarrow> cur (upd_cur f s) = f (cur s)"
  by (auto simp: wf_cur_def cur_def upd_cur_def)

lemma wf_cur_upd_cur [simp]: "wf_cur (upd_cur f s) = wf_cur s"
  by (auto simp: wf_cur_def upd_cur_def)

lemma suser_upd_cur: "wf_cur s \<Longrightarrow> suser (upd_cur f s) \<longleftrightarrow> euid (f (cur s)) = 0"
  by (simp add: suser_def)

section \<open>User identities\<close>

text \<open>The calls with which a process can change its user and group identities.\<close>

inductive id_step :: "'a sched_scheme \<Rightarrow> 'a sched_scheme \<Rightarrow> bool" where
  setreuid: "sys_setreuid r e s = Ret v s' \<Longrightarrow> id_step s s'"
| setuid: "sys_setuid u s = Ret v s' \<Longrightarrow> id_step s s'"
| setregid: "sys_setregid r e s = Ret v s' \<Longrightarrow> id_step s s'"
| setgid: "sys_setgid g s = Ret v s' \<Longrightarrow> id_step s s'"

lemma setreuid_ids:
  assumes "sys_setreuid r e s = Ret v s'" and "wf_cur s" and "\<not> suser s"
  shows "wf_cur s' \<and> euid (cur s') \<noteq> 0 \<and> uid (cur s') \<in> {uid (cur s), euid (cur s)} \<and> euid (cur s') \<in> {uid (cur s), euid (cur s)}"
proof -
  have w: "of_int r = x" if "uint x = r" for x :: u16 using that by auto
  have "euid (cur s) \<noteq> 0" using assms(3) by (simp add: suser_def)
  moreover have "uint x = e \<Longrightarrow> 0 < e \<Longrightarrow> x \<noteq> 0" for x :: u16 by auto
  ultimately show ?thesis
    using assms by (auto simp: sys_setreuid_def km_simps Let_def split: if_splits)
qed

lemma setregid_ids:
  assumes "sys_setregid r e s = Ret v s'" and "wf_cur s"
  shows "wf_cur s' \<and> uid (cur s') = uid (cur s) \<and> euid (cur s') = euid (cur s)"
  using assms by (auto simp: sys_setregid_def km_simps split: if_splits)

lemma id_step_ids:
  assumes "id_step s s'" and "wf_cur s" and "\<not> suser s"
  shows "wf_cur s' \<and> \<not> suser s' \<and> {uid (cur s'), euid (cur s')} \<subseteq> {uid (cur s), euid (cur s)}"
  using assms
proof cases
  case (setreuid r e v)
  show ?thesis using setreuid_ids [OF setreuid assms(2,3)] by (auto simp: suser_def)
next
  case (setuid u v)
  show ?thesis using setreuid_ids [OF setuid [unfolded sys_setuid_def] assms(2,3)] by (auto simp: suser_def)
next
  case (setregid r e v)
  show ?thesis using setregid_ids [OF setregid assms(2)] assms(3) by (auto simp: suser_def)
next
  case (setgid g v)
  show ?thesis using setregid_ids [OF setgid [unfolded sys_setgid_def] assms(2)] assms(3) by (auto simp: suser_def)
qed

text \<open>
  C31: a process that is not privileged does not gain privileges by any sequence of
  \<open>setreuid\<close>, \<open>setuid\<close>, \<open>setregid\<close> and \<open>setgid\<close>: its real and effective user ids stay among
  the two it started with, and it never becomes the super-user.
\<close>

theorem no_privilege_gain:
  assumes "id_step\<^sup>*\<^sup>* s s'" and "wf_cur s" and "\<not> suser s"
  shows "\<not> suser s' \<and> uid (cur s') \<in> {uid (cur s), euid (cur s)} \<and> euid (cur s') \<in> {uid (cur s), euid (cur s)}"
proof -
  have "wf_cur s' \<and> \<not> suser s' \<and> {uid (cur s'), euid (cur s')} \<subseteq> {uid (cur s), euid (cur s)}"
    using assms
  proof (induction rule: rtranclp_induct)
    case (step y z)
    then show ?case using id_step_ids [of y z] by (meson subset_trans)
  qed auto
  then show ?thesis by auto
qed

definition user_sched :: sched where
  "user_sched = boot_sched\<lparr>task := two_tasks[1 := Some ((INIT_TASK 0 0)\<lparr>uid := 7, euid := 9\<rparr>)]\<rparr>"

lemma user_sched_simps [simp]:
  "wf_cur user_sched" "\<not> suser user_sched" "uid (cur user_sched) = 7" "euid (cur user_sched) = 9"
  by (simp_all add: user_sched_def boot_sched_def two_tasks_def wf_cur_def suser_def cur_def INIT_TASK_def)

theorem no_privilege_gain_witness:
  "\<exists>s'. id_step\<^sup>*\<^sup>* user_sched s' \<and> \<not> suser s' \<and> uid (cur s') = 9 \<and> euid (cur s') = 7 \<and> euid (cur s') \<in> {7, 9}"
proof -
  let ?s = "upd_cur (\<lambda>p. p\<lparr>euid := 7\<rparr>) (upd_cur (\<lambda>p. p\<lparr>uid := 9\<rparr>) user_sched)"
  have "sys_setreuid 9 7 user_sched = Ret 0 ?s" by (simp add: sys_setreuid_def km_simps)
  then have r: "id_step\<^sup>*\<^sup>* user_sched ?s" by (blast intro: id_step.setreuid)
  show ?thesis
    using no_privilege_gain [OF r] r by (intro exI [of _ ?s]) auto
qed

section \<open>Sending signals\<close>

text \<open>What a task without privileges may change of another: nothing, unless they have the same effective user id.\<close>

definition may_signal :: "'a sched_scheme \<Rightarrow> nat \<Rightarrow> bool" where
  "may_signal s i \<longleftrightarrow> suser s \<or> (\<exists>t. task s ! i = Some t \<and> euid t = euid (cur s))"


abbreviation (input) add_sig :: "int \<Rightarrow> task_struct \<Rightarrow> task_struct" where
  "add_sig sig t \<equiv> t\<lparr>signal := signal t OR sigbit (nat sig)\<rparr>"

text \<open>The result of \<open>send_sig\<close> for a slot, as a function of the state.\<close>

definition sig_err :: "int \<Rightarrow> bool \<Rightarrow> 'a sched_scheme \<Rightarrow> nat \<Rightarrow> int" where
  "sig_err sig priv s i =
     (if task s ! i = None \<or> sig < 1 \<or> sig > 32 then - EINVAL else if priv \<or> may_signal s i then 0 else - EPERM)"

lemma send_sig_run:
  "send_sig sig i priv s = Ret (sig_err sig priv s i) (if sig_err sig priv s i = 0 then upd_task i (add_sig sig) s else s)"
  by (auto simp: send_sig_def km_simps sig_err_def may_signal_def suser_def split: option.splits)

text \<open>The task table after the slots in \<open>hit\<close> have got the signal.\<close>

definition sig_tasks :: "(nat \<Rightarrow> bool) \<Rightarrow> int \<Rightarrow> task_table \<Rightarrow> task_table" where
  "sig_tasks hit sig ts = map (\<lambda>j. if hit j then map_option (add_sig sig) (ts ! j) else ts ! j) [0..<length ts]"

lemma sig_tasks_nth [simp]:
  "length (sig_tasks hit sig ts) = length ts"
  "j < length ts \<Longrightarrow> sig_tasks hit sig ts ! j = (if hit j then map_option (add_sig sig) (ts ! j) else ts ! j)"
  by (simp_all add: sig_tasks_def)

lemma upd_task_sig_tasks: "i < length (task s) \<Longrightarrow> upd_task i (add_sig sig) s = s\<lparr>task := sig_tasks (\<lambda>j. j = i) sig (task s)\<rparr>"
  by (simp add: upd_task_def list_eq_iff_nth_eq nth_list_update)

lemma sig_tasks_none: "sig_tasks (\<lambda>_. False) sig ts = ts"
  by (simp add: sig_tasks_def map_nth)

lemma sig_tasks_same:
  assumes "wf_cur s"
  shows "wf_cur (s\<lparr>task := sig_tasks hit sig (task s)\<rparr>)"
    and "euid (cur (s\<lparr>task := sig_tasks hit sig (task s)\<rparr>)) = euid (cur s)"
    and "j < length (task s) \<Longrightarrow> sig_err sg priv (s\<lparr>task := sig_tasks hit sig (task s)\<rparr>) j = sig_err sg priv s j"
proof -
  show w: "wf_cur (s\<lparr>task := sig_tasks hit sig (task s)\<rparr>)"
    using assms by (auto simp: wf_cur_def)
  show e: "euid (cur (s\<lparr>task := sig_tasks hit sig (task s)\<rparr>)) = euid (cur s)"
    using assms by (auto simp: wf_cur_def cur_def)
  show "sig_err sg priv (s\<lparr>task := sig_tasks hit sig (task s)\<rparr>) j = sig_err sg priv s j" if "j < length (task s)"
    using that e by (auto simp: sig_err_def may_signal_def suser_def)
qed

lemma kill_loop_run:
  assumes "distinct js" and "set js \<subseteq> {..<length (task s)}" and "wf_cur s"
  shows "kill_loop js sel sig priv rv s =
      Ret (foldl (\<lambda>r j. if sel (task s ! j) \<and> sig_err sig priv s j \<noteq> 0 then sig_err sig priv s j else r) rv js)
        (s\<lparr>task := sig_tasks (\<lambda>j. j \<in> set js \<and> sel (task s ! j) \<and> sig_err sig priv s j = 0) sig (task s)\<rparr>)"
  using assms
proof (induction js arbitrary: rv s)
  case Nil
  then show ?case by (simp add: km_simps sig_tasks_none)
next
  case (Cons i js)
  let ?hit = "sel (task s ! i) \<and> sig_err sig priv s i = 0"
  let ?e = "if sel (task s ! i) \<and> sig_err sig priv s i \<noteq> 0 then sig_err sig priv s i else rv"
  define s1 where "s1 = s\<lparr>task := sig_tasks (\<lambda>j. j = i \<and> ?hit) sig (task s)\<rparr>"
  have i: "i < length (task s)" using Cons.prems by simp
  have run: "kill_loop (i # js) sel sig priv rv s = kill_loop js sel sig priv ?e s1"
    using i by (simp add: km_simps send_sig_run s1_def upd_task_sig_tasks sig_tasks_none)
  have same: "task s1 ! j = task s ! j" "sig_err sig priv s1 j = sig_err sig priv s j" if "j \<in> set js" for j
    using that Cons.prems sig_tasks_same(3) [OF Cons.prems(3), of j] by (auto simp: s1_def)
  have "kill_loop js sel sig priv ?e s1 =
      Ret (foldl (\<lambda>r j. if sel (task s1 ! j) \<and> sig_err sig priv s1 j \<noteq> 0 then sig_err sig priv s1 j else r) ?e js)
        (s1\<lparr>task := sig_tasks (\<lambda>j. j \<in> set js \<and> sel (task s1 ! j) \<and> sig_err sig priv s1 j = 0) sig (task s1)\<rparr>)"
    using Cons.prems sig_tasks_same(1) by (intro Cons.IH) (auto simp: s1_def)
  moreover have "foldl (\<lambda>r j. if sel (task s1 ! j) \<and> sig_err sig priv s1 j \<noteq> 0 then sig_err sig priv s1 j else r) ?e js =
      foldl (\<lambda>r j. if sel (task s ! j) \<and> sig_err sig priv s j \<noteq> 0 then sig_err sig priv s j else r) ?e js"
    using same by (intro foldl_cong) auto
  moreover have "sig_tasks (\<lambda>j. j \<in> set js \<and> sel (task s1 ! j) \<and> sig_err sig priv s1 j = 0) sig (task s1) =
      sig_tasks (\<lambda>j. j \<in> set (i # js) \<and> sel (task s ! j) \<and> sig_err sig priv s j = 0) sig (task s)"
  proof (rule nth_equalityI)
    fix j assume "j < length (sig_tasks (\<lambda>j. j \<in> set js \<and> sel (task s1 ! j) \<and> sig_err sig priv s1 j = 0) sig (task s1))"
    then have j: "j < length (task s)" by (simp add: s1_def)
    show "sig_tasks (\<lambda>j. j \<in> set js \<and> sel (task s1 ! j) \<and> sig_err sig priv s1 j = 0) sig (task s1) ! j =
      sig_tasks (\<lambda>j. j \<in> set (i # js) \<and> sel (task s ! j) \<and> sig_err sig priv s j = 0) sig (task s) ! j"
      using j same Cons.prems(1) by (cases "j \<in> set js") (auto simp: s1_def)
  qed (simp add: s1_def)
  ultimately show ?case using run by (simp add: s1_def)
qed

text \<open>The tasks that a call of \<open>kill\<close> is for.\<close>

definition sig_target :: "int \<Rightarrow> 'a sched_scheme \<Rightarrow> nat \<Rightarrow> bool" where
  "sig_target p s i \<longleftrightarrow> 1 \<le> i \<and> i < NR_TASKS \<and>
     (case task s ! i of None \<Rightarrow> False
      | Some t \<Rightarrow> if p = 0 then pgrp t = pid (cur s) else if p > 0 then pid t = p else p = -1 \<or> pgrp t = - p)"

lemma sys_kill_run:
  assumes "length (task s) = NR_TASKS" and "wf_cur s"
  shows "\<exists>r. sys_kill p sig s = Ret r (s\<lparr>task := sig_tasks (\<lambda>i. sig_target p s i \<and> sig_err sig (p = 0) s i = 0) sig (task s)\<rparr>)"
proof -
  define sel :: "task_struct option \<Rightarrow> bool" where "sel = (\<lambda>q. case q of None \<Rightarrow> p = -1
    | Some t \<Rightarrow> if p = 0 then pgrp t = pid (cur s) else if p > 0 then pid t = p else p = -1 \<or> pgrp t = - p)"
  have "sys_kill p sig s = kill_loop (rev [1..<NR_TASKS]) sel sig (p = 0) 0 s"
    unfolding sys_kill_def km_simps sel_def Let_def
    by (auto simp: km_simps intro!: arg_cong [of _ _ "\<lambda>f. kill_loop _ f _ _ _ _"] ext split: option.splits)
  then have "\<exists>r. sys_kill p sig s = Ret r (s\<lparr>task :=
      sig_tasks (\<lambda>i. i \<in> set (rev [1..<NR_TASKS]) \<and> sel (task s ! i) \<and> sig_err sig (p = 0) s i = 0) sig (task s)\<rparr>)"
    using kill_loop_run [of "rev [1..<NR_TASKS]" s sel sig "p = 0" 0] assms by fastforce
  moreover have "(\<lambda>i. i \<in> set (rev [1..<NR_TASKS]) \<and> sel (task s ! i) \<and> sig_err sig (p = 0) s i = 0) =
      (\<lambda>i. sig_target p s i \<and> sig_err sig (p = 0) s i = 0)"
    by (auto simp: sig_target_def sel_def sig_err_def fun_eq_iff split: option.splits)
  ultimately show ?thesis by simp
qed

text \<open>
  C32: \<open>kill\<close> always returns and changes nothing but the pending signals of tasks: a task other
  than task 0 gets the signal exactly if the call is for it (by process number, group, or
  everybody), the signal number is valid and, except for the sender's own group, the sender is
  privileged or has the same effective user id.
\<close>

theorem sys_kill_permission:
  assumes "length (task s) = NR_TASKS" and "wf_cur s"
  shows "\<exists>r ts. sys_kill p sig s = Ret r (s\<lparr>task := ts\<rparr>) \<and> length ts = NR_TASKS \<and>
    (\<forall>i < NR_TASKS. ts ! i =
       (if sig_target p s i \<and> 1 \<le> sig \<and> sig \<le> 32 \<and> (p = 0 \<or> may_signal s i)
        then map_option (\<lambda>t. t\<lparr>signal := signal t OR sigbit (nat sig)\<rparr>) (task s ! i) else task s ! i))"
proof -
  obtain r where r: "sys_kill p sig s = Ret r (s\<lparr>task := sig_tasks (\<lambda>i. sig_target p s i \<and> sig_err sig (p = 0) s i = 0) sig (task s)\<rparr>)"
    using sys_kill_run [OF assms] by blast
  then show ?thesis using assms(1)
    by (intro exI [of _ r] exI [of _ "sig_tasks (\<lambda>i. sig_target p s i \<and> sig_err sig (p = 0) s i = 0) sig (task s)"])
       (auto simp: sig_err_def sig_target_def split: option.splits)
qed

theorem sys_kill_permission_witness:
  "\<exists>r ts. sys_kill (-1) 9 user_sched = Ret r (user_sched\<lparr>task := ts\<rparr>) \<and>
    ts ! 1 = Some ((INIT_TASK 0 0)\<lparr>uid := 7, euid := 9, signal := 0x100\<rparr>) \<and> ts ! 0 = task user_sched ! 0"
proof -
  have t: "sig_target (-1) user_sched 1" "may_signal user_sched 1" "\<not> sig_target (-1) user_sched 0" "length (task user_sched) = 64"
    "task user_sched ! 1 = Some ((INIT_TASK 0 0)\<lparr>uid := 7, euid := 9\<rparr>)"
    by (simp_all add: sig_target_def may_signal_def user_sched_def boot_sched_def two_tasks_def cur_def)
  have "sigbit 9 = 0x100" "signal (INIT_TASK 0 0) = 0" by (simp_all add: sigbit_def INIT_TASK_def)
  then show ?thesis
    using sys_kill_permission [of user_sched "-1" 9] t by fastforce
qed

end
