(* ===== verification/Bytes.thy ===== *)
theory Bytes
  imports Prelude
begin

text \<open>
  Memories of bytes, as functions from 32-bit addresses: blocks of bytes that are stored and read
  at an address, around the end of the address space.
\<close>

section \<open>Blocks of bytes\<close>

type_synonym bmem = "u32 \<Rightarrow> u8"

definition wbytes :: "u32 \<Rightarrow> u8 list \<Rightarrow> (u32 \<Rightarrow> u8) \<Rightarrow> (u32 \<Rightarrow> u8)" where
  "wbytes a d u = (\<lambda>b. if unat (b - a) < length d then d ! unat (b - a) else u b)"

definition rbytes :: "(u32 \<Rightarrow> u8) \<Rightarrow> u32 \<Rightarrow> nat \<Rightarrow> u8 list" where
  "rbytes u a n = map (\<lambda>k. u (a + of_nat k)) [0..<n]"

lemma wbytes_Nil [simp]: "wbytes a [] u = u"
  by (simp add: wbytes_def)

lemma wbytes_append:
  assumes "length d + length e \<le> 2 ^ 32"
  shows "wbytes (a + of_nat (length d)) e (wbytes a d u) = wbytes a (d @ e) u"
proof
  fix b :: u32
  show "wbytes (a + of_nat (length d)) e (wbytes a d u) b = wbytes a (d @ e) u b"
  proof (cases "e = []")
    case False
    then have len: "length d < 2 ^ 32" using assms by (cases e) auto
    let ?k = "unat (b - a)"
    have k: "?k < 2 ^ 32" using unat32_less [of "b - a"] by simp
    have d: "b - (a + of_nat (length d)) = (b - a) - of_nat (length d)" by simp
    show ?thesis
    proof (cases "length d \<le> ?k")
      case True
      then have "unat (b - (a + of_nat (length d))) = ?k - length d"
        using len unfolding d by (subst unat_sub) (simp_all add: word_le_nat_alt unat32_of_nat)
      then show ?thesis using True by (auto simp: wbytes_def nth_append)
    next
      case less: False
      then have "b - a < of_nat (length d)" using len by (simp add: word_less_nat_alt unat32_of_nat)
      then have "unat ((b - a) - of_nat (length d)) = ?k + 2 ^ 32 - length d"
        using len by (simp add: unat_sub_if' unat32_of_nat word_less_nat_alt) 
      then show ?thesis using less assms k unfolding wbytes_def d by (auto simp: nth_append)
    qed
  qed simp
qed

lemma length_rbytes [simp]: "length (rbytes u a n) = n"
  by (simp add: rbytes_def)

lemma nth_rbytes [simp]: "i < n \<Longrightarrow> rbytes u a n ! i = u (a + of_nat i)"
  by (simp add: rbytes_def)

lemma read_wbytes:
  assumes "length d < 2 ^ 32"
  shows "rbytes (wbytes a d u) a (length d) = d"
proof (rule nth_equalityI)
  fix i assume i: "i < length (rbytes (wbytes a d u) a (length d))"
  then have "unat (of_nat i :: u32) = i" using assms by (intro unat32_of_nat) simp
  then show "rbytes (wbytes a d u) a (length d) ! i = d ! i" using i by (simp add: wbytes_def)
qed simp

lemma rbytes_add: "rbytes u a (m + n) = rbytes u a m @ rbytes u (a + of_nat m) n"
proof (rule nth_equalityI)
  fix i assume "i < length (rbytes u a (m + n))"
  then show "rbytes u a (m + n) ! i = (rbytes u a m @ rbytes u (a + of_nat m) n) ! i"
    by (cases "i < m") (simp_all add: nth_append add.assoc flip: of_nat_add)
qed simp

end
