(* ===== verification/Fifo.thy ===== *)
theory Fifo
  imports Prelude
begin

text \<open>
  The contract of queues, first in, first out: the interface \<open>fifo\<close>, and \<open>bounded_fifo\<close> for queues of bounded size. Pipes, terminals
  in raw mode and the buffers of the network library are instances.
\<close>

section \<open>Runs\<close>

text \<open>
  The runs of a component whose steps accept some items and deliver some: \<open>runs step s a b t\<close>
  leads from \<open>s\<close> to \<open>t\<close>, accepting the items \<open>a\<close> and delivering \<open>b\<close>, in this order.
\<close>

inductive runs :: "('s \<Rightarrow> 'b list \<Rightarrow> 'b list \<Rightarrow> 's \<Rightarrow> bool) \<Rightarrow> 's \<Rightarrow> 'b list \<Rightarrow> 'b list \<Rightarrow> 's \<Rightarrow> bool"
  for step where
  runs_refl: "runs step s [] [] s"
| runs_step: "runs step s a b t \<Longrightarrow> step t c d u \<Longrightarrow> runs step s (a @ c) (b @ d) u"

section \<open>Interfaces\<close>

text \<open>What is in the queue, and that each step keeps it first in, first out.\<close>

locale fifo =
  fixes step :: "'s \<Rightarrow> 'b list \<Rightarrow> 'b list \<Rightarrow> 's \<Rightarrow> bool" and inv :: "'s \<Rightarrow> bool" and content :: "'s \<Rightarrow> 'b list"
  assumes step_inv: "inv s \<Longrightarrow> step s a b t \<Longrightarrow> inv t"
    and step_content: "inv s \<Longrightarrow> step s a b t \<Longrightarrow> content s @ a = b @ content t"
begin

lemma runs_inv: "runs step s a b t \<Longrightarrow> inv s \<Longrightarrow> inv t"
  by (induction rule: runs.induct) (auto intro: step_inv)

lemma runs_content: "runs step s a b t \<Longrightarrow> inv s \<Longrightarrow> content s @ a = b @ content t"
proof (induction rule: runs.induct)
  case (runs_step s a b t c d u)
  have "content t @ c = d @ content u" using runs_inv runs_step by (intro step_content) auto
  then show ?case using runs_step by (metis append.assoc)
qed simp

end

locale bounded_fifo = fifo step inv content
  for step :: "'s \<Rightarrow> 'b list \<Rightarrow> 'b list \<Rightarrow> 's \<Rightarrow> bool" and inv :: "'s \<Rightarrow> bool" and content :: "'s \<Rightarrow> 'b list" +
  fixes capacity :: nat
  assumes content_bound: "inv s \<Longrightarrow> length (content s) \<le> capacity"
begin

lemma runs_fifo:
  assumes "runs step s a b t" and "inv s" and "content s = []"
  shows "a = b @ content t" and "length b \<le> length a" and "length a \<le> length b + capacity"
proof -
  show a: "a = b @ content t" using runs_content [OF assms(1,2)] assms(3) by simp
  show "length b \<le> length a" using a by simp
  show "length a \<le> length b + capacity" using a content_bound [OF runs_inv [OF assms(1,2)]] by simp
qed

end

end
