(* ===== verification/Pipe.thy ===== *)
theory Pipe
  imports Process Bytes Fifo
begin

text \<open>
  The pipes of \<open>fs/pipe.c\<close> as bounded queues of bytes. The first part describes bytes of physical
  and of user memory; the second what a call of \<open>read_pipe\<close> and \<open>write_pipe\<close> does to the ring
  in the pipe's page; the last states the contract of a bounded first-in, first-out queue as a
  locale and shows that pipes keep it, through any sequence of calls.
\<close>

section \<open>Bytes of physical memory\<close>

lemma mask2: "(3 :: u32) = mask 2" by (simp add: mask_eq_exp_minus_1)

lemma lane_less: "unat (a AND 3 :: u32) < 4"
proof -
  have "unat (a AND 3) = take_bit 2 (unat a)" by (simp add: mask2 flip: take_bit_eq_mask unsigned_take_bit_eq)
  then show ?thesis by (simp add: take_bit_eq_mod)
qed

lemma addr_eqI: "a AND NOT 3 = b AND NOT 3 \<Longrightarrow> unat (a AND 3) = unat (b AND 3) \<Longrightarrow> a = (b :: u32)"
proof -
  assume h: "a AND NOT 3 = b AND NOT 3" and l: "unat (a AND 3) = unat (b AND 3)"
  have "a AND 3 = b AND 3" using l by (rule word_unat_eq_iff [THEN iffD2])
  moreover have "x = (x AND NOT 3) OR (x AND 3)" for x :: u32
    by (rule bit_word_eqI) (auto simp: bit_simps)
  ultimately show ?thesis using h by metis
qed

lemma peek_poke8: "peek8 (poke8 a v m) b = (if a = b then v else peek8 m b)"
proof (cases "a AND NOT 3 = b AND NOT 3")
  case False
  then show ?thesis by (auto simp: peek8_def poke8_def Let_def)
next
  case True
  define la lb where "la = unat (a AND 3)" and "lb = unat (b AND 3)"
  have l: "la < 4" "lb < 4" using lane_less by (simp_all add: la_def lb_def)
  have eq: "a = b \<longleftrightarrow> la = lb" using addr_eqI [OF True] by (auto simp: la_def lb_def)
  have ff: "(0xff :: u32) = mask 8" by (simp add: mask_eq_exp_minus_1)
  have hi: "\<not> bit (v :: u8) (8 + k)" for k by (auto dest: bit_imp_le_length)
  show ?thesis
  proof (rule bit_word_eqI)
    fix n :: nat assume "n < LENGTH(8)"
    then have n: "n < 8" by simp
    have pk: "bit (peek8 f b) n = bit (f (b AND NOT 3)) (8 * lb + n)" for f
      using n l by (simp add: peek8_def bit_simps flip: lb_def)
    consider "la = lb" | "la < lb" | "lb < la" by linarith
    then have "bit (poke8 a v m (b AND NOT 3)) (8 * lb + n) = bit (if la = lb then v else peek8 m b) n"
    proof cases
      case 1
      then show ?thesis using n l True by (simp add: pk poke8_def Let_def bit_simps ff flip: la_def)
    next
      case 2
      then obtain d where "lb = la + Suc d" by (metis less_imp_Suc_add add_Suc_right)
      then show ?thesis using n l True
        by (simp add: pk poke8_def Let_def bit_simps ff hi flip: la_def)
    next
      case 3
      then show ?thesis using n l True by (auto simp: pk poke8_def Let_def bit_simps ff simp flip: la_def)
    qed
    then show "bit (peek8 (poke8 a v m) b) n = bit (if a = b then v else peek8 m b) n" using eq by (simp add: pk)
  qed
qed


section \<open>Bytes of user memory\<close>

lemma kfor_cong: "xs = ys \<Longrightarrow> (\<And>i. i \<in> set ys \<Longrightarrow> f i = g i) \<Longrightarrow> kfor xs f = kfor ys g"
  by (induction ys arbitrary: xs) auto

lemma put_fs_bytes_run:
  "length d \<le> 2 ^ 32 \<Longrightarrow> put_fs_bytes d a s = Ret () (s\<lparr>user := wbytes a d (user s)\<rparr>)"
proof (induction d rule: rev_induct)
  case Nil
  then show ?case by (simp add: put_fs_bytes_def km_simps)
next
  case (snoc x d)
  have "kfor [0..<length d] (\<lambda>k. put_fs_byte ((d @ [x]) ! k) (a + of_nat k)) =
      kfor [0..<length d] (\<lambda>k. put_fs_byte (d ! k) (a + of_nat k))"
    by (intro kfor_cong) (auto simp: nth_append)
  then have eq: "kfor [0..<length d] (\<lambda>k. put_fs_byte ((d @ [x]) ! k) (a + of_nat k)) = put_fs_bytes d a"
    by (simp only: put_fs_bytes_def)
  have "put_fs_bytes (d @ [x]) a s = kseq (put_fs_bytes d a) (kseq (put_fs_byte x (a + of_nat (length d))) (kreturn ())) s"
    by (simp add: put_fs_bytes_def [of "d @ [x]"] kfor_append eq)
  moreover have "(wbytes a d (user s))(a + of_nat (length d) := x) = wbytes a (d @ [x]) (user s)"
  proof -
    have "wbytes (a + of_nat (length d)) [x] (wbytes a d (user s)) = wbytes a (d @ [x]) (user s)"
      using snoc.prems by (intro wbytes_append) simp
    moreover have "wbytes b [x] u = u(b := x)" for b and u :: "u32 \<Rightarrow> u8"
      by (auto simp: wbytes_def fun_eq_iff unat_eq_0)
    ultimately show ?thesis by metis
  qed
  ultimately show ?case using snoc by (simp add: km_simps)
qed

section \<open>A pipe is a queue of bytes\<close>

definition wf_pipe :: "m_inode \<Rightarrow> bool" where
  "wf_pipe x \<longleftrightarrow> length (i_zone x) = 9 \<and> unat (i_zone x ! 0) < 4096 \<and> unat (i_zone x ! 1) < 4096"

definition pipe_data :: "(u32 \<Rightarrow> u32) \<Rightarrow> m_inode \<Rightarrow> u8 list" where
  "pipe_data m x = map (\<lambda>k. peek8 m (i_size x + of_nat ((unat (i_zone x ! 1) + k) mod 4096))) [0..<PIPE_SIZE x]"

definition gap :: "nat \<Rightarrow> nat \<Rightarrow> nat" where
  "gap h t = (if t \<le> h then h - t else h + 4096 - t)"

lemma gap_less: "h < 4096 \<Longrightarrow> t < 4096 \<Longrightarrow> gap h t < 4096"
  unfolding gap_def by (cases "t \<le> h") auto

lemma mod_4096: "m < 8192 \<Longrightarrow> m mod 4096 = (if m < 4096 then m else m - 4096)" for m :: nat
  by (simp add: le_mod_geq)

lemma gap_tail:
  assumes "h < 4096" and "t < 4096" and "n \<le> gap h t"
  shows "gap h ((t + n) mod 4096) = gap h t - n"
proof -
  have "t + n < 8192" using assms gap_less [of h t] by linarith
  then show ?thesis using assms unfolding gap_def by (simp add: mod_4096 split: if_splits; linarith)
qed

lemma gap_head:
  assumes "h < 4096" and "t < 4096" and "n \<le> 4095 - gap h t"
  shows "gap ((h + n) mod 4096) t = gap h t + n"
proof -
  have "h + n < 8192" using assms by linarith
  then show ?thesis using assms unfolding gap_def by (simp add: mod_4096 split: if_splits; linarith)
qed

lemma gap_head_mod: "h < 4096 \<Longrightarrow> t < 4096 \<Longrightarrow> (t + gap h t) mod 4096 = h"
  unfolding gap_def by (cases "t \<le> h") auto

lemma and_FFF: "unat (w AND 0xfff :: u16) = unat w mod 4096"
proof -
  have 1: "w AND 0xfff = take_bit 12 w" by (simp add: take_bit_eq_mask mask_eq_exp_minus_1)
  have "unat (take_bit 12 w) = take_bit 12 (unat w)" by (rule unsigned_take_bit_eq)
  then show ?thesis unfolding 1 by (simp only: take_bit_eq_mod [of 12 "unat w"]) simp
qed

lemma PIPE_SIZE_gap:
  assumes "wf_pipe x"
  shows "PIPE_SIZE x = gap (unat (i_zone x ! 0)) (unat (i_zone x ! 1))"
proof -
  let ?h = "i_zone x ! 0" let ?t = "i_zone x ! 1"
  have l: "unat ?h < 4096" "unat ?t < 4096" using assms by (simp_all add: wf_pipe_def)
  have "unat (?h - ?t) mod 4096 = gap (unat ?h) (unat ?t)"
  proof (cases "?t \<le> ?h")
    case True
    then have "unat (?h - ?t) = unat ?h - unat ?t" by (rule unat_sub)
    then show ?thesis using True l unfolding gap_def word_le_nat_alt by simp
  next
    case False
    then have lt: "unat ?h < unat ?t" by (simp add: word_le_nat_alt)
    have "unat (?h - ?t) = unat ?h + 65536 - unat ?t" using lt by (simp add: unat_sub_if')
    also have "\<dots> = (unat ?h + 4096 - unat ?t) + 15 * 4096" using l by arith
    finally have "unat (?h - ?t) mod 4096 = (unat ?h + 4096 - unat ?t) mod 4096" by (metis mod_mult_self1)
    also have "\<dots> = unat ?h + 4096 - unat ?t" using lt l by (intro mod_less) arith
    finally show ?thesis using lt unfolding gap_def by simp
  qed
  then show ?thesis by (simp add: PIPE_SIZE_def and_FFF)
qed

lemma length_pipe_data [simp]: "length (pipe_data m x) = PIPE_SIZE x"
  by (simp add: pipe_data_def)

lemma unat16_add_mod: "unat (w + of_nat n :: u16) mod 4096 = (unat w + n) mod 4096"
proof -
  have "unat (w + of_nat n :: u16) mod 4096 = (unat w + n mod 65536) mod 65536 mod 4096"
    by (simp add: unat_word_ariths unat_of_nat)
  also have "\<dots> = (unat w + n mod 65536) mod 4096" by (rule mod_mod_cancel) simp
  also have "\<dots> = (unat w + n mod 65536 mod 4096) mod 4096" by (simp add: mod_simps)
  also have "n mod 65536 mod 4096 = n mod 4096" by (rule mod_mod_cancel) simp
  finally show ?thesis by (simp add: mod_simps)
qed

text \<open>The pipe after \<open>n\<close> bytes have been taken from its tail, or put at its head.\<close>

definition adv_tail :: "nat \<Rightarrow> m_inode \<Rightarrow> m_inode" where
  "adv_tail n x = x\<lparr>i_zone := (i_zone x)[1 := (i_zone x ! 1 + of_nat n) AND 0xfff]\<rparr>"

definition adv_head :: "nat \<Rightarrow> m_inode \<Rightarrow> m_inode" where
  "adv_head n x = x\<lparr>i_zone := (i_zone x)[0 := (i_zone x ! 0 + of_nat n) AND 0xfff]\<rparr>"

lemma adv_tail_simps:
  assumes "wf_pipe x"
  shows "unat (i_zone (adv_tail n x) ! 1) = (unat (i_zone x ! 1) + n) mod 4096" "i_zone (adv_tail n x) ! 0 = i_zone x ! 0"
    "wf_pipe (adv_tail n x)" "i_size (adv_tail n x) = i_size x" "i_count (adv_tail n x) = i_count x"
  using assms by (simp_all add: adv_tail_def wf_pipe_def and_FFF unat16_add_mod)

lemma adv_head_simps:
  assumes "wf_pipe x"
  shows "unat (i_zone (adv_head n x) ! 0) = (unat (i_zone x ! 0) + n) mod 4096" "i_zone (adv_head n x) ! 1 = i_zone x ! 1"
    "wf_pipe (adv_head n x)" "i_size (adv_head n x) = i_size x" "i_count (adv_head n x) = i_count x"
  using assms by (simp_all add: adv_head_def wf_pipe_def and_FFF unat16_add_mod)

lemma adv_tail_add: "wf_pipe x \<Longrightarrow> adv_tail m (adv_tail n x) = adv_tail (n + m) x"
proof -
  assume x: "wf_pipe x"
  have "i_zone (adv_tail m (adv_tail n x)) ! 1 = i_zone (adv_tail (n + m) x) ! 1"
    using adv_tail_simps(1) [OF x] adv_tail_simps(1) [OF adv_tail_simps(3) [OF x, of n], of m]
    by (intro word_unat_eq_iff [THEN iffD2]) (simp add: mod_simps ac_simps)
  then show ?thesis using x by (simp add: adv_tail_def wf_pipe_def)
qed

lemma adv_head_add: "wf_pipe x \<Longrightarrow> adv_head m (adv_head n x) = adv_head (n + m) x"
proof -
  assume x: "wf_pipe x"
  have "i_zone (adv_head m (adv_head n x)) ! 0 = i_zone (adv_head (n + m) x) ! 0"
    using adv_head_simps(1) [OF x] adv_head_simps(1) [OF adv_head_simps(3) [OF x, of n], of m]
    by (intro word_unat_eq_iff [THEN iffD2]) (simp add: mod_simps ac_simps)
  then show ?thesis using x by (simp add: adv_head_def wf_pipe_def)
qed

lemma adv_tail_data:
  assumes x: "wf_pipe x" and n: "n \<le> PIPE_SIZE x"
  shows "PIPE_SIZE (adv_tail n x) = PIPE_SIZE x - n" and "pipe_data m (adv_tail n x) = drop n (pipe_data m x)"
proof -
  note z = adv_tail_simps [OF x, of n]
  show s: "PIPE_SIZE (adv_tail n x) = PIPE_SIZE x - n"
    using x n gap_tail unfolding PIPE_SIZE_gap [OF z(3)] PIPE_SIZE_gap [OF x] z(1,2) wf_pipe_def by simp
  show "pipe_data m (adv_tail n x) = drop n (pipe_data m x)"
  proof (rule nth_equalityI)
    fix i assume "i < length (pipe_data m (adv_tail n x))"
    then have "n + i < PIPE_SIZE x" using n s by simp
    then show "pipe_data m (adv_tail n x) ! i = drop n (pipe_data m x) ! i"
      using n unfolding pipe_data_def s z(1,4) by (simp add: mod_simps add.assoc)
  qed (simp add: s)
qed

lemma adv_head_size: "wf_pipe x \<Longrightarrow> n \<le> 4095 - PIPE_SIZE x \<Longrightarrow> PIPE_SIZE (adv_head n x) = PIPE_SIZE x + n"
  using gap_head [of "unat (i_zone x ! 0)" "unat (i_zone x ! 1)" n]
  by (simp add: PIPE_SIZE_gap adv_head_simps del: One_nat_def) (simp add: wf_pipe_def)

lemma adv_none: "wf_pipe x \<Longrightarrow> adv_tail 0 x = x" "wf_pipe x \<Longrightarrow> adv_head 0 x = x"
proof -
  have eq: "w AND 0xfff = w" if "unat w < 4096" for w :: u16
    using that by (intro word_unat_eq_iff [THEN iffD2]) (simp add: and_FFF)
  show "wf_pipe x \<Longrightarrow> adv_tail 0 x = x" "wf_pipe x \<Longrightarrow> adv_head 0 x = x"
    by (simp_all add: adv_tail_def adv_head_def wf_pipe_def eq)
qed

subsection \<open>Reading\<close>

definition pipe_rd :: "nat \<Rightarrow> u32 \<Rightarrow> nat \<Rightarrow> 'a fsys_scheme \<Rightarrow> 'a fsys_scheme" where
  "pipe_rd i ub n s = s\<lparr>inode_table := (inode_table s)[i := adv_tail n (inode_table s ! i)],
     user := wbytes ub (take n (pipe_data (phys s) (inode_table s ! i))) (user s)\<rparr>"

definition is_pipe :: "nat \<Rightarrow> 'a fsys_scheme \<Rightarrow> bool" where
  "is_pipe i s \<longleftrightarrow> i < length (inode_table s) \<and> wf_pipe (inode_table s ! i)"

abbreviation (input) pipe_size :: "nat \<Rightarrow> 'a fsys_scheme \<Rightarrow> nat" where
  "pipe_size i s \<equiv> PIPE_SIZE (inode_table s ! i)"

lemma PIPE_SIZE_less: "PIPE_SIZE x < 4096"
  by (simp add: PIPE_SIZE_def and_FFF)

lemma pipe_rd_simps:
  assumes "is_pipe i s"
  shows "inode_table (pipe_rd i ub n s) ! i = adv_tail n (inode_table s ! i)" "is_pipe i (pipe_rd i ub n s)"
    "phys (pipe_rd i ub n s) = phys s"
  using assms adv_tail_simps(3) by (auto simp: pipe_rd_def is_pipe_def)

lemma pipe_rd_0: "is_pipe i s \<Longrightarrow> pipe_rd i ub 0 s = s"
  by (simp add: pipe_rd_def is_pipe_def adv_none)

lemma pipe_rd_add:
  assumes "is_pipe i s" and "m + n \<le> pipe_size i s"
  shows "pipe_rd i (ub + of_nat m) n (pipe_rd i ub m s) = pipe_rd i ub (m + n) s"
proof -
  let ?x = "inode_table s ! i" let ?d = "pipe_data (phys s) ?x"
  have x: "i < length (inode_table s)" "wf_pipe ?x" using assms(1) by (auto simp: is_pipe_def)
  have "length (take m ?d) = m" using assms by simp
  moreover have "length (take n (drop m ?d)) \<le> 4096" using PIPE_SIZE_less [of ?x] by simp
  ultimately have "wbytes (ub + of_nat m) (take n (drop m ?d)) (wbytes ub (take m ?d) (user s)) =
      wbytes ub (take m ?d @ take n (drop m ?d)) (user s)"
    using wbytes_append [of "take m ?d" "take n (drop m ?d)" ub "user s"] assms PIPE_SIZE_less [of ?x] by simp
  then show ?thesis
    using x assms by (simp add: pipe_rd_def adv_tail_data adv_tail_add take_add)
qed

lemma read_pipe_chunk_run:
  assumes p: "is_pipe i s" and n: "0 < count" "0 < pipe_size i s"
  obtains c where "read_pipe_chunk i ub count s = Ret c (pipe_rd i ub c s)" and "0 < c" and "c \<le> count" and "c \<le> pipe_size i s"
proof -
  let ?x = "inode_table s ! i"
  let ?tl = "unat (i_zone ?x ! 1)"
  let ?c = "min (min (4096 - ?tl) count) (PIPE_SIZE ?x)"
  have x: "i < length (inode_table s)" "wf_pipe ?x" using p by (auto simp: is_pipe_def)
  have md: "(?tl + k) mod 4096 = ?tl + k" if "k < ?c" for k using that by (intro mod_less) linarith
  have d: "map (\<lambda>k. peek8 (phys s) (i_size ?x + of_nat (?tl + k))) [0..<?c] = take ?c (pipe_data (phys s) ?x)"
    using md by (intro nth_equalityI) (simp_all add: pipe_data_def del: of_nat_add)
  have "length (take ?c (pipe_data (phys s) ?x)) \<le> 2 ^ 32" using PIPE_SIZE_less [of ?x] by simp
  then have "read_pipe_chunk i ub count s = Ret ?c (pipe_rd i ub ?c s)"
    using x unfolding read_pipe_chunk_def Let_def
    by (simp add: km_simps d put_fs_bytes_run pipe_rd_def adv_tail_def del: of_nat_add One_nat_def)
  moreover have "0 < ?c" using n x by (simp add: wf_pipe_def)
  ultimately show thesis using that by auto
qed

lemma read_pipe_loop_run:
  assumes "is_pipe i s" and "count < n"
  shows "read_pipe_loop n i ub count r s =
    (if count \<le> pipe_size i s then kseq (wake_inode i) (kreturn (int (r + count))) (pipe_rd i ub count s)
     else kseq (wake_inode i) (if i_count (inode_table s ! i) \<noteq> 2 then kreturn (int (r + pipe_size i s)) else kstop Sleeps)
            (pipe_rd i ub (pipe_size i s) s))"
  using assms
proof (induction n arbitrary: s ub count r)
  case (Suc n)
  let ?x = "inode_table s ! i"
  have i: "i < length (inode_table s)" "wf_pipe ?x" using Suc.prems by (simp_all add: is_pipe_def)
  show ?case
  proof (cases "count = 0 \<or> PIPE_SIZE ?x = 0")
    case True
    then show ?thesis using i pipe_rd_0 [OF Suc.prems(1)] by (auto simp: km_simps split: outcome.splits)
  next
    case False
    then obtain c where c: "read_pipe_chunk i ub count s = Ret c (pipe_rd i ub c s)" "0 < c" "c \<le> count" "c \<le> PIPE_SIZE ?x"
      using read_pipe_chunk_run [OF Suc.prems(1), of count] by blast
    note s1 = pipe_rd_simps [OF Suc.prems(1), of ub c]
    have sz: "PIPE_SIZE (adv_tail c ?x) = PIPE_SIZE ?x - c" "i_count (adv_tail c ?x) = i_count ?x"
      using adv_tail_data(1) [OF i(2) c(4)] adv_tail_simps(5) [OF i(2)] by simp_all
    have "read_pipe_loop (Suc n) i ub count r s = read_pipe_loop n i (ub + of_nat c) (count - c) (r + c) (pipe_rd i ub c s)"
      using False i c(1) by (simp add: km_simps)
    also have "\<dots> = (if count - c \<le> PIPE_SIZE ?x - c
        then kseq (wake_inode i) (kreturn (int (r + c + (count - c)))) (pipe_rd i (ub + of_nat c) (count - c) (pipe_rd i ub c s))
        else kseq (wake_inode i) (if i_count ?x \<noteq> 2 then kreturn (int (r + c + (PIPE_SIZE ?x - c))) else kstop Sleeps)
            (pipe_rd i (ub + of_nat c) (PIPE_SIZE ?x - c) (pipe_rd i ub c s)))"
      using Suc.IH [OF s1(2), of "count - c" "ub + of_nat c" "r + c"] c Suc.prems(2) unfolding s1(1) sz by simp
    finally show ?thesis
      using c pipe_rd_add [OF Suc.prems(1), of c "count - c" ub] pipe_rd_add [OF Suc.prems(1), of c "PIPE_SIZE ?x - c" ub]
      by auto
  qed
qed simp

subsection \<open>Writing\<close>

text \<open>The page after the bytes \<open>d\<close> have been stored from offset \<open>h\<close> on, around the end of the page.\<close>

definition ring_put :: "u32 \<Rightarrow> nat \<Rightarrow> u8 list \<Rightarrow> (u32 \<Rightarrow> u32) \<Rightarrow> (u32 \<Rightarrow> u32)" where
  "ring_put base h d m = fold (\<lambda>k. poke8 (base + of_nat ((h + k) mod 4096)) (d ! k)) [0..<length d] m"

lemma ring_put_Nil [simp]: "ring_put base h [] m = m"
  by (simp add: ring_put_def)

lemma ring_put_snoc: "ring_put base h (d @ [v]) m = poke8 (base + of_nat ((h + length d) mod 4096)) v (ring_put base h d m)"
proof -
  have "fold (\<lambda>k. poke8 (base + of_nat ((h + k) mod 4096)) ((d @ [v]) ! k)) [0..<length d] m =
      fold (\<lambda>k. poke8 (base + of_nat ((h + k) mod 4096)) (d ! k)) [0..<length d] m"
    by (intro List.fold_cong) (auto simp: nth_append)
  then show ?thesis by (simp add: ring_put_def)
qed

lemma ring_put_append: "ring_put base h (d @ e) m = ring_put base ((h + length d) mod 4096) e (ring_put base h d m)"
proof (induction e rule: rev_induct)
  case (snoc v e)
  have "ring_put base h (d @ e @ [v]) m = ring_put base h ((d @ e) @ [v]) m" by simp
  then show ?case using snoc unfolding ring_put_snoc by (simp add: mod_simps add.assoc ring_put_snoc)
qed simp

lemma ring_addr_inj: "a < 4096 \<Longrightarrow> b < 4096 \<Longrightarrow> base + of_nat a = base + (of_nat b :: u32) \<Longrightarrow> a = b"
proof -
  assume a: "a < 4096" "b < 4096" and "base + of_nat a = base + (of_nat b :: u32)"
  then have "unat (of_nat a :: u32) = unat (of_nat b :: u32)" by simp
  then show "a = b" using a by (simp add: unat32_of_nat)
qed

lemma pipe_data_put1:
  assumes x: "wf_pipe x" and room: "PIPE_SIZE x < 4095"
  shows "pipe_data (poke8 (i_size x + of_nat (unat (i_zone x ! 0))) v m) (adv_head 1 x) = pipe_data m x @ [v]"
proof -
  let ?h = "unat (i_zone x ! 0)" let ?t = "unat (i_zone x ! 1)"
  have l: "?h < 4096" "?t < 4096" using x by (simp_all add: wf_pipe_def)
  have sz: "PIPE_SIZE x = gap ?h ?t" by (rule PIPE_SIZE_gap [OF x])
  have sz1: "PIPE_SIZE (adv_head 1 x) = PIPE_SIZE x + 1" using room by (intro adv_head_size [OF x]) simp
  have ne: "(?t + k) mod 4096 \<noteq> ?h" if "k < PIPE_SIZE x" for k
  proof
    assume e: "(?t + k) mod 4096 = ?h"
    have "?t + k < 8192" using l that PIPE_SIZE_less [of x] by linarith
    then show False using e that l unfolding sz gap_def by (simp add: mod_4096 split: if_splits)
  qed
  show ?thesis
  proof (rule nth_equalityI)
    fix k assume "k < length (pipe_data (poke8 (i_size x + of_nat ?h) v m) (adv_head 1 x))"
    then have k: "k < PIPE_SIZE x \<or> k = PIPE_SIZE x" using sz1 by auto
    have z: "pipe_data (poke8 (i_size x + of_nat ?h) v m) (adv_head 1 x) ! k =
        (if i_size x + of_nat ?h = i_size x + (of_nat ((?t + k) mod 4096) :: u32) then v else peek8 m (i_size x + of_nat ((?t + k) mod 4096)))"
      using k sz1 adv_head_simps(2,4) [OF x, of 1] by (auto simp: pipe_data_def peek_poke8 simp del: One_nat_def)
    show "pipe_data (poke8 (i_size x + of_nat ?h) v m) (adv_head 1 x) ! k = (pipe_data m x @ [v]) ! k"
    proof (cases "k < PIPE_SIZE x")
      case True
      then have "i_size x + of_nat ?h \<noteq> i_size x + (of_nat ((?t + k) mod 4096) :: u32)"
        using ne [OF True] ring_addr_inj [OF l(1), of "(?t + k) mod 4096" "i_size x"] by auto
      then show ?thesis using z True by (simp add: nth_append pipe_data_def del: One_nat_def)
    next
      case False
      with k have "k = PIPE_SIZE x" by simp
      then show ?thesis using z gap_head_mod [OF l] sz by (simp add: nth_append del: One_nat_def)
    qed
  qed (simp add: sz1 del: One_nat_def)
qed

lemma pipe_data_put:
  assumes x: "wf_pipe x" and room: "PIPE_SIZE x + length d \<le> 4095"
  shows "pipe_data (ring_put (i_size x) (unat (i_zone x ! 0)) d m) (adv_head (length d) x) = pipe_data m x @ d"
  using room
proof (induction d rule: rev_induct)
  case Nil
  then show ?case using adv_none(2) [OF x] by simp
next
  case (snoc v d)
  let ?y = "adv_head (length d) x"
  note y = adv_head_simps [OF x, of "length d"]
  have "PIPE_SIZE ?y = PIPE_SIZE x + length d" using snoc.prems by (intro adv_head_size [OF x]) simp
  then have "pipe_data (poke8 (i_size ?y + of_nat (unat (i_zone ?y ! 0))) v (ring_put (i_size x) (unat (i_zone x ! 0)) d m)) (adv_head 1 ?y) =
      pipe_data (ring_put (i_size x) (unat (i_zone x ! 0)) d m) ?y @ [v]"
    using snoc.prems by (intro pipe_data_put1 [OF y(3)]) simp
  then show ?case
    using snoc adv_head_add [OF x, of 1 "length d"] y by (simp add: ring_put_snoc Suc_eq_plus1 del: One_nat_def)
qed

definition pipe_wr :: "nat \<Rightarrow> u32 \<Rightarrow> nat \<Rightarrow> 'a fsys_scheme \<Rightarrow> 'a fsys_scheme" where
  "pipe_wr i ub n s = s\<lparr>inode_table := (inode_table s)[i := adv_head n (inode_table s ! i)],
     phys := ring_put (i_size (inode_table s ! i)) (unat (i_zone (inode_table s ! i) ! 0)) (rbytes (user s) ub n) (phys s)\<rparr>"

lemma pipe_wr_simps:
  assumes "is_pipe i s"
  shows "inode_table (pipe_wr i ub n s) ! i = adv_head n (inode_table s ! i)" "is_pipe i (pipe_wr i ub n s)"
    "user (pipe_wr i ub n s) = user s"
  using assms adv_head_simps(3) by (auto simp: pipe_wr_def is_pipe_def)

lemma pipe_wr_0: "is_pipe i s \<Longrightarrow> pipe_wr i ub 0 s = s"
  by (simp add: pipe_wr_def is_pipe_def adv_none rbytes_def)

lemma pipe_wr_add:
  assumes "is_pipe i s"
  shows "pipe_wr i (ub + of_nat m) n (pipe_wr i ub m s) = pipe_wr i ub (m + n) s"
  using assms by (simp add: pipe_wr_def is_pipe_def adv_head_add adv_head_simps rbytes_add ring_put_append)

lemma write_pipe_chunk_run:
  assumes p: "is_pipe i s" and n: "0 < count" "pipe_size i s < 4095"
  obtains c where "write_pipe_chunk i ub count s = Ret c (pipe_wr i ub c s)" and "0 < c" and "c \<le> count" and "c \<le> 4095 - pipe_size i s"
proof -
  let ?x = "inode_table s ! i"
  let ?h = "unat (i_zone ?x ! 0)"
  let ?c = "min (min (4096 - ?h) count) (4095 - PIPE_SIZE ?x)"
  have x: "i < length (inode_table s)" "wf_pipe ?x" using p by (auto simp: is_pipe_def)
  have md: "(?h + k) mod 4096 = ?h + k" if "k < ?c" for k using that by (intro mod_less) linarith
  have "fold (\<lambda>k. poke8 (i_size ?x + of_nat (?h + k)) (rbytes (user s) ub ?c ! k)) [0..<?c] (phys s) =
      ring_put (i_size ?x) ?h (rbytes (user s) ub ?c) (phys s)"
    unfolding ring_put_def using md by (intro List.fold_cong) auto
  then have "write_pipe_chunk i ub count s = Ret ?c (pipe_wr i ub ?c s)"
    using x unfolding write_pipe_chunk_def Let_def
    by (simp add: km_simps get_fs_bytes_def pipe_wr_def adv_head_def flip: rbytes_def del: of_nat_add One_nat_def)
  moreover have "0 < ?c" using n x by (simp add: wf_pipe_def)
  ultimately show thesis using that by auto
qed

lemma write_pipe_loop_run:
  assumes "is_pipe i s" and "count < n"
  shows "write_pipe_loop n i ub count r s =
    (if count \<le> 4095 - pipe_size i s then kseq (wake_inode i) (kreturn (int (r + count))) (pipe_wr i ub count s)
     else kseq (wake_inode i) (if i_count (inode_table s ! i) \<noteq> 2 then send_sigpipe (r + (4095 - pipe_size i s)) else kstop Sleeps)
            (pipe_wr i ub (4095 - pipe_size i s) s))"
  using assms
proof (induction n arbitrary: s ub count r)
  case (Suc n)
  let ?x = "inode_table s ! i"
  have i: "i < length (inode_table s)" "wf_pipe ?x" using Suc.prems by (simp_all add: is_pipe_def)
  have lt: "PIPE_SIZE ?x < 4096" by (rule PIPE_SIZE_less)
  show ?case
  proof (cases "count = 0 \<or> PIPE_SIZE ?x = 4095")
    case True
    then show ?thesis using i pipe_wr_0 [OF Suc.prems(1)] by (auto simp: km_simps split: outcome.splits)
  next
    case False
    then obtain c where c: "write_pipe_chunk i ub count s = Ret c (pipe_wr i ub c s)" "0 < c" "c \<le> count" "c \<le> 4095 - PIPE_SIZE ?x"
      using write_pipe_chunk_run [OF Suc.prems(1), of count] lt by (metis le_neq_implies_less less_Suc_eq_le not_gr_zero numeral_eq_Suc pred_numeral_simps(2) semiring_norm(26) semiring_norm(27) Suc_numeral)
    note s1 = pipe_wr_simps [OF Suc.prems(1), of ub c]
    have sz: "PIPE_SIZE (adv_head c ?x) = PIPE_SIZE ?x + c" "i_count (adv_head c ?x) = i_count ?x"
      using adv_head_size [OF i(2) c(4)] adv_head_simps(5) [OF i(2)] by simp_all
    have "write_pipe_loop (Suc n) i ub count r s = write_pipe_loop n i (ub + of_nat c) (count - c) (r + c) (pipe_wr i ub c s)"
      using False i c(1) by (simp add: km_simps)
    also have "\<dots> = (if count - c \<le> 4095 - (PIPE_SIZE ?x + c)
        then kseq (wake_inode i) (kreturn (int (r + c + (count - c)))) (pipe_wr i (ub + of_nat c) (count - c) (pipe_wr i ub c s))
        else kseq (wake_inode i) (if i_count ?x \<noteq> 2 then send_sigpipe (r + c + (4095 - (PIPE_SIZE ?x + c))) else kstop Sleeps)
            (pipe_wr i (ub + of_nat c) (4095 - (PIPE_SIZE ?x + c)) (pipe_wr i ub c s)))"
      using Suc.IH [OF s1(2), of "count - c" "ub + of_nat c" "r + c"] c Suc.prems(2) unfolding s1(1) sz by simp
    finally show ?thesis
      using c lt pipe_wr_add [OF Suc.prems(1), of ub c "count - c"] pipe_wr_add [OF Suc.prems(1), of ub c "4095 - (PIPE_SIZE ?x + c)"]
      by auto
  qed
qed simp

subsection \<open>What the calls do to the queue\<close>

text \<open>The part of the state that makes up the pipe of an inode: the page and the two pointers.\<close>

definition pipe_queue :: "nat \<Rightarrow> 'a fsys_scheme \<Rightarrow> u8 list" where
  "pipe_queue i s = pipe_data (phys s) (inode_table s ! i)"

lemma pipe_data_frame:
  assumes "i_zone y = i_zone x" and "i_size y = i_size x"
  shows "pipe_data m y = pipe_data m x" "PIPE_SIZE y = PIPE_SIZE x" "wf_pipe y = wf_pipe x"
  using assms by (simp_all add: pipe_data_def PIPE_SIZE_def wf_pipe_def)

text \<open>Two states with the same pipe and the same user memory.\<close>

definition pipe_same :: "nat \<Rightarrow> 'a fsys_scheme \<Rightarrow> 'a fsys_scheme \<Rightarrow> bool" where
  "pipe_same i s t \<longleftrightarrow> phys t = phys s \<and> user t = user s \<and> length (inode_table t) = length (inode_table s) \<and>
     i_zone (inode_table t ! i) = i_zone (inode_table s ! i) \<and> i_size (inode_table t ! i) = i_size (inode_table s ! i)"

lemma pipe_same_facts:
  assumes "pipe_same i s t"
  shows "is_pipe i t = is_pipe i s" "pipe_queue i t = pipe_queue i s" "pipe_size i t = pipe_size i s" "user t = user s"
  using assms pipe_data_frame [of "inode_table t ! i" "inode_table s ! i"]
  by (simp_all add: pipe_same_def is_pipe_def pipe_queue_def)

text \<open>The task that waited for the pipe in \<open>s\<close>, if any, can run in \<open>t\<close>.\<close>

definition awake :: "nat \<Rightarrow> 'a sched_scheme \<Rightarrow> bool" where
  "awake k s \<longleftrightarrow> (\<exists>p. task s ! k = Some p \<and> state p = TASK_RUNNING)"

definition woken :: "nat \<Rightarrow> 'a fsys_scheme \<Rightarrow> 'a fsys_scheme \<Rightarrow> bool" where
  "woken i s t \<longleftrightarrow> (\<forall>k. i_wait (inode_table s ! i) = Some k \<longrightarrow> k < length (task s) \<longrightarrow> task s ! k \<noteq> None \<longrightarrow> awake k t)"

lemma wake_then:
  assumes i: "i < length (inode_table s)"
  obtains t where "pipe_same i s t" "woken i s t" "\<And>m :: ('a fsys_scheme, 'b) km. kseq (wake_inode i) m s = m t"
proof -
  let ?s = "s\<lparr>inode_table := (inode_table s)[i := (inode_table s ! i)\<lparr>i_wait := None\<rparr>]\<rparr>"
  let ?t = "snd (wake_up (i_wait (inode_table s ! i)) ?s)"
  have "wake_inode i s = Ret () ?t" using i by (simp add: wake_inode_def wake_wait_def km_simps)
  moreover have "pipe_same i s ?t" "woken i s ?t"
    using i by (auto simp: pipe_same_def woken_def awake_def wake_up_def upd_task_def split: option.splits)
  ultimately show thesis by (intro that [of ?t]) (auto simp: km_simps)
qed

lemma woken_rd: "is_pipe i s \<Longrightarrow> woken i (pipe_rd i ub n s) t \<Longrightarrow> woken i s t"
  and woken_wr: "is_pipe i s \<Longrightarrow> woken i (pipe_wr i ub n s) t \<Longrightarrow> woken i s t"
  by (auto simp: woken_def pipe_rd_def pipe_wr_def is_pipe_def adv_tail_def adv_head_def)

lemma read_pipe_run:
  fixes count :: int
  assumes p: "is_pipe i s"
  defines "k \<equiv> min (nat count) (pipe_size i s)"
  obtains t where "pipe_same i (pipe_rd i ub k s) t" "woken i s t"
    "read_pipe i ub count s = (if nat count \<le> pipe_size i s \<or> i_count (inode_table s ! i) \<noteq> 2 then Ret (int k) t else Stop Sleeps t)"
proof -
  have "i < length (inode_table (pipe_rd i ub k s))" using pipe_rd_simps(2) [OF p] by (simp add: is_pipe_def)
  from wake_then [OF this] obtain t where t: "pipe_same i (pipe_rd i ub k s) t" "woken i (pipe_rd i ub k s) t"
    "\<And>m :: ('a fsys_scheme, int) km. kseq (wake_inode i) m (pipe_rd i ub k s) = m t" by blast
  have "read_pipe i ub count s = (if nat count \<le> pipe_size i s \<or> i_count (inode_table s ! i) \<noteq> 2 then Ret (int k) t else Stop Sleeps t)"
    using t(3) unfolding read_pipe_def read_pipe_loop_run [OF p lessI] k_def
    by (cases "nat count \<le> pipe_size i s") (auto simp: min_def km_simps)
  then show thesis using that t(1) woken_rd [OF p t(2)] by blast
qed

lemma pipe_same_upd_cur: "pipe_same i s t \<Longrightarrow> pipe_same i s (upd_cur f t)"
  by (simp add: pipe_same_def upd_cur_def)

lemma awake_upd_cur: "awake k t \<Longrightarrow> awake k (upd_cur (\<lambda>p. p\<lparr>signal := f p\<rparr>) t)"
  by (cases "current t = k"; cases "k < length (task t)") (auto simp: awake_def upd_cur_def list_update_beyond)

lemma woken_upd_cur: "woken i s t \<Longrightarrow> woken i s (upd_cur (\<lambda>p. p\<lparr>signal := f p\<rparr>) t)"
  by (simp add: woken_def awake_upd_cur)

lemma write_pipe_run:
  fixes count :: int
  assumes p: "is_pipe i s"
  defines "k \<equiv> min (nat count) (4095 - pipe_size i s)"
  obtains t r where "pipe_same i (pipe_wr i ub k s) t" "woken i s t" "r = int k \<or> k = 0 \<and> r = -1"
    "write_pipe i ub count s = (if nat count \<le> 4095 - pipe_size i s \<or> i_count (inode_table s ! i) \<noteq> 2 then Ret r t else Stop Sleeps t)"
proof -
  have "i < length (inode_table (pipe_wr i ub k s))" using pipe_wr_simps(2) [OF p] by (simp add: is_pipe_def)
  from wake_then [OF this] obtain t where t: "pipe_same i (pipe_wr i ub k s) t" "woken i (pipe_wr i ub k s) t"
    "\<And>m :: ('a fsys_scheme, int) km. kseq (wake_inode i) m (pipe_wr i ub k s) = m t" by blast
  let ?t = "upd_cur (\<lambda>p. p\<lparr>signal := signal p OR sigbit SIGPIPE\<rparr>) t"
  let ?c = "nat count \<le> 4095 - pipe_size i s"
  have "write_pipe i ub count s = (if ?c \<or> i_count (inode_table s ! i) \<noteq> 2
      then Ret (if ?c \<or> k \<noteq> 0 then int k else -1) (if ?c then t else ?t) else Stop Sleeps (if ?c \<or> i_count (inode_table s ! i) \<noteq> 2 then ?t else t))"
    using t(3) unfolding write_pipe_def write_pipe_loop_run [OF p lessI] k_def
    by (cases ?c) (auto simp: min_def km_simps send_sigpipe_def)
  moreover have "pipe_same i (pipe_wr i ub k s) ?t" using t(1) by (rule pipe_same_upd_cur)
  moreover have w: "woken i s t" by (rule woken_wr [OF p t(2)])
  moreover have "woken i s ?t" by (rule woken_upd_cur [OF w])
  ultimately show thesis using that t(1) by (cases "?c \<or> i_count (inode_table s ! i) \<noteq> 2") (cases ?c; force)+
qed

lemma pipe_rd_queue:
  assumes p: "is_pipe i s" and k: "k \<le> pipe_size i s"
  shows "pipe_queue i s = rbytes (user (pipe_rd i ub k s)) ub k @ pipe_queue i (pipe_rd i ub k s)"
    and "pipe_size i (pipe_rd i ub k s) = pipe_size i s - k"
proof -
  have x: "wf_pipe (inode_table s ! i)" using p by (simp add: is_pipe_def)
  have "k < 2 ^ 32" using k PIPE_SIZE_less [of "inode_table s ! i"] by simp
  then have "rbytes (user (pipe_rd i ub k s)) ub k = take k (pipe_queue i s)"
    using read_wbytes [of "take k (pipe_queue i s)" ub "user s"] k by (simp add: pipe_rd_def pipe_queue_def min_absorb2)
  moreover have "pipe_queue i (pipe_rd i ub k s) = drop k (pipe_queue i s)"
    unfolding pipe_queue_def pipe_rd_simps(1,3) [OF p] by (rule adv_tail_data(2) [OF x k])
  ultimately show "pipe_queue i s = rbytes (user (pipe_rd i ub k s)) ub k @ pipe_queue i (pipe_rd i ub k s)" by simp
  show "pipe_size i (pipe_rd i ub k s) = pipe_size i s - k"
    unfolding pipe_rd_simps(1) [OF p] by (rule adv_tail_data(1) [OF x k])
qed

lemma pipe_wr_queue:
  assumes p: "is_pipe i s" and k: "k \<le> 4095 - pipe_size i s"
  shows "pipe_queue i (pipe_wr i ub k s) = pipe_queue i s @ rbytes (user s) ub k"
    and "pipe_size i (pipe_wr i ub k s) = pipe_size i s + k"
proof -
  have x: "wf_pipe (inode_table s ! i)" using p by (simp add: is_pipe_def)
  have k': "pipe_size i s + length (rbytes (user s) ub k) \<le> 4095" using k PIPE_SIZE_less [of "inode_table s ! i"] by simp
  show "pipe_queue i (pipe_wr i ub k s) = pipe_queue i s @ rbytes (user s) ub k"
    using pipe_data_put [OF x k', of "phys s"] unfolding pipe_queue_def pipe_wr_simps(1) [OF p] by (simp add: pipe_wr_def)
  show "pipe_size i (pipe_wr i ub k s) = pipe_size i s + k"
    unfolding pipe_wr_simps(1) [OF p] by (rule adv_head_size [OF x k])
qed

section \<open>First in, first out\<close>

text \<open>
  The life of a pipe: calls of \<open>write_pipe\<close> and \<open>read_pipe\<close>, complete or up to the point where
  the caller falls asleep (what the call has moved until then is the change of the pipe's size;
  the rest of it is a later call), between which anything may happen that leaves the pipe's
  inode and page alone.
\<close>

inductive pipe_step :: "nat \<Rightarrow> 'a fsys_scheme \<Rightarrow> u8 list \<Rightarrow> u8 list \<Rightarrow> 'a fsys_scheme \<Rightarrow> bool"
  for i where
  pipe_write: "write_pipe i ub count s = Ret r t \<Longrightarrow> pipe_step i s (rbytes (user s) ub (nat r)) [] t"
| pipe_write_sleep: "write_pipe i ub count s = Stop Sleeps t \<Longrightarrow>
    pipe_step i s (rbytes (user s) ub (pipe_size i t - pipe_size i s)) [] t"
| pipe_read: "read_pipe i ub count s = Ret r t \<Longrightarrow> pipe_step i s [] (rbytes (user t) ub (nat r)) t"
| pipe_read_sleep: "read_pipe i ub count s = Stop Sleeps t \<Longrightarrow>
    pipe_step i s [] (rbytes (user t) ub (pipe_size i s - pipe_size i t)) t"
| pipe_other: "is_pipe i t \<Longrightarrow> pipe_queue i t = pipe_queue i s \<Longrightarrow> pipe_step i s [] [] t"

lemma write_pipe_ends:
  assumes p: "is_pipe i s"
  shows "write_pipe i ub count s = Ret r t \<Longrightarrow> nat r \<le> 4095 - pipe_size i s \<and> pipe_same i (pipe_wr i ub (nat r) s) t"
    and "write_pipe i ub count s = Stop h t \<Longrightarrow> \<exists>k \<le> 4095 - pipe_size i s. pipe_same i (pipe_wr i ub k s) t"
proof -
  let ?k = "min (nat count) (4095 - pipe_size i s)"
  obtain t' r' where w: "pipe_same i (pipe_wr i ub ?k s) t'" "woken i s t'" "r' = int ?k \<or> ?k = 0 \<and> r' = -1"
    "write_pipe i ub count s = (if nat count \<le> 4095 - pipe_size i s \<or> i_count (inode_table s ! i) \<noteq> 2 then Ret r' t' else Stop Sleeps t')"
    using write_pipe_run [OF p] .
  have "nat r' = ?k" using w(3) by auto
  then show "write_pipe i ub count s = Ret r t \<Longrightarrow> nat r \<le> 4095 - pipe_size i s \<and> pipe_same i (pipe_wr i ub (nat r) s) t"
    using w(1,4) by (simp split: if_splits)
  show "write_pipe i ub count s = Stop h t \<Longrightarrow> \<exists>k \<le> 4095 - pipe_size i s. pipe_same i (pipe_wr i ub k s) t"
    using w(1,4) by (intro exI [of _ ?k]) (simp split: if_splits)
qed

lemma read_pipe_ends:
  assumes p: "is_pipe i s"
  shows "read_pipe i ub count s = Ret r t \<Longrightarrow> nat r \<le> pipe_size i s \<and> pipe_same i (pipe_rd i ub (nat r) s) t"
    and "read_pipe i ub count s = Stop h t \<Longrightarrow> \<exists>k \<le> pipe_size i s. pipe_same i (pipe_rd i ub k s) t"
proof -
  let ?k = "min (nat count) (pipe_size i s)"
  obtain t' where w: "pipe_same i (pipe_rd i ub ?k s) t'" "woken i s t'"
    "read_pipe i ub count s = (if nat count \<le> pipe_size i s \<or> i_count (inode_table s ! i) \<noteq> 2 then Ret (int ?k) t' else Stop Sleeps t')"
    using read_pipe_run [OF p] .
  then show "read_pipe i ub count s = Ret r t \<Longrightarrow> nat r \<le> pipe_size i s \<and> pipe_same i (pipe_rd i ub (nat r) s) t"
    by (auto split: if_splits simp del: of_nat_min)
  show "read_pipe i ub count s = Stop h t \<Longrightarrow> \<exists>k \<le> pipe_size i s. pipe_same i (pipe_rd i ub k s) t"
    using w by (intro exI [of _ ?k]) (simp split: if_splits)
qed

lemma pipe_step_fifo:
  assumes "pipe_step i s a b t" and p: "is_pipe i s"
  shows "is_pipe i t \<and> pipe_queue i s @ a = b @ pipe_queue i t"
  using assms(1)
proof cases
  case (pipe_write ub count r)
  then show ?thesis using write_pipe_ends(1) [OF p pipe_write(3)] pipe_wr_queue(1) [OF p] pipe_wr_simps(2) [OF p]
    by (auto simp: pipe_same_facts)
next
  case (pipe_write_sleep ub count)
  then show ?thesis using write_pipe_ends(2) [OF p pipe_write_sleep(3)] pipe_wr_queue [OF p] pipe_wr_simps(2) [OF p]
    by (auto simp: pipe_same_facts)
next
  case (pipe_read ub count r)
  then show ?thesis using read_pipe_ends(1) [OF p pipe_read(3)] pipe_rd_queue(1) [OF p] pipe_rd_simps(2) [OF p]
    by (auto simp: pipe_same_facts)
next
  case (pipe_read_sleep ub count)
  then show ?thesis using read_pipe_ends(2) [OF p pipe_read_sleep(3)] pipe_rd_queue [OF p] pipe_rd_simps(2) [OF p]
    by (auto simp: pipe_same_facts)
next
  case pipe_other
  then show ?thesis by simp
qed

interpretation pipe: bounded_fifo "pipe_step i" "is_pipe i" "pipe_queue i" 4095 for i
proof unfold_locales
  show "length (pipe_queue i s) \<le> 4095" for s :: "'a fsys_scheme"
    using PIPE_SIZE_less [of "inode_table s ! i"] by (simp add: pipe_queue_def)
qed (use pipe_step_fifo in blast)+

text \<open>
  C15: a pipe is a queue of at most 4095 bytes: whatever calls of \<open>write\<close> and \<open>read\<close> are made on
  it, of whatever sizes and whether or not they sleep in between, the bytes that readers have
  got, followed by the contents of the page between tail and head, are the bytes the writers
  have put in, in order.
\<close>

theorem pipe_fifo:
  assumes "runs (pipe_step i) s sent got t" and "is_pipe i s" and "pipe_queue i s = []"
  shows "sent = got @ pipe_queue i t \<and> length got \<le> length sent \<and> length sent \<le> length got + 4095"
  using pipe.runs_fifo [OF assms] by blast

text \<open>
  C22: no call on a pipe sleeps without cause, and none leaves the other side asleep: whoever waited
  for the pipe can run again when the call returns or sleeps; a reader sleeps only when there is
  nothing left to read and a writer may still come, a writer only when the pipe is full and a
  reader may still come. Both loops end, for any count.
\<close>

theorem pipe_progress:
  assumes "is_pipe i s" and "i_wait (inode_table s ! i) = Some k" and "k < length (task s)" and "task s ! k \<noteq> None"
  shows "(\<exists>t. awake k t \<and>
      (read_pipe i ub count s = Ret (int (min (nat count) (length (pipe_queue i s)))) t \<or>
       read_pipe i ub count s = Stop Sleeps t \<and> pipe_queue i t = [] \<and> i_count (inode_table s ! i) = 2)) \<and>
    (\<exists>t. awake k t \<and>
      ((\<exists>r. write_pipe i ub count s = Ret r t) \<or>
       write_pipe i ub count s = Stop Sleeps t \<and> length (pipe_queue i t) = 4095 \<and> i_count (inode_table s ! i) = 2))"
proof -
  have w: "awake k t" if "woken i s t" for t using that assms(2-4) by (simp add: woken_def)
  let ?k = "min (nat count) (pipe_size i s)" let ?m = "min (nat count) (4095 - pipe_size i s)"
  obtain t where t: "pipe_same i (pipe_rd i ub ?k s) t" "woken i s t"
    "read_pipe i ub count s = (if nat count \<le> pipe_size i s \<or> i_count (inode_table s ! i) \<noteq> 2 then Ret (int ?k) t else Stop Sleeps t)"
    using read_pipe_run [OF assms(1)] .
  have "length (pipe_queue i t) = pipe_size i s - ?k"
    using pipe_rd_queue(2) [OF assms(1), of ?k ub] pipe_same_facts(3) [OF t(1)] by (simp add: pipe_queue_def)
  then have 1: "awake k t \<and> (read_pipe i ub count s = Ret (int (min (nat count) (length (pipe_queue i s)))) t \<or>
       read_pipe i ub count s = Stop Sleeps t \<and> pipe_queue i t = [] \<and> i_count (inode_table s ! i) = 2)"
    using t(2,3) w by (cases "nat count \<le> pipe_size i s") (auto simp: pipe_queue_def min_def simp flip: length_0_conv)
  obtain u r where u: "pipe_same i (pipe_wr i ub ?m s) u" "woken i s u" "r = int ?m \<or> ?m = 0 \<and> r = -1"
    "write_pipe i ub count s = (if nat count \<le> 4095 - pipe_size i s \<or> i_count (inode_table s ! i) \<noteq> 2 then Ret r u else Stop Sleeps u)"
    using write_pipe_run [OF assms(1)] .
  have "length (pipe_queue i u) = pipe_size i s + ?m"
    using pipe_wr_queue(2) [OF assms(1), of ?m ub] pipe_same_facts(3) [OF u(1)] by (simp add: pipe_queue_def)
  then have 2: "awake k u \<and> ((\<exists>r. write_pipe i ub count s = Ret r u) \<or>
       write_pipe i ub count s = Stop Sleeps u \<and> length (pipe_queue i u) = 4095 \<and> i_count (inode_table s ! i) = 2)"
    using u(2,4) w PIPE_SIZE_less [of "inode_table s ! i"] by auto
  show ?thesis using 1 2 by blast
qed

text \<open>An empty pipe whose tail is close to the end of its page, and a program that has stored four bytes in its memory.\<close>

definition ex_pipe :: fsys where
  "ex_pipe = ex_fs\<lparr>inode_table := [zero_inode\<lparr>i_count := 2, i_pipe := 1, i_size := 0x5000, i_zone := [4094, 4094, 0, 0, 0, 0, 0, 0, 0]\<rparr>],
     user := (\<lambda>a. if a < 4 then ucast a + 7 else 0)\<rparr>"

theorem pipe_fifo_witness:
  "\<exists>t. runs (pipe_step 0) ex_pipe [7, 8, 9, 10] [7, 8] t \<and> pipe_queue 0 t = [9, 10]"
proof -
  let ?s = "ex_pipe"
  have p: "is_pipe 0 ?s" "pipe_size 0 ?s = 0" by (simp_all add: ex_pipe_def is_pipe_def wf_pipe_def PIPE_SIZE_def)
  have q: "pipe_queue 0 ?s = []" by (simp add: ex_pipe_def pipe_queue_def pipe_data_def PIPE_SIZE_def)
  have d: "rbytes (user ?s) 0 4 = [7, 8, 9, 10]" by (simp add: ex_pipe_def rbytes_def upt_rec)
  obtain t r where t: "pipe_same 0 (pipe_wr 0 0 4 ?s) t" "r = 4 \<or> False" "write_pipe 0 0 4 ?s = Ret r t"
    using write_pipe_run [OF p(1), of 0 4] p(2) by simp blast
  have pt: "is_pipe 0 t" "pipe_size 0 t = 4"
    using pipe_same_facts(1,3) [OF t(1)] pipe_wr_simps(2) [OF p(1)] pipe_wr_queue(2) [OF p(1), of 4 0] p(2) by simp_all
  obtain u where u: "read_pipe 0 0 2 t = Ret 2 u" using read_pipe_run [OF pt(1), of 0 2] pt(2) by auto
  have "runs (pipe_step 0) ?s ([] @ [7, 8, 9, 10]) ([] @ []) t"
    using pipe_write [OF t(3)] t(2) d by (intro runs_step [OF runs_refl]) simp
  then have "runs (pipe_step 0) ?s ([7, 8, 9, 10] @ []) ([] @ rbytes (user u) 0 2) u"
    using pipe_read [OF u] by (intro runs_step) simp_all
  then have r: "runs (pipe_step 0) ?s [7, 8, 9, 10] (rbytes (user u) 0 2) u" by simp
  then have "[7, 8, 9, 10] = rbytes (user u) 0 2 @ pipe_queue 0 u" using pipe_fifo [OF r p(1) q] by blast
  moreover obtain x y where "rbytes (user u) 0 2 = [x, y]" by (simp add: rbytes_def upt_rec)
  ultimately show ?thesis using r by (intro exI [of _ u]) auto
qed

theorem pipe_progress_witness:
  "\<exists>t. awake 0 t \<and> read_pipe 0 0 5 (ex_pipe\<lparr>inode_table := [(inode_table ex_pipe ! 0)\<lparr>i_wait := Some 0\<rparr>]\<rparr>) = Stop Sleeps t \<and> pipe_queue 0 t = []"
proof -
  let ?s = "ex_pipe\<lparr>inode_table := [(inode_table ex_pipe ! 0)\<lparr>i_wait := Some 0\<rparr>]\<rparr>"
  have p: "is_pipe 0 ?s" "pipe_size 0 ?s = 0" "i_count (inode_table ?s ! 0) = 2" "i_wait (inode_table ?s ! 0) = Some 0"
    by (simp_all add: ex_pipe_def is_pipe_def wf_pipe_def PIPE_SIZE_def)
  have t: "0 < length (task ?s)" "task ?s ! 0 \<noteq> None"
    by (simp_all add: ex_pipe_def ex_fs_def ex_blk_def ex_mm_def boot_sched_def two_tasks_def sched.defs mm.defs blk.defs fsys.defs)
  obtain u where "read_pipe 0 0 5 ?s = (if nat 5 \<le> pipe_size 0 ?s \<or> i_count (inode_table ?s ! 0) \<noteq> 2
      then Ret (int (min (nat 5) (pipe_size 0 ?s))) u else Stop Sleeps u)" by (rule read_pipe_run [OF p(1), of 0 5])
  then have "read_pipe 0 0 5 ?s = Stop Sleeps u" unfolding p(2,3) by simp
  moreover note pipe_progress [OF p(1,4) t, of 0 5, THEN conjunct1]
  ultimately show ?thesis by (metis outcome.distinct(1))
qed

end
