(* ===== verification/Strings.thy ===== *)
theory Strings
  imports Bytes "HOL-Library.Sublist"
begin

text \<open>
  The string functions of \<open>include/string.h\<close>, instruction by instruction, on a memory of bytes, and
  what the most intricate of them compute: block moves with overlap, comparison, search for a
  substring.
\<close>

section \<open>String instructions\<close>

text \<open>
  The repeated string instructions with the direction flag clear. \<open>zf\<close> is the zero flag before the
  instruction, which a count of 0 leaves as it is.
\<close>

function repne_scasb :: "bmem \<Rightarrow> u8 \<Rightarrow> bool \<Rightarrow> u32 \<Rightarrow> u32 \<Rightarrow> u32 \<times> u32 \<times> bool" where
  "repne_scasb m al zf edi ecx =
     (if ecx = 0 then (edi, ecx, zf)
      else if m edi = al then (edi + 1, ecx - 1, True)
      else repne_scasb m al False (edi + 1) (ecx - 1))"
  by auto

termination
  by (relation "measure (\<lambda>(m, al, zf, edi, ecx). unat ecx)") (auto simp: word_minus_one_unat unat_gt_0)

function repe_cmpsb :: "bmem \<Rightarrow> bool \<Rightarrow> u32 \<Rightarrow> u32 \<Rightarrow> u32 \<Rightarrow> u32 \<times> u32 \<times> bool" where
  "repe_cmpsb m zf esi edi ecx =
     (if ecx = 0 then (esi, edi, zf)
      else if m esi \<noteq> m edi then (esi + 1, edi + 1, False)
      else repe_cmpsb m True (esi + 1) (edi + 1) (ecx - 1))"
  by auto

termination
  by (relation "measure (\<lambda>(m, zf, esi, edi, ecx). unat ecx)") (auto simp: word_minus_one_unat unat_gt_0)

function rep_stosb :: "u8 \<Rightarrow> u32 \<Rightarrow> u32 \<Rightarrow> bmem \<Rightarrow> bmem" where
  "rep_stosb al edi ecx m = (if ecx = 0 then m else rep_stosb al (edi + 1) (ecx - 1) (m(edi := al)))"
  by auto

termination
  by (relation "measure (\<lambda>(al, edi, ecx, m). unat ecx)") (auto simp: word_minus_one_unat unat_gt_0)

text \<open>\<open>rep movsb\<close>, with the step \<open>d\<close> of the two pointers: 1, or -1 after \<open>std\<close>.\<close>

function rep_movsb :: "u32 \<Rightarrow> u32 \<Rightarrow> u32 \<Rightarrow> u32 \<Rightarrow> bmem \<Rightarrow> bmem" where
  "rep_movsb d esi edi ecx m = (if ecx = 0 then m else rep_movsb d (esi + d) (edi + d) (ecx - 1) (m(edi := m esi)))"
  by auto

termination
  by (relation "measure (\<lambda>(d, esi, edi, ecx, m). unat ecx)") (auto simp: word_minus_one_unat unat_gt_0)

declare repne_scasb.simps [simp del] repe_cmpsb.simps [simp del] rep_stosb.simps [simp del] rep_movsb.simps [simp del]

section \<open>The functions of \<open>string.h\<close>\<close>

text \<open>
  Loops that only the data ends are partial functions, with \<open>None\<close> for a string that has no end.
  Comparisons after which the code uses \<open>jl\<close> are signed.
\<close>

partial_function (option) strcpy_loop :: "u32 \<Rightarrow> u32 \<Rightarrow> bmem \<Rightarrow> bmem option" where
  "strcpy_loop esi edi m =
     (let al = m esi; m = m(edi := al)
      in if al \<noteq> 0 then strcpy_loop (esi + 1) (edi + 1) m else Some m)"

definition strcpy :: "u32 \<Rightarrow> u32 \<Rightarrow> bmem \<Rightarrow> bmem option" where
  "strcpy dest src m = strcpy_loop src dest m"

function strncpy_loop :: "u32 \<Rightarrow> u32 \<Rightarrow> u32 \<Rightarrow> bmem \<Rightarrow> bmem" where
  "strncpy_loop esi edi ecx m =
     (if sint (ecx - 1) < 0 then m
      else let al = m esi; m = m(edi := al)
        in if al \<noteq> 0 then strncpy_loop (esi + 1) (edi + 1) (ecx - 1) m
        else rep_stosb al (edi + 1) (ecx - 1) m)"
  by auto

lemma decl_js: "\<not> sint (c - 1 :: u32) < 0 \<Longrightarrow> c \<noteq> 0"
  by auto

termination strncpy_loop
  by (relation "measure (\<lambda>(esi, edi, ecx, m). unat ecx)") (auto dest!: decl_js simp: word_minus_one_unat unat_gt_0)

definition strncpy :: "u32 \<Rightarrow> u32 \<Rightarrow> u32 \<Rightarrow> bmem \<Rightarrow> bmem" where
  "strncpy dest src count m = strncpy_loop src dest count m"

definition strcat :: "u32 \<Rightarrow> u32 \<Rightarrow> bmem \<Rightarrow> bmem option" where
  "strcat dest src m =
     (let (edi, _, _) = repne_scasb m 0 False dest (-1) in strcpy_loop src (edi - 1) m)"

function strncat_loop :: "u32 \<Rightarrow> u32 \<Rightarrow> u32 \<Rightarrow> bmem \<Rightarrow> bmem" where
  "strncat_loop esi edi ecx m =
     (if sint (ecx - 1) < 0 then m(edi := 0)
      else let al = m esi; m = m(edi := al)
        in if al \<noteq> 0 then strncat_loop (esi + 1) (edi + 1) (ecx - 1) m
        else m(edi + 1 := 0))"
  by auto

termination
  by (relation "measure (\<lambda>(esi, edi, ecx, m). unat ecx)") (auto dest!: decl_js simp: word_minus_one_unat unat_gt_0)

definition strncat :: "u32 \<Rightarrow> u32 \<Rightarrow> u32 \<Rightarrow> bmem \<Rightarrow> bmem" where
  "strncat dest src count m =
     (let (edi, _, _) = repne_scasb m 0 False dest (-1) in strncat_loop src (edi - 1) count m)"

partial_function (option) strcmp_loop :: "u32 \<Rightarrow> u32 \<Rightarrow> bmem \<Rightarrow> int option" where
  "strcmp_loop esi edi m =
     (let al = m esi
      in if al \<noteq> m edi then Some (if sint al < sint (m edi) then 1 else -1)
      else if al \<noteq> 0 then strcmp_loop (esi + 1) (edi + 1) m else Some 0)"

definition strcmp :: "u32 \<Rightarrow> u32 \<Rightarrow> bmem \<Rightarrow> int option" where
  "strcmp cs ct m = strcmp_loop ct cs m"

function strncmp_loop :: "u32 \<Rightarrow> u32 \<Rightarrow> u32 \<Rightarrow> bmem \<Rightarrow> int" where
  "strncmp_loop esi edi ecx m =
     (if sint (ecx - 1) < 0 then 0
      else let al = m esi
        in if al \<noteq> m edi then (if sint al < sint (m edi) then 1 else -1)
        else if al \<noteq> 0 then strncmp_loop (esi + 1) (edi + 1) (ecx - 1) m else 0)"
  by auto

termination
  by (relation "measure (\<lambda>(esi, edi, ecx, m). unat ecx)") (auto dest!: decl_js simp: word_minus_one_unat unat_gt_0)

definition strncmp :: "u32 \<Rightarrow> u32 \<Rightarrow> u32 \<Rightarrow> bmem \<Rightarrow> int" where
  "strncmp cs ct count m = strncmp_loop ct cs count m"

declare strncpy_loop.simps [simp del] strncat_loop.simps [simp del] strncmp_loop.simps [simp del]

partial_function (option) strchr :: "u32 \<Rightarrow> u8 \<Rightarrow> bmem \<Rightarrow> u32 option" where
  "strchr s c m = (if m s = c then Some s else if m s \<noteq> 0 then strchr (s + 1) c m else Some 0)"

partial_function (option) strrchr_loop :: "u32 \<Rightarrow> u32 \<Rightarrow> u8 \<Rightarrow> bmem \<Rightarrow> u32 option" where
  "strrchr_loop res esi c m =
     (let res = (if m esi = c then esi else res)
      in if m esi \<noteq> 0 then strrchr_loop res (esi + 1) c m else Some res)"

definition strrchr :: "u32 \<Rightarrow> u8 \<Rightarrow> bmem \<Rightarrow> u32 option" where
  "strrchr s c m = strrchr_loop 0 s c m"

definition strlen :: "u32 \<Rightarrow> bmem \<Rightarrow> u32" where
  "strlen s m = (let (_, ecx, _) = repne_scasb m 0 False s (-1) in NOT ecx - 1)"

text \<open>
  The common loop of \<open>strspn\<close>, \<open>strcspn\<close> and \<open>strpbrk\<close>: it stops behind the first byte that is 0 or
  that is (\<open>b\<close>: is not) in the set of the \<open>edx\<close> bytes at \<open>ct\<close>, and tells whether the byte was 0.
\<close>

partial_function (option) span_loop :: "bool \<Rightarrow> u32 \<Rightarrow> u32 \<Rightarrow> u32 \<Rightarrow> bmem \<Rightarrow> (u32 \<times> bool) option" where
  "span_loop b ct edx esi m =
     (let al = m esi
      in if al = 0 then Some (esi + 1, True)
      else let (_, _, zf) = repne_scasb m al False ct edx
        in if zf = b then span_loop b ct edx (esi + 1) m else Some (esi + 1, False))"

definition strspn :: "u32 \<Rightarrow> u32 \<Rightarrow> bmem \<Rightarrow> u32 option" where
  "strspn cs ct m = map_option (\<lambda>(esi, _). esi - 1 - cs) (span_loop True ct (strlen ct m) cs m)"

definition strcspn :: "u32 \<Rightarrow> u32 \<Rightarrow> bmem \<Rightarrow> u32 option" where
  "strcspn cs ct m = map_option (\<lambda>(esi, _). esi - 1 - cs) (span_loop False ct (strlen ct m) cs m)"

definition strpbrk :: "u32 \<Rightarrow> u32 \<Rightarrow> bmem \<Rightarrow> u32 option" where
  "strpbrk cs ct m = map_option (\<lambda>(esi, z). if z then 0 else esi - 1) (span_loop False ct (strlen ct m) cs m)"

text \<open>\<open>zf\<close> is the zero flag of the \<open>decl\<close> before the loop, which counts for an empty \<open>ct\<close>.\<close>

partial_function (option) strstr_loop :: "bool \<Rightarrow> u32 \<Rightarrow> u32 \<Rightarrow> u32 \<Rightarrow> bmem \<Rightarrow> u32 option" where
  "strstr_loop zf ct edx esi m =
     (let (p, _, z) = repe_cmpsb m zf esi ct edx
      in if z then Some esi
      else if m (p - 1) \<noteq> 0 then strstr_loop False ct edx (esi + 1) m else Some 0)"

definition strstr :: "u32 \<Rightarrow> u32 \<Rightarrow> bmem \<Rightarrow> u32 option" where
  "strstr cs ct m = strstr_loop (strlen ct m = 0) ct (strlen ct m) cs m"

definition memcpy :: "u32 \<Rightarrow> u32 \<Rightarrow> u32 \<Rightarrow> bmem \<Rightarrow> bmem" where
  "memcpy dest src n m = rep_movsb 1 src dest n m"

definition memmove :: "u32 \<Rightarrow> u32 \<Rightarrow> u32 \<Rightarrow> bmem \<Rightarrow> bmem" where
  "memmove dest src n m =
     (if dest < src then rep_movsb 1 src dest n m
      else rep_movsb (-1) (src + n - 1) (dest + n - 1) n m)"

text \<open>With a count of 0, the result of \<open>memcmp\<close> depends on the flags that the code before it left: \<open>None\<close>.\<close>

definition memcmp :: "u32 \<Rightarrow> u32 \<Rightarrow> u32 \<Rightarrow> bmem \<Rightarrow> int option" where
  "memcmp cs ct count m =
     (if count = 0 then None
      else let (esi, edi, zf) = repe_cmpsb m True ct cs count
        in Some (if zf then 0 else if sint (m (esi - 1)) < sint (m (edi - 1)) then 1 else -1))"

definition memchr :: "u32 \<Rightarrow> u8 \<Rightarrow> u32 \<Rightarrow> bmem \<Rightarrow> u32" where
  "memchr cs c count m =
     (if count = 0 then 0
      else let (edi, _, zf) = repne_scasb m c False cs count in (if zf then edi else 1) - 1)"

definition memset :: "u32 \<Rightarrow> u8 \<Rightarrow> u32 \<Rightarrow> bmem \<Rightarrow> bmem" where
  "memset s c count m = rep_stosb c s count m"

text \<open>
  \<open>strtok\<close> with the static pointer \<open>tk\<close>: the token, the new pointer and the memory. The two loops
  skip delimiters and look for the next one; \<open>(%1)\<close> is \<open>esi\<close>, and \<open>(%0)\<close> the start of the token.
\<close>

definition strtok :: "u32 \<Rightarrow> u32 \<Rightarrow> u32 \<Rightarrow> bmem \<Rightarrow> (u32 \<times> u32 \<times> bmem) option" where
  "strtok tk s ct m =
     (if s = 0 \<and> tk = 0 then Some (0, 0, m)
      else
        let esi = (if s \<noteq> 0 then s else tk); edx = strlen ct m
        in if edx = 0 then Some (0, 0, m)
        else case span_loop True ct edx esi m of None \<Rightarrow> None
        | Some (p, z) \<Rightarrow>
            if z \<or> m (p - 1) = 0 then Some (0, 0, m)
            else let tok = p - 1
              in case span_loop False ct edx tok m of None \<Rightarrow> None
              | Some (q, z) \<Rightarrow>
                  let (esi, m) = (if z \<or> m (q - 1) = 0 then (0, m) else (q, m(q - 1 := 0)))
                  in if m tok \<noteq> 0 then Some (tok, esi, m) else Some (0, 0, m))"

section \<open>Strings in memory\<close>

primrec cstr :: "bmem \<Rightarrow> u32 \<Rightarrow> u8 list \<Rightarrow> bool" where
  "cstr m a [] \<longleftrightarrow> m a = 0"
| "cstr m a (x # xs) \<longleftrightarrow> m a = x \<and> x \<noteq> 0 \<and> cstr m (a + 1) xs"

lemma cstr_upd: "length xs < unat (b - a) \<Longrightarrow> cstr (m(b := v)) a xs = cstr m a xs"
proof (induction xs arbitrary: a)
  case Nil
  then show ?case by (auto simp: unat_gt_0)
next
  case (Cons x xs)
  have ne: "b \<noteq> a" using Cons.prems by auto
  have "b - a \<noteq> 0" using ne by simp
  then have "unat (b - (a + 1)) = unat (b - a) - 1" by (simp add: word_minus_one_unat flip: diff_diff_eq)
  then show ?case using Cons ne by auto
qed

lemma cstr_nth: "cstr m a xs \<Longrightarrow> i \<le> length xs \<Longrightarrow> m (a + of_nat i) = (xs @ [0]) ! i"
proof (induction xs arbitrary: a i)
  case (Cons x xs)
  show ?case
  proof (cases i)
    case (Suc j)
    then show ?thesis using Cons.IH [of "a + 1" j] Cons.prems by (simp add: add.assoc)
  qed (use Cons.prems in simp)
qed simp

lemma cstr_drop: "cstr m a xs \<Longrightarrow> k \<le> length xs \<Longrightarrow> cstr m (a + of_nat k) (drop k xs)"
proof (induction xs arbitrary: a k)
  case (Cons x xs)
  show ?case
  proof (cases k)
    case (Suc j)
    then show ?thesis using Cons.IH [of "a + 1" j] Cons.prems by (simp add: add.assoc)
  qed (use Cons.prems in simp)
qed simp

lemma cstr_set: "cstr m a xs \<Longrightarrow> 0 \<notin> set xs"
  by (induction xs arbitrary: a) auto

lemma minus_of_Suc: "c - of_nat (Suc n) = c - 1 - (of_nat n :: u32)"
  by simp

lemma scan_end:
  assumes "cstr m a xs" and "length xs < unat c"
  shows "repne_scasb m 0 zf a c = (a + of_nat (length xs + 1), c - of_nat (length xs + 1), True)"
  using assms
proof (induction xs arbitrary: a c zf)
  case Nil
  then have "c \<noteq> 0" by auto
  then show ?case using Nil by (subst repne_scasb.simps) simp
next
  case (Cons x xs)
  then have c: "c \<noteq> 0" by auto
  then have "length xs < unat (c - 1)" using Cons.prems by (simp add: word_minus_one_unat)
  then show ?case using Cons c by (subst repne_scasb.simps) (simp add: add_ac diff_diff_eq)
qed

lemma strlen_cstr:
  assumes "cstr m a xs" and "length xs < 2 ^ 32 - 1"
  shows "strlen a m = of_nat (length xs)"
proof -
  have u: "unat (-1 :: u32) = 2 ^ 32 - 1" by (simp add: unsigned_minus_1_eq_mask mask_eq_exp_minus_1)
  show ?thesis using scan_end [OF assms(1), of "-1" False] assms(2) u
    by (simp add: strlen_def not_eq_complement)
qed

lemma strcpy_run:
  assumes "cstr m src xs" and "length xs < 2 ^ 32" and "length xs < unat (dest - src)"
  shows "strcpy_loop src dest m = Some (wbytes dest (xs @ [0]) m)"
  using assms
proof (induction xs arbitrary: src dest m)
  case Nil
  then show ?case by (subst strcpy_loop.simps) (auto simp: wbytes_def fun_eq_iff unat_eq_0)
next
  case (Cons x xs)
  have 1: "cstr (m(dest := x)) (src + 1) xs"
  proof -
    have ne: "dest - src \<noteq> 0" using Cons.prems(3) by auto
    then have "length xs < unat (dest - (src + 1))"
      using Cons.prems(3) by (simp add: word_minus_one_unat flip: diff_diff_eq)
    then show ?thesis using Cons.prems(1) by (simp add: cstr_upd)
  qed
  have "strcpy_loop src dest m = strcpy_loop (src + 1) (dest + 1) (m(dest := x))"
    using Cons.prems(1) by (subst strcpy_loop.simps) (simp add: Let_def)
  also have "\<dots> = Some (wbytes (dest + 1) (xs @ [0]) (m(dest := x)))"
    by (intro Cons.IH 1) (use Cons.prems in auto)
  also have "m(dest := x) = wbytes dest [x] m" by (auto simp: wbytes_def fun_eq_iff unat_eq_0)
  also have "wbytes (dest + 1) (xs @ [0]) (wbytes dest [x] m) = wbytes dest ([x] @ xs @ [0]) m"
    using wbytes_append [of "[x]" "xs @ [0]" dest m] Cons.prems(2) by simp
  finally show ?case by simp
qed


section \<open>Block moves\<close>

lemma wbytes_snoc: "length d < 2 ^ 32 \<Longrightarrow> wbytes a (d @ [v]) m = (wbytes a d m)(a + of_nat (length d) := v)"
proof -
  assume l: "length d < 2 ^ 32"
  have "wbytes b [v] u = u(b := v)" for b u by (auto simp: wbytes_def fun_eq_iff unat_eq_0)
  then show ?thesis using wbytes_append [of d "[v]" a m] l by simp
qed

lemma wbytes_Cons: "length d < 2 ^ 32 \<Longrightarrow> wbytes a (v # d) m = wbytes (a + 1) d (m(a := v))"
proof -
  assume l: "length d < 2 ^ 32"
  have "wbytes b [v] u = u(b := v)" for b u by (auto simp: wbytes_def fun_eq_iff unat_eq_0)
  then show ?thesis using wbytes_append [of "[v]" d a m] l by simp
qed

lemma rbytes_upd: "(\<And>i. i < n \<Longrightarrow> a + of_nat i \<noteq> b) \<Longrightarrow> rbytes (m(b := v)) a n = rbytes m a n"
  by (auto simp: rbytes_def)

lemma rbytes_Suc: "rbytes m a (Suc n) = m a # rbytes m (a + 1) n"
proof -
  have "map (\<lambda>k. m (a + of_nat k)) [0..<Suc n] = m a # map (\<lambda>k. m (a + of_nat (Suc k))) [0..<n]"
    by (simp only: upt_conv_Cons map_Suc_upt [symmetric]) (simp add: comp_def del: upt_Suc)
  then show ?thesis by (simp add: rbytes_def add.assoc)
qed

lemma movsb_forward:
  assumes "unat n \<le> unat (dest - src)"
  shows "rep_movsb 1 src dest n m = wbytes dest (rbytes m src (unat n)) m"
  using assms
proof (induction "unat n" arbitrary: n src dest m)
  case 0
  then have "n = 0" by (simp add: unat_eq_0)
  then show ?case by (subst rep_movsb.simps) (simp add: rbytes_def)
next
  case (Suc k)
  then have n0: "n \<noteq> 0" by auto
  with Suc have n: "n \<noteq> 0" "unat (n - 1) = k" by (simp_all add: word_minus_one_unat flip: Suc.hyps(2))
  have "rbytes (m(dest := m src)) (src + 1) k = rbytes m (src + 1) k"
  proof (rule rbytes_upd)
    fix i assume "i < k"
    then have "unat (of_nat (Suc i) :: u32) = Suc i" "Suc i < unat (dest - src)"
      using Suc.hyps(2) Suc.prems unat32_less [of n] by (simp_all add: unat32_of_nat del: of_nat_Suc)
    then show "src + 1 + of_nat i \<noteq> dest" by (auto simp: algebra_simps)
  qed
  moreover have "rep_movsb 1 src dest n m = rep_movsb 1 (src + 1) (dest + 1) (n - 1) (m(dest := m src))"
    using n by (subst rep_movsb.simps) simp
  moreover have "\<dots> = wbytes (dest + 1) (rbytes (m(dest := m src)) (src + 1) (unat (n - 1))) (m(dest := m src))"
    using Suc n by (intro Suc.hyps(1)) auto
  moreover have "k < 2 ^ 32" using Suc.hyps(2) unat32_less [of n] by simp
  ultimately show ?case using n(2) by (simp add: Suc.hyps(2) [symmetric] rbytes_Suc wbytes_Cons)
qed

lemma movsb_backward:
  assumes "unat n \<le> unat (src - dest) \<or> src = dest"
  shows "rep_movsb (-1) (src + n - 1) (dest + n - 1) n m = wbytes dest (rbytes m src (unat n)) m"
  using assms
proof (induction "unat n" arbitrary: n m)
  case 0
  then have "n = 0" by (simp add: unat_eq_0)
  then show ?case by (subst rep_movsb.simps) (simp add: rbytes_def)
next
  case (Suc k)
  then have n0: "n \<noteq> 0" by auto
  with Suc have n: "n \<noteq> 0" "unat (n - 1) = k" by (simp_all add: word_minus_one_unat flip: Suc.hyps(2))
  have nk: "n - 1 = of_nat k" unfolding n(2) [symmetric] by simp
  let ?m = "m(dest + of_nat k := m (src + of_nat k))"
  have k: "k < 2 ^ 32" "unat (of_nat k :: u32) = k" using Suc.hyps(2) unat32_less [of n] by (simp_all add: unat32_of_nat)
  have same: "rbytes ?m src k = rbytes m src k"
  proof (cases "src = dest")
    case False
    show ?thesis
    proof (rule rbytes_upd)
      fix i assume i: "i < k"
      show "src + of_nat i \<noteq> dest + of_nat k"
      proof
        assume "src + of_nat i = dest + (of_nat k :: u32)"
        then have "src - dest = of_nat (k - i)" using i by (simp add: of_nat_diff algebra_simps)
        then have "unat (src - dest) = k - i" using k by (simp add: unat32_of_nat)
        then show False using Suc False i by simp
      qed
    qed
  qed simp
  have "rep_movsb (-1) (src + n - 1) (dest + n - 1) n m = rep_movsb (-1) (src + (n - 1) - 1) (dest + (n - 1) - 1) (n - 1) ?m"
    using n by (subst rep_movsb.simps) (simp add: algebra_simps flip: nk)
  also have "\<dots> = wbytes dest (rbytes ?m src (unat (n - 1))) ?m"
    using Suc n by (intro Suc.hyps(1)) auto
  also have "\<dots> = wbytes dest (rbytes m src k) ?m" using n same by simp
  also have "\<dots> = wbytes dest (rbytes m src k @ [m (src + of_nat k)]) m"
    using k by (auto simp: wbytes_def fun_eq_iff nth_append less_Suc_eq)
  finally show ?case by (simp add: Suc.hyps(2) [symmetric] rbytes_def)
qed

text \<open>
  \<open>memmove\<close> moves a block of memory, also when source and destination overlap: afterwards the
  destination holds what the source held before, and every other byte is unchanged. The only
  condition is that neither block runs over the end of the address space.
\<close>

theorem memmove_overlap:
  assumes "unat src + unat n \<le> 2 ^ 32" and "unat dest + unat n \<le> 2 ^ 32"
  shows "memmove dest src n m = wbytes dest (rbytes m src (unat n)) m"
proof (cases "dest < src")
  case True
  then have "unat (dest - src) = unat dest + 2 ^ 32 - unat src" by (simp add: unat_sub_if' word_less_nat_alt)
  then show ?thesis using True assms by (simp add: memmove_def movsb_forward)
next
  case False
  then have "src = dest \<or> unat (src - dest) = unat src + 2 ^ 32 - unat dest"
    by (auto simp: unat_sub_if' word_less_nat_alt le_less word_unat_eq_iff)
  then have "unat n \<le> unat (src - dest) \<or> src = dest" using assms by auto
  from movsb_backward [OF this, of m] show ?thesis using False by (simp add: memmove_def)
qed

theorem memmove_overlap_witness:
  "memmove 2 0 4 (\<lambda>a. ucast a + 1) = wbytes 2 [1, 2, 3, 4] (\<lambda>a. ucast a + 1)"
  using memmove_overlap [of 0 4 2 "\<lambda>a. ucast a + 1"] by (simp add: rbytes_def upt_rec)

lemma memcpy_disjoint:
  "unat n \<le> unat (dest - src) \<Longrightarrow> memcpy dest src n m = wbytes dest (rbytes m src (unat n)) m"
  by (simp add: memcpy_def movsb_forward)

section \<open>Comparing and searching\<close>

text \<open>The order of two strings by their bytes as signed numbers, the end counting as 0.\<close>

fun signed_cmp :: "u8 list \<Rightarrow> u8 list \<Rightarrow> int" where
  "signed_cmp [] [] = 0"
| "signed_cmp [] (y # ys) = (if sint y > 0 then -1 else 1)"
| "signed_cmp (x # xs) [] = (if sint x > 0 then 1 else -1)"
| "signed_cmp (x # xs) (y # ys) = (if x = y then signed_cmp xs ys else if sint y < sint x then 1 else -1)"

lemma signed_cmp_eq: "0 \<notin> set xs \<Longrightarrow> 0 \<notin> set ys \<Longrightarrow> signed_cmp xs ys = 0 \<longleftrightarrow> xs = ys"
  by (induction xs ys rule: signed_cmp.induct) auto

lemma sint_zero_iff: "sint (x :: u8) = 0 \<longleftrightarrow> x = 0"
  using signed_eq_0_iff by blast

lemma strcmp_run:
  "cstr m a xs \<Longrightarrow> cstr m b ys \<Longrightarrow> strcmp_loop b a m = Some (signed_cmp xs ys)"
proof (induction xs ys arbitrary: a b rule: signed_cmp.induct)
  case (2 y ys)
  then have "sint y \<noteq> 0" by (simp add: sint_zero_iff)
  then show ?case using 2 by (subst strcmp_loop.simps) auto
next
  case (3 x xs)
  then have "sint x \<noteq> 0" by (simp add: sint_zero_iff)
  then show ?case using 3 by (subst strcmp_loop.simps) auto
qed (subst strcmp_loop.simps; auto)+

text \<open>
  C39: \<open>strcmp\<close> returns for any two strings, with 0 exactly if they are equal, and otherwise 1 or -1
  as the first string comes after or before the second, in the order of bytes as signed numbers.
\<close>

theorem strcmp_order:
  assumes "cstr m cs xs" and "cstr m ct ys"
  shows "strcmp cs ct m = Some (signed_cmp xs ys) \<and> (signed_cmp xs ys = 0 \<longleftrightarrow> xs = ys)"
  using strcmp_run [OF assms] signed_cmp_eq cstr_set [OF assms(1)] cstr_set [OF assms(2)]
  by (simp add: strcmp_def)

theorem strcmp_order_witness:
  "strcmp 10 20 (wbytes 10 [97, 98, 0] (wbytes 20 [97, 99, 0] (\<lambda>_. 0))) = Some (-1)"
  using strcmp_order [of "wbytes 10 [97, 98, 0] (wbytes 20 [97, 99, 0] (\<lambda>_. 0))" 10 "[97, 98]" 20 "[97, 99]"]
  by (simp add: wbytes_def)

text \<open>Comparing the bytes at \<open>a\<close> with the string at \<open>b\<close>: what \<open>repe cmpsb\<close> finds.\<close>

lemma cmpsb_prefix:
  assumes "cstr m a zs" and "cstr m b ys" and "length ys < 2 ^ 32" and "ys \<noteq> [] \<or> zf"
  obtains p q where "repe_cmpsb m zf a b (of_nat (length ys)) = (p, q, prefix ys zs)"
    and "\<not> prefix ys zs \<Longrightarrow> m (p - 1) = 0 \<longleftrightarrow> prefix zs ys"
proof -
  have "\<exists>p q. repe_cmpsb m zf a b (of_nat (length ys)) = (p, q, prefix ys zs) \<and> (\<not> prefix ys zs \<longrightarrow> (m (p - 1) = 0 \<longleftrightarrow> prefix zs ys))"
    using assms
  proof (induction ys arbitrary: a b zs zf)
    case Nil
    then show ?case by (subst repe_cmpsb.simps) auto
  next
    case (Cons y ys)
    have c: "(of_nat (length (y # ys)) :: u32) \<noteq> 0" "of_nat (length (y # ys)) - 1 = (of_nat (length ys) :: u32)"
      using Cons.prems(3) by (auto simp: of_nat_eq_0_iff word_of_nat_eq_0_iff dest: dvd_imp_le simp del: of_nat_Suc) (simp only: of_nat_Suc, simp)
    show ?case
    proof (cases "m a = m b")
      case True
      then obtain z zs' where zs: "zs = z # zs'" "z = y" "cstr m (a + 1) zs'" using Cons.prems by (cases zs) auto
      have "repe_cmpsb m zf a b (of_nat (length (y # ys))) = repe_cmpsb m True (a + 1) (b + 1) (of_nat (length ys))"
        using c True by (subst repe_cmpsb.simps) (simp del: of_nat_Suc)
      then show ?thesis using Cons.IH [OF zs(3), of "b + 1" True] Cons.prems zs by auto
    next
      case False
      have "repe_cmpsb m zf a b (of_nat (length (y # ys))) = (a + 1, b + 1, False)"
        using c False by (subst repe_cmpsb.simps) (simp del: of_nat_Suc)
      moreover have "\<not> prefix (y # ys) zs" "m a = 0 \<longleftrightarrow> prefix zs (y # ys)"
        using False Cons.prems by (cases zs; auto)+
      ultimately show ?thesis by simp
    qed
  qed
  then show thesis using that by blast
qed

text \<open>The place of the first occurrence of \<open>ys\<close>.\<close>

primrec first_occ :: "'a list \<Rightarrow> 'a list \<Rightarrow> nat option" where
  "first_occ ys [] = (if ys = [] then Some 0 else None)"
| "first_occ ys (z # zs) = (if prefix ys (z # zs) then Some 0 else map_option Suc (first_occ ys zs))"

lemma first_occ_None: "first_occ ys zs = None \<longleftrightarrow> \<not> sublist ys zs"
proof (induction zs)
  case (Cons z zs)
  then show ?case by (auto simp: sublist_Cons_right)
qed auto

lemma first_occ_Some: "first_occ ys zs = Some k \<Longrightarrow> k \<le> length zs \<and> prefix ys (drop k zs) \<and> (\<forall>j < k. \<not> prefix ys (drop j zs))"
proof (induction zs arbitrary: k)
  case (Cons z zs)
  show ?case
  proof (cases "prefix ys (z # zs)")
    case False
    then obtain l where l: "k = Suc l" "first_occ ys zs = Some l" using Cons.prems by auto
    have "\<not> prefix ys (drop j (z # zs))" if "j < k" for j
      using that False Cons.IH [OF l(2)] l(1) by (cases j) auto
    then show ?thesis using Cons.IH [OF l(2)] l(1) by simp
  qed (use Cons.prems in auto)
qed (auto split: if_splits)

lemma first_occ_short: "length zs < length ys \<Longrightarrow> first_occ ys zs = None"
  by (auto simp: first_occ_None dest: sublist_length_le)

lemma strstr_run:
  assumes "cstr m b ys" and "length ys < 2 ^ 32" and "cstr m a zs" and "ys \<noteq> [] \<or> zf"
  shows "strstr_loop zf b (of_nat (length ys)) a m = Some (case first_occ ys zs of Some k \<Rightarrow> a + of_nat k | None \<Rightarrow> 0)"
  using assms(3,4)
proof (induction zs arbitrary: a zf)
  case Nil
  obtain p q where c: "repe_cmpsb m zf a b (of_nat (length ys)) = (p, q, prefix ys [])" "\<not> prefix ys [] \<Longrightarrow> m (p - 1) = 0 \<longleftrightarrow> prefix [] ys"
    using cmpsb_prefix [OF Nil(1) assms(1,2) Nil(2)] by blast
  then show ?case by (subst strstr_loop.simps) simp
next
  case (Cons z zs)
  obtain p q where c: "repe_cmpsb m zf a b (of_nat (length ys)) = (p, q, prefix ys (z # zs))"
      "\<not> prefix ys (z # zs) \<Longrightarrow> m (p - 1) = 0 \<longleftrightarrow> prefix (z # zs) ys"
    using cmpsb_prefix [OF Cons.prems(1) assms(1,2) Cons.prems(2)] by blast
  show ?case
  proof (cases "prefix ys (z # zs)")
    case True
    then show ?thesis using c(1) by (subst strstr_loop.simps) simp
  next
    case False
    then have ne: "ys \<noteq> []" by auto
    have "first_occ ys zs = None" if "prefix (z # zs) ys"
      using prefix_length_le [OF that] by (intro first_occ_short) simp
    moreover have "strstr_loop False b (of_nat (length ys)) (a + 1) m = Some (case first_occ ys zs of Some k \<Rightarrow> a + 1 + of_nat k | None \<Rightarrow> 0)"
      using Cons.prems(1) ne by (intro Cons.IH) simp_all
    ultimately show ?thesis using c False
      by (subst strstr_loop.simps) (auto simp: add.assoc split: option.splits)
  qed
qed

text \<open>
  \<open>strstr\<close> returns for any two strings. If the second occurs in the first, the result is the
  address of its first occurrence, also for the empty string; otherwise it is the null pointer.
\<close>

theorem strstr_first:
  assumes "cstr m cs xs" and "cstr m ct ys" and "length ys < 2 ^ 32 - 1"
  shows "if sublist ys xs
    then \<exists>k \<le> length xs. strstr cs ct m = Some (cs + of_nat k) \<and> prefix ys (drop k xs) \<and> (\<forall>j < k. \<not> prefix ys (drop j xs))
    else strstr cs ct m = Some 0"
proof -
  have l: "strlen ct m = of_nat (length ys)" by (rule strlen_cstr [OF assms(2,3)])
  have "ys \<noteq> [] \<or> (of_nat (length ys) :: u32) = 0" by auto
  with strstr_run [OF assms(2) _ assms(1), of "(of_nat (length ys) :: u32) = 0"] assms(3)
  have "strstr cs ct m = Some (case first_occ ys xs of Some k \<Rightarrow> cs + of_nat k | None \<Rightarrow> 0)"
    by (simp add: strstr_def l)
  then show ?thesis
    using first_occ_None [of ys xs] first_occ_Some [of ys xs] by (cases "first_occ ys xs") auto
qed

theorem strstr_first_witness:
  "strstr 10 20 (wbytes 10 [97, 97, 98, 0] (wbytes 20 [97, 98, 0] (\<lambda>_. 0))) = Some 11"
proof -
  let ?m = "wbytes 10 [97, 97, 98, 0] (wbytes 20 [97, 98, 0] (\<lambda>_. 0))"
  have c: "cstr ?m 10 [97, 97, 98]" "cstr ?m 20 [97, 98]" by (simp_all add: wbytes_def)
  have "sublist [97, 98] [97, 97, 98 :: u8]" by (simp add: sublist_Cons_right)
  then obtain k where k: "k \<le> length [97, 97, 98 :: u8]" "strstr 10 20 ?m = Some (10 + of_nat k)" "prefix [97, 98] (drop k [97, 97, 98 :: u8])"
    using strstr_first [OF c] by (auto simp del: length_Cons)
  have "k = 1" using k(1,3) by (cases k rule: nat.exhaust; cases "k - 1"; cases "k - 2") (auto simp: numeral_eq_Suc)
  then show ?thesis using k(2) by simp
qed

lemma sint_count: "c \<noteq> 0 \<Longrightarrow> unat c < 2 ^ 31 \<Longrightarrow> \<not> sint (c - 1 :: u32) < 0"
proof -
  assume c: "c \<noteq> 0" "unat c < 2 ^ 31"
  then have "unat (c - 1) < 2 ^ 31" by (simp add: word_minus_one_unat)
  then have "uint (c - 1) < 2 ^ 31" by (simp add: uint_nat del: of_nat_unat)
  then have "sint (c - 1) = uint (c - 1)" by (simp add: sint_uint signed_take_bit_int_eq_self_iff order_trans [OF _ uint_ge_0])
  then show ?thesis by simp
qed

text \<open>
  \<open>strncat\<close> of a string shorter than the count ends it with two zeros: it writes one byte more than
  the string and its end need.
\<close>

lemma strncat_two_zeros:
  assumes "cstr m src xs" and "length xs < unat c" and "unat c < 2 ^ 31" and "length xs < unat (dest - src)"
  shows "strncat_loop src dest c m = wbytes dest (xs @ [0, 0]) m"
  using assms
proof (induction xs arbitrary: src dest m c)
  case Nil
  then have c: "\<not> sint (c - 1) < 0" by (intro sint_count) auto
  have "m(dest := 0, dest + 1 := 0) = wbytes dest [0, 0] m" by (simp add: wbytes_Cons)
  then show ?case using Nil c by (subst strncat_loop.simps) simp
next
  case (Cons x xs)
  then have c0: "c \<noteq> 0" by auto
  then have c: "c \<noteq> 0" "\<not> sint (c - 1) < 0" using sint_count [OF c0 Cons.prems(3)] by auto
  have ne: "dest - src \<noteq> 0" using Cons.prems(4) by auto
  then have "length xs < unat (dest - (src + 1))"
    using Cons.prems(4) by (simp add: word_minus_one_unat flip: diff_diff_eq)
  then have 1: "cstr (m(dest := x)) (src + 1) xs" using Cons.prems(1) by (simp add: cstr_upd)
  have "strncat_loop src dest c m = strncat_loop (src + 1) (dest + 1) (c - 1) (m(dest := x))"
    using Cons.prems(1) c by (subst strncat_loop.simps) (simp add: Let_def)
  also have "\<dots> = wbytes (dest + 1) (xs @ [0, 0]) (m(dest := x))"
    by (intro Cons.IH 1) (use Cons.prems c in \<open>auto simp: word_minus_one_unat\<close>)
  also have "\<dots> = wbytes dest (x # xs @ [0, 0]) m"
    using Cons.prems(2,3) by (intro wbytes_Cons [symmetric]) simp
  finally show ?case by simp
qed

end
