(* ===== verification/Lib.thy ===== *)
theory Lib
  imports Strings "HOL-Library.Signed_Division"
begin

text \<open>
  Routines of the kernel that depend on no other state: the calendar of \<open>kernel/mktime.c\<close> and the
  formatted output of \<open>kernel/vsprintf.c\<close>.
\<close>

section \<open>Calendar time\<close>

record tm =
  tm_sec :: int
  tm_min :: int
  tm_hour :: int
  tm_mday :: int
  tm_mon :: int
  tm_year :: int
  tm_wday :: int
  tm_yday :: int
  tm_isdst :: int

abbreviation (input) MINUTE :: int where "MINUTE \<equiv> 60"
abbreviation (input) HOUR :: int where "HOUR \<equiv> 60 * MINUTE"
abbreviation (input) DAY :: int where "DAY \<equiv> 24 * HOUR"
abbreviation (input) YEAR :: int where "YEAR \<equiv> 365 * DAY"

definition month :: "int list" where
  "month = [0, DAY * 31, DAY * (31 + 29), DAY * (31 + 29 + 31), DAY * (31 + 29 + 31 + 30),
     DAY * (31 + 29 + 31 + 30 + 31), DAY * (31 + 29 + 31 + 30 + 31 + 30), DAY * (31 + 29 + 31 + 30 + 31 + 30 + 31),
     DAY * (31 + 29 + 31 + 30 + 31 + 30 + 31 + 31), DAY * (31 + 29 + 31 + 30 + 31 + 30 + 31 + 31 + 30),
     DAY * (31 + 29 + 31 + 30 + 31 + 30 + 31 + 31 + 30 + 31), DAY * (31 + 29 + 31 + 30 + 31 + 30 + 31 + 31 + 30 + 31 + 30)]"

text \<open>\<open>None\<close> is an access outside \<open>month[]\<close>. Division and remainder are those of C.\<close>

definition kernel_mktime :: "tm \<Rightarrow> int option" where
  "kernel_mktime t =
     (if tm_mon t < 0 \<or> tm_mon t \<ge> 12 then None
      else
        let year = tm_year t - 70;
            res = YEAR * year + DAY * ((year + 1) sdiv 4);
            res = res + month ! nat (tm_mon t);
            res = (if tm_mon t > 1 \<and> (year + 2) smod 4 \<noteq> 0 then res - DAY else res);
            res = res + DAY * (tm_mday t - 1);
            res = res + HOUR * tm_hour t;
            res = res + MINUTE * tm_min t
        in Some (res + tm_sec t))"

text \<open>The calendar: the days of the months and years, with the Gregorian leap years.\<close>

definition leap :: "nat \<Rightarrow> bool" where
  "leap y \<longleftrightarrow> y mod 4 = 0 \<and> (y mod 100 \<noteq> 0 \<or> y mod 400 = 0)"

definition mdays :: "nat \<Rightarrow> nat \<Rightarrow> nat" where
  "mdays y m = (if m = 1 then if leap y then 29 else 28 else if m \<in> {3, 5, 8, 10} then 30 else 31)"

definition ydays :: "nat \<Rightarrow> nat" where
  "ydays y = (\<Sum>m < 12. mdays y m)"

text \<open>The days from 1 January 1970 to a date, counted one month and one year at a time.\<close>

definition epoch_days :: "nat \<Rightarrow> nat \<Rightarrow> nat \<Rightarrow> nat" where
  "epoch_days y m d = (\<Sum>i = 1970..<y. ydays i) + (\<Sum>i < m. mdays y i) + (d - 1)"

lemma ydays_leap: "ydays y = (if leap y then 366 else 365)"
  by (simp add: ydays_def mdays_def lessThan_nat_numeral)

lemma leap_range:
  assumes "1970 \<le> y" and "y < 2100"
  shows "leap y \<longleftrightarrow> int y mod 4 = 0"
proof -
  have "y = 2000" if "y mod 100 = 0"
  proof -
    have y: "y = 100 * (y div 100)" using that by presburger
    then have "y div 100 = 20" using assms by linarith
    then show ?thesis using y by simp
  qed
  then have "leap y \<longleftrightarrow> y mod 4 = 0" by (cases "y mod 100 = 0") (auto simp: leap_def)
  also have "\<dots> \<longleftrightarrow> int y mod 4 = 0" by presburger
  finally show ?thesis .
qed

lemma years_days:
  assumes "1970 \<le> y" and "y < 2100"
  shows "int (\<Sum>i = 1970..<y. ydays i) = 365 * (int y - 1970) + (int y - 1969) div 4"
  using assms
proof (induction y rule: dec_induct)
  case (step n)
  then have "leap n \<longleftrightarrow> int n mod 4 = 0" by (intro leap_range) simp_all
  then have "int (ydays n) = 365 + (if int n mod 4 = 0 then 1 else 0)" by (simp add: ydays_leap)
  moreover have "(int n - 1968) div 4 = (int n - 1969) div 4 + (if int n mod 4 = 0 then 1 else 0)" by presburger
  ultimately show ?case using step by (simp add: algebra_simps)
qed simp

lemma month_days:
  assumes "m < 12"
  shows "DAY * int (\<Sum>i < m. mdays y i) = month ! m - (if m > 1 \<and> \<not> leap y then DAY else 0)"
proof -
  have "list_all (\<lambda>m. DAY * int (\<Sum>i < m. mdays y i) = month ! m - (if m > 1 \<and> \<not> leap y then DAY else 0)) [0..<12]"
    by (simp add: upt_rec mdays_def month_def lessThan_Suc)
  then show ?thesis using assms by (simp add: list_all_iff)
qed

lemma mktime_facts:
  assumes "1970 \<le> y" and "y < 2100" and "m < 12"
  shows "(int y - 1969) sdiv 4 = (int y - 1969) div 4" "(int y - 1968) smod 4 = int y mod 4"
    "DAY * int (\<Sum>i < m. mdays y i) = month ! m - (if m > 1 \<and> int y mod 4 \<noteq> 0 then DAY else 0)"
proof -
  show "(int y - 1969) sdiv 4 = (int y - 1969) div 4" "(int y - 1968) smod 4 = int y mod 4"
    using assms(1) by (simp_all add: signed_divide_int_eq_divide_int signed_modulo_int_eq_modulo_int) presburger
  show "DAY * int (\<Sum>i < m. mdays y i) = month ! m - (if m > 1 \<and> int y mod 4 \<noteq> 0 then DAY else 0)"
    using month_days [OF assms(3)] leap_range [OF assms(1,2)] by simp
qed

lemma kernel_mktime_date:
  assumes "1970 \<le> y" and "y < 2100" and "tm_mon t = int m" and "m < 12" and "tm_mday t = int d" and "1 \<le> d" and "tm_year t = int y - 1900"
  shows "kernel_mktime t = Some (86400 * int (epoch_days y m d) + 3600 * tm_hour t + 60 * tm_min t + tm_sec t)"
  using assms(3-7) mktime_facts(1,2) [OF assms(1,2,4)] mktime_facts(3) [OF assms(1,2,4)] years_days [OF assms(1,2)]
  by (auto simp: kernel_mktime_def Let_def epoch_days_def of_nat_diff)



section \<open>Formatted output\<close>

text \<open>
  Characters are bytes. A string is the list of its bytes without the terminating zero, and
  reading \<open>*fmt\<close> at its end gives 0. The output buffer is the list of the bytes stored so far; it
  is taken to be disjoint from the memory \<open>m\<close> that \<open>%s\<close> reads and \<open>%n\<close> writes.
\<close>

abbreviation (input) ZEROPAD :: u32 where "ZEROPAD \<equiv> 1"
abbreviation (input) SIGN :: u32 where "SIGN \<equiv> 2"
abbreviation (input) PLUS :: u32 where "PLUS \<equiv> 4"
abbreviation (input) SPACE :: u32 where "SPACE \<equiv> 8"
abbreviation (input) LEFT :: u32 where "LEFT \<equiv> 16"
abbreviation (input) SPECIAL :: u32 where "SPECIAL \<equiv> 32"
abbreviation (input) SMALL :: u32 where "SMALL \<equiv> 64"

definition peekc :: "u8 list \<Rightarrow> u8" where
  "peekc fmt = (case fmt of [] \<Rightarrow> 0 | c # _ \<Rightarrow> c)"

definition is_digit :: "u8 \<Rightarrow> bool" where
  "is_digit c \<longleftrightarrow> 0x30 \<le> c \<and> c \<le> 0x39"

fun skip_atoi :: "int \<Rightarrow> u8 list \<Rightarrow> int \<times> u8 list" where
  "skip_atoi i [] = (i, [])"
| "skip_atoi i (c # s) = (if is_digit c then skip_atoi (i * 10 + uint c - 0x30) s else (i, c # s))"

text \<open>\<open>digits[d]\<close>: the digits are followed by the letters, small or capital.\<close>

definition digit_char :: "u32 \<Rightarrow> nat \<Rightarrow> u8" where
  "digit_char type d = (if d < 10 then of_nat (0x30 + d) else of_nat ((if type AND SMALL \<noteq> 0 then 0x61 else 0x41) + (d - 10)))"

text \<open>
  The loop over \<open>do_div\<close>, an unsigned division: the values of the digits in the order of \<open>tmp[]\<close>,
  least significant first. \<open>number\<close> has tested the base.
\<close>

function tmp_digits :: "nat \<Rightarrow> u32 \<Rightarrow> nat list" where
  "tmp_digits base num =
     (if num = 0 \<or> base < 2 \<or> base > 36 then [] else unat num mod base # tmp_digits base (num div of_nat base))"
  by auto

termination
proof (relation "measure (\<lambda>(base, num). unat num)")
  fix base :: nat and num :: u32
  assume a: "\<not> (num = 0 \<or> base < 2 \<or> base > 36)"
  then have "0 < unat num" "unat (of_nat base :: u32) = base" by (simp_all add: unat_gt_0 unat32_of_nat)
  then show "((base, num div of_nat base), base, num) \<in> measure (\<lambda>(base, num). unat num)"
    using a by (simp add: unat_div div_less_dividend)
qed simp

declare tmp_digits.simps [simp del]

text \<open>What \<open>while (size-- > 0)\<close> leaves in \<open>size\<close>.\<close>

definition spent :: "int \<Rightarrow> int" where
  "spent width = (if width > 0 then -1 else width - 1)"

text \<open>The sign character (0 for none), and what \<open>SPECIAL\<close> puts in front of the digits.\<close>

definition num_sign :: "u32 \<Rightarrow> u32 \<Rightarrow> u8" where
  "num_sign type num =
     (if type AND SIGN \<noteq> 0 \<and> sint num < 0 then 0x2D
      else if type AND PLUS \<noteq> 0 then 0x2B else if type AND SPACE \<noteq> 0 then 0x20 else 0)"

definition num_special :: "u32 \<Rightarrow> nat \<Rightarrow> u8 list" where
  "num_special type base =
     (if type AND SPECIAL \<noteq> 0 then (if base = 8 then [0x30] else if base = 16 then [0x30, digit_char type 33] else []) else [])"

definition special_room :: "u32 \<Rightarrow> nat \<Rightarrow> int" where
  "special_room type base =
     (if type AND SPECIAL \<noteq> 0 then (if base = 16 then 2 else if base = 8 then 1 else 0) else 0)"

definition number :: "u32 \<Rightarrow> nat \<Rightarrow> int \<Rightarrow> int \<Rightarrow> u32 \<Rightarrow> u8 list option" where
  "number num base width precision type =
     (let type = (if type AND LEFT \<noteq> 0 then type AND NOT ZEROPAD else type)
      in if base < 2 \<or> base > 36 then None
      else
        let c = (if type AND ZEROPAD \<noteq> 0 then 0x30 else 0x20 :: u8);
            sign = num_sign type num;
            num = (if type AND SIGN \<noteq> 0 \<and> sint num < 0 then - num else num);
            width = (if sign \<noteq> 0 then width - 1 else width);
            width = width - special_room type base;
            tmp = (if num = 0 then [0] else tmp_digits base num);
            i = int (length tmp);
            precision = (if i > precision then i else precision);
            width = width - precision;
            pre = (if type AND (ZEROPAD + LEFT) = 0 then nat width else 0);
            width = (if type AND (ZEROPAD + LEFT) = 0 then spent width else width);
            mid = (if type AND LEFT = 0 then nat width else 0);
            width = (if type AND LEFT = 0 then spent width else width)
        in Some (replicate pre 0x20 @ (if sign \<noteq> 0 then [sign] else []) @ num_special type base @ replicate mid c @
             replicate (nat (precision - i)) 0x30 @ map (digit_char type) (rev tmp) @ replicate (nat width) 0x20))"

fun fmt_flags :: "u8 list \<Rightarrow> u32 \<Rightarrow> u8 list \<times> u32" where
  "fmt_flags [] fl = ([], fl)"
| "fmt_flags (c # fmt) fl =
     (if c = 0x2D then fmt_flags fmt (fl OR LEFT)
      else if c = 0x2B then fmt_flags fmt (fl OR PLUS)
      else if c = 0x20 then fmt_flags fmt (fl OR SPACE)
      else if c = 0x23 then fmt_flags fmt (fl OR SPECIAL)
      else if c = 0x30 then fmt_flags fmt (fl OR ZEROPAD)
      else (c # fmt, fl))"

text \<open>
  The field width and the precision. For \<open>*\<close> the next argument is taken, and \<open>fmt\<close> stays at the
  asterisk. \<open>None\<close> is a missing argument.
\<close>

definition fmt_width :: "u8 list \<Rightarrow> u32 list \<Rightarrow> u32 \<Rightarrow> (int \<times> u32 \<times> u8 list \<times> u32 list) option" where
  "fmt_width fmt args fl =
     (if is_digit (peekc fmt) then (let (w, f) = skip_atoi 0 fmt in Some (w, fl, f, args))
      else if peekc fmt = 0x2A then
        (case args of [] \<Rightarrow> None
         | a # as \<Rightarrow> if sint a < 0 then Some (- sint a, fl OR LEFT, fmt, as) else Some (sint a, fl, fmt, as))
      else Some (-1, fl, fmt, args))"

definition fmt_precision :: "u8 list \<Rightarrow> u32 list \<Rightarrow> (int \<times> u8 list \<times> u32 list) option" where
  "fmt_precision fmt args =
     (if peekc fmt \<noteq> 0x2E then Some (-1, fmt, args)
      else let fmt = tl fmt
        in if is_digit (peekc fmt) then (let (p, f) = skip_atoi 0 fmt in Some (if p < 0 then 0 else p, f, args))
        else if peekc fmt = 0x2A then
          (case args of [] \<Rightarrow> None | a # as \<Rightarrow> Some (if sint a < 0 then 0 else sint a, fmt, as))
        else Some (0, fmt, args))"

definition fmt_qualifier :: "u8 list \<Rightarrow> u8 list" where
  "fmt_qualifier fmt = (if peekc fmt \<in> {0x68, 0x6C, 0x4C} then tl fmt else fmt)"

definition put_char :: "u32 \<Rightarrow> int \<Rightarrow> u32 \<Rightarrow> u8 list" where
  "put_char fl w a =
     (if fl AND LEFT = 0 then replicate (nat (w - 1)) 0x20 @ [ucast a]
      else [ucast a] @ replicate (nat (w - 1)) 0x20)"

definition put_string :: "bmem \<Rightarrow> u32 \<Rightarrow> int \<Rightarrow> int \<Rightarrow> u32 \<Rightarrow> u8 list" where
  "put_string m fl w p s =
     (let len = sint (strlen s m);
          len = (if p < 0 then len else if len > p then p else len);
          pad = replicate (nat (w - len)) 0x20
      in (if fl AND LEFT = 0 then pad @ rbytes m s (nat len) else rbytes m s (nat len) @ pad))"

definition le32 :: "u32 \<Rightarrow> u8 list" where
  "le32 v = map (\<lambda>k. ucast (drop_bit (8 * k) v)) [0..<4]"

text \<open>The conversion character: the bytes put out, the arguments left and the memory.\<close>

definition put_number :: "u32 \<Rightarrow> nat \<Rightarrow> int \<Rightarrow> int \<Rightarrow> u32 \<Rightarrow> u8 list" where
  "put_number a base w p fl = (case number a base w p fl of None \<Rightarrow> [] | Some d \<Rightarrow> d)"

definition conversion :: "bmem \<Rightarrow> u8 \<Rightarrow> u32 \<Rightarrow> int \<Rightarrow> int \<Rightarrow> u32 list \<Rightarrow> nat \<Rightarrow> (u8 list \<times> u32 list \<times> bmem) option" where
  "conversion m c fl w p args pos =
     (if c \<in> {0x63, 0x73, 0x6F, 0x70, 0x78, 0x58, 0x64, 0x69, 0x75, 0x6E} then
        (case args of [] \<Rightarrow> None
         | a # as \<Rightarrow>
           if c = 0x63 then Some (put_char fl w a, as, m)
           else if c = 0x73 then Some (put_string m fl w p a, as, m)
           else if c = 0x6F then Some (put_number a 8 w p fl, as, m)
           else if c = 0x70 then
             (if w = -1 then Some (put_number a 16 8 p (fl OR ZEROPAD), as, m) else Some (put_number a 16 w p fl, as, m))
           else if c = 0x78 then Some (put_number a 16 w p (fl OR SMALL), as, m)
           else if c = 0x58 then Some (put_number a 16 w p fl, as, m)
           else if c = 0x64 \<or> c = 0x69 then Some (put_number a 10 w p (fl OR SIGN), as, m)
           else if c = 0x75 then Some (put_number a 10 w p fl, as, m)
           else Some ([], as, wbytes a (le32 (of_nat pos)) m))
      else Some ((if c \<noteq> 0x25 then [0x25] else []) @ (if c \<noteq> 0 then [c] else []), args, m))"

text \<open>Everything from behind the percent sign to behind the conversion character.\<close>

definition directive :: "bmem \<Rightarrow> u8 list \<Rightarrow> u32 list \<Rightarrow> nat \<Rightarrow> (u8 list \<times> u8 list \<times> u32 list \<times> bmem) option" where
  "directive m fmt args pos =
     (let (fmt, fl) = fmt_flags fmt 0
      in case fmt_width fmt args fl of None \<Rightarrow> None
      | Some (w, fl, fmt, args) \<Rightarrow>
        (case fmt_precision fmt args of None \<Rightarrow> None
         | Some (p, fmt, args) \<Rightarrow>
           (let fmt = fmt_qualifier fmt
            in case conversion m (peekc fmt) fl w p args pos of None \<Rightarrow> None
            | Some (out, args, m) \<Rightarrow> Some (out, tl fmt, args, m))))"

lemma fmt_flags_length: "length (fst (fmt_flags fmt fl)) \<le> length fmt"
  by (induction fmt fl rule: fmt_flags.induct) auto

lemma skip_atoi_length: "length (snd (skip_atoi i s)) \<le> length s"
  by (induction i s rule: skip_atoi.induct) auto

lemma directive_length:
  assumes "directive m fmt args pos = Some (out, fmt', args', m')"
  shows "length fmt' \<le> length fmt"
proof -
  obtain f1 fl where 1: "fmt_flags fmt 0 = (f1, fl)" by fastforce
  obtain w fl' f2 a2 where 2: "fmt_width f1 args fl = Some (w, fl', f2, a2)"
    using assms 1 by (auto simp: directive_def split: option.splits)
  obtain p f3 a3 where 3: "fmt_precision f2 a2 = Some (p, f3, a3)"
    using assms 1 2 by (auto simp: directive_def split: option.splits)
  have "fmt' = tl (fmt_qualifier f3)"
    using assms 1 2 3 by (auto simp: directive_def Let_def split: option.splits)
  then have "length fmt' \<le> length f3" by (auto simp: fmt_qualifier_def)
  moreover have "length f3 \<le> length f2"
    using 3 skip_atoi_length [of 0 "tl f2"]
    by (auto simp: fmt_precision_def Let_def split: if_splits prod.splits list.splits)
  moreover have "length f2 \<le> length f1"
    using 2 skip_atoi_length [of 0 f1] by (auto simp: fmt_width_def Let_def split: if_splits prod.splits list.splits)
  moreover have "length f1 \<le> length fmt" using fmt_flags_length [of fmt 0] 1 by simp
  ultimately show ?thesis by simp
qed

function vsprintf_loop :: "bmem \<Rightarrow> u8 list \<Rightarrow> u32 list \<Rightarrow> u8 list \<Rightarrow> (u8 list \<times> bmem) option" where
  "vsprintf_loop m [] args str = Some (str, m)"
| "vsprintf_loop m (c # fmt) args str =
     (if c \<noteq> 0x25 then vsprintf_loop m fmt args (str @ [c])
      else case directive m fmt args (length str) of None \<Rightarrow> None
      | Some (out, fmt, args, m) \<Rightarrow> vsprintf_loop m fmt args (str @ out))"
  by pat_completeness auto

termination
  by (relation "measure (\<lambda>(m, fmt, args, str). length fmt)") (auto dest!: directive_length)

text \<open>The bytes stored in front of the terminating zero, whose number is the result, and the memory.\<close>

definition vsprintf :: "bmem \<Rightarrow> u8 list \<Rightarrow> u32 list \<Rightarrow> (u8 list \<times> bmem) option" where
  "vsprintf m fmt args = vsprintf_loop m fmt args []"

subsection \<open>Numbers are printed so that they can be read\<close>

lemma tmp_digits_step:
  assumes "num \<noteq> 0" and "2 \<le> base" and "base \<le> 36"
  shows "tmp_digits base num = unat num mod base # tmp_digits base (num div of_nat base)"
    and "unat (num div of_nat base) = unat num div base"
proof -
  show "tmp_digits base num = unat num mod base # tmp_digits base (num div of_nat base)"
    using assms by (subst tmp_digits.simps) simp
  have "unat (of_nat base :: u32) = base" using assms by (simp add: unat32_of_nat)
  then show "unat (num div of_nat base) = unat num div base" by (simp add: unat_div)
qed

lemma tmp_digits_0 [simp]: "tmp_digits base 0 = []"
  by (subst tmp_digits.simps) simp

lemma tmp_digits_value:
  assumes b: "2 \<le> base" "base \<le> 36"
  shows "(\<forall>d \<in> set (tmp_digits base num). d < base) \<and> foldr (\<lambda>d v. d + base * v) (tmp_digits base num) 0 = unat num"
proof (induction "unat num" arbitrary: num rule: less_induct)
  case less
  show ?case
  proof (cases "num = 0")
    case False
    note s = tmp_digits_step [OF False b]
    have "unat (num div of_nat base) < unat num" using False b unfolding s(2) by (simp add: unat_gt_0)
    from less.hyps [OF this] show ?thesis using s b by simp
  qed simp
qed

lemma tmp_digits_length:
  assumes b: "2 \<le> base" "base \<le> 36"
  shows "unat num < 2 ^ k \<Longrightarrow> length (tmp_digits base num) \<le> k"
proof (induction k arbitrary: num)
  case 0
  then have "num = 0" by (simp add: unat_eq_0)
  then show ?case by simp
next
  case (Suc k)
  show ?case
  proof (cases "num = 0")
    case False
    note s = tmp_digits_step [OF False b]
    have "unat num div base \<le> unat num div 2" using b by (intro div_le_mono2) simp_all
    then have "unat (num div of_nat base) < 2 ^ k" using Suc.prems unfolding s(2) by simp
    then show ?thesis using Suc.IH s(1) by simp
  qed simp
qed

definition digits_of :: "nat \<Rightarrow> u32 \<Rightarrow> nat list" where
  "digits_of base num = (if num = 0 then [0] else tmp_digits base num)"

lemma digits_of_props:
  assumes "2 \<le> base" "base \<le> 36"
  shows "\<forall>d \<in> set (digits_of base num). d < base" "foldr (\<lambda>d v. d + base * v) (digits_of base num) 0 = unat num"
    "1 \<le> length (digits_of base num)" "length (digits_of base num) \<le> 32"
proof -
  have l: "length (tmp_digits base num) \<le> 32"
    using unat32_less [of num] by (intro tmp_digits_length [OF assms]) simp
  have "tmp_digits base num \<noteq> []" if "num \<noteq> 0" using tmp_digits_step(1) [OF that assms] by simp
  then show "\<forall>d \<in> set (digits_of base num). d < base" "foldr (\<lambda>d v. d + base * v) (digits_of base num) 0 = unat num"
    "1 \<le> length (digits_of base num)" "length (digits_of base num) \<le> 32"
    using l tmp_digits_value [OF assms, of num] assms by (auto simp: digits_of_def Suc_le_eq)
qed

lemma digit_char_digit:
  assumes "d < 10"
  shows "is_digit (digit_char type d)" and "uint (digit_char type d) = 0x30 + int d"
proof -
  have u: "unat (digit_char type d) = 0x30 + d" using assms by (simp add: digit_char_def unat_of_nat del: of_nat_add)
  then show "uint (digit_char type d) = 0x30 + int d" by (simp add: uint_nat del: of_nat_unat)
  show "is_digit (digit_char type d)" using u assms by (simp add: is_digit_def word_le_nat_alt)
qed

lemma skip_atoi_digits:
  "\<forall>d \<in> set ds. d < 10 \<Longrightarrow> skip_atoi i (map (digit_char type) ds) = (foldl (\<lambda>v d. v * 10 + int d) i ds, [])"
  by (induction ds arbitrary: i) (auto simp: digit_char_digit algebra_simps)

lemma foldl_rev_foldr: "foldl (\<lambda>v d. v * 10 + int d) 0 (rev ds) = int (foldr (\<lambda>d v. d + 10 * v) ds 0)"
  by (induction ds) (auto simp: foldl_append algebra_simps)

text \<open>Reading a decimal number with an optional minus sign.\<close>

definition read_dec :: "u8 list \<Rightarrow> int" where
  "read_dec s = (if peekc s = 0x2D then - fst (skip_atoi 0 (tl s)) else fst (skip_atoi 0 s))"

lemma read_digits_of: "fst (skip_atoi 0 (map (digit_char type) (rev (digits_of 10 num)))) = uint num"
  using digits_of_props(1,2) [of 10 num]
  by (subst skip_atoi_digits) (auto simp: foldl_rev_foldr uint_nat simp del: of_nat_unat)

lemma peek_digits_of: "is_digit (peekc (map (digit_char type) (rev (digits_of 10 num))))"
proof -
  obtain d ds where d: "rev (digits_of 10 num) = d # ds" using digits_of_props(3) [of 10 num] by (cases "rev (digits_of 10 num)") auto
  then have "d \<in> set (digits_of 10 num)" by (metis list.set_intros(1) set_rev)
  then have "d < 10" using digits_of_props(1) [of 10 num] by simp
  then show ?thesis using d by (simp add: peekc_def digit_char_digit)
qed


lemma number_plain:
  "number num 10 (-1) (-1) 2 =
    Some (if sint num < 0 then 0x2D # map (digit_char 2) (rev (digits_of 10 (- num))) else map (digit_char 2) (rev (digits_of 10 num)))"
proof -
  have "1 \<le> length (digits_of 10 x)" for x using digits_of_props(3) [of 10 x] by simp
  then show ?thesis
    by (simp add: number_def Let_def digits_of_def [symmetric] spent_def num_sign_def num_special_def special_room_def)
qed

lemma sint_neg_uint: "sint (num :: u32) < 0 \<Longrightarrow> uint (- num) = - sint num"
proof -
  assume n: "sint num < 0"
  have "uint (- num) = uint (of_int (- sint num) :: u32)" by simp
  also have "\<dots> = (- sint num) mod 2 ^ 32" by (simp only: uint_word_of_int) simp
  finally have "uint (- num) = (- sint num) mod 2 ^ 32" .
  moreover have "- (2 ^ 31) \<le> sint num" using sint_ge [of num] by simp
  ultimately show ?thesis using n by simp
qed

lemma sint_nonneg_uint: "\<not> sint (num :: u32) < 0 \<Longrightarrow> uint num = sint num"
  by (simp add: uint_sint take_bit_int_eq_self_iff) (use sint_lt [of num] in simp)

text \<open>
  C37: a number printed by \<open>vsprintf\<close> with \<open>%d\<close> is read back by the digit loop that \<open>vsprintf\<close> itself
  uses for widths, for every 32-bit value, the most negative one included.
\<close>

theorem vsprintf_decimal:
  "\<exists>out. vsprintf m [0x25, 0x64] [num] = Some (out, m) \<and> read_dec out = sint num"
proof -
  let ?out = "if sint num < 0 then 0x2D # map (digit_char 2) (rev (digits_of 10 (- num))) else map (digit_char 2) (rev (digits_of 10 num))"
  have "vsprintf m [0x25, 0x64] [num] = Some (?out, m)"
    by (simp add: vsprintf_def directive_def fmt_width_def fmt_precision_def fmt_qualifier_def conversion_def put_number_def
        number_plain peekc_def is_digit_def)
  moreover have "read_dec ?out = sint num"
  proof (cases "sint num < 0")
    case True
    then show ?thesis using read_digits_of [of 2 "- num"] sint_neg_uint [OF True] by (simp add: read_dec_def peekc_def)
  next
    case False
    have "peekc (map (digit_char 2) (rev (digits_of 10 num))) \<noteq> 0x2D" using peek_digits_of [of 2 num] by (auto simp: is_digit_def)
    then show ?thesis using False read_digits_of [of 2 num] sint_nonneg_uint [OF False] by (simp add: read_dec_def)
  qed
  ultimately show ?thesis by blast
qed

text \<open>The room for the sign and for the \<open>0x\<close> or \<open>0\<close> in front of a number, and the number without its sign.\<close>

definition prefix_room :: "u32 \<Rightarrow> nat \<Rightarrow> u32 \<Rightarrow> int" where
  "prefix_room type base num = (if num_sign type num \<noteq> 0 then 1 else 0) + special_room type base"

definition magnitude :: "u32 \<Rightarrow> u32 \<Rightarrow> u32" where
  "magnitude type num = (if type AND SIGN \<noteq> 0 \<and> sint num < 0 then - num else num)"

lemma flag_left: "(t AND - 2) AND 2 = t AND (2 :: u32)" "(t AND - 2) AND 4 = t AND (4 :: u32)" "(t AND - 2) AND 8 = t AND (8 :: u32)"
  "(t AND - 2) AND 16 = t AND (16 :: u32)" "(t AND - 2) AND 32 = t AND (32 :: u32)" "(t AND - 2) AND 1 = (0 :: u32)"
  "(t AND - 2) AND 64 = t AND (64 :: u32)"
  by (simp_all add: and.assoc)

lemma flag_pad: "t AND 17 = 0 \<longleftrightarrow> t AND 1 = 0 \<and> t AND 16 = (0 :: u32)"
proof -
  have "t AND 17 = (t AND 1) OR (t AND 16)" by (simp flip: bit.conj_disj_distrib)
  then show ?thesis by (simp add: or_eq_0_iff)
qed

lemma flag_same:
  "num_sign (t AND - 2) num = num_sign t num" "special_room (t AND - 2) base = special_room t base"
  by (simp_all add: num_sign_def special_room_def flag_left)

lemma length_num_special: "length (num_special t base) = nat (special_room t base)" and special_room_ge: "0 \<le> special_room t base"
  by (simp_all add: num_special_def special_room_def)

lemma length_num_special_left: "length (num_special (t AND - 2) base) = nat (special_room t base)"
  by (simp add: length_num_special flag_same)

lemma magnitude_left: "magnitude (t AND - 2) num = magnitude t num"
  by (simp add: magnitude_def flag_left)

text \<open>
  The field that \<open>number\<close> fills is exactly as wide as asked for, unless the sign, the base prefix
  and the digits (at least \<open>precision\<close> many) need more; it never needs more than 35 characters
  beyond width and precision, whatever the flags.
\<close>

theorem number_width:
  assumes "2 \<le> base" and "base \<le> 36"
  shows "\<exists>d. number num base w p type = Some d \<and>
    int (length d) = max w (prefix_room type base num + max p (int (length (digits_of base (magnitude type num))))) \<and>
    int (length d) \<le> max w (3 + max p 32)"
proof -
  let ?ds = "digits_of base (magnitude type num)"
  have l: "1 \<le> length ?ds" "length ?ds \<le> 32" using digits_of_props(3,4) [OF assms] by auto
  obtain d where d: "number num base w p type = Some d" using assms by (simp add: number_def Let_def)
  have "int (length d) = max w (prefix_room type base num + max p (int (length ?ds)))"
    using d assms l unfolding number_def Let_def digits_of_def [symmetric] magnitude_def [symmetric]
    by (cases "type AND LEFT = 0"; cases "type AND ZEROPAD = 0")
       (auto simp: flag_pad flag_left flag_same length_num_special length_num_special_left special_room_ge magnitude_left magnitude_left [unfolded magnitude_def] prefix_room_def spent_def magnitude_def [symmetric] split: if_splits)
  moreover have "prefix_room type base num \<le> 3" by (simp add: prefix_room_def special_room_def)
  ultimately show ?thesis using d l by auto
qed

theorem number_width_witness:
  "\<exists>d. number (-7) 10 5 (-1) 3 = Some d \<and> length d = 5"
proof -
  obtain d where "number (-7) 10 5 (-1) 3 = Some d" "int (length d) = max 5 (prefix_room 3 10 (-7) + max (-1) (int (length (digits_of 10 (magnitude 3 (-7))))))"
    using number_width [of 10 "-7" 5 "-1" 3] by auto
  moreover have "prefix_room 3 10 (-7) = 1" "magnitude 3 (-7) = 7" by (simp_all add: prefix_room_def magnitude_def num_sign_def special_room_def)
  moreover have "length (digits_of 10 7) = 1" by (simp add: digits_of_def tmp_digits.simps)
  ultimately show ?thesis by auto
qed

end
