(* ===== verification/Console.thy ===== *)
theory Console
  imports Prelude
begin

text \<open>
  The console display: \<open>kernel/chr_drv/console.c\<close>. The interpretation of characters and control
  sequences is a state machine over the static variables of the file and the display memory;
  the invariant \<open>con_ok\<close> of its states says that it works on the display memory only.
\<close>

section \<open>State\<close>

text \<open>
  The static variables of \<open>console.c\<close>. \<open>vmem\<close> is the memory of the display: the character and
  attribute at each even address. \<open>con_ports\<close> lists the bytes sent to ports, the last one first; \<open>con_beepcount\<close>
  is the variable \<open>beepcount\<close>, which the clock tick of \<open>Sched\<close> counts down.
\<close>

record con =
  video_type :: u8
  video_num_columns :: u32
  video_size_row :: u32
  video_num_lines :: u32
  video_page :: u8
  video_mem_start :: u32
  video_mem_end :: u32
  video_port_reg :: u16
  video_port_val :: u16
  video_erase_char :: u16
  origin :: u32
  scr_end :: u32
  pos :: u32
  con_x :: u32
  con_y :: u32
  top_line :: u32
  bottom_line :: u32
  con_state :: u32
  npar :: nat
  par :: "u32 list"
  ques :: bool
  attr :: u8
  saved_x :: u32
  saved_y :: u32
  con_beepcount :: int
  vmem :: "u32 \<Rightarrow> u16"
  con_ports :: "(u16 \<times> u8) list"

abbreviation (input) VIDEO_TYPE_MDA :: u8 where "VIDEO_TYPE_MDA \<equiv> 0x10"
abbreviation (input) VIDEO_TYPE_CGA :: u8 where "VIDEO_TYPE_CGA \<equiv> 0x11"
abbreviation (input) VIDEO_TYPE_EGAM :: u8 where "VIDEO_TYPE_EGAM \<equiv> 0x20"
abbreviation (input) VIDEO_TYPE_EGAC :: u8 where "VIDEO_TYPE_EGAC \<equiv> 0x21"
abbreviation (input) NPAR :: nat where "NPAR \<equiv> 16"

definition con_outb :: "u8 \<Rightarrow> u16 \<Rightarrow> con \<Rightarrow> con" where
  "con_outb v p s = s\<lparr>con_ports := (p, v) # con_ports s\<rparr>"

section \<open>Display memory\<close>

text \<open>\<open>rep stosw\<close> and \<open>rep movsl\<close> with the step of the pointers; a long word is two characters.\<close>

function rep_stosw :: "u32 \<Rightarrow> u16 \<Rightarrow> u32 \<Rightarrow> u32 \<Rightarrow> (u32 \<Rightarrow> u16) \<Rightarrow> (u32 \<Rightarrow> u16)" where
  "rep_stosw d v edi ecx m = (if ecx = 0 then m else rep_stosw d v (edi + d) (ecx - 1) (m(edi := v)))"
  by auto

termination
  by (relation "measure (\<lambda>(d, v, edi, ecx, m). unat ecx)") (auto simp: word_minus_one_unat unat_gt_0)

function rep_movsl :: "u32 \<Rightarrow> u32 \<Rightarrow> u32 \<Rightarrow> u32 \<Rightarrow> (u32 \<Rightarrow> u16) \<Rightarrow> u32 \<times> (u32 \<Rightarrow> u16)" where
  "rep_movsl d esi edi ecx m =
     (if ecx = 0 then (edi, m)
      else rep_movsl d (esi + d) (edi + d) (ecx - 1) (m(edi := m esi, edi + 2 := m (esi + 2))))"
  by auto

termination
  by (relation "measure (\<lambda>(d, esi, edi, ecx, m). unat ecx)") (auto simp: word_minus_one_unat unat_gt_0)

declare rep_stosw.simps [simp del] rep_movsl.simps [simp del]

definition fill :: "u32 \<Rightarrow> u32 \<Rightarrow> con \<Rightarrow> con" where
  "fill start count s = s\<lparr>vmem := rep_stosw 2 (video_erase_char s) start count (vmem s)\<rparr>"

section \<open>Cursor and scrolling\<close>

definition gotoxy :: "u32 \<Rightarrow> u32 \<Rightarrow> con \<Rightarrow> con" where
  "gotoxy new_x new_y s =
     (if new_x > video_num_columns s \<or> new_y \<ge> video_num_lines s then s
      else s\<lparr>con_x := new_x, con_y := new_y, pos := origin s + new_y * video_size_row s + push_bit 1 new_x\<rparr>)"

definition set_origin :: "con \<Rightarrow> con" where
  "set_origin s =
     (let d = origin s - video_mem_start s
      in con_outb (ucast (drop_bit 1 d)) (video_port_val s) (con_outb 13 (video_port_reg s)
         (con_outb (ucast (drop_bit 9 d)) (video_port_val s) (con_outb 12 (video_port_reg s) s))))"

definition scroll_region :: "con \<Rightarrow> con" where
  "scroll_region s =
     (let (edi, m) = rep_movsl 4 (origin s + video_size_row s * (top_line s + 1)) (origin s + video_size_row s * top_line s)
            (drop_bit 1 ((bottom_line s - top_line s - 1) * video_num_columns s)) (vmem s)
      in s\<lparr>vmem := rep_stosw 2 (video_erase_char s) edi (video_num_columns s) m\<rparr>)"

definition scrup :: "con \<Rightarrow> con" where
  "scrup s =
     (if video_type s = VIDEO_TYPE_EGAC \<or> video_type s = VIDEO_TYPE_EGAM then
        (if top_line s = 0 \<and> bottom_line s = video_num_lines s then
           let s = s\<lparr>origin := origin s + video_size_row s, pos := pos s + video_size_row s, scr_end := scr_end s + video_size_row s\<rparr>;
               s = (if scr_end s > video_mem_end s then
                      let (edi, m) = rep_movsl 4 (origin s) (video_mem_start s) (drop_bit 1 ((video_num_lines s - 1) * video_num_columns s)) (vmem s)
                      in s\<lparr>vmem := rep_stosw 2 (video_erase_char s) edi (video_num_columns s) m,
                           scr_end := scr_end s - (origin s - video_mem_start s),
                           pos := pos s - (origin s - video_mem_start s), origin := video_mem_start s\<rparr>
                    else fill (scr_end s - video_size_row s) (video_num_columns s) s)
           in set_origin s
         else scroll_region s)
      else scroll_region s)"

definition scrdown :: "con \<Rightarrow> con" where
  "scrdown s =
     (let (edi, m) = rep_movsl (-4) (origin s + video_size_row s * (bottom_line s - 1) - 4) (origin s + video_size_row s * bottom_line s - 4)
            (drop_bit 1 ((bottom_line s - top_line s - 1) * video_num_columns s)) (vmem s)
      in s\<lparr>vmem := rep_stosw (-2) (video_erase_char s) (edi + 2) (video_num_columns s) m\<rparr>)"

definition lf :: "con \<Rightarrow> con" where
  "lf s = (if con_y s + 1 < bottom_line s then s\<lparr>con_y := con_y s + 1, pos := pos s + video_size_row s\<rparr> else scrup s)"

definition ri :: "con \<Rightarrow> con" where
  "ri s = (if con_y s > top_line s then s\<lparr>con_y := con_y s - 1, pos := pos s - video_size_row s\<rparr> else scrdown s)"

definition cr :: "con \<Rightarrow> con" where
  "cr s = s\<lparr>pos := pos s - push_bit 1 (con_x s), con_x := 0\<rparr>"

definition del :: "con \<Rightarrow> con" where
  "del s = (if con_x s \<noteq> 0 then s\<lparr>pos := pos s - 2, con_x := con_x s - 1, vmem := (vmem s)(pos s - 2 := video_erase_char s)\<rparr> else s)"

section \<open>Control sequences\<close>

definition csi_J :: "u32 \<Rightarrow> con \<Rightarrow> con" where
  "csi_J p s =
     (if p = 0 then fill (pos s) (drop_bit 1 (scr_end s - pos s)) s
      else if p = 1 then fill (origin s) (drop_bit 1 (pos s - origin s)) s
      else if p = 2 then fill (origin s) (video_num_columns s * video_num_lines s) s
      else s)"

definition csi_K :: "u32 \<Rightarrow> con \<Rightarrow> con" where
  "csi_K p s =
     (if p = 0 then (if con_x s \<ge> video_num_columns s then s else fill (pos s) (video_num_columns s - con_x s) s)
      else if p = 1 then fill (pos s - push_bit 1 (con_x s)) (if con_x s < video_num_columns s then con_x s else video_num_columns s) s
      else if p = 2 then fill (pos s - push_bit 1 (con_x s)) (video_num_columns s) s
      else s)"

definition sgr :: "u8 \<Rightarrow> u32 \<Rightarrow> u8" where
  "sgr a p = (if p = 0 then 0x07 else if p = 1 then 0x0f else if p = 4 then 0x0f else if p = 7 then 0x70 else if p = 27 then 0x07 else a)"

definition csi_m :: "con \<Rightarrow> con" where
  "csi_m s = s\<lparr>attr := foldl sgr (attr s) (take (npar s + 1) (par s))\<rparr>"

definition set_cursor :: "con \<Rightarrow> con" where
  "set_cursor s =
     (let d = pos s - video_mem_start s
      in con_outb (ucast (drop_bit 1 d)) (video_port_val s) (con_outb 15 (video_port_reg s)
         (con_outb (ucast (drop_bit 9 d)) (video_port_val s) (con_outb 14 (video_port_reg s) s))))"

text \<open>The loops of \<open>insert_char\<close> and \<open>delete_char\<close> run over the rest of the line, \<open>n\<close> characters.\<close>

primrec insert_loop :: "nat \<Rightarrow> u16 \<Rightarrow> u32 \<Rightarrow> (u32 \<Rightarrow> u16) \<Rightarrow> (u32 \<Rightarrow> u16)" where
  "insert_loop 0 old p m = m"
| "insert_loop (Suc n) old p m = insert_loop n (m p) (p + 2) (m(p := old))"

definition insert_char :: "con \<Rightarrow> con" where
  "insert_char s = s\<lparr>vmem := insert_loop (unat (video_num_columns s) - unat (con_x s)) (video_erase_char s) (pos s) (vmem s)\<rparr>"

primrec delete_loop :: "nat \<Rightarrow> u16 \<Rightarrow> u32 \<Rightarrow> (u32 \<Rightarrow> u16) \<Rightarrow> (u32 \<Rightarrow> u16)" where
  "delete_loop 0 e p m = m(p := e)"
| "delete_loop (Suc n) e p m = delete_loop n e (p + 2) (m(p := m (p + 2)))"

definition delete_char :: "con \<Rightarrow> con" where
  "delete_char s =
     (if con_x s \<ge> video_num_columns s then s
      else s\<lparr>vmem := delete_loop (unat (video_num_columns s) - unat (con_x s) - 1) (video_erase_char s) (pos s) (vmem s)\<rparr>)"

definition insert_line :: "con \<Rightarrow> con" where
  "insert_line s =
     (scrdown (s\<lparr>top_line := con_y s, bottom_line := video_num_lines s\<rparr>))\<lparr>top_line := top_line s, bottom_line := bottom_line s\<rparr>"

definition delete_line :: "con \<Rightarrow> con" where
  "delete_line s =
     (scrup (s\<lparr>top_line := con_y s, bottom_line := video_num_lines s\<rparr>))\<lparr>top_line := top_line s, bottom_line := bottom_line s\<rparr>"

definition clip :: "u32 \<Rightarrow> u32 \<Rightarrow> nat" where
  "clip hi nr = (if nr > hi then unat hi else if nr = 0 then 1 else unat nr)"

definition csi_at :: "u32 \<Rightarrow> con \<Rightarrow> con" where
  "csi_at nr s = (insert_char ^^ clip (video_num_columns s) nr) s"

definition csi_L :: "u32 \<Rightarrow> con \<Rightarrow> con" where
  "csi_L nr s = (insert_line ^^ clip (video_num_lines s) nr) s"

definition csi_P :: "u32 \<Rightarrow> con \<Rightarrow> con" where
  "csi_P nr s = (delete_char ^^ clip (video_num_columns s) nr) s"

definition csi_M :: "u32 \<Rightarrow> con \<Rightarrow> con" where
  "csi_M nr s = (delete_line ^^ clip (video_num_lines s) nr) s"

definition save_cur :: "con \<Rightarrow> con" where
  "save_cur s = s\<lparr>saved_x := con_x s, saved_y := con_y s\<rparr>"

definition restore_cur :: "con \<Rightarrow> con" where
  "restore_cur s = gotoxy (saved_x s) (saved_y s) s"

text \<open>\<open>inb\<close> gives what a port reads; \<open>HZ\<close> is 100.\<close>

definition sysbeep :: "(u16 \<Rightarrow> u8) \<Rightarrow> con \<Rightarrow> con" where
  "sysbeep inb s = (con_outb 0x06 0x42 (con_outb 0x37 0x42 (con_outb 0xB6 0x43 (con_outb (inb 0x61 OR 3) 0x61 s))))\<lparr>con_beepcount := 12\<rparr>"

definition sysbeepstop :: "(u16 \<Rightarrow> u8) \<Rightarrow> con \<Rightarrow> con" where
  "sysbeepstop inb s = con_outb (inb 0x61 AND 0xFC) 0x61 s"

section \<open>The interpretation of characters\<close>

text \<open>
  The body of the loop of \<open>con_write\<close> for one character, state by state; the cases 2, 3 and 4 of the
  code fall through. The answer to ESC Z is the business of the terminal (\<open>Tty\<close>): the flag tells
  that it is due. \<open>er\<close> is the erase character of the terminal.
\<close>

definition wrap_line :: "con \<Rightarrow> con" where
  "wrap_line s = lf (s\<lparr>con_x := con_x s - video_num_columns s, pos := pos s - video_size_row s\<rparr>)"

definition put_cell :: "u8 \<Rightarrow> con \<Rightarrow> con" where
  "put_cell c s = s\<lparr>vmem := (vmem s)(pos s := push_bit 8 (ucast (attr s)) OR ucast c), pos := pos s + 2, con_x := con_x s + 1\<rparr>"

definition tab :: "con \<Rightarrow> con" where
  "tab s =
     (let d = 8 - (con_x s AND 7); s = s\<lparr>con_x := con_x s + d, pos := pos s + push_bit 1 d\<rparr>
      in if con_x s > video_num_columns s then wrap_line s else s)"

definition con_plain :: "(u16 \<Rightarrow> u8) \<Rightarrow> u8 \<Rightarrow> u8 \<Rightarrow> con \<Rightarrow> con" where
  "con_plain inb er c s =
     (if sint c > 31 \<and> sint c < 127 then put_cell c (if con_x s \<ge> video_num_columns s then wrap_line s else s)
      else if c = 27 then s\<lparr>con_state := 1\<rparr>
      else if c = 10 \<or> c = 11 \<or> c = 12 then lf s
      else if c = 13 then cr s
      else if sint c = uint er then del s
      else if c = 8 then (if con_x s \<noteq> 0 then s\<lparr>con_x := con_x s - 1, pos := pos s - 2\<rparr> else s)
      else if c = 9 then tab s
      else if c = 7 then sysbeep inb s
      else s)"

definition con_escape :: "u8 \<Rightarrow> con \<Rightarrow> con \<times> bool" where
  "con_escape c s =
     (let s = s\<lparr>con_state := 0\<rparr>
      in if c = 0x5B then (s\<lparr>con_state := 2\<rparr>, False)
      else if c = 0x45 then (gotoxy 0 (con_y s + 1) s, False)
      else if c = 0x4D then (ri s, False)
      else if c = 0x44 then (lf s, False)
      else if c = 0x5A then (s, True)
      else if c = 0x37 then (save_cur s, False)
      else if c = 0x38 then (restore_cur s, False)
      else (s, False))"

definition par_at :: "nat \<Rightarrow> con \<Rightarrow> u32" where
  "par_at i s = par s ! i"

definition par_dec :: "nat \<Rightarrow> con \<Rightarrow> con" where
  "par_dec i s = (if par s ! i \<noteq> 0 then s\<lparr>par := (par s)[i := par s ! i - 1]\<rparr> else s)"

definition par_one :: "con \<Rightarrow> con" where
  "par_one s = (if par s ! 0 = 0 then s\<lparr>par := (par s)[0 := 1]\<rparr> else s)"

definition set_region :: "con \<Rightarrow> con" where
  "set_region s =
     (let s = par_dec 0 s; s = (if par s ! 1 = 0 then s\<lparr>par := (par s)[1 := video_num_lines s]\<rparr> else s)
      in if par s ! 0 < par s ! 1 \<and> par s ! 1 \<le> video_num_lines s
      then s\<lparr>top_line := par s ! 0, bottom_line := par s ! 1\<rparr> else s)"

definition con_csi :: "u8 \<Rightarrow> con \<Rightarrow> con" where
  "con_csi c s =
     (let s = s\<lparr>con_state := 0\<rparr>
      in if c = 0x47 \<or> c = 0x60 then (let s = par_dec 0 s in gotoxy (par_at 0 s) (con_y s) s)
      else if c = 0x41 then (let s = par_one s in gotoxy (con_x s) (con_y s - par_at 0 s) s)
      else if c = 0x42 \<or> c = 0x65 then (let s = par_one s in gotoxy (con_x s) (con_y s + par_at 0 s) s)
      else if c = 0x43 \<or> c = 0x61 then (let s = par_one s in gotoxy (con_x s + par_at 0 s) (con_y s) s)
      else if c = 0x44 then (let s = par_one s in gotoxy (con_x s - par_at 0 s) (con_y s) s)
      else if c = 0x45 then (let s = par_one s in gotoxy 0 (con_y s + par_at 0 s) s)
      else if c = 0x46 then (let s = par_one s in gotoxy 0 (con_y s - par_at 0 s) s)
      else if c = 0x64 then (let s = par_dec 0 s in gotoxy (con_x s) (par_at 0 s) s)
      else if c = 0x48 \<or> c = 0x66 then (let s = par_dec 1 (par_dec 0 s) in gotoxy (par_at 1 s) (par_at 0 s) s)
      else if c = 0x4A then csi_J (par_at 0 s) s
      else if c = 0x4B then csi_K (par_at 0 s) s
      else if c = 0x4C then csi_L (par_at 0 s) s
      else if c = 0x4D then csi_M (par_at 0 s) s
      else if c = 0x50 then csi_P (par_at 0 s) s
      else if c = 0x40 then csi_at (par_at 0 s) s
      else if c = 0x6D then csi_m s
      else if c = 0x72 then set_region s
      else if c = 0x73 then save_cur s
      else if c = 0x75 then restore_cur s
      else s)"

definition con_param :: "u8 \<Rightarrow> con \<Rightarrow> con" where
  "con_param c s =
     (if c = 0x3B \<and> npar s < NPAR - 1 then s\<lparr>npar := npar s + 1\<rparr>
      else if 0x30 \<le> c \<and> c \<le> 0x39 then s\<lparr>par := (par s)[npar s := 10 * par s ! npar s + ucast c - 0x30]\<rparr>
      else con_csi c s)"

definition con_char :: "(u16 \<Rightarrow> u8) \<Rightarrow> u8 \<Rightarrow> u8 \<Rightarrow> con \<Rightarrow> con \<times> bool" where
  "con_char inb er c s =
     (if con_state s = 0 then (con_plain inb er c s, False)
      else if con_state s = 1 then con_escape c s
      else if con_state s = 2 then
        (let s = s\<lparr>par := replicate NPAR 0, npar := 0, con_state := 3, ques := (c = 0x3F)\<rparr>
         in (if ques s then s else con_param c s, False))
      else if con_state s = 3 then (con_param c s, False)
      else if con_state s = 4 then (con_csi c s, False)
      else (s, False))"

section \<open>Initialisation\<close>

text \<open>
  What \<open>setup.s\<close> left at address 0x90000: cursor, page, mode, columns and the result of the EGA
  call. \<open>s\<close> holds the variables that \<open>con_init\<close> does not set; \<open>desc\<close> the four letters for the
  type of the display, which replace the characters of four cells of the first line.
\<close>

record setup_data =
  ORIG_X :: u8
  ORIG_Y :: u8
  ORIG_VIDEO_PAGE :: u16
  ORIG_VIDEO_MODE :: u16
  ORIG_VIDEO_COLS :: u16
  ORIG_VIDEO_EGA_BX :: u16

fun put_desc :: "u8 list \<Rightarrow> u32 \<Rightarrow> (u32 \<Rightarrow> u16) \<Rightarrow> (u32 \<Rightarrow> u16)" where
  "put_desc [] p m = m"
| "put_desc (c # d) p m = put_desc d (p + 2) (m(p := (m p AND 0xFF00) OR ucast c))"

definition display_desc :: "bool \<Rightarrow> bool \<Rightarrow> u8 list" where
  "display_desc mda ega =
     (if mda then (if ega then [0x45, 0x47, 0x41, 0x6D] else [0x2A, 0x4D, 0x44, 0x41])
      else (if ega then [0x45, 0x47, 0x41, 0x63] else [0x2A, 0x43, 0x47, 0x41]))"

definition con_init :: "(u16 \<Rightarrow> u8) \<Rightarrow> setup_data \<Rightarrow> con \<Rightarrow> con" where
  "con_init inb d s =
     (let mda = (ORIG_VIDEO_MODE d = 7); ega = (ORIG_VIDEO_EGA_BX d AND 0xff \<noteq> 0x10);
          s = s\<lparr>video_num_columns := ucast (ORIG_VIDEO_COLS d), video_size_row := ucast (ORIG_VIDEO_COLS d) * 2,
                video_num_lines := 25, video_page := ucast (ORIG_VIDEO_PAGE d), video_erase_char := 0x0720,
                video_mem_start := (if mda then 0xb0000 else 0xb8000),
                video_port_reg := (if mda then 0x3b4 else 0x3d4), video_port_val := (if mda then 0x3b5 else 0x3d5),
                video_type := (if mda then (if ega then VIDEO_TYPE_EGAM else VIDEO_TYPE_MDA) else (if ega then VIDEO_TYPE_EGAC else VIDEO_TYPE_CGA)),
                video_mem_end := (if mda then (if ega then 0xb8000 else 0xb2000) else (if ega then 0xbc000 else 0xba000))\<rparr>;
          desc = display_desc mda ega;
          s = s\<lparr>vmem := put_desc desc (video_mem_start s + video_size_row s - 8) (vmem s),
                origin := video_mem_start s, scr_end := video_mem_start s + video_num_lines s * video_size_row s,
                top_line := 0, bottom_line := video_num_lines s\<rparr>;
          s = gotoxy (ucast (ORIG_X d)) (ucast (ORIG_Y d)) s;
          a = inb 0x61
      in con_outb a 0x61 (con_outb (a OR 0x80) 0x61 (con_outb (inb 0x21 AND 0xfd) 0x21 s)))"

section \<open>The display memory is the only memory written\<close>

lemma unat32_add: "unat a + unat b < 4294967296 \<Longrightarrow> unat (a + b :: u32) = unat a + unat b"
  by (simp add: unat_word_ariths)

lemma unat32_sub: "unat b \<le> unat a \<Longrightarrow> unat (a - b :: u32) = unat a - unat b"
  by (simp add: unat_sub word_le_nat_alt)

lemma unat32_mult: "unat a * unat b < 4294967296 \<Longrightarrow> unat (a * b :: u32) = unat a * unat b"
  by (simp add: unat_word_ariths)

lemma unat32_double: "2 * unat a < 4294967296 \<Longrightarrow> unat (push_bit 1 a :: u32) = 2 * unat a"
  by (simp add: push_bit_eq_mult unat_word_ariths)

text \<open>\<open>outside lo hi m m'\<close>: the two memories agree but for the addresses from \<open>lo\<close> to \<open>hi\<close>.\<close>

definition outside :: "nat \<Rightarrow> nat \<Rightarrow> (u32 \<Rightarrow> u16) \<Rightarrow> (u32 \<Rightarrow> u16) \<Rightarrow> bool" where
  "outside lo hi m m' \<longleftrightarrow> (\<forall>a. unat a < lo \<or> hi \<le> unat a \<longrightarrow> m' a = m a)"

lemma outside_refl [simp]: "outside lo hi m m"
  by (simp add: outside_def)

lemma outside_trans: "outside lo hi m m' \<Longrightarrow> outside lo hi m' m'' \<Longrightarrow> outside lo hi m m''"
  by (simp add: outside_def)

lemma outside_upd: "lo \<le> unat a \<Longrightarrow> unat a < hi \<Longrightarrow> outside lo hi m (m(a := v))"
  by (auto simp: outside_def)

lemma unat_pred: "Suc k = unat n \<Longrightarrow> n \<noteq> 0 \<and> unat (n - 1 :: u32) = k"
proof -
  assume k: "Suc k = unat n"
  then have "n \<noteq> 0" by auto
  then show ?thesis using k by (simp add: word_minus_one_unat flip: k)
qed

lemma stosw_up:
  assumes "lo \<le> unat edi" and "unat edi + 2 * unat n \<le> hi" and "hi < 2147483648"
  shows "outside lo hi m (rep_stosw 2 v edi n m)"
  using assms
proof (induction "unat n" arbitrary: n edi m)
  case 0
  then have "n = 0" by (simp add: unat_eq_0)
  then show ?case by (simp add: rep_stosw.simps)
next
  case (Suc k)
  note n = unat_pred [OF Suc.hyps(2)]
  have e: "unat (edi + 2) = unat edi + 2" using Suc.prems by (subst unat32_add) simp_all
  have "outside lo hi (m(edi := v)) (rep_stosw 2 v (edi + 2) (n - 1) (m(edi := v)))"
    using Suc.prems Suc.hyps(2) n e by (intro Suc.hyps(1)) simp_all
  moreover have "outside lo hi m (m(edi := v))" using Suc.prems Suc.hyps(2) by (intro outside_upd) simp_all
  ultimately show ?case using n by (subst rep_stosw.simps) (auto intro: outside_trans)
qed

lemma stosw_down:
  assumes "n = 0 \<or> lo + 2 * unat n \<le> unat edi + 2 \<and> unat edi < hi"
  shows "outside lo hi m (rep_stosw (-2) v edi n m)"
  using assms
proof (induction "unat n" arbitrary: n edi m)
  case 0
  then have "n = 0" by (simp add: unat_eq_0)
  then show ?case by (simp add: rep_stosw.simps)
next
  case (Suc k)
  note n = unat_pred [OF Suc.hyps(2)]
  have "outside lo hi (m(edi := v)) (rep_stosw (-2) v (edi + -2) (n - 1) (m(edi := v)))"
  proof (rule Suc.hyps(1))
    show "k = unat (n - 1)" using n by simp
    show "n - 1 = 0 \<or> lo + 2 * unat (n - 1) \<le> unat (edi + -2) + 2 \<and> unat (edi + -2) < hi"
    proof (cases "k = 0")
      case False
      then have "unat (edi - 2) = unat edi - 2" using Suc.prems Suc.hyps(2) n by (subst unat32_sub) auto
      then show ?thesis using Suc.prems Suc.hyps(2) n False by auto
    qed (use n in \<open>simp add: unat_eq_0\<close>)
  qed
  moreover have "outside lo hi m (m(edi := v))" using Suc.prems Suc.hyps(2) n by (intro outside_upd) auto
  ultimately show ?case using n by (subst rep_stosw.simps) (auto intro: outside_trans)
qed

lemma movsl_up:
  assumes "lo \<le> unat edi" and "unat edi + 4 * unat n \<le> hi" and "hi < 2147483648"
  shows "outside lo hi m (snd (rep_movsl 4 esi edi n m)) \<and> unat (fst (rep_movsl 4 esi edi n m)) = unat edi + 4 * unat n"
  using assms
proof (induction "unat n" arbitrary: n esi edi m)
  case 0
  then have "n = 0" by (simp add: unat_eq_0)
  then show ?case by (simp add: rep_movsl.simps)
next
  case (Suc k)
  note n = unat_pred [OF Suc.hyps(2)]
  have e: "unat (edi + 4) = unat edi + 4" "unat (edi + 2) = unat edi + 2"
    using Suc.prems Suc.hyps(2) by (subst unat32_add; simp)+
  let ?m = "m(edi := m esi, edi + 2 := m (esi + 2))"
  have "outside lo hi ?m (snd (rep_movsl 4 (esi + 4) (edi + 4) (n - 1) ?m)) \<and>
      unat (fst (rep_movsl 4 (esi + 4) (edi + 4) (n - 1) ?m)) = unat (edi + 4) + 4 * unat (n - 1)"
    using Suc.prems Suc.hyps(2) n e by (intro Suc.hyps(1)) simp_all
  moreover have "outside lo hi m ?m"
    using Suc.prems Suc.hyps(2) e by (intro outside_trans [OF outside_upd outside_upd]) simp_all
  ultimately show ?case using n e Suc.hyps(2) by (subst (1 2) rep_movsl.simps) (auto intro: outside_trans)
qed

lemma movsl_down:
  assumes "n = 0 \<or> lo + 4 * unat n \<le> unat edi + 4 \<and> unat edi + 4 \<le> hi" and "hi < 2147483648"
  shows "outside lo hi m (snd (rep_movsl (-4) esi edi n m)) \<and> fst (rep_movsl (-4) esi edi n m) = edi - 4 * n"
  using assms
proof (induction "unat n" arbitrary: n esi edi m)
  case 0
  then have "n = 0" by (simp add: unat_eq_0)
  then show ?case by (simp add: rep_movsl.simps)
next
  case (Suc k)
  note n = unat_pred [OF Suc.hyps(2)]
  let ?m = "m(edi := m esi, edi + 2 := m (esi + 2))"
  have e: "unat (edi + 2) = unat edi + 2" using Suc.prems n by (subst unat32_add) auto
  have "outside lo hi ?m (snd (rep_movsl (-4) (esi + -4) (edi + -4) (n - 1) ?m)) \<and>
      fst (rep_movsl (-4) (esi + -4) (edi + -4) (n - 1) ?m) = (edi + -4) - 4 * (n - 1)"
  proof (rule Suc.hyps(1))
    show "k = unat (n - 1)" using n by simp
    show "n - 1 = 0 \<or> lo + 4 * unat (n - 1) \<le> unat (edi + -4) + 4 \<and> unat (edi + -4) + 4 \<le> hi"
    proof (cases "k = 0")
      case False
      then have "unat (edi - 4) = unat edi - 4" using Suc.prems Suc.hyps(2) n by (subst unat32_sub) auto
      then show ?thesis using Suc.prems Suc.hyps(2) n False by auto
    qed (use n in \<open>simp add: unat_eq_0\<close>)
  qed (rule Suc.prems)
  moreover have "outside lo hi m ?m"
    using Suc.prems Suc.hyps(2) n e by (intro outside_trans [OF outside_upd outside_upd]) auto
  ultimately show ?case using n by (subst (1 2) rep_movsl.simps) (auto intro: outside_trans simp: algebra_simps)
qed

section \<open>The invariant of the console\<close>

text \<open>
  \<open>con_ok g lo hi m0 s\<close>: the screen has the numbers of columns and lines \<open>g\<close> and lies in the display memory from \<open>lo\<close> to \<open>hi\<close>, the cursor on it (the
  column may be one past the last), \<open>pos\<close> is the address of the cursor, the scroll region is
  proper, and the memory outside of the display is still that of \<open>m0\<close>.
\<close>

definition con_ok :: "nat \<times> nat \<Rightarrow> nat \<Rightarrow> nat \<Rightarrow> (u32 \<Rightarrow> u16) \<Rightarrow> con \<Rightarrow> bool" where
  "con_ok g lo hi m0 s \<longleftrightarrow>
     g = (unat (video_num_columns s), unat (video_num_lines s)) \<and> unat (video_mem_start s) = lo \<and> unat (video_mem_end s) = hi \<and> hi < 16777216 \<and>
     8 \<le> unat (video_num_columns s) \<and> unat (video_size_row s) = 2 * unat (video_num_columns s) \<and>
     lo + unat (video_num_lines s) * unat (video_size_row s) \<le> hi \<and>
     lo \<le> unat (origin s) \<and> unat (scr_end s) = unat (origin s) + unat (video_num_lines s) * unat (video_size_row s) \<and> unat (scr_end s) \<le> hi \<and>
     unat (con_x s) \<le> unat (video_num_columns s) \<and> unat (con_y s) < unat (video_num_lines s) \<and>
     unat (pos s) = unat (origin s) + unat (con_y s) * unat (video_size_row s) + 2 * unat (con_x s) \<and>
     unat (top_line s) < unat (bottom_line s) \<and> unat (bottom_line s) \<le> unat (video_num_lines s) \<and>
     con_state s \<le> 3 \<and> length (par s) = NPAR \<and> npar s < NPAR \<and>
     outside lo hi m0 (vmem s)"

lemma rows_le: "y < l \<Longrightarrow> y * r + r \<le> l * (r :: nat)"
proof -
  assume "y < l"
  then have "Suc y * r \<le> l * r" by (intro mult_le_mono1) simp
  then show ?thesis by simp
qed

text \<open>The facts that the proofs use, with all products bounded.\<close>

lemma con_okD:
  assumes "con_ok g lo hi m0 s"
  shows "unat (video_mem_start s) = lo" "unat (video_mem_end s) = hi" "hi < 16777216"
    "8 \<le> unat (video_num_columns s)" "unat (video_size_row s) = 2 * unat (video_num_columns s)"
    "lo + unat (video_num_lines s) * unat (video_size_row s) \<le> hi"
    "lo \<le> unat (origin s)" "unat (scr_end s) = unat (origin s) + unat (video_num_lines s) * unat (video_size_row s)" "unat (scr_end s) \<le> hi"
    "unat (con_x s) \<le> unat (video_num_columns s)" "unat (con_y s) < unat (video_num_lines s)"
    "unat (pos s) = unat (origin s) + unat (con_y s) * unat (video_size_row s) + 2 * unat (con_x s)"
    "unat (top_line s) < unat (bottom_line s)" "unat (bottom_line s) \<le> unat (video_num_lines s)"
    "con_state s \<le> 3" "length (par s) = NPAR" "npar s < NPAR" "outside lo hi m0 (vmem s)"
    "unat (con_y s) * unat (video_size_row s) + unat (video_size_row s) \<le> unat (video_num_lines s) * unat (video_size_row s)"
    "unat (video_size_row s) \<le> hi"
proof -
  note c = assms [unfolded con_ok_def]
  show "unat (video_mem_start s) = lo" "unat (video_mem_end s) = hi" "hi < 16777216"
    "8 \<le> unat (video_num_columns s)" "unat (video_size_row s) = 2 * unat (video_num_columns s)"
    "lo + unat (video_num_lines s) * unat (video_size_row s) \<le> hi"
    "lo \<le> unat (origin s)" "unat (scr_end s) = unat (origin s) + unat (video_num_lines s) * unat (video_size_row s)" "unat (scr_end s) \<le> hi"
    "unat (con_x s) \<le> unat (video_num_columns s)" "unat (con_y s) < unat (video_num_lines s)"
    "unat (pos s) = unat (origin s) + unat (con_y s) * unat (video_size_row s) + 2 * unat (con_x s)"
    "unat (top_line s) < unat (bottom_line s)" "unat (bottom_line s) \<le> unat (video_num_lines s)"
    "con_state s \<le> 3" "length (par s) = NPAR" "npar s < NPAR" "outside lo hi m0 (vmem s)"
    using c by blast+
  show r: "unat (con_y s) * unat (video_size_row s) + unat (video_size_row s) \<le> unat (video_num_lines s) * unat (video_size_row s)"
    using c by (intro rows_le) simp
  then show "unat (video_size_row s) \<le> hi" using c by linarith
qed

lemma con_ok_goto:
  assumes "con_ok g lo hi m0 s" and "x \<le> video_num_columns s" and "y < video_num_lines s"
    and "unat p = unat (origin s) + unat y * unat (video_size_row s) + 2 * unat x"
  shows "con_ok g lo hi m0 (s\<lparr>con_x := x, con_y := y, pos := p\<rparr>)"
  using assms by (auto simp: con_ok_def word_le_nat_alt word_less_nat_alt)

lemma gotoxy_ok: "con_ok g lo hi m0 s \<Longrightarrow> con_ok g lo hi m0 (gotoxy x y s)"
proof (cases "x > video_num_columns s \<or> y \<ge> video_num_lines s")
  case False
  assume ok: "con_ok g lo hi m0 s"
  note c = con_okD [OF ok]
  have xy: "unat x \<le> unat (video_num_columns s)" "unat y < unat (video_num_lines s)"
    using False by (auto simp: word_less_nat_alt word_le_nat_alt)
  have r: "unat y * unat (video_size_row s) + unat (video_size_row s) \<le> unat (video_num_lines s) * unat (video_size_row s)"
    using xy(2) by (rule rows_le)
  have 1: "unat (y * video_size_row s) = unat y * unat (video_size_row s)" using r c(3,6) by (intro unat32_mult) linarith
  have 2: "unat (push_bit 1 x) = 2 * unat x" using xy c(3,5,20) by (intro unat32_double) linarith
  have 3: "unat (origin s + y * video_size_row s) = unat (origin s) + unat y * unat (video_size_row s)"
    using r c(3,8,9) 1 by (subst unat32_add) linarith+
  have 4: "unat (origin s + y * video_size_row s + push_bit 1 x) = unat (origin s) + unat y * unat (video_size_row s) + 2 * unat x"
    using r c(3,5,8,9) xy 2 3 by (subst unat32_add) linarith+
  show ?thesis using False con_ok_goto [OF ok _ _ 4] by (auto simp: gotoxy_def not_less not_le)
qed (simp add: gotoxy_def)

lemma con_ok_vmem:
  "con_ok g lo hi m0 s \<Longrightarrow> outside lo hi (vmem s) m \<Longrightarrow> con_ok g lo hi m0 (s\<lparr>vmem := m\<rparr>)"
  by (auto simp: con_ok_def intro: outside_trans)

lemma con_outb_ok [simp]: "con_ok g lo hi m0 (con_outb v p s) = con_ok g lo hi m0 s"
  by (simp add: con_ok_def con_outb_def)

lemma ports_ok [simp]: "con_ok g lo hi m0 (set_origin s) = con_ok g lo hi m0 s" "con_ok g lo hi m0 (set_cursor s) = con_ok g lo hi m0 s"
  "con_ok g lo hi m0 (s\<lparr>con_beepcount := b\<rparr>) = con_ok g lo hi m0 s" "con_ok g lo hi m0 (s\<lparr>attr := a\<rparr>) = con_ok g lo hi m0 s"
  "con_ok g lo hi m0 (s\<lparr>saved_x := sx, saved_y := sy\<rparr>) = con_ok g lo hi m0 s" "con_ok g lo hi m0 (s\<lparr>ques := q\<rparr>) = con_ok g lo hi m0 s"
  by (simp_all add: set_origin_def set_cursor_def Let_def) (simp_all add: con_ok_def)

lemma fill_ok:
  assumes "con_ok g lo hi m0 s" and "lo \<le> unat start" and "unat start + 2 * unat n \<le> hi"
  shows "con_ok g lo hi m0 (fill start n s)"
proof -
  have "hi < 2147483648" using con_okD(3) [OF assms(1)] by simp
  then show ?thesis unfolding fill_def using assms by (intro con_ok_vmem stosw_up) auto
qed

lemma unat_numeral_4: "unat (4 :: u32) = 4" "unat (2 :: u32) = 2" "unat (1 :: u32) = 1"
  by simp_all

lemma unat_half: "unat (drop_bit 1 w :: u32) = unat w div 2"
  using unat_div [of w 2] by (simp add: drop_bit_eq_div)

text \<open>The number of long words moved when a region scrolls by a line.\<close>

lemma scroll_count:
  assumes "con_ok g lo hi m0 s" and "unat t < unat b" and "unat b \<le> unat (video_num_lines s)"
  shows "4 * unat (drop_bit 1 ((b - t - 1) * video_num_columns s)) \<le> (unat b - unat t - 1) * unat (video_size_row s)"
proof -
  note c = con_okD [OF assms(1)]
  have 1: "unat (b - t - 1) = unat b - unat t - 1" using assms(2) by (simp add: unat32_sub)
  have "(unat b - unat t - 1) * unat (video_num_columns s) \<le> unat (video_num_lines s) * unat (video_size_row s)"
    using assms(3) c(5) by (intro mult_le_mono) linarith+
  then have "unat ((b - t - 1) * video_num_columns s) = (unat b - unat t - 1) * unat (video_num_columns s)"
    using unat32_mult [of "b - t - 1" "video_num_columns s"] c(3,6) unfolding 1 by linarith
  then have "4 * unat (drop_bit 1 ((b - t - 1) * video_num_columns s)) = 4 * ((unat b - unat t - 1) * unat (video_num_columns s) div 2)"
    by (simp only: unat_half)
  also have "\<dots> \<le> 2 * ((unat b - unat t - 1) * unat (video_num_columns s))" by linarith
  finally show ?thesis by (simp add: c(5))
qed

lemma row_address:
  assumes "con_ok g lo hi m0 s" and "unat t \<le> unat (video_num_lines s)"
  shows "unat (origin s + video_size_row s * t) = unat (origin s) + unat t * unat (video_size_row s)"
    and "unat (origin s) + unat t * unat (video_size_row s) \<le> unat (scr_end s)"
proof -
  note c = con_okD [OF assms(1)]
  have r: "unat t * unat (video_size_row s) \<le> unat (video_num_lines s) * unat (video_size_row s)"
    using assms(2) by (rule mult_le_mono1)
  have "unat (video_size_row s * t) = unat t * unat (video_size_row s)"
    using unat32_mult [of "video_size_row s" t] r c(3,6) by (simp only: mult.commute [of "unat (video_size_row s)"])
  then show "unat (origin s + video_size_row s * t) = unat (origin s) + unat t * unat (video_size_row s)"
    using r c(3,8,9) by (subst unat32_add) linarith+
  show "unat (origin s) + unat t * unat (video_size_row s) \<le> unat (scr_end s)" using r c(8) by linarith
qed

lemma rows_split: "t < b \<Longrightarrow> t * r + (b - t - 1) * r + r = b * (r :: nat)"
proof -
  assume "t < b"
  then have "b = t + (b - t - 1) + 1" by simp
  then show ?thesis by (metis add_mult_distrib nat_mult_1)
qed

lemma scroll_region_ok:
  assumes ok: "con_ok g lo hi m0 s"
  shows "con_ok g lo hi m0 (scroll_region s)"
proof -
  note c = con_okD [OF ok]
  let ?n = "drop_bit 1 ((bottom_line s - top_line s - 1) * video_num_columns s)"
  let ?d = "origin s + video_size_row s * top_line s" and ?e = "origin s + video_size_row s * (top_line s + 1)"
  have d: "unat ?d = unat (origin s) + unat (top_line s) * unat (video_size_row s)"
    using row_address(1) [OF ok, of "top_line s"] c(13,14) by simp
  have b: "unat (origin s) + unat (bottom_line s) * unat (video_size_row s) \<le> unat (scr_end s)"
    using row_address(2) [OF ok c(14)] .
  have n: "4 * unat ?n \<le> (unat (bottom_line s) - unat (top_line s) - 1) * unat (video_size_row s)"
    by (rule scroll_count [OF ok c(13,14)])
  note sp = rows_split [OF c(13), of "unat (video_size_row s)"]
  have mv: "outside lo hi (vmem s) (snd (rep_movsl 4 ?e ?d ?n (vmem s))) \<and> unat (fst (rep_movsl 4 ?e ?d ?n (vmem s))) = unat ?d + 4 * unat ?n"
    using c(3,7,9) b n d sp by (intro movsl_up) linarith+
  then have "outside lo hi (snd (rep_movsl 4 ?e ?d ?n (vmem s)))
      (rep_stosw 2 (video_erase_char s) (fst (rep_movsl 4 ?e ?d ?n (vmem s))) (video_num_columns s) (snd (rep_movsl 4 ?e ?d ?n (vmem s))))"
    using c(3,5,7,9) b n d sp by (intro stosw_up) linarith+
  with mv show ?thesis
    unfolding scroll_region_def case_prod_unfold Let_def by (intro con_ok_vmem [OF ok]) (blast intro: outside_trans)
qed

lemma con_ok_origin:
  assumes "con_ok g lo hi m0 s" and "lo \<le> unat o'" and "unat e' \<le> hi"
    and "unat e' = unat o' + unat (video_num_lines s) * unat (video_size_row s)"
    and "unat p' = unat o' + unat (con_y s) * unat (video_size_row s) + 2 * unat (con_x s)"
  shows "con_ok g lo hi m0 (s\<lparr>origin := o', pos := p', scr_end := e'\<rparr>)"
  using assms unfolding con_ok_def by simp

lemma scrup_ok:
  assumes ok: "con_ok g lo hi m0 s"
  shows "con_ok g lo hi m0 (scrup s)"
proof -
  note c = con_okD [OF ok]
  define o' p' e' where oe: "o' = origin s + video_size_row s" "p' = pos s + video_size_row s" "e' = scr_end s + video_size_row s"
  have u: "unat o' = unat (origin s) + unat (video_size_row s)" "unat p' = unat (pos s) + unat (video_size_row s)"
    "unat e' = unat (scr_end s) + unat (video_size_row s)"
    unfolding oe using c(3,5,8,9,10,12,19,20) by (subst unat32_add; linarith)+
  show ?thesis
  proof (cases "(video_type s = VIDEO_TYPE_EGAC \<or> video_type s = VIDEO_TYPE_EGAM) \<and> top_line s = 0 \<and> bottom_line s = video_num_lines s")
    case False
    then show ?thesis using scroll_region_ok [OF ok] by (auto simp: scrup_def)
  next
    case fast: True
    show ?thesis
    proof (cases "e' > video_mem_end s")
      case True
      let ?n = "drop_bit 1 ((video_num_lines s - 1) * video_num_columns s)"
      let ?r = "rep_movsl 4 o' (video_mem_start s) ?n (vmem s)"
      have n: "4 * unat ?n \<le> (unat (video_num_lines s) - 1) * unat (video_size_row s)"
        using scroll_count [OF ok, of 0 "video_num_lines s"] c(11) by simp
      have sp: "(unat (video_num_lines s) - 1) * unat (video_size_row s) + unat (video_size_row s) = unat (video_num_lines s) * unat (video_size_row s)"
        using rows_split [of 0 "unat (video_num_lines s)"] c(11) by simp
      have mv: "outside lo hi (vmem s) (snd ?r) \<and> unat (fst ?r) = unat (video_mem_start s) + 4 * unat ?n"
        using c(1,3,6) n sp by (intro movsl_up) linarith+
      then have "outside lo hi (snd ?r) (rep_stosw 2 (video_erase_char s) (fst ?r) (video_num_columns s) (snd ?r))"
        using c(1,3,5,6) n sp by (intro stosw_up) linarith+
      then have ok1: "con_ok g lo hi m0 (s\<lparr>vmem := rep_stosw 2 (video_erase_char s) (fst ?r) (video_num_columns s) (snd ?r)\<rparr>)" (is "con_ok g lo hi m0 ?s1")
        using mv con_ok_vmem [OF ok] outside_trans by blast
      have d: "unat (o' - video_mem_start s) = unat o' - lo" using c(1,7) u by (subst unat32_sub) linarith+
      have e1: "unat (e' - (o' - video_mem_start s)) = lo + unat (video_num_lines s) * unat (video_size_row s)"
        using c(7,8) u d by (subst unat32_sub) linarith+
      have p1: "unat (p' - (o' - video_mem_start s)) = lo + unat (con_y s) * unat (video_size_row s) + 2 * unat (con_x s)"
        using c(7,12) u d by (subst unat32_sub) linarith+
      have "con_ok g lo hi m0 (?s1\<lparr>origin := video_mem_start s, pos := p' - (o' - video_mem_start s), scr_end := e' - (o' - video_mem_start s)\<rparr>)"
        by (rule con_ok_origin [OF ok1]) (simp_all add: e1 p1 c(1,6))
      moreover have "t\<lparr>origin := a, pos := b, scr_end := d\<rparr> = t\<lparr>scr_end := d, pos := b, origin := a\<rparr>" for t :: con and a b d by simp
      ultimately show ?thesis using fast True
        by (simp add: scrup_def case_prod_unfold Let_def oe set_origin_def)
    next
      case False
      then have le: "unat e' \<le> hi" using c(2) by (simp add: word_less_nat_alt)
      have ok1: "con_ok g lo hi m0 (s\<lparr>origin := o', pos := p', scr_end := e'\<rparr>)" (is "con_ok g lo hi m0 ?s1")
        using c(7,8,12) u le by (intro con_ok_origin [OF ok]) linarith+
      have "unat (e' - video_size_row s) = unat (scr_end s)" using u by (subst unat32_sub) linarith+
      then have "con_ok g lo hi m0 (fill (e' - video_size_row s) (video_num_columns s) ?s1)"
        using c(5,7,8) u le by (intro fill_ok [OF ok1]) linarith+
      then show ?thesis using fast False by (simp add: scrup_def Let_def oe)
    qed
  qed
qed

lemma scrdown_ok:
  assumes ok: "con_ok g lo hi m0 s"
  shows "con_ok g lo hi m0 (scrdown s)"
proof -
  note c = con_okD [OF ok]
  let ?n = "drop_bit 1 ((bottom_line s - top_line s - 1) * video_num_columns s)"
  let ?d = "origin s + video_size_row s * bottom_line s - 4" and ?e = "origin s + video_size_row s * (bottom_line s - 1) - 4"
  let ?r = "rep_movsl (-4) ?e ?d ?n (vmem s)"
  have b: "unat (origin s + video_size_row s * bottom_line s) = unat (origin s) + unat (bottom_line s) * unat (video_size_row s)"
      "unat (origin s) + unat (bottom_line s) * unat (video_size_row s) \<le> unat (scr_end s)"
    using row_address [OF ok c(14)] by auto
  have n: "4 * unat ?n \<le> (unat (bottom_line s) - unat (top_line s) - 1) * unat (video_size_row s)"
    by (rule scroll_count [OF ok c(13,14)])
  note sp = rows_split [OF c(13), of "unat (video_size_row s)"]
  have d: "unat ?d = unat (origin s) + unat (bottom_line s) * unat (video_size_row s) - 4"
    using b sp c(4,5) unat_numeral_4 by (subst unat32_sub) linarith+
  have mv: "outside lo hi (vmem s) (snd ?r) \<and> fst ?r = ?d - 4 * ?n"
    using c(3,4,5,7,9) b n d sp by (intro movsl_down disjI2) linarith+
  have 4: "unat (4 * ?n) = 4 * unat ?n" using n b c(3,9) sp unat_numeral_4 by (subst unat32_mult) (simp_all only: unat_numeral_4, linarith?)
  have "unat (?d - 4 * ?n) = unat (origin s) + unat (bottom_line s) * unat (video_size_row s) - 4 - 4 * unat ?n"
    using b n d sp c(4,5) 4 by (subst unat32_sub) linarith+
  then have "unat (?d - 4 * ?n + 2) = unat (origin s) + unat (bottom_line s) * unat (video_size_row s) - 4 - 4 * unat ?n + 2"
    using b c(3,9) unat_numeral_4 by (subst unat32_add) linarith+
  then have "outside lo hi (snd ?r) (rep_stosw (-2) (video_erase_char s) (fst ?r + 2) (video_num_columns s) (snd ?r))"
    using mv c(3,4,5,7,9) b n sp by (intro stosw_down disjI2) (simp only: mv, linarith)
  with mv show ?thesis
    unfolding scrdown_def case_prod_unfold Let_def by (intro con_ok_vmem [OF ok]) (blast intro: outside_trans)
qed

lemma lf_ok: "con_ok g lo hi m0 s \<Longrightarrow> con_ok g lo hi m0 (lf s)"
proof -
  assume ok: "con_ok g lo hi m0 s"
  note c = con_okD [OF ok]
  have y: "unat (con_y s + 1) = unat (con_y s) + 1" using c(11) unat32_less [of "video_num_lines s"] by (subst unat32_add) simp_all
  show ?thesis
  proof (cases "con_y s + 1 < bottom_line s")
    case True
    then have l: "unat (con_y s) + 1 < unat (bottom_line s)" using y by (simp add: word_less_nat_alt)
    have p: "unat (pos s + video_size_row s) = unat (pos s) + unat (video_size_row s)"
      using c(3,5,8,9,10,12,19,20) by (subst unat32_add) linarith+
    have "con_ok g lo hi m0 (s\<lparr>con_x := con_x s, con_y := con_y s + 1, pos := pos s + video_size_row s\<rparr>)"
      using c(10,12,14) y l p by (intro con_ok_goto [OF ok]) (simp_all add: word_le_nat_alt word_less_nat_alt)
    then show ?thesis using True by (simp add: lf_def)
  next
    case False
    then show ?thesis using scrup_ok [OF ok] by (simp add: lf_def)
  qed
qed

lemma pos_x: "s\<lparr>pos := p, con_x := x\<rparr> = s\<lparr>con_x := x, pos := p\<rparr>" for s :: con
  by simp

text \<open>The cursor moves within its line.\<close>

lemma con_ok_x:
  assumes "con_ok g lo hi m0 s" and "unat x \<le> unat (video_num_columns s)"
    and "unat p = unat (origin s) + unat (con_y s) * unat (video_size_row s) + 2 * unat x"
  shows "con_ok g lo hi m0 (s\<lparr>con_x := x, pos := p\<rparr>)"
  using assms by (auto simp: con_ok_def)

lemma ri_ok: "con_ok g lo hi m0 s \<Longrightarrow> con_ok g lo hi m0 (ri s)"
proof -
  assume ok: "con_ok g lo hi m0 s"
  note c = con_okD [OF ok]
  show ?thesis
  proof (cases "con_y s > top_line s")
    case True
    then have y0: "unat (con_y s) > 0" by (auto simp: word_less_nat_alt)
    have y: "unat (con_y s - 1) = unat (con_y s) - 1" using y0 unat_numeral_4 by (subst unat32_sub) linarith+
    have r: "unat (con_y s) * unat (video_size_row s) = (unat (con_y s) - 1) * unat (video_size_row s) + unat (video_size_row s)"
      using y0 by (cases "unat (con_y s)") simp_all
    have p: "unat (pos s - video_size_row s) = unat (pos s) - unat (video_size_row s)"
      using c(12) r by (subst unat32_sub) linarith+
    have "con_ok g lo hi m0 (s\<lparr>con_x := con_x s, con_y := con_y s - 1, pos := pos s - video_size_row s\<rparr>)"
      using c(10,11,12) y p r by (intro con_ok_goto [OF ok]) (simp_all add: word_le_nat_alt word_less_nat_alt)
    then show ?thesis using True by (simp add: ri_def)
  next
    case False
    then show ?thesis using scrdown_ok [OF ok] by (simp add: ri_def)
  qed
qed

lemma line_start:
  assumes ok: "con_ok g lo hi m0 s"
  shows "unat (pos s - push_bit 1 (con_x s)) = unat (origin s) + unat (con_y s) * unat (video_size_row s)"
proof -
  note c = con_okD [OF ok]
  have "unat (push_bit 1 (con_x s)) = 2 * unat (con_x s)" using c(3,5,10,20) by (intro unat32_double) linarith
  then show ?thesis using c(12) by (subst unat32_sub) linarith+
qed

lemma cr_ok: "con_ok g lo hi m0 s \<Longrightarrow> con_ok g lo hi m0 (cr s)"
  using con_ok_x [of g lo hi m0 s 0 "pos s - push_bit 1 (con_x s)"] line_start by (simp add: cr_def pos_x)

lemma left_ok:
  assumes ok: "con_ok g lo hi m0 s" and "con_x s \<noteq> 0"
  shows "con_ok g lo hi m0 (s\<lparr>con_x := con_x s - 1, pos := pos s - 2\<rparr>)"
    and "unat (pos s - 2) = unat (pos s) - 2" "0 < unat (con_x s)"
proof -
  note c = con_okD [OF ok]
  show x0: "0 < unat (con_x s)" using assms(2) by (simp add: unat_gt_0)
  have x: "unat (con_x s - 1) = unat (con_x s) - 1" using x0 unat_numeral_4 by (subst unat32_sub) linarith+
  show p: "unat (pos s - 2) = unat (pos s) - 2" using x0 c(12) unat_numeral_4 by (subst unat32_sub) linarith+
  show "con_ok g lo hi m0 (s\<lparr>con_x := con_x s - 1, pos := pos s - 2\<rparr>)"
    using c(10,12) x p x0 by (intro con_ok_x [OF ok]) linarith+
qed

lemma del_ok: "con_ok g lo hi m0 s \<Longrightarrow> con_ok g lo hi m0 (del s)"
proof (cases "con_x s = 0")
  case False
  assume ok: "con_ok g lo hi m0 s"
  note c = con_okD [OF ok] and l = left_ok [OF ok False]
  have "con_ok g lo hi m0 (s\<lparr>con_x := con_x s - 1, pos := pos s - 2, vmem := (vmem s)(pos s - 2 := video_erase_char s)\<rparr>)"
    using l c(5,7,8,9,10,12,19) by (intro con_ok_vmem [OF l(1)]) (simp add: outside_upd)
  then show ?thesis using False by (simp add: del_def pos_x)
qed (simp add: del_def)

lemma csi_J_ok: "con_ok g lo hi m0 s \<Longrightarrow> con_ok g lo hi m0 (csi_J p s)"
proof -
  assume ok: "con_ok g lo hi m0 s"
  note c = con_okD [OF ok]
  have "unat (pos s) \<le> unat (scr_end s)" using c(5,8,10,12,19) by linarith
  then have 1: "unat (scr_end s - pos s) = unat (scr_end s) - unat (pos s)" by (rule unat32_sub)
  have 2: "unat (pos s - origin s) = unat (pos s) - unat (origin s)" using c(12) by (intro unat32_sub) linarith
  have "unat (video_num_columns s * video_num_lines s) \<le> unat (video_num_columns s) * unat (video_num_lines s)"
    by (simp add: unat_word_ariths)
  then have 3: "2 * unat (video_num_columns s * video_num_lines s) \<le> unat (video_num_lines s) * unat (video_size_row s)"
    by (simp add: c(5) algebra_simps)
  have "con_ok g lo hi m0 (fill (pos s) (drop_bit 1 (scr_end s - pos s)) s)"
    using c(5,7,8,9,10,12,19) 1 unat_half [of "scr_end s - pos s"] by (intro fill_ok [OF ok]) linarith+
  moreover have "con_ok g lo hi m0 (fill (origin s) (drop_bit 1 (pos s - origin s)) s)"
    using c(5,7,8,9,10,12,19) 2 unat_half [of "pos s - origin s"] by (intro fill_ok [OF ok]) linarith+
  moreover have "con_ok g lo hi m0 (fill (origin s) (video_num_columns s * video_num_lines s) s)"
    using c(7,8,9) 3 by (intro fill_ok [OF ok]) linarith+
  ultimately show ?thesis using ok by (simp add: csi_J_def)
qed

lemma csi_K_ok: "con_ok g lo hi m0 s \<Longrightarrow> con_ok g lo hi m0 (csi_K p s)"
proof -
  assume ok: "con_ok g lo hi m0 s"
  note c = con_okD [OF ok] and st = line_start [OF ok]
  have 1: "unat (video_num_columns s - con_x s) = unat (video_num_columns s) - unat (con_x s)" using c(10) by (rule unat32_sub)
  have "con_ok g lo hi m0 (fill (pos s) (video_num_columns s - con_x s) s)"
    using c(5,7,8,9,10,12,19) 1 by (intro fill_ok [OF ok]) linarith+
  moreover have "con_ok g lo hi m0 (fill (pos s - push_bit 1 (con_x s)) n s)" if "unat n \<le> unat (video_num_columns s)" for n
    using c(5,7,8,9,19) st that by (intro fill_ok [OF ok]) linarith+
  ultimately show ?thesis using ok c(10) by (simp add: csi_K_def del: push_bit_of_1)
qed

lemma insert_loop_outside:
  "lo \<le> unat p \<Longrightarrow> unat p + 2 * n \<le> hi \<Longrightarrow> hi < 2147483648 \<Longrightarrow> outside lo hi m (insert_loop n v p m)"
proof (induction n arbitrary: v p m)
  case (Suc n)
  have "unat (p + 2) = unat p + 2" using Suc.prems unat_numeral_4 by (subst unat32_add) linarith+
  then have "outside lo hi (m(p := v)) (insert_loop n (m p) (p + 2) (m(p := v)))" using Suc.prems by (intro Suc.IH) simp_all
  then show ?case using outside_upd [of lo p hi m v] Suc.prems by (auto intro: outside_trans)
qed simp

lemma delete_loop_outside:
  "lo \<le> unat p \<Longrightarrow> unat p + 2 * n < hi \<Longrightarrow> hi < 2147483648 \<Longrightarrow> outside lo hi m (delete_loop n e p m)"
proof (induction n arbitrary: p m)
  case (Suc n)
  have "unat (p + 2) = unat p + 2" using Suc.prems unat_numeral_4 by (subst unat32_add) linarith+
  then have "outside lo hi (m(p := m (p + 2))) (delete_loop n e (p + 2) (m(p := m (p + 2))))" using Suc.prems by (intro Suc.IH) simp_all
  then show ?case using outside_upd [of lo p hi m "m (p + 2)"] Suc.prems by (auto intro: outside_trans)
qed (simp add: outside_upd)

lemma insert_char_ok: "con_ok g lo hi m0 s \<Longrightarrow> con_ok g lo hi m0 (insert_char s)"
proof -
  assume ok: "con_ok g lo hi m0 s"
  note c = con_okD [OF ok]
  show ?thesis unfolding insert_char_def
    using c(3,5,7,8,9,10,12,19) by (intro con_ok_vmem [OF ok] insert_loop_outside) linarith+
qed

lemma delete_char_ok: "con_ok g lo hi m0 s \<Longrightarrow> con_ok g lo hi m0 (delete_char s)"
proof -
  assume ok: "con_ok g lo hi m0 s"
  note c = con_okD [OF ok]
  show ?thesis
  proof (cases "con_x s \<ge> video_num_columns s")
    case False
    then have "unat (con_x s) < unat (video_num_columns s)" by (simp add: word_le_nat_alt)
    then show ?thesis using False unfolding delete_char_def
      using c(3,5,7,8,9,10,12,19) by (simp, intro con_ok_vmem [OF ok] delete_loop_outside) linarith+
  qed (simp add: delete_char_def ok)
qed

lemma region_ok:
  assumes "con_ok g lo hi m0 s" and "unat t < unat b" and "unat b \<le> unat (video_num_lines s)"
  shows "con_ok g lo hi m0 (s\<lparr>top_line := t, bottom_line := b\<rparr>)"
  using assms by (auto simp: con_ok_def)

lemma scroll_geometry:
  "video_num_lines (scrdown s) = video_num_lines s" "video_num_lines (scrup s) = video_num_lines s"
  "video_num_columns (scrdown s) = video_num_columns s" "video_num_columns (scrup s) = video_num_columns s"
  by (simp_all add: scrdown_def scrup_def scroll_region_def fill_def set_origin_def con_outb_def case_prod_unfold Let_def)

lemma insert_line_ok: "con_ok g lo hi m0 s \<Longrightarrow> con_ok g lo hi m0 (insert_line s)"
  unfolding insert_line_def using con_okD(11,13,14) [of g lo hi m0 s]
  by (intro region_ok scrdown_ok) (simp_all add: scroll_geometry)

lemma delete_line_ok: "con_ok g lo hi m0 s \<Longrightarrow> con_ok g lo hi m0 (delete_line s)"
  unfolding delete_line_def using con_okD(11,13,14) [of g lo hi m0 s]
  by (intro region_ok scrup_ok) (simp_all add: scroll_geometry)

lemma funpow_ok: "(\<And>s. con_ok g lo hi m0 s \<Longrightarrow> con_ok g lo hi m0 (f s)) \<Longrightarrow> con_ok g lo hi m0 s \<Longrightarrow> con_ok g lo hi m0 ((f ^^ n) s)"
  by (induction n) auto

lemmas csi_ok = funpow_ok [of _ _ _ _ insert_char, OF insert_char_ok] funpow_ok [of _ _ _ _ delete_char, OF delete_char_ok]
  funpow_ok [of _ _ _ _ insert_line, OF insert_line_ok] funpow_ok [of _ _ _ _ delete_line, OF delete_line_ok]

lemma wrap_line_ok:
  assumes ok: "con_ok g lo hi m0 s" and "unat (video_num_columns s) \<le> unat x'" and "unat x' \<le> unat (video_num_columns s) + 8"
    and p: "unat p' = unat (origin s) + unat (con_y s) * unat (video_size_row s) + 2 * unat x'"
  shows "con_ok g lo hi m0 (wrap_line (s\<lparr>con_x := x', pos := p'\<rparr>))"
proof -
  note c = con_okD [OF ok]
  have x: "unat (x' - video_num_columns s) = unat x' - unat (video_num_columns s)" using assms(2) by (rule unat32_sub)
  have "unat (p' - video_size_row s) = unat p' - unat (video_size_row s)" using p assms(2) c(5) by (intro unat32_sub) linarith
  then have "con_ok g lo hi m0 (s\<lparr>con_x := x' - video_num_columns s, pos := p' - video_size_row s\<rparr>)"
    using x p assms(2,3) c(4,5) by (intro con_ok_x [OF ok]) linarith+
  from lf_ok [OF this] show ?thesis by (simp add: wrap_line_def)
qed

lemma and_7: "unat (x AND 7 :: u32) \<le> 7"
proof -
  have "x AND 7 \<le> 7" by (rule word_and_le1)
  then show ?thesis by (simp add: word_le_nat_alt)
qed

lemma tab_ok: "con_ok g lo hi m0 s \<Longrightarrow> con_ok g lo hi m0 (tab s)"
proof -
  assume ok: "con_ok g lo hi m0 s"
  note c = con_okD [OF ok]
  define d where "d = 8 - (con_x s AND 7)"
  have d: "unat d \<le> 8" unfolding d_def using and_7 [of "con_x s"] by (subst unat32_sub) simp_all
  have x: "unat (con_x s + d) = unat (con_x s) + unat d" using d c(3,5,10,20) by (intro unat32_add) linarith
  have d2: "unat (push_bit 1 d) = 2 * unat d" using d by (intro unat32_double) linarith
  have "unat (pos s + push_bit 1 d) = unat (pos s) + unat (push_bit 1 d)"
    using d d2 c(3,5,8,9,10,12,19) by (intro unat32_add) linarith
  then have p: "unat (pos s + push_bit 1 d) = unat (origin s) + unat (con_y s) * unat (video_size_row s) + 2 * unat (con_x s + d)"
    using c(12) x d2 by linarith
  let ?s = "s\<lparr>con_x := con_x s + d, pos := pos s + push_bit 1 d\<rparr>"
  show ?thesis
  proof (cases "con_x s + d > video_num_columns s")
    case True
    then have "con_ok g lo hi m0 (wrap_line ?s)"
      using x d c(10) p by (intro wrap_line_ok [OF ok]) (simp_all add: word_less_nat_alt)
    then show ?thesis using True by (simp add: tab_def Let_def flip: d_def)
  next
    case False
    then have "con_ok g lo hi m0 ?s" using p by (intro con_ok_x [OF ok]) (simp_all add: word_less_nat_alt)
    then show ?thesis using False by (simp add: tab_def Let_def flip: d_def)
  qed
qed

lemma put_cell_ok:
  assumes ok: "con_ok g lo hi m0 s" and "unat (con_x s) < unat (video_num_columns s)"
  shows "con_ok g lo hi m0 (put_cell ch s)"
proof -
  note c = con_okD [OF ok]
  have x: "unat (con_x s + 1) = unat (con_x s) + 1" using c(3,5,20) assms(2) unat_numeral_4 by (subst unat32_add) linarith+
  have p: "unat (pos s + 2) = unat (pos s) + 2" using c(3,5,8,9,10,12,19) unat_numeral_4 by (subst unat32_add) linarith+
  have "con_ok g lo hi m0 (s\<lparr>con_x := con_x s + 1, pos := pos s + 2\<rparr>)"
    using x p assms(2) c(12) by (intro con_ok_x [OF ok]) linarith+
  from con_ok_vmem [OF this, of "(vmem s)(pos s := push_bit 8 (ucast (attr s)) OR ucast ch)"]
  have "con_ok g lo hi m0 (s\<lparr>con_x := con_x s + 1, pos := pos s + 2, vmem := (vmem s)(pos s := push_bit 8 (ucast (attr s)) OR ucast ch)\<rparr>)"
    using c(5,7,8,9,12,19) assms(2) by (simp add: outside_upd)
  moreover have "s\<lparr>con_x := a, pos := b, vmem := d\<rparr> = s\<lparr>vmem := d, pos := b, con_x := a\<rparr>" for a b d by simp
  ultimately show ?thesis unfolding put_cell_def by metis
qed

lemma lf_columns: "video_num_columns (lf s) = video_num_columns s" "con_x (lf s) = con_x s"
  by (simp_all add: lf_def scroll_geometry)
     (simp add: scrup_def scroll_region_def fill_def set_origin_def con_outb_def case_prod_unfold Let_def)

lemma con_state_ok: "con_ok g lo hi m0 s \<Longrightarrow> st \<le> 3 \<Longrightarrow> con_ok g lo hi m0 (s\<lparr>con_state := st\<rparr>)"
  by (auto simp: con_ok_def)

lemma con_plain_ok: "con_ok g lo hi m0 s \<Longrightarrow> con_ok g lo hi m0 (con_plain inb er ch s)"
proof -
  assume ok: "con_ok g lo hi m0 s"
  note c = con_okD [OF ok]
  have "con_ok g lo hi m0 (put_cell ch (if con_x s \<ge> video_num_columns s then wrap_line s else s))"
  proof (cases "con_x s \<ge> video_num_columns s")
    case True
    then have x: "unat (con_x s) = unat (video_num_columns s)" using c(10) by (simp add: word_le_nat_alt)
    have w: "con_ok g lo hi m0 (wrap_line s)"
      using wrap_line_ok [OF ok, of "con_x s" "pos s"] x c(12) by simp
    have "con_x (wrap_line s) = 0" "video_num_columns (wrap_line s) = video_num_columns s"
      using x by (simp_all add: wrap_line_def lf_columns flip: word_unat_eq_iff)
    then show ?thesis using True put_cell_ok [OF w] c(4) by simp
  next
    case False
    then show ?thesis using put_cell_ok [OF ok] by (simp add: word_le_nat_alt)
  qed
  then show ?thesis
    using ok lf_ok cr_ok del_ok tab_ok left_ok(1) [OF ok] con_state_ok [OF ok]
    by (simp add: con_plain_def sysbeep_def)
qed

lemma con_escape_ok: "con_ok g lo hi m0 s \<Longrightarrow> con_ok g lo hi m0 (fst (con_escape ch s))"
  by (simp add: con_escape_def Let_def gotoxy_ok ri_ok lf_ok save_cur_def restore_cur_def con_state_ok)

lemma par_ok: "con_ok g lo hi m0 s \<Longrightarrow> length p = NPAR \<Longrightarrow> con_ok g lo hi m0 (s\<lparr>par := p\<rparr>)"
  by (auto simp: con_ok_def)

lemma par_dec_ok: "con_ok g lo hi m0 s \<Longrightarrow> con_ok g lo hi m0 (par_dec i s)" "con_ok g lo hi m0 s \<Longrightarrow> con_ok g lo hi m0 (par_one s)"
  using con_okD(16) [of g lo hi m0 s] by (simp_all add: par_dec_def par_one_def par_ok)

lemma set_region_ok: "con_ok g lo hi m0 s \<Longrightarrow> con_ok g lo hi m0 (set_region s)"
proof -
  assume ok: "con_ok g lo hi m0 s"
  define s1 where "s1 = par_dec 0 s"
  have 1: "con_ok g lo hi m0 s1" unfolding s1_def by (rule par_dec_ok [OF ok])
  define s2 where "s2 = (if par s1 ! 1 = 0 then s1\<lparr>par := (par s1)[1 := video_num_lines s1]\<rparr> else s1)"
  have 2: "con_ok g lo hi m0 s2" using 1 con_okD(16) [OF 1] by (simp add: s2_def par_ok)
  have "set_region s = (if par s2 ! 0 < par s2 ! 1 \<and> par s2 ! 1 \<le> video_num_lines s2
      then s2\<lparr>top_line := par s2 ! 0, bottom_line := par s2 ! 1\<rparr> else s2)"
    by (simp add: set_region_def Let_def s1_def s2_def)
  then show ?thesis using 2 region_ok [OF 2, of "par s2 ! 0" "par s2 ! 1"] by (simp add: word_less_nat_alt word_le_nat_alt)
qed

lemma con_csi_ok: "con_ok g lo hi m0 s \<Longrightarrow> con_ok g lo hi m0 (con_csi ch s)"
proof -
  assume "con_ok g lo hi m0 s"
  then have ok: "con_ok g lo hi m0 (s\<lparr>con_state := 0\<rparr>)" by (simp add: con_state_ok)
  show ?thesis
    unfolding con_csi_def Let_def csi_L_def csi_M_def csi_P_def csi_at_def csi_m_def save_cur_def restore_cur_def
    using ok by (simp add: gotoxy_ok par_dec_ok csi_J_ok csi_K_ok csi_ok set_region_ok)
qed

lemma con_param_ok: "con_ok g lo hi m0 s \<Longrightarrow> con_ok g lo hi m0 (con_param ch s)"
proof -
  assume ok: "con_ok g lo hi m0 s"
  then have "npar s < 15 \<Longrightarrow> con_ok g lo hi m0 (s\<lparr>npar := npar s + 1\<rparr>)" by (auto simp: con_ok_def)
  then show ?thesis using ok con_okD(16) [OF ok] by (simp add: con_param_def par_ok con_csi_ok)
qed

lemma con_char_ok: "con_ok g lo hi m0 s \<Longrightarrow> con_ok g lo hi m0 (fst (con_char inb er ch s))"
proof -
  assume ok: "con_ok g lo hi m0 s"
  then have "con_ok g lo hi m0 (s\<lparr>par := replicate NPAR 0, npar := 0, con_state := 3, ques := q\<rparr>)" for q
    by (auto simp: con_ok_def)
  then show ?thesis using ok
    by (simp add: con_char_def Let_def con_plain_ok con_escape_ok con_param_ok con_csi_ok)
qed


lemma put_desc_outside:
  "lo \<le> unat p \<Longrightarrow> unat p + 2 * length d \<le> hi \<Longrightarrow> hi < 2147483648 \<Longrightarrow> outside lo hi m (put_desc d p m)"
proof (induction d p m rule: put_desc.induct)
  case (2 c d p m)
  have "unat (p + 2) = unat p + 2" using 2(3,4) unat_numeral_4 by (subst unat32_add) (simp, linarith)+
  then have "outside lo hi (m(p := (m p AND 0xFF00) OR ucast c)) (put_desc d (p + 2) (m(p := (m p AND 0xFF00) OR ucast c)))"
    using 2(2-4) by (intro 2(1)) simp_all
  then show ?case using outside_upd [of lo p hi m] 2(2,3) by (auto intro: outside_trans)
qed simp

lemma con_init_ok:
  assumes "ORIG_VIDEO_COLS d = 80" and "ORIG_X d \<le> 80" and "ORIG_Y d < 25"
    and "con_state s0 = 0" and "length (par s0) = NPAR" and "npar s0 < NPAR"
  shows "con_ok (80, 25) (unat (video_mem_start (con_init inb d s0))) (unat (video_mem_end (con_init inb d s0))) (vmem s0) (con_init inb d s0)"
proof -
  let ?mono = "ORIG_VIDEO_MODE d = 7" and ?ega = "ORIG_VIDEO_EGA_BX d AND 0xff \<noteq> 0x10"
  define st :: u32 where "st = (if ?mono then 0xb0000 else 0xb8000)"
  have st: "0xb0000 \<le> unat st" "unat st \<le> 0xb8000" by (simp_all add: st_def)
  have xy: "unat (ucast (ORIG_X d) :: u32) \<le> 80" "unat (ucast (ORIG_Y d) :: u32) < 25"
    using assms(2,3) by (simp_all add: word_le_nat_alt word_less_nat_alt unsigned_ucast_eq take_bit_nat_eq_self)
  let ?x = "ucast (ORIG_X d) :: u32" and ?y = "ucast (ORIG_Y d) :: u32"
  have 1: "unat (?y * 160) = unat ?y * 160" using xy by (subst unat32_mult) simp_all
  have 2: "unat (push_bit 1 ?x) = 2 * unat ?x" using xy by (intro unat32_double) simp
  have 3: "unat (st + ?y * 160) = unat st + unat ?y * 160" using 1 st xy by (subst unat32_add) linarith+
  have p: "unat (st + ?y * 160 + push_bit 1 ?x) = unat st + unat ?y * 160 + 2 * unat ?x"
    using 2 3 st xy by (subst unat32_add) linarith+
  have e: "unat (st + 4000) = unat st + 4000" using st by (subst unat32_add) simp_all
  have st2: "unat (st + 152) = unat st + 152" using st by (subst unat32_add) simp_all
  define hi :: u32 where "hi = (if ?mono then (if ?ega then 0xb8000 else 0xb2000) else (if ?ega then 0xbc000 else 0xba000))"
  have le: "\<not> 80 < ?x" "\<not> 25 \<le> ?y" using xy by (simp_all add: word_less_nat_alt word_le_nat_alt)
  define s1 where "s1 = con_init inb d s0"
  have f: "video_num_columns s1 = 80" "video_size_row s1 = 160" "video_num_lines s1 = 25" "video_mem_start s1 = st" "video_mem_end s1 = hi"
    "origin s1 = st" "scr_end s1 = st + 4000" "con_x s1 = ?x" "con_y s1 = ?y" "pos s1 = st + ?y * 160 + push_bit 1 ?x"
    "top_line s1 = 0" "bottom_line s1 = 25" "con_state s1 = 0" "par s1 = par s0" "npar s1 = npar s0"
    using le assms(1,4) by (simp_all add: s1_def con_init_def Let_def con_outb_def gotoxy_def st_def hi_def)
  have "vmem s1 = put_desc (display_desc ?mono ?ega) (st + 152) (vmem s0)"
    using le assms(1) by (simp add: s1_def con_init_def Let_def con_outb_def gotoxy_def st_def)
  moreover have "length (display_desc ?mono ?ega) = 4" by (simp add: display_desc_def)
  ultimately have o: "outside (unat st) (unat st + 4000) (vmem s0) (vmem s1)"
    using put_desc_outside [of "unat st" "st + 152" "display_desc ?mono ?ega" "unat st + 4000" "vmem s0"] st st2 by simp
  have h: "unat st + 4000 \<le> unat hi" "unat hi < 16777216" by (simp_all add: st_def hi_def)
  have "outside (unat st) (unat hi) (vmem s0) (vmem s1)" using o h by (auto simp: outside_def)
  then have "con_ok (80, 25) (unat st) (unat hi) (vmem s0) s1"
    unfolding con_ok_def f using assms(5,6) xy p e h by simp
  then show ?thesis using f(4,5) by (simp add: s1_def)
qed

text \<open>
  C40: from the initialisation of the console on, whatever characters and control sequences are
  written to it, complete or broken, the cursor stays on the screen, \<open>pos\<close> is the address of
  the cursor, and no byte outside of the display memory is written.
\<close>

theorem con_output_safe:
  assumes "ORIG_VIDEO_COLS d = 80" and "ORIG_X d \<le> 80" and "ORIG_Y d < 25"
    and "con_state s0 = 0" and "length (par s0) = NPAR" and "npar s0 < NPAR"
    and "s = fold (\<lambda>c s. fst (con_char inb er c s)) cs (con_init inb d s0)"
  shows "unat (con_x s) \<le> 80 \<and> unat (con_y s) < 25 \<and> unat (pos s) = unat (origin s) + 160 * unat (con_y s) + 2 * unat (con_x s) \<and>
    unat (video_mem_start (con_init inb d s0)) \<le> unat (origin s) \<and> unat (origin s) + 4000 \<le> unat (video_mem_end (con_init inb d s0)) \<and>
    (\<forall>a. unat a < unat (video_mem_start (con_init inb d s0)) \<or> unat (video_mem_end (con_init inb d s0)) \<le> unat a \<longrightarrow> vmem s a = vmem s0 a)"
proof -
  let ?i = "con_init inb d s0"
  have "con_ok (80, 25) (unat (video_mem_start ?i)) (unat (video_mem_end ?i)) (vmem s0) (fold (\<lambda>c s. fst (con_char inb er c s)) cs ?i)"
    using con_init_ok [OF assms(1-6)] by (intro fold_invariant [where P = "con_ok (80, 25) (unat (video_mem_start ?i)) (unat (video_mem_end ?i)) (vmem s0)" and Q = "\<lambda>_. True"])
      (auto intro: con_char_ok)
  then have ok: "con_ok (80, 25) (unat (video_mem_start ?i)) (unat (video_mem_end ?i)) (vmem s0) s" using assms(7) by simp
  note c = con_okD [OF ok]
  have g: "unat (video_num_columns s) = 80" "unat (video_num_lines s) = 25" using ok by (auto simp: con_ok_def)
  show ?thesis using c(1,2,5,7,8,9,10,11,12,18) g by (simp add: outside_def)
qed

definition ex_con :: con where
  "ex_con = \<lparr>video_type = 0, video_num_columns = 0, video_size_row = 0, video_num_lines = 0, video_page = 0, video_mem_start = 0,
     video_mem_end = 0, video_port_reg = 0, video_port_val = 0, video_erase_char = 0, origin = 0, scr_end = 0, pos = 0, con_x = 0, con_y = 0,
     top_line = 0, bottom_line = 0, con_state = 0, npar = 0, par = replicate NPAR 0, ques = False, attr = 0x07, saved_x = 0, saved_y = 0,
     con_beepcount = 0, vmem = (\<lambda>_. 0), con_ports = []\<rparr>"

definition ex_setup :: setup_data where
  "ex_setup = \<lparr>ORIG_X = 0, ORIG_Y = 24, ORIG_VIDEO_PAGE = 0, ORIG_VIDEO_MODE = 3, ORIG_VIDEO_COLS = 80, ORIG_VIDEO_EGA_BX = 0\<rparr>"

theorem con_output_safe_witness:
  "vmem (fold (\<lambda>c s. fst (con_char (\<lambda>_. 0) 127 c s)) [10, 65, 27, 91, 72] (con_init (\<lambda>_. 0) ex_setup ex_con)) 0x90000 = 0"
proof -
  let ?s = "fold (\<lambda>c s. fst (con_char (\<lambda>_. 0) 127 c s)) [10, 65, 27, 91, 72] (con_init (\<lambda>_. 0) ex_setup ex_con)"
  note safe = con_output_safe [of ex_setup ex_con ?s "\<lambda>_. 0" 127 "[10, 65, 27, 91, 72]"]
  have h: "ORIG_VIDEO_COLS ex_setup = 80" "ORIG_X ex_setup \<le> 80" "ORIG_Y ex_setup < 25" "con_state ex_con = 0"
    "length (par ex_con) = NPAR" "npar ex_con < NPAR" "vmem ex_con 0x90000 = 0"
    by (simp_all add: ex_setup_def ex_con_def)
  have "unat (video_mem_start (con_init (\<lambda>_. 0) ex_setup ex_con)) = 0xb8000"
    by (simp add: ex_setup_def ex_con_def con_init_def con_outb_def gotoxy_def)
  then show ?thesis using safe [OF h(1-6) refl] h(7) by auto
qed

end
