(* ===== verification/Tty.thy ===== *)
theory Tty
  imports Pipe Console
begin

text \<open>
  Terminals: \<open>kernel/chr_drv/tty_io.c\<close>, \<open>tty_ioctl.c\<close>, \<open>serial.c\<close> with \<open>include/linux/tty.h\<close>, \<open>termios.h\<close>,
  \<open>ctype.h\<close> and \<open>lib/ctype.c\<close>. Characters come from the keyboard or a line into \<open>read_q\<close>; the line
  discipline \<open>copy_to_cooked\<close> edits and echoes them into \<open>secondary\<close>, from where \<open>tty_read\<close> takes
  them; \<open>tty_write\<close> fills \<open>write_q\<close>, which the console or the line empties.
\<close>

section \<open>Character classes\<close>

text \<open>
  \<open>_ctype\<close> starts with the entry of \<open>EOF\<close>. It is indexed with a signed character; an index below
  \<open>EOF\<close> is outside of the table.
\<close>

definition ctype_table :: "u8 list" where
  "ctype_table = [0x00] @ replicate 8 0x08 @ [0x08] @ replicate 5 0x28 @ replicate 2 0x08 @ replicate 16 0x08
     @ [0xa0] @ replicate 15 0x10 @ replicate 10 0x04 @ replicate 6 0x10
     @ [0x10] @ replicate 6 0x41 @ replicate 20 0x01 @ replicate 5 0x10
     @ [0x10] @ replicate 6 0x42 @ replicate 20 0x02 @ replicate 4 0x10 @ [0x08] @ replicate 128 0"

definition ctype_of :: "u8 \<Rightarrow> ('s, u8) km" where
  "ctype_of c = (if sint c < -1 then kstop (Fault ''_ctype'') else kreturn (ctype_table ! nat (sint c + 1)))"

definition tolower :: "u8 \<Rightarrow> ('s, u8) km" where
  "tolower c = kbind (ctype_of c) (\<lambda>k. kreturn (if k AND 0x01 \<noteq> 0 then c - (0x41 - 0x61) else c))"

definition toupper :: "u8 \<Rightarrow> ('s, u8) km" where
  "toupper c = kbind (ctype_of c) (\<lambda>k. kreturn (if k AND 0x02 \<noteq> 0 then c - (0x61 - 0x41) else c))"

section \<open>Queues\<close>

text \<open>
  \<open>struct tty_queue\<close>. \<open>q_data\<close> is the port of a serial line or the number of lines in a secondary
  queue. Head and tail start at 0 and every change masks them, so that they index the buffer.
\<close>

record tty_queue =
  q_data :: u32
  q_head :: u32
  q_tail :: u32
  q_proc :: "nat option"
  q_buf :: "u8 list"

abbreviation (input) TTY_BUF_SIZE :: nat where "TTY_BUF_SIZE \<equiv> 1024"

definition INC :: "u32 \<Rightarrow> u32" where "INC a = (a + 1) AND 1023"
definition DEC :: "u32 \<Rightarrow> u32" where "DEC a = (a - 1) AND 1023"
definition EMPTY :: "tty_queue \<Rightarrow> bool" where "EMPTY q \<longleftrightarrow> q_head q = q_tail q"
definition LEFT :: "tty_queue \<Rightarrow> u32" where "LEFT q = (q_tail q - q_head q - 1) AND 1023"
definition FULL :: "tty_queue \<Rightarrow> bool" where "FULL q \<longleftrightarrow> LEFT q = 0"
definition CHARS :: "tty_queue \<Rightarrow> u32" where "CHARS q = (q_head q - q_tail q) AND 1023"
definition LAST :: "tty_queue \<Rightarrow> u8" where "LAST q = q_buf q ! unat (1023 AND (q_head q - 1))"

definition GETCH :: "tty_queue \<Rightarrow> u8 \<times> tty_queue" where
  "GETCH q = (q_buf q ! unat (q_tail q), q\<lparr>q_tail := INC (q_tail q)\<rparr>)"

definition PUTCH :: "u8 \<Rightarrow> tty_queue \<Rightarrow> tty_queue" where
  "PUTCH c q = q\<lparr>q_buf := (q_buf q)[unat (q_head q) := c], q_head := INC (q_head q)\<rparr>"

section \<open>Terminals\<close>

text \<open>\<open>struct termios\<close> is padded to 36 bytes, and \<open>set_termios\<close> stores the padding as well.\<close>

record termios =
  c_iflag :: u32
  c_oflag :: u32
  c_cflag :: u32
  c_lflag :: u32
  c_line :: u8
  c_cc :: "u8 list"
  c_pad :: "u8 list"

record termio =
  a_iflag :: u16
  a_oflag :: u16
  a_cflag :: u16
  a_lflag :: u16
  a_line :: u8
  a_cc :: "u8 list"

abbreviation (input) NCC :: nat where "NCC \<equiv> 8"
abbreviation (input) NCCS :: nat where "NCCS \<equiv> 17"

datatype tty_driver = CON_WRITE | RS_WRITE

text \<open>The field \<open>pgrp\<close> of a terminal is kept in \<open>tty_pgrp\<close> of \<open>kern\<close>, where \<open>exit.c\<close> and \<open>open.c\<close> use it.\<close>

record tty_struct =
  termios :: termios
  stopped :: int
  wr_fn :: tty_driver
  read_q :: tty_queue
  write_q :: tty_queue
  secondary :: tty_queue

text \<open>\<open>cr_flag\<close> is the static variable of \<open>tty_write\<close>.\<close>

record ttyk = kern +
  tty_table :: "tty_struct list"
  ttycon :: con
  cr_flag :: int

definition tt :: "nat \<Rightarrow> ('a ttyk_scheme, tty_struct) km" where
  "tt t = (\<lambda>s. if t < length (tty_table s) then Ret (tty_table s ! t) s else Stop (Fault ''tty_table'') s)"

definition upd_tt :: "nat \<Rightarrow> (tty_struct \<Rightarrow> tty_struct) \<Rightarrow> ('a ttyk_scheme, unit) km" where
  "upd_tt t f = (\<lambda>s. if t < length (tty_table s) then Ret () (s\<lparr>tty_table := (tty_table s)[t := f (tty_table s ! t)]\<rparr>)
     else Stop (Fault ''tty_table'') s)"

definition putch_write :: "nat \<Rightarrow> u8 \<Rightarrow> ('a ttyk_scheme, unit) km" where
  "putch_write t c = upd_tt t (\<lambda>x. x\<lparr>write_q := PUTCH c (write_q x)\<rparr>)"

definition INTR_CHAR :: "tty_struct \<Rightarrow> u8" where "INTR_CHAR x = c_cc (termios x) ! 0"
definition QUIT_CHAR :: "tty_struct \<Rightarrow> u8" where "QUIT_CHAR x = c_cc (termios x) ! 1"
definition ERASE_CHAR :: "tty_struct \<Rightarrow> u8" where "ERASE_CHAR x = c_cc (termios x) ! 2"
definition KILL_CHAR :: "tty_struct \<Rightarrow> u8" where "KILL_CHAR x = c_cc (termios x) ! 3"
definition EOF_CHAR :: "tty_struct \<Rightarrow> u8" where "EOF_CHAR x = c_cc (termios x) ! 4"
definition VTIME_CHAR :: "tty_struct \<Rightarrow> u8" where "VTIME_CHAR x = c_cc (termios x) ! 5"
definition VMIN_CHAR :: "tty_struct \<Rightarrow> u8" where "VMIN_CHAR x = c_cc (termios x) ! 6"
definition START_CHAR :: "tty_struct \<Rightarrow> u8" where "START_CHAR x = c_cc (termios x) ! 8"
definition STOP_CHAR :: "tty_struct \<Rightarrow> u8" where "STOP_CHAR x = c_cc (termios x) ! 9"

text \<open>Characters are signed, the control characters of a terminal are unsigned.\<close>

definition is_cc :: "u8 \<Rightarrow> u8 \<Rightarrow> bool" where
  "is_cc c cc \<longleftrightarrow> sint c = uint cc"

definition L_FLAG :: "tty_struct \<Rightarrow> u32 \<Rightarrow> bool" where "L_FLAG x f \<longleftrightarrow> c_lflag (termios x) AND f \<noteq> 0"
definition I_FLAG :: "tty_struct \<Rightarrow> u32 \<Rightarrow> bool" where "I_FLAG x f \<longleftrightarrow> c_iflag (termios x) AND f \<noteq> 0"
definition O_FLAG :: "tty_struct \<Rightarrow> u32 \<Rightarrow> bool" where "O_FLAG x f \<longleftrightarrow> c_oflag (termios x) AND f \<noteq> 0"

abbreviation (input) ISIG :: u32 where "ISIG \<equiv> 0x0001"
abbreviation (input) ICANON :: u32 where "ICANON \<equiv> 0x0002"
abbreviation (input) ECHO :: u32 where "ECHO \<equiv> 0x0008"
abbreviation (input) ECHOCTL :: u32 where "ECHOCTL \<equiv> 0x0200"
abbreviation (input) ECHOKE :: u32 where "ECHOKE \<equiv> 0x0800"
abbreviation (input) INLCR :: u32 where "INLCR \<equiv> 0x0040"
abbreviation (input) IGNCR :: u32 where "IGNCR \<equiv> 0x0080"
abbreviation (input) ICRNL :: u32 where "ICRNL \<equiv> 0x0100"
abbreviation (input) IUCLC :: u32 where "IUCLC \<equiv> 0x0200"
abbreviation (input) OPOST :: u32 where "OPOST \<equiv> 0x0001"
abbreviation (input) OLCUC :: u32 where "OLCUC \<equiv> 0x0002"
abbreviation (input) ONLCR :: u32 where "ONLCR \<equiv> 0x0004"
abbreviation (input) OCRNL :: u32 where "OCRNL \<equiv> 0x0008"
abbreviation (input) ONLRET :: u32 where "ONLRET \<equiv> 0x0020"
abbreviation (input) SIGINT :: nat where "SIGINT \<equiv> 2"
abbreviation (input) SIGQUIT :: nat where "SIGQUIT \<equiv> 3"

section \<open>Initial state\<close>

definition INIT_C_CC :: "u8 list" where
  "INIT_C_CC = [0x03, 0x1c, 0x7f, 0x15, 0x04, 0, 1, 0, 0x11, 0x13, 0x1a, 0, 0x12, 0x0f, 0x17, 0x16, 0]"

definition init_queue :: "u32 \<Rightarrow> tty_queue" where
  "init_queue port = \<lparr>q_data = port, q_head = 0, q_tail = 0, q_proc = None, q_buf = replicate TTY_BUF_SIZE 0\<rparr>"

definition init_serial :: "u32 \<Rightarrow> tty_struct" where
  "init_serial port = \<lparr>termios = \<lparr>c_iflag = 0, c_oflag = 0, c_cflag = 0x0b OR 0x30, c_lflag = 0, c_line = 0, c_cc = INIT_C_CC, c_pad = [0, 0]\<rparr>,
     stopped = 0, wr_fn = RS_WRITE, read_q = init_queue port, write_q = init_queue port, secondary = init_queue 0\<rparr>"

definition init_tty_table :: "tty_struct list" where
  "init_tty_table =
     [\<lparr>termios = \<lparr>c_iflag = ICRNL, c_oflag = OPOST OR ONLCR, c_cflag = 0, c_lflag = ISIG OR ICANON OR ECHO OR ECHOCTL OR ECHOKE,
         c_line = 0, c_cc = INIT_C_CC, c_pad = [0, 0]\<rparr>,
       stopped = 0, wr_fn = CON_WRITE, read_q = init_queue 0, write_q = init_queue 0, secondary = init_queue 0\<rparr>,
      init_serial 0x3f8, init_serial 0x2f8]"

definition rs_port_init :: "u16 \<Rightarrow> 'a sched_scheme \<Rightarrow> 'a sched_scheme" where
  "rs_port_init port s = fold (\<lambda>(v, p). outb v p)
     [(0x80, port + 3), (0x30, port), (0x00, port + 1), (0x03, port + 3), (0x0b, port + 4), (0x0d, port + 1)] s"

text \<open>Interrupt gates are not part of the state.\<close>

definition rs_init :: "(u16 \<Rightarrow> u8) \<Rightarrow> ('a ttyk_scheme, unit) km" where
  "rs_init inb =
     kbind (tt 1) (\<lambda>x1. kbind (tt 2) (\<lambda>x2.
     kmod (\<lambda>s. outb (inb 0x21 AND 0xE7) 0x21 (rs_port_init (ucast (q_data (read_q x2))) (rs_port_init (ucast (q_data (read_q x1))) s)))))"

text \<open>A routine of the console, which shares \<open>beepcount\<close> with the clock tick.\<close>

definition con_run :: "(con \<Rightarrow> con \<times> 'r) \<Rightarrow> ('a ttyk_scheme, 'r) km" where
  "con_run f s = (let (c, r) = f ((ttycon s)\<lparr>con_beepcount := beepcount s\<rparr>)
     in Ret r (s\<lparr>ttycon := c, beepcount := con_beepcount c\<rparr>))"

definition tty_init :: "(u16 \<Rightarrow> u8) \<Rightarrow> setup_data \<Rightarrow> ('a ttyk_scheme, unit) km" where
  "tty_init inb d = kseq (rs_init inb) (con_run (\<lambda>c. (con_init inb d c, ())))"

section \<open>Signals and sleeping\<close>

definition tty_intr :: "nat \<Rightarrow> u32 \<Rightarrow> ('a ttyk_scheme, unit) km" where
  "tty_intr t m =
     kmod (\<lambda>s. let g = tty_pgrp s ! t
       in if g \<le> 0 then s else s\<lparr>task := map (map_option (\<lambda>p. if pgrp p = g then p\<lparr>signal := signal p OR m\<rparr> else p)) (task s)\<rparr>)"

definition sleep_if_empty :: "(tty_struct \<Rightarrow> tty_queue) \<Rightarrow> nat \<Rightarrow> ('a ttyk_scheme, unit) km" where
  "sleep_if_empty q t =
     kbind (tt t) (\<lambda>x. kbind (kget cur) (\<lambda>me. kwhen (signal me = 0 \<and> EMPTY (q x)) (kstop Sleeps)))"

definition sleep_if_full :: "(tty_struct \<Rightarrow> tty_queue) \<Rightarrow> nat \<Rightarrow> ('a ttyk_scheme, unit) km" where
  "sleep_if_full q t =
     kbind (tt t) (\<lambda>x.
     if \<not> FULL (q x) then kreturn ()
     else kbind (kget cur) (\<lambda>me. kwhen (signal me = 0 \<and> LEFT (q x) < 128) (kstop Sleeps)))"

definition wait_for_keypress :: "('a ttyk_scheme, unit) km" where
  "wait_for_keypress = sleep_if_empty secondary 0"

section \<open>The line discipline\<close>

text \<open>
  \<open>copy_to_cooked\<close> calls \<open>tty->write\<close>, and \<open>con_write\<close> can call \<open>copy_to_cooked\<close> again. The
  routines take the one they call as an argument \<open>w\<close>; \<open>tty_out\<close> below ties the knot. The
  translation of a character: \<open>None\<close> when it is dropped.
\<close>

definition map_input :: "tty_struct \<Rightarrow> u8 \<Rightarrow> ('s, u8 option) km" where
  "map_input x c =
     (if c = 13 \<and> \<not> I_FLAG x ICRNL \<and> I_FLAG x IGNCR then kreturn None
      else let c = (if c = 13 then (if I_FLAG x ICRNL then 10 else 13) else if c = 10 \<and> I_FLAG x INLCR then 13 else c)
           in if I_FLAG x IUCLC then kbind (tolower c) (\<lambda>c. kreturn (Some c)) else kreturn (Some c))"

definition line_end :: "tty_struct \<Rightarrow> u8 \<Rightarrow> bool" where
  "line_end x c \<longleftrightarrow> c = 10 \<or> is_cc c (EOF_CHAR x)"

text \<open>Rubbing out the last character \<open>c\<close> of the line, and all of it.\<close>

definition rub_out :: "(nat \<Rightarrow> ('a ttyk_scheme, unit) km) \<Rightarrow> nat \<Rightarrow> ('a ttyk_scheme, unit) km" where
  "rub_out w t =
     kbind (tt t) (\<lambda>x.
     kseq (kwhen (L_FLAG x ECHO) (kseq (kwhen (sint (LAST (secondary x)) < 32) (putch_write t 127)) (kseq (putch_write t 127) (w t))))
     (upd_tt t (\<lambda>x. x\<lparr>secondary := (secondary x)\<lparr>q_head := DEC (q_head (secondary x))\<rparr>\<rparr>)))"

fun kill_line :: "nat \<Rightarrow> (nat \<Rightarrow> ('a ttyk_scheme, unit) km) \<Rightarrow> nat \<Rightarrow> ('a ttyk_scheme, unit) km" where
  "kill_line 0 w t = kstop Diverges"
| "kill_line (Suc n) w t =
     kbind (tt t) (\<lambda>x.
     if EMPTY (secondary x) \<or> line_end x (LAST (secondary x)) then kreturn ()
     else kseq (rub_out w t) (kill_line n w t))"

definition echo_char :: "nat \<Rightarrow> u8 \<Rightarrow> ('a ttyk_scheme, unit) km" where
  "echo_char t c =
     kbind (tt t) (\<lambda>x.
     if c = 10 then kseq (putch_write t 10) (putch_write t 13)
     else if sint c < 32 then kwhen (L_FLAG x ECHOCTL) (kseq (putch_write t 94) (putch_write t (c + 64)))
     else putch_write t c)"

definition put_secondary :: "(nat \<Rightarrow> ('a ttyk_scheme, unit) km) \<Rightarrow> nat \<Rightarrow> u8 \<Rightarrow> ('a ttyk_scheme, unit) km" where
  "put_secondary w t c =
     kbind (tt t) (\<lambda>x.
     kseq (kwhen (line_end x c) (upd_tt t (\<lambda>x. x\<lparr>secondary := (secondary x)\<lparr>q_data := q_data (secondary x) + 1\<rparr>\<rparr>)))
     (kseq (kwhen (L_FLAG x ECHO) (kseq (echo_char t c) (w t)))
     (upd_tt t (\<lambda>x. x\<lparr>secondary := PUTCH c (secondary x)\<rparr>))))"

text \<open>The body of the loop for a character that is not dropped.\<close>

definition KILL_FUEL :: nat where "KILL_FUEL = 1024"

definition cook_char :: "(nat \<Rightarrow> ('a ttyk_scheme, unit) km) \<Rightarrow> nat \<Rightarrow> u8 \<Rightarrow> ('a ttyk_scheme, unit) km" where
  "cook_char w t c =
     kbind (tt t) (\<lambda>x.
     if L_FLAG x ICANON \<and> is_cc c (KILL_CHAR x) then kill_line KILL_FUEL w t
     else if L_FLAG x ICANON \<and> is_cc c (ERASE_CHAR x) then
       (if EMPTY (secondary x) \<or> line_end x (LAST (secondary x)) then kreturn () else rub_out w t)
     else if L_FLAG x ICANON \<and> is_cc c (STOP_CHAR x) then upd_tt t (\<lambda>x. x\<lparr>stopped := 1\<rparr>)
     else if L_FLAG x ICANON \<and> is_cc c (START_CHAR x) then upd_tt t (\<lambda>x. x\<lparr>stopped := 0\<rparr>)
     else if L_FLAG x ISIG \<and> is_cc c (INTR_CHAR x) then tty_intr t (sigbit SIGINT)
     else if L_FLAG x ISIG \<and> is_cc c (QUIT_CHAR x) then tty_intr t (sigbit SIGQUIT)
     else put_secondary w t c)"

fun cook_loop :: "nat \<Rightarrow> (nat \<Rightarrow> ('a ttyk_scheme, unit) km) \<Rightarrow> nat \<Rightarrow> ('a ttyk_scheme, unit) km" where
  "cook_loop 0 w t = kstop Diverges"
| "cook_loop (Suc n) w t =
     kbind (tt t) (\<lambda>x.
     if EMPTY (read_q x) \<or> FULL (secondary x) then kreturn ()
     else let (c, q) = GETCH (read_q x)
       in kseq (upd_tt t (\<lambda>x. x\<lparr>read_q := q\<rparr>))
          (kbind (map_input x c) (\<lambda>r.
           kseq (case r of None \<Rightarrow> kreturn () | Some c \<Rightarrow> cook_char w t c) (cook_loop n w t))))"

text \<open>
  A call starts with at most 1023 characters; each answer of the console to \<open>ESC Z\<close> adds 7 and
  is consumed by the nested call.
\<close>

definition COOK_FUEL :: nat where "COOK_FUEL = 2048"

definition cook :: "(nat \<Rightarrow> ('a ttyk_scheme, unit) km) \<Rightarrow> nat \<Rightarrow> ('a ttyk_scheme, unit) km" where
  "cook w t =
     kseq (cook_loop COOK_FUEL w t)
     (kbind (tt t) (\<lambda>x.
      kseq (wake_wait (q_proc (secondary x)))
      (upd_tt t (\<lambda>x. x\<lparr>secondary := (secondary x)\<lparr>q_proc := None\<rparr>\<rparr>))))"

section \<open>Output\<close>

definition RESPONSE :: "u8 list" where
  "RESPONSE = [27, 91, 63, 49, 59, 50, 99]"

text \<open>\<open>cc\<close> is \<open>copy_to_cooked\<close>.\<close>

definition respond :: "(nat \<Rightarrow> ('a ttyk_scheme, unit) km) \<Rightarrow> nat \<Rightarrow> ('a ttyk_scheme, unit) km" where
  "respond cc t = kseq (kfor RESPONSE (\<lambda>c. upd_tt t (\<lambda>x. x\<lparr>read_q := PUTCH c (read_q x)\<rparr>))) (cc t)"

fun con_write_loop :: "nat \<Rightarrow> (u16 \<Rightarrow> u8) \<Rightarrow> (nat \<Rightarrow> ('a ttyk_scheme, unit) km) \<Rightarrow> nat \<Rightarrow> ('a ttyk_scheme, unit) km" where
  "con_write_loop 0 inb cc t = kreturn ()"
| "con_write_loop (Suc nr) inb cc t =
     kbind (tt t) (\<lambda>x.
     let (c, q) = GETCH (write_q x)
     in kseq (upd_tt t (\<lambda>x. x\<lparr>write_q := q\<rparr>))
        (kbind (con_run (con_char inb (ERASE_CHAR x) c)) (\<lambda>answer.
         kseq (kwhen answer (respond cc t)) (con_write_loop nr inb cc t))))"

definition con_write :: "(u16 \<Rightarrow> u8) \<Rightarrow> (nat \<Rightarrow> ('a ttyk_scheme, unit) km) \<Rightarrow> nat \<Rightarrow> ('a ttyk_scheme, unit) km" where
  "con_write inb cc t =
     kbind (tt t) (\<lambda>x. kseq (con_write_loop (unat (CHARS (write_q x))) inb cc t) (con_run (\<lambda>c. (set_cursor c, ()))))"

definition rs_write :: "(u16 \<Rightarrow> u8) \<Rightarrow> nat \<Rightarrow> ('a ttyk_scheme, unit) km" where
  "rs_write inb t =
     kbind (tt t) (\<lambda>x.
     let p = ucast (q_data (write_q x)) + 1
     in kwhen (\<not> EMPTY (write_q x)) (kmod (outb (inb p OR 0x02) p)))"

text \<open>
  \<open>tty->write\<close>. Each nested call of \<open>copy_to_cooked\<close> from the console has taken at least one
  character that the outer one put into the queue, so that the nesting ends.
\<close>

definition TTY_FUEL :: nat where "TTY_FUEL = 1024"

fun tty_out :: "nat \<Rightarrow> (u16 \<Rightarrow> u8) \<Rightarrow> nat \<Rightarrow> ('a ttyk_scheme, unit) km" where
  "tty_out 0 inb t = kstop Diverges"
| "tty_out (Suc n) inb t =
     kbind (tt t) (\<lambda>x. case wr_fn x of CON_WRITE \<Rightarrow> con_write inb (cook (tty_out n inb)) t | RS_WRITE \<Rightarrow> rs_write inb t)"

definition copy_to_cooked :: "(u16 \<Rightarrow> u8) \<Rightarrow> nat \<Rightarrow> ('a ttyk_scheme, unit) km" where
  "copy_to_cooked inb t = cook (tty_out TTY_FUEL inb) t"

definition do_tty_interrupt :: "(u16 \<Rightarrow> u8) \<Rightarrow> nat \<Rightarrow> ('a ttyk_scheme, unit) km" where
  "do_tty_interrupt inb t = copy_to_cooked inb t"

section \<open>Reading and writing\<close>

text \<open>
  The inner loop of \<open>tty_read\<close>: \<open>k\<close> characters have been stored, \<open>nr\<close> are wanted still. The result
  says whether an end of file was met in canonical mode. Each turn takes one character.
\<close>

fun read_chars :: "nat \<Rightarrow> nat \<Rightarrow> u32 \<Rightarrow> int \<Rightarrow> int \<Rightarrow> ('a ttyk_scheme, bool \<times> int \<times> int) km" where
  "read_chars 0 t ubuf k nr = kstop Diverges"
| "read_chars (Suc n) t ubuf k nr =
     kbind (tt t) (\<lambda>x.
     let (c, q) = GETCH (secondary x)
     in kseq (upd_tt t (\<lambda>x. x\<lparr>secondary := q\<lparr>q_data := (if line_end x c then q_data q - 1 else q_data q)\<rparr>\<rparr>))
        (if is_cc c (EOF_CHAR x) \<and> L_FLAG x ICANON then kreturn (True, k, nr)
         else kseq (put_fs_byte c (ubuf + of_int k))
           (if nr - 1 = 0 then kreturn (False, k + 1, 0)
            else if nr - 1 > 0 \<and> \<not> EMPTY q then read_chars n t ubuf (k + 1) (nr - 1)
            else kreturn (False, k + 1, nr - 1))))"

definition set_alarm :: "int \<Rightarrow> ('a sched_scheme, unit) km" where
  "set_alarm a = kmod (upd_cur (\<lambda>p. p\<lparr>alarm := a\<rparr>))"

definition ALRMMASK :: u32 where "ALRMMASK = sigbit SIGALRM"

definition tty_read_end :: "int \<Rightarrow> int \<Rightarrow> ('a ttyk_scheme, int) km" where
  "tty_read_end oldalarm k =
     kseq (set_alarm oldalarm)
     (kbind (kget cur) (\<lambda>me. kreturn (if signal me \<noteq> 0 \<and> k = 0 then - EINTR else k)))"

text \<open>
  The outer loop. Every turn but one that ends in \<open>continue\<close> takes at least one character; the
  latter sleeps when the queue is empty, and repeats at once otherwise.
\<close>

fun tty_read_loop :: "nat \<Rightarrow> nat \<Rightarrow> u32 \<Rightarrow> int \<Rightarrow> int \<Rightarrow> int \<Rightarrow> bool \<Rightarrow> int \<Rightarrow> int \<Rightarrow> ('a ttyk_scheme, int) km" where
  "tty_read_loop 0 t ubuf oldalarm tm minimum flag k nr = kstop Diverges"
| "tty_read_loop (Suc n) t ubuf oldalarm tm minimum flag k nr =
     (if nr \<le> 0 then tty_read_end oldalarm k
      else kbind (kget cur) (\<lambda>me.
        if flag \<and> signal me AND ALRMMASK \<noteq> 0
        then kseq (kmod (upd_cur (\<lambda>p. p\<lparr>signal := signal p AND NOT ALRMMASK\<rparr>))) (tty_read_end oldalarm k)
        else if signal me \<noteq> 0 then tty_read_end oldalarm k
        else kbind (tt t) (\<lambda>x.
          let sec = secondary x; canon = L_FLAG x ICANON
          in if EMPTY sec \<or> (canon \<and> q_data sec = 0 \<and> LEFT sec > 20)
             then kseq (sleep_if_empty secondary t) (tty_read_loop n t ubuf oldalarm tm minimum flag k nr)
             else kbind (read_chars (nat nr) t ubuf k nr) (\<lambda>(eof, k, nr).
               if eof then kreturn k
               else kbind (kget jiffies) (\<lambda>j.
                 let flag' = (if tm \<noteq> 0 \<and> \<not> canon then oldalarm = 0 \<or> tm + j < oldalarm else flag)
                 in kseq (kwhen (tm \<noteq> 0 \<and> \<not> canon) (set_alarm (if flag' then tm + j else oldalarm)))
                    (if (if canon then k \<noteq> 0 else k \<ge> minimum) then tty_read_end oldalarm k
                     else tty_read_loop n t ubuf oldalarm tm minimum flag' k nr))))))"

definition tty_read :: "nat \<Rightarrow> u32 \<Rightarrow> int \<Rightarrow> ('a ttyk_scheme, int) km" where
  "tty_read channel ubuf nr =
     (if channel > 2 \<or> nr < 0 then kreturn (-1)
      else kbind (tt channel) (\<lambda>x.
        kbind (kget (\<lambda>s. (alarm (cur s), jiffies s))) (\<lambda>(oldalarm, j).
        let tm = 10 * uint (VTIME_CHAR x); mn = uint (VMIN_CHAR x);
            timed = (tm \<noteq> 0 \<and> mn = 0);
            flag = (timed \<and> (oldalarm = 0 \<or> tm + j < oldalarm));
            mn = (if timed then 1 else mn);
            mn = (if mn > nr then nr else mn)
        in kseq (kwhen flag (set_alarm (tm + j)))
           (tty_read_loop (Suc (nat nr)) channel ubuf oldalarm tm mn flag 0 nr))))"

text \<open>
  The inner loop of \<open>tty_write\<close>: every turn puts a character into the queue, and a newline takes
  two turns.
\<close>

definition map_output :: "tty_struct \<Rightarrow> u8 \<Rightarrow> u8" where
  "map_output x c =
     (if \<not> O_FLAG x OPOST then c
      else if c = 13 \<and> O_FLAG x OCRNL then 10
      else if c = 10 \<and> O_FLAG x ONLRET then 13 else c)"

fun write_chars :: "nat \<Rightarrow> nat \<Rightarrow> u32 \<Rightarrow> int \<Rightarrow> int \<Rightarrow> ('a ttyk_scheme, int \<times> int) km" where
  "write_chars 0 t ubuf k nr = kstop Diverges"
| "write_chars (Suc n) t ubuf k nr =
     kbind (tt t) (\<lambda>x.
     if \<not> (nr > 0 \<and> \<not> FULL (write_q x)) then kreturn (k, nr)
     else kbind (get_fs_byte (ubuf + of_int k)) (\<lambda>c0.
       let c = map_output x c0
       in kbind (kget cr_flag) (\<lambda>cr.
          if O_FLAG x OPOST \<and> c = 10 \<and> cr = 0 \<and> O_FLAG x ONLCR
          then kseq (kmod (\<lambda>s. s\<lparr>cr_flag := 1\<rparr>)) (kseq (putch_write t 13) (write_chars n t ubuf k nr))
          else kbind (if O_FLAG x OPOST \<and> O_FLAG x OLCUC then toupper c else kreturn c) (\<lambda>c.
            kseq (kmod (\<lambda>s. s\<lparr>cr_flag := 0\<rparr>)) (kseq (putch_write t c) (write_chars n t ubuf (k + 1) (nr - 1)))))))"

fun tty_write_loop :: "nat \<Rightarrow> (u16 \<Rightarrow> u8) \<Rightarrow> nat \<Rightarrow> u32 \<Rightarrow> int \<Rightarrow> int \<Rightarrow> ('a ttyk_scheme, int) km" where
  "tty_write_loop 0 inb t ubuf k nr = kstop Diverges"
| "tty_write_loop (Suc n) inb t ubuf k nr =
     (if nr \<le> 0 then kreturn k
      else kseq (sleep_if_full write_q t)
        (kbind (kget cur) (\<lambda>me.
         if signal me \<noteq> 0 then kreturn k
         else kbind (write_chars (Suc (2 * nat nr)) t ubuf k nr) (\<lambda>(k, nr).
           kseq (tty_out TTY_FUEL inb t)
           (kseq (kwhen (nr > 0) yield_cpu) (tty_write_loop n inb t ubuf k nr))))))"

definition tty_write :: "(u16 \<Rightarrow> u8) \<Rightarrow> nat \<Rightarrow> u32 \<Rightarrow> int \<Rightarrow> ('a ttyk_scheme, int) km" where
  "tty_write inb channel ubuf nr =
     (if channel > 2 \<or> nr < 0 then kreturn (-1)
      else tty_write_loop (Suc (2 * nat nr)) inb channel ubuf 0 nr)"

text \<open>\<open>rw_ttyx\<close> of \<open>fs/char_dev.c\<close>, with which the file operations of \<open>Files\<close> are closed.\<close>

definition rw_ttyx :: "(u16 \<Rightarrow> u8) \<Rightarrow> 'a ttyk_scheme tty_rw" where
  "rw_ttyx inb rw minor ubuf count =
     (if rw = READ then tty_read (nat minor) ubuf count else tty_write inb (nat minor) ubuf count)"

section \<open>Control\<close>

definition quotient :: "u16 list" where
  "quotient = [0, 2304, 1536, 1047, 857, 768, 576, 384, 192, 96, 64, 48, 24, 12, 6, 3]"

definition change_speed :: "nat \<Rightarrow> ('a ttyk_scheme, unit) km" where
  "change_speed t =
     kbind (tt t) (\<lambda>x.
     let port = ucast (q_data (read_q x)) :: u16; quot = quotient ! unat (c_cflag (termios x) AND 0x0f)
     in kwhen (port \<noteq> 0) (kmod (fold (\<lambda>(v, p). outb v p)
          [(0x80, port + 3), (ucast quot, port), (ucast (drop_bit 8 quot), port + 1), (0x03, port + 3)])))"

definition flush :: "tty_queue \<Rightarrow> tty_queue" where
  "flush q = q\<lparr>q_head := q_tail q\<rparr>"

definition long_bytes :: "u32 \<Rightarrow> u8 list" where
  "long_bytes v = map (\<lambda>i. ucast (drop_bit (8 * i) v)) [0..<4]"

definition short_bytes :: "u16 \<Rightarrow> u8 list" where
  "short_bytes v = [ucast v, ucast (drop_bit 8 v)]"

text \<open>The structures as they are in memory.\<close>

definition termios_bytes :: "termios \<Rightarrow> u8 list" where
  "termios_bytes x = long_bytes (c_iflag x) @ long_bytes (c_oflag x) @ long_bytes (c_cflag x) @ long_bytes (c_lflag x)
     @ [c_line x] @ c_cc x @ c_pad x"

definition bytes_termios :: "u8 list \<Rightarrow> termios" where
  "bytes_termios d = \<lparr>c_iflag = rd32 d 0, c_oflag = rd32 d 4, c_cflag = rd32 d 8, c_lflag = rd32 d 12, c_line = d ! 16,
     c_cc = take NCCS (drop 17 d), c_pad = take 2 (drop 34 d)\<rparr>"

definition termio_bytes :: "termio \<Rightarrow> u8 \<Rightarrow> u8 list" where
  "termio_bytes x pad = short_bytes (a_iflag x) @ short_bytes (a_oflag x) @ short_bytes (a_cflag x) @ short_bytes (a_lflag x)
     @ [a_line x] @ a_cc x @ [pad]"

definition bytes_termio :: "u8 list \<Rightarrow> termio" where
  "bytes_termio d = \<lparr>a_iflag = rd16 d 0, a_oflag = rd16 d 2, a_cflag = rd16 d 4, a_lflag = rd16 d 6, a_line = d ! 8,
     a_cc = take NCC (drop 9 d)\<rparr>"

definition get_termios :: "nat \<Rightarrow> u32 \<Rightarrow> ('a ttyk_scheme, int) km" where
  "get_termios t a =
     kseq (verify_area a 36)
     (kbind (tt t) (\<lambda>x. kseq (put_fs_bytes (termios_bytes (termios x)) a) (kreturn 0)))"

definition set_termios :: "nat \<Rightarrow> u32 \<Rightarrow> ('a ttyk_scheme, int) km" where
  "set_termios t a =
     kbind (get_fs_bytes 36 a) (\<lambda>d.
     kseq (upd_tt t (\<lambda>x. x\<lparr>termios := bytes_termios d\<rparr>)) (kseq (change_speed t) (kreturn 0)))"

text \<open>\<open>pad\<close> is the byte of the local structure that is not assigned.\<close>

definition get_termio :: "u8 \<Rightarrow> nat \<Rightarrow> u32 \<Rightarrow> ('a ttyk_scheme, int) km" where
  "get_termio pad t a =
     kseq (verify_area a 18)
     (kbind (tt t) (\<lambda>x.
      let m = termios x
      in kseq (put_fs_bytes (termio_bytes \<lparr>a_iflag = ucast (c_iflag m), a_oflag = ucast (c_oflag m), a_cflag = ucast (c_cflag m),
             a_lflag = ucast (c_lflag m), a_line = c_line m, a_cc = take NCC (c_cc m)\<rparr> pad) a) (kreturn 0)))"

text \<open>A store through a pointer to a short: the low half of the long word.\<close>

definition set_low :: "u16 \<Rightarrow> u32 \<Rightarrow> u32" where
  "set_low v w = (w AND 0xffff0000) OR ucast v"

definition set_termio :: "nat \<Rightarrow> u32 \<Rightarrow> ('a ttyk_scheme, int) km" where
  "set_termio t a =
     kbind (get_fs_bytes 18 a) (\<lambda>d.
     let m = bytes_termio d
     in kseq (upd_tt t (\<lambda>x. let y = termios x in
          x\<lparr>termios := y\<lparr>c_iflag := set_low (a_iflag m) (c_iflag y), c_oflag := set_low (a_oflag m) (c_oflag y),
             c_cflag := set_low (a_cflag m) (c_cflag y), c_lflag := set_low (a_lflag m) (c_lflag y), c_line := a_line m,
             c_cc := a_cc m @ drop NCC (c_cc y)\<rparr>\<rparr>))
        (kseq (change_speed t) (kreturn 0)))"

text \<open>A result that is a long word in user memory.\<close>

definition put_result :: "u32 \<Rightarrow> u32 \<Rightarrow> ('a fsys_scheme, int) km" where
  "put_result v a = kseq (put_fs_long v a) (kreturn 0)"

definition flush_read :: "nat \<Rightarrow> ('a ttyk_scheme, unit) km" where
  "flush_read t = upd_tt t (\<lambda>x. x\<lparr>read_q := flush (read_q x)\<rparr>)"

definition flush_write :: "nat \<Rightarrow> ('a ttyk_scheme, unit) km" where
  "flush_write t = upd_tt t (\<lambda>x. x\<lparr>write_q := flush (write_q x)\<rparr>)"

text \<open>\<open>wait_until_sent\<close> and \<open>send_break\<close> do nothing.\<close>

definition tty_ioctl :: "u8 \<Rightarrow> u16 \<Rightarrow> u32 \<Rightarrow> u32 \<Rightarrow> ('a ttyk_scheme, int) km" where
  "tty_ioctl pad dev cmd arg =
     kbind (if MAJOR dev = 5
            then kbind (kget (\<lambda>s. tty (cur s))) (\<lambda>d. if d < 0 then kstop (Panic ''tty_ioctl: dev<0'') else kreturn (nat d))
            else kreturn (MINOR dev)) (\<lambda>t.
     if cmd = 0x5401 then get_termios t arg
     else if cmd = 0x5404 then kseq (flush_read t) (set_termios t arg)
     else if cmd = 0x5403 \<or> cmd = 0x5402 then set_termios t arg
     else if cmd = 0x5405 then get_termio pad t arg
     else if cmd = 0x5408 then kseq (flush_read t) (set_termio t arg)
     else if cmd = 0x5407 \<or> cmd = 0x5406 then set_termio t arg
     else if cmd = 0x5409 then kreturn 0
     else if cmd = 0x540B then
       (if arg = 0 then kseq (flush_read t) (kreturn 0)
        else if arg = 1 then kseq (flush_write t) (kreturn 0)
        else if arg = 2 then kseq (flush_read t) (kseq (flush_write t) (kreturn 0))
        else kreturn (- EINVAL))
     else if cmd = 0x540F then
       kseq (verify_area arg 4) (kbind (tt t) (\<lambda>_. kbind (kget (\<lambda>s. tty_pgrp s ! t)) (\<lambda>g. put_result (of_int g) arg)))
     else if cmd = 0x5410 then
       kbind (tt t) (\<lambda>_. kbind (get_fs_long arg) (\<lambda>g. kseq (kmod (\<lambda>s. s\<lparr>tty_pgrp := (tty_pgrp s)[t := sint g]\<rparr>)) (kreturn 0)))
     else if cmd = 0x5411 then kseq (verify_area arg 4) (kbind (tt t) (\<lambda>x. put_result (CHARS (write_q x)) arg))
     else if cmd = 0x541B then kseq (verify_area arg 4) (kbind (tt t) (\<lambda>x. put_result (CHARS (secondary x)) arg))
     else kreturn (- EINVAL))"

text \<open>The system calls of \<open>Files\<close> with the terminal driver below them.\<close>

definition sys_read_dev :: "(u16 \<Rightarrow> u8) \<Rightarrow> nat \<Rightarrow> u32 \<Rightarrow> int \<Rightarrow> ('a ttyk_scheme, int) km" where
  "sys_read_dev inb = sys_read (rw_ttyx inb) inb"

definition sys_write_dev :: "(u16 \<Rightarrow> u8) \<Rightarrow> nat \<Rightarrow> u32 \<Rightarrow> int \<Rightarrow> ('a ttyk_scheme, int) km" where
  "sys_write_dev inb = sys_write (rw_ttyx inb) inb"

definition sys_ioctl_dev :: "u8 \<Rightarrow> nat \<Rightarrow> u32 \<Rightarrow> u32 \<Rightarrow> ('a ttyk_scheme, int) km" where
  "sys_ioctl_dev pad = sys_ioctl (tty_ioctl pad)"

section \<open>Queues as lists\<close>

definition q_ok :: "tty_queue \<Rightarrow> bool" where
  "q_ok q \<longleftrightarrow> unat (q_head q) < 1024 \<and> unat (q_tail q) < 1024 \<and> length (q_buf q) = 1024"

definition qdata :: "tty_queue \<Rightarrow> u8 list" where
  "qdata q = map (\<lambda>k. q_buf q ! ((unat (q_tail q) + k) mod 1024)) [0..<unat (CHARS q)]"

lemma and_3FF: "unat (w AND 1023 :: u32) = unat w mod 1024"
proof -
  have 1: "w AND 1023 = take_bit 10 w" by (simp add: take_bit_eq_mask mask_eq_exp_minus_1)
  have "unat (take_bit 10 w) = take_bit 10 (unat w)" by (rule unsigned_take_bit_eq)
  then show ?thesis unfolding 1 by (simp only: take_bit_eq_mod [of 10 "unat w"]) simp
qed

lemma mod_minus32: "unat (a - b :: u32) mod 1024 = (unat a + 1024 - unat b mod 1024) mod 1024"
proof -
  have "int (unat (a - b) mod 1024) = (uint a - uint b) mod 1024"
    by (simp add: zmod_int uint_word_ariths mod_mod_cancel)
  also have "\<dots> = int ((unat a + 1024 - unat b mod 1024) mod 1024)"
    by (simp add: zmod_int of_nat_diff) (metis add_diff_eq mod_add_self2 mod_diff_right_eq diff_add_eq)
  finally show ?thesis by linarith
qed

lemma unat_INC: "unat (INC a) = (unat a + 1) mod 1024"
proof -
  have "unat (a + 1) mod 1024 = (unat a + 1) mod 1024"
    by (simp add: unat_word_ariths mod_mod_cancel)
  then show ?thesis by (simp add: INC_def and_3FF)
qed

lemma unat_DEC: "unat (DEC a) = (unat a + 1023) mod 1024"
  by (simp add: DEC_def and_3FF mod_minus32 add.commute)

lemma ring_cases: "(m :: nat) < 2048 \<Longrightarrow> m mod 1024 = (if m < 1024 then m else m - 1024)"
  by (simp add: le_mod_geq)

lemma unat_CHARS:
  assumes "q_ok q"
  shows "unat (CHARS q) = (if unat (q_tail q) \<le> unat (q_head q) then unat (q_head q) - unat (q_tail q)
    else unat (q_head q) + 1024 - unat (q_tail q))"
proof -
  have "unat (CHARS q) = (unat (q_head q) + 1024 - unat (q_tail q)) mod 1024"
    using assms by (simp add: CHARS_def and_3FF mod_minus32 q_ok_def)
  also have "\<dots> = (if unat (q_tail q) \<le> unat (q_head q) then unat (q_head q) - unat (q_tail q)
      else unat (q_head q) + 1024 - unat (q_tail q))"
    using assms by (subst ring_cases) (auto simp: q_ok_def)
  finally show ?thesis .
qed

lemma length_qdata [simp]: "length (qdata q) = unat (CHARS q)"
  by (simp add: qdata_def)

lemma CHARS_less: "unat (CHARS q) < 1024"
  by (simp add: CHARS_def and_3FF)

lemma unat_LEFT:
  assumes "q_ok q"
  shows "unat (LEFT q) = 1023 - unat (CHARS q)"
proof -
  have h: "unat (q_head q + 1) = unat (q_head q) + 1" using assms by (subst unat_word_ariths) (simp add: q_ok_def)
  have "unat (LEFT q) = (unat (q_tail q) + 1024 - (unat (q_head q) + 1) mod 1024) mod 1024"
    using mod_minus32 [of "q_tail q" "q_head q + 1"] by (simp add: LEFT_def and_3FF diff_diff_eq h)
  then show ?thesis using assms unat_CHARS [OF assms]
    by (cases "unat (q_head q) = 1023"; cases "unat (q_tail q) \<le> unat (q_head q)") (auto simp: q_ok_def ring_cases)
qed

lemma EMPTY_iff: "q_ok q \<Longrightarrow> EMPTY q \<longleftrightarrow> qdata q = []"
proof -
  assume ok: "q_ok q"
  then have "EMPTY q \<longleftrightarrow> unat (CHARS q) = 0"
    by (auto simp: EMPTY_def unat_CHARS q_ok_def word_unat_eq_iff)
  then show ?thesis by (simp flip: length_0_conv)
qed

lemma FULL_iff: "q_ok q \<Longrightarrow> FULL q \<longleftrightarrow> length (qdata q) = 1023"
  using CHARS_less [of q] by (auto simp: FULL_def unat_LEFT simp flip: unat_eq_0)


lemma PUTCH_ok [simp]: "q_ok q \<Longrightarrow> q_ok (PUTCH c q)"
  by (simp add: q_ok_def PUTCH_def unat_INC)

lemma CHARS_PUTCH: "q_ok q \<Longrightarrow> unat (CHARS (PUTCH c q)) = (if FULL q then 0 else unat (CHARS q) + 1)"
proof -
  assume ok: "q_ok q"
  let ?h = "unat (q_head q)" and ?t = "unat (q_tail q)"
  have F: "FULL q \<longleftrightarrow> unat (CHARS q) = 1023" using FULL_iff [OF ok] by simp
  have 1: "unat (CHARS (PUTCH c q)) = (if ?t \<le> (?h + 1) mod 1024 then (?h + 1) mod 1024 - ?t else (?h + 1) mod 1024 + 1024 - ?t)"
    using unat_CHARS [OF PUTCH_ok [OF ok]] by (simp add: PUTCH_def unat_INC)
  have lt: "?h < 1024" "?t < 1024" using ok by (simp_all add: q_ok_def)
  show ?thesis
  proof (cases "?h = 1023")
    case True
    then show ?thesis using 1 F unat_CHARS [OF ok] lt by auto
  next
    case False
    then have "(?h + 1) mod 1024 = ?h + 1" using lt by simp
    then show ?thesis unfolding 1 F unat_CHARS [OF ok] using lt by auto
  qed
qed

lemma qdata_PUTCH: "q_ok q \<Longrightarrow> \<not> FULL q \<Longrightarrow> qdata (PUTCH c q) = qdata q @ [c]"
proof -
  assume ok: "q_ok q" and nf: "\<not> FULL q"
  let ?n = "unat (CHARS q)" and ?t = "unat (q_tail q)"
  have n: "?n < 1023" using FULL_iff [OF ok] nf CHARS_less [of q] by simp
  have lt: "unat (q_head q) < 1024" "?t < 1024" "length (q_buf q) = 1024" using ok by (simp_all add: q_ok_def)
  have h: "(?t + ?n) mod 1024 = unat (q_head q)" using lt unat_CHARS [OF ok] by auto
  have ne: "(?t + k) mod 1024 \<noteq> unat (q_head q)" if "k < ?n" for k
    unfolding h [symmetric] using that lt(2) n by (auto simp: ring_cases)
  have "map (\<lambda>k. (q_buf q)[unat (q_head q) := c] ! ((?t + k) mod 1024)) [0..<?n] = qdata q"
    unfolding qdata_def by (rule map_cong) (auto simp: nth_list_update_neq ne [symmetric])
  then show ?thesis using CHARS_PUTCH [OF ok, of c] nf h lt by (simp add: qdata_def PUTCH_def)
qed

lemma qdata_PUTCH_full: "q_ok q \<Longrightarrow> FULL q \<Longrightarrow> qdata (PUTCH c q) = []"
  using CHARS_PUTCH [of q c] by (simp flip: length_0_conv)

lemma GETCH_run:
  assumes "q_ok q" and "qdata q = c # cs"
  shows "fst (GETCH q) = c" and "q_ok (snd (GETCH q))" and "qdata (snd (GETCH q)) = cs"
proof -
  let ?n = "unat (CHARS q)" and ?t = "unat (q_tail q)" and ?r = "snd (GETCH q)"
  have lt: "unat (q_head q) < 1024" "?t < 1024" "length (q_buf q) = 1024" using assms by (simp_all add: q_ok_def)
  show ok: "q_ok ?r" using assms by (simp add: q_ok_def GETCH_def unat_INC)
  have n: "?n = Suc (length cs)" using arg_cong [OF assms(2), of length] by simp
  have r: "unat (CHARS ?r) = length cs"
  proof -
    have "unat (CHARS ?r) = (if (?t + 1) mod 1024 \<le> unat (q_head q) then unat (q_head q) - (?t + 1) mod 1024
        else unat (q_head q) + 1024 - (?t + 1) mod 1024)"
      using unat_CHARS [OF ok] by (simp add: GETCH_def unat_INC)
    then show ?thesis using n unat_CHARS [OF assms(1)] lt by (cases "?t = 1023") (auto split: if_splits)
  qed
  have nth: "qdata q ! k = q_buf q ! ((?t + k) mod 1024)" if "k < ?n" for k using that by (simp add: qdata_def)
  show "fst (GETCH q) = c" using nth [of 0] assms(2) n lt by (simp add: GETCH_def)
  show "qdata ?r = cs"
  proof (rule nth_equalityI)
    fix k assume "k < length (qdata ?r)"
    then have k: "k < length cs" using r by simp
    then have "qdata ?r ! k = q_buf q ! (((?t + 1) mod 1024 + k) mod 1024)" using r by (simp add: qdata_def GETCH_def unat_INC)
    also have "((?t + 1) mod 1024 + k) mod 1024 = (?t + Suc k) mod 1024" by (simp add: mod_simps)
    also have "q_buf q ! \<dots> = cs ! k" using nth [of "Suc k"] n k assms(2) by simp
    finally show "qdata ?r ! k = cs ! k" .
  qed (simp add: r)
qed

lemma DEC_run:
  assumes "q_ok q" and "qdata q \<noteq> []"
  defines "r \<equiv> q\<lparr>q_head := DEC (q_head q)\<rparr>"
  shows "LAST q = last (qdata q)" and "q_ok r" and "qdata r = butlast (qdata q)"
proof -
  let ?n = "unat (CHARS q)" and ?t = "unat (q_tail q)" and ?h = "unat (q_head q)"
  have lt: "?h < 1024" "?t < 1024" "length (q_buf q) = 1024" using assms(1) by (simp_all add: q_ok_def)
  show ok: "q_ok r" using assms(1) by (simp add: q_ok_def r_def unat_DEC)
  have n: "?n \<noteq> 0" using assms(2) by (simp flip: length_greater_0_conv)
  have d: "(?t + (?n - 1)) mod 1024 = (?h + 1023) mod 1024"
    using n unat_CHARS [OF assms(1)] lt by (cases "?h = 0") (auto split: if_splits simp: ring_cases)
  have r: "unat (CHARS r) = ?n - 1"
  proof -
    have "unat (CHARS r) = (if ?t \<le> (?h + 1023) mod 1024 then (?h + 1023) mod 1024 - ?t else (?h + 1023) mod 1024 + 1024 - ?t)"
      using unat_CHARS [OF ok] by (simp add: r_def unat_DEC)
    then show ?thesis using n unat_CHARS [OF assms(1)] lt
      by (cases "?h = 0") (auto split: if_splits simp: ring_cases)
  qed
  have "1023 AND (q_head q - 1) = DEC (q_head q)" by (simp add: DEC_def and.commute)
  then have "LAST q = q_buf q ! ((?t + (?n - 1)) mod 1024)" by (simp only: LAST_def unat_DEC d)
  then show "LAST q = last (qdata q)" using n assms(2) by (simp add: last_conv_nth) (simp add: qdata_def)
  have "qdata r = take (?n - 1) (qdata q)" using r by (simp add: qdata_def r_def take_map)
  then show "qdata r = butlast (qdata q)" by (simp add: butlast_conv_take)
qed

section \<open>What the line discipline computes\<close>

text \<open>
  The edited line as a list. \<open>edit_line\<close> is the effect of a translated character on the contents of the
  secondary queue, \<open>edit\<close> that of a character as it arrives (without the translation to lower case).
\<close>

definition kill_back :: "tty_struct \<Rightarrow> u8 list \<Rightarrow> u8 list" where
  "kill_back x l = rev (dropWhile (\<lambda>c. \<not> line_end x c) (rev l))"

definition edit_line :: "tty_struct \<Rightarrow> u8 \<Rightarrow> u8 list \<Rightarrow> u8 list" where
  "edit_line x c l =
     (if L_FLAG x ICANON \<and> is_cc c (KILL_CHAR x) then kill_back x l
      else if L_FLAG x ICANON \<and> is_cc c (ERASE_CHAR x) then (if l = [] \<or> line_end x (last l) then l else butlast l)
      else if L_FLAG x ICANON \<and> (is_cc c (STOP_CHAR x) \<or> is_cc c (START_CHAR x)) then l
      else if L_FLAG x ISIG \<and> (is_cc c (INTR_CHAR x) \<or> is_cc c (QUIT_CHAR x)) then l
      else l @ [c])"

definition in_char :: "tty_struct \<Rightarrow> u8 \<Rightarrow> u8 option" where
  "in_char x c =
     (if c = 13 then (if I_FLAG x ICRNL then Some 10 else if I_FLAG x IGNCR then None else Some 13)
      else if c = 10 \<and> I_FLAG x INLCR then Some 13 else Some c)"

definition edit :: "tty_struct \<Rightarrow> u8 \<Rightarrow> u8 list \<Rightarrow> u8 list" where
  "edit x c l = (case in_char x c of None \<Rightarrow> l | Some c \<Rightarrow> edit_line x c l)"

definition lines :: "tty_struct \<Rightarrow> u8 list \<Rightarrow> nat" where
  "lines x l = length (filter (line_end x) l)"

text \<open>The parts of a terminal that matter for input; \<open>d\<close> is its driver.\<close>

definition input_is :: "nat \<Rightarrow> tty_driver \<Rightarrow> termios \<Rightarrow> tty_queue \<Rightarrow> tty_queue \<Rightarrow> 'a ttyk_scheme \<Rightarrow> bool" where
  "input_is t d m rq sec s \<longleftrightarrow> t < length (tty_table s) \<and> wr_fn (tty_table s ! t) = d \<and> termios (tty_table s ! t) = m \<and>
     read_q (tty_table s ! t) = rq \<and> secondary (tty_table s ! t) = sec"

definition input_st :: "nat \<Rightarrow> tty_driver \<Rightarrow> tty_struct \<Rightarrow> u8 list \<Rightarrow> u8 list \<Rightarrow> 'a ttyk_scheme \<Rightarrow> bool" where
  "input_st t d x r l s \<longleftrightarrow> (\<exists>rq sec. input_is t d (termios x) rq sec s \<and> q_ok rq \<and> qdata rq = r \<and>
     q_ok sec \<and> qdata sec = l \<and> q_data sec = of_nat (lines x l))"

lemma flags_cong:
  assumes "termios x = termios y"
  shows "L_FLAG x = L_FLAG y" "I_FLAG x = I_FLAG y" "line_end x = line_end y" "KILL_CHAR x = KILL_CHAR y" "ERASE_CHAR x = ERASE_CHAR y"
    "STOP_CHAR x = STOP_CHAR y" "START_CHAR x = START_CHAR y" "INTR_CHAR x = INTR_CHAR y" "QUIT_CHAR x = QUIT_CHAR y"
  using assms by (simp_all add: fun_eq_iff L_FLAG_def I_FLAG_def line_end_def EOF_CHAR_def KILL_CHAR_def ERASE_CHAR_def
    STOP_CHAR_def START_CHAR_def INTR_CHAR_def QUIT_CHAR_def)

lemma in_char_cong: "termios x = termios y \<Longrightarrow> in_char x = in_char y"
  by (auto simp: in_char_def fun_eq_iff dest: flags_cong(2))

lemma kill_back_snoc: "kill_back x (l @ [c]) = (if line_end x c then l @ [c] else kill_back x l)"
  by (simp add: kill_back_def)

lemma length_kill_back: "length (kill_back x l) \<le> length l"
  using length_dropWhile_le [of "\<lambda>c. \<not> line_end x c" "rev l"] by (simp add: kill_back_def)

lemma length_edit_line: "length (edit_line x c l) \<le> Suc (length l)"
proof -
  have "length l - Suc 0 \<le> Suc (length l)" by simp
  then show ?thesis using length_kill_back [of x l] by (simp add: edit_line_def)
qed

lemma length_edit: "length (edit x c l) \<le> Suc (length l)"
  using length_edit_line by (simp add: edit_def split: option.split)

lemma map_input_eq: "\<not> I_FLAG x IUCLC \<Longrightarrow> map_input x c = kreturn (in_char x c)"
  by (simp add: map_input_def in_char_def)

lemma returns_tt: "(\<And>s. P s \<Longrightarrow> t < length (tty_table s)) \<Longrightarrow> (\<And>x. returns (\<lambda>s. P s \<and> tty_table s ! t = x) (f x) Q) \<Longrightarrow>
    returns P (kbind (tt t) f) Q"
  by (auto simp: returns_def tt_def kbind_def)

lemma returns_upd_tt:
  "(\<And>s. P s \<Longrightarrow> t < length (tty_table s) \<and> Q (s\<lparr>tty_table := (tty_table s)[t := f (tty_table s ! t)]\<rparr>)) \<Longrightarrow> returns P (upd_tt t f) (\<lambda>_. Q)"
  by (auto simp: returns_def upd_tt_def)

lemma returns_when: "(b \<Longrightarrow> returns P m (\<lambda>_. Q)) \<Longrightarrow> (\<And>s. \<not> b \<Longrightarrow> P s \<Longrightarrow> Q s) \<Longrightarrow> returns P (kwhen b m) (\<lambda>_. Q)"
  by (auto simp: returns_def kwhen_def kreturn_def)

lemma returns_return: "(\<And>s. P s \<Longrightarrow> Q x s) \<Longrightarrow> returns P (kreturn x) Q"
  by (auto simp: returns_def kreturn_def)

lemma returns_weaken: "returns P m Q \<Longrightarrow> (\<And>s. P' s \<Longrightarrow> P s) \<Longrightarrow> (\<And>x s. Q x s \<Longrightarrow> Q' x s) \<Longrightarrow> returns P' m Q'"
  unfolding returns_def by blast

lemma returns_kmod: "(\<And>s. P s \<Longrightarrow> Q (f s)) \<Longrightarrow> returns P (kmod f) (\<lambda>_. Q)"
  by (auto simp: returns_def kmod_def)

text \<open>
  What the line discipline needs of \<open>tty->write\<close>: it returns and leaves the input side alone.
\<close>

locale tty_echo =
  fixes w :: "nat \<Rightarrow> ('a ttyk_scheme, unit) km" and t :: nat and d :: tty_driver
  assumes quiet: "returns (input_is t d m rq sec) (w t) (\<lambda>_. input_is t d m rq sec)"
begin

lemma write_input:
  "(\<And>s. P s \<Longrightarrow> input_is t d m rq sec s) \<Longrightarrow> returns P (w t) (\<lambda>_. input_is t d m rq sec)"
  using quiet by (rule returns_weaken)

lemma put_input:
  "(\<And>s. P s \<Longrightarrow> input_is t d m rq sec s) \<Longrightarrow> returns P (putch_write t c) (\<lambda>_. input_is t d m rq sec)"
  unfolding putch_write_def by (rule returns_upd_tt) (fastforce simp: input_is_def)

lemma when_input:
  "(\<And>s. P s \<Longrightarrow> input_is t d m rq sec s) \<Longrightarrow> (b \<Longrightarrow> returns P k (\<lambda>_. input_is t d m rq sec)) \<Longrightarrow>
    returns P (kwhen b k) (\<lambda>_. input_is t d m rq sec)"
  by (rule returns_when) auto

lemma seq_input:
  "returns P j (\<lambda>_. input_is t d m rq sec) \<Longrightarrow> returns (input_is t d m rq sec) k Q \<Longrightarrow> returns P (kseq j k) Q"
  by (rule returns_bind)

lemmas input_rules = write_input put_input when_input seq_input [OF write_input] seq_input [OF put_input] seq_input [OF when_input]

lemma rub_out_input:
  "returns (input_is t d m rq sec) (rub_out w t) (\<lambda>_. input_is t d m rq (sec\<lparr>q_head := DEC (q_head sec)\<rparr>))"
  unfolding rub_out_def
proof (rule returns_tt)
  show "returns (\<lambda>s. input_is t d m rq sec s \<and> tty_table s ! t = x)
      (kseq (kwhen (L_FLAG x ECHO) (kseq (kwhen (sint (LAST (secondary x)) < 32) (putch_write t 127)) (kseq (putch_write t 127) (w t))))
        (upd_tt t (\<lambda>x. x\<lparr>secondary := (secondary x)\<lparr>q_head := DEC (q_head (secondary x))\<rparr>\<rparr>)))
      (\<lambda>_. input_is t d m rq (sec\<lparr>q_head := DEC (q_head sec)\<rparr>))" for x :: tty_struct
    by (rule seq_input [where m = m and rq = rq and sec = sec], (assumption | erule conjunct1 | rule input_rules)+)
      (rule returns_upd_tt, auto simp: input_is_def)
qed (simp add: input_is_def)

lemma echo_input: "returns (input_is t d m rq sec) (kseq (echo_char t c) (w t)) (\<lambda>_. input_is t d m rq sec)"
proof (rule seq_input [where m = m and rq = rq and sec = sec])
  show "returns (input_is t d m rq sec) (echo_char t c) (\<lambda>_. input_is t d m rq sec)"
    unfolding echo_char_def
  proof (rule returns_tt)
    show "returns (\<lambda>s. input_is t d m rq sec s \<and> tty_table s ! t = x) (if c = 10 then kseq (putch_write t 10) (putch_write t 13)
      else if sint c < 32 then kwhen (L_FLAG x ECHOCTL) (kseq (putch_write t 94) (putch_write t (c + 64))) else putch_write t c)
      (\<lambda>_. input_is t d m rq sec)" for x :: tty_struct
      by (cases "c = 10"; cases "sint c < 32") (simp_all, (assumption | erule conjunct1 | rule input_rules)+)
  qed (simp add: input_is_def)
qed (rule quiet)

lemma put_secondary_input:
  assumes "termios x = m"
  shows "returns (input_is t d m rq sec) (put_secondary w t c)
    (\<lambda>_. input_is t d m rq (PUTCH c (if line_end x c then sec\<lparr>q_data := q_data sec + 1\<rparr> else sec)))"
  unfolding put_secondary_def
proof (rule returns_tt)
  fix y :: tty_struct
  let ?sec = "if line_end x c then sec\<lparr>q_data := q_data sec + 1\<rparr> else sec"
  show "returns (\<lambda>s. input_is t d m rq sec s \<and> tty_table s ! t = y)
      (kseq (kwhen (line_end y c) (upd_tt t (\<lambda>x. x\<lparr>secondary := (secondary x)\<lparr>q_data := q_data (secondary x) + 1\<rparr>\<rparr>)))
      (kseq (kwhen (L_FLAG y ECHO) (kseq (echo_char t c) (w t))) (upd_tt t (\<lambda>x. x\<lparr>secondary := PUTCH c (secondary x)\<rparr>))))
      (\<lambda>_. input_is t d m rq (PUTCH c ?sec))"
  proof (rule seq_input [where m = m and rq = rq and sec = ?sec])
    show "returns (\<lambda>s. input_is t d m rq sec s \<and> tty_table s ! t = y)
        (kwhen (line_end y c) (upd_tt t (\<lambda>x. x\<lparr>secondary := (secondary x)\<lparr>q_data := q_data (secondary x) + 1\<rparr>\<rparr>))) (\<lambda>_. input_is t d m rq ?sec)"
      using flags_cong(3) [of x y] assms by (intro returns_when returns_upd_tt) (auto simp: input_is_def)
    show "returns (input_is t d m rq ?sec) (kseq (kwhen (L_FLAG y ECHO) (kseq (echo_char t c) (w t)))
        (upd_tt t (\<lambda>x. x\<lparr>secondary := PUTCH c (secondary x)\<rparr>))) (\<lambda>_. input_is t d m rq (PUTCH c ?sec))"
      by (rule seq_input [where m = m and rq = rq and sec = ?sec], rule when_input, assumption, rule echo_input)
        (rule returns_upd_tt, auto simp: input_is_def)
  qed
qed (simp add: input_is_def)

lemma returns_input_st:
  assumes "\<And>rq sec. q_ok rq \<Longrightarrow> qdata rq = r \<Longrightarrow> q_ok sec \<Longrightarrow> qdata sec = l \<Longrightarrow> q_data sec = of_nat (lines x l) \<Longrightarrow>
    returns (input_is t d (termios x) rq sec) k Q"
  shows "returns (input_st t d x r l) k Q"
  using assms unfolding returns_def input_st_def by fast

lemma rub_out_st:
  assumes "l \<noteq> []" and "\<not> line_end x (last l)"
  shows "returns (input_st t d x r l) (rub_out w t) (\<lambda>_. input_st t d x r (butlast l))"
proof (rule returns_input_st, rule returns_weaken [OF rub_out_input])
  fix rq sec :: tty_queue and s :: "'a ttyk_scheme"
  assume h: "q_ok rq" "qdata rq = r" "q_ok sec" "qdata sec = l" "q_data sec = of_nat (lines x l)"
    and i: "input_is t d (termios x) rq (sec\<lparr>q_head := DEC (q_head sec)\<rparr>) s"
  have "lines x l = lines x (butlast l)" using assms by (cases l rule: rev_cases) (simp_all add: lines_def)
  then show "input_st t d x r (butlast l) s" using i h DEC_run [OF h(3)] assms(1) unfolding input_st_def
    by (intro exI [of _ rq] exI [of _ "sec\<lparr>q_head := DEC (q_head sec)\<rparr>"]) simp
qed

lemma put_secondary_st:
  assumes "length l < 1023"
  shows "returns (input_st t d x r l) (put_secondary w t c) (\<lambda>_. input_st t d x r (l @ [c]))"
proof (rule returns_input_st, rule returns_weaken [OF put_secondary_input [OF refl]])
  fix rq sec :: tty_queue and s :: "'a ttyk_scheme"
  let ?sec = "if line_end x c then sec\<lparr>q_data := q_data sec + 1\<rparr> else sec"
  assume h: "q_ok rq" "qdata rq = r" "q_ok sec" "qdata sec = l" "q_data sec = of_nat (lines x l)"
    and i: "input_is t d (termios x) rq (PUTCH c ?sec) s"
  have sec: "q_ok ?sec" "qdata ?sec = l" "q_data ?sec = of_nat (lines x (l @ [c]))"
    using h(3-5) by (auto simp: q_ok_def qdata_def CHARS_def lines_def)
  have "\<not> FULL ?sec" using FULL_iff [OF sec(1)] sec(2) assms by simp
  moreover have "q_data (PUTCH c ?sec) = q_data ?sec" by (simp add: PUTCH_def)
  ultimately show "input_st t d x r (l @ [c]) s"
    using i h(1,2) sec qdata_PUTCH [OF sec(1)] PUTCH_ok [OF sec(1)] unfolding input_st_def by metis
qed

lemma input_st_tt:
  assumes "\<And>y. termios y = termios x \<Longrightarrow> q_ok (read_q y) \<Longrightarrow> qdata (read_q y) = r \<Longrightarrow> q_ok (secondary y) \<Longrightarrow> qdata (secondary y) = l \<Longrightarrow>
    returns (\<lambda>s. input_st t d x r l s \<and> tty_table s ! t = y) (f y) Q"
  shows "returns (input_st t d x r l) (kbind (tt t) f) Q"
proof (rule returns_tt)
  show "t < length (tty_table s)" if "input_st t d x r l s" for s using that by (auto simp: input_st_def input_is_def)
  show "returns (\<lambda>s. input_st t d x r l s \<and> tty_table s ! t = y) (f y) Q" for y
  proof (cases "termios y = termios x \<and> q_ok (read_q y) \<and> qdata (read_q y) = r \<and> q_ok (secondary y) \<and> qdata (secondary y) = l")
    case True
    then show ?thesis using assms by blast
  next
    case False
    then show ?thesis by (auto simp: returns_def input_st_def input_is_def)
  qed
qed

lemma kill_line_st:
  "length l < n \<Longrightarrow> returns (input_st t d x r l) (kill_line n w t) (\<lambda>_. input_st t d x r (kill_back x l))"
proof (induction n arbitrary: l)
  case (Suc n)
  show ?case unfolding kill_line.simps
  proof (rule input_st_tt)
    fix y :: tty_struct assume y: "termios y = termios x" "q_ok (read_q y)" "qdata (read_q y) = r" "q_ok (secondary y)" "qdata (secondary y) = l"
    show "returns (\<lambda>s. input_st t d x r l s \<and> tty_table s ! t = y)
        (if EMPTY (secondary y) \<or> line_end y (LAST (secondary y)) then kreturn () else kseq (rub_out w t) (kill_line n w t))
        (\<lambda>_. input_st t d x r (kill_back x l))"
    proof (cases "l = [] \<or> line_end x (last l)")
      case True
      then have "kill_back x l = l" by (cases l rule: rev_cases) (auto simp: kill_back_def)
      moreover have "EMPTY (secondary y) \<or> line_end y (LAST (secondary y))"
        using True EMPTY_iff [OF y(4)] DEC_run(1) [OF y(4)] y(5) flags_cong(3) [OF y(1)] by auto
      ultimately show ?thesis by (auto intro: returns_return)
    next
      case False
      then have kb: "kill_back x (butlast l) = kill_back x l" by (cases l rule: rev_cases) (auto simp: kill_back_snoc)
      have "\<not> (EMPTY (secondary y) \<or> line_end y (LAST (secondary y)))"
        using False EMPTY_iff [OF y(4)] DEC_run(1) [OF y(4)] y(5) flags_cong(3) [OF y(1)] by auto
      moreover have "returns (input_st t d x r l) (kseq (rub_out w t) (kill_line n w t)) (\<lambda>_. input_st t d x r (kill_back x l))"
        using False Suc.IH [of "butlast l"] Suc.prems by (intro returns_bind [OF rub_out_st]) (auto simp: kb [symmetric] neq_Nil_conv)
      ultimately show ?thesis by (auto intro: returns_weaken)
    qed
  qed
qed simp

lemma cook_char_st:
  assumes "length l < 1023"
  shows "returns (input_st t d x r l) (cook_char w t c) (\<lambda>_. input_st t d x r (edit_line x c l))"
  unfolding cook_char_def
proof (rule input_st_tt, rule returns_weaken [where P = "input_st t d x r l" and Q = "\<lambda>_. input_st t d x r (edit_line x c l)"])
  fix y :: tty_struct
  assume y: "termios y = termios x" "q_ok (read_q y)" "qdata (read_q y) = r" "q_ok (secondary y)" "qdata (secondary y) = l"
  have e: "(EMPTY (secondary y) \<or> line_end x (LAST (secondary y))) = (l = [] \<or> line_end x (last l))"
    using EMPTY_iff [OF y(4)] DEC_run(1) [OF y(4)] y(5) by auto
  have k: "returns (input_st t d x r l) (kill_line KILL_FUEL w t) (\<lambda>_. input_st t d x r (kill_back x l))"
    using assms by (intro kill_line_st) (simp add: KILL_FUEL_def)
  have st: "returns (input_st t d x r l) (upd_tt t (\<lambda>x. x\<lparr>stopped := v\<rparr>)) (\<lambda>_. input_st t d x r l)" for v l
    by (rule returns_upd_tt) (auto simp: input_st_def input_is_def)
  have sig: "returns (input_st t d x r l) (tty_intr t m) (\<lambda>_. input_st t d x r l)" for m l
    unfolding tty_intr_def by (rule returns_kmod) (auto simp: input_st_def input_is_def Let_def)
  have ret: "returns (input_st t d x r l) (kreturn ()) (\<lambda>_. input_st t d x r l)" for l
    by (rule returns_return)
  show "returns (input_st t d x r l)
     (if L_FLAG y ICANON \<and> is_cc c (KILL_CHAR y) then kill_line KILL_FUEL w t
     else if L_FLAG y ICANON \<and> is_cc c (ERASE_CHAR y) then
       (if EMPTY (secondary y) \<or> line_end y (LAST (secondary y)) then kreturn () else rub_out w t)
     else if L_FLAG y ICANON \<and> is_cc c (STOP_CHAR y) then upd_tt t (\<lambda>x. x\<lparr>stopped := 1\<rparr>)
     else if L_FLAG y ICANON \<and> is_cc c (START_CHAR y) then upd_tt t (\<lambda>x. x\<lparr>stopped := 0\<rparr>)
     else if L_FLAG y ISIG \<and> is_cc c (INTR_CHAR y) then tty_intr t (sigbit SIGINT)
     else if L_FLAG y ISIG \<and> is_cc c (QUIT_CHAR y) then tty_intr t (sigbit SIGQUIT)
     else put_secondary w t c) (\<lambda>_. input_st t d x r (edit_line x c l))"
    unfolding flags_cong [OF y(1)] e edit_line_def
    using k rub_out_st [of l x r] put_secondary_st [OF assms, of x r c] by (auto intro: st sig ret)
qed auto

lemma cook_loop_st:
  "length r < n \<Longrightarrow> length l \<le> 1023 \<Longrightarrow> \<not> I_FLAG x IUCLC \<Longrightarrow>
    returns (input_st t d x r l) (cook_loop n w t) (\<lambda>_ s. \<exists>k \<le> length r. input_st t d x (drop k r) (fold (edit x) (take k r) l) s \<and>
      (k = length r \<or> length (fold (edit x) (take k r) l) = 1023))"
proof (induction n arbitrary: r l)
  case (Suc n)
  let ?Q = "\<lambda>r l (_ :: unit) s. \<exists>k \<le> length r. input_st t d x (drop k r) (fold (edit x) (take k r) l) s \<and>
      (k = length r \<or> length (fold (edit x) (take k r) l) = 1023)"
  show ?case unfolding cook_loop.simps
  proof (rule input_st_tt)
    fix y :: tty_struct
    assume y: "termios y = termios x" "q_ok (read_q y)" "qdata (read_q y) = r" "q_ok (secondary y)" "qdata (secondary y) = l"
    let ?m = "let (c, q) = GETCH (read_q y) in kseq (upd_tt t (\<lambda>x. x\<lparr>read_q := q\<rparr>)) (kbind (map_input y c) (\<lambda>r.
           kseq (case r of None \<Rightarrow> kreturn () | Some c \<Rightarrow> cook_char w t c) (cook_loop n w t)))"
    have stop: "(EMPTY (read_q y) \<or> FULL (secondary y)) = (r = [] \<or> length l = 1023)"
      using EMPTY_iff [OF y(2)] FULL_iff [OF y(4)] y(3,5) by auto
    show "returns (\<lambda>s. input_st t d x r l s \<and> tty_table s ! t = y) (if EMPTY (read_q y) \<or> FULL (secondary y) then kreturn () else ?m) (?Q r l)"
    proof (cases "r = [] \<or> length l = 1023")
      case True
      then have "returns (\<lambda>s. input_st t d x r l s \<and> tty_table s ! t = y) (kreturn ()) (?Q r l)"
        by (intro returns_return) (auto intro!: exI [of _ 0])
      then show ?thesis using True by (simp add: stop)
    next
      case False
      then obtain c cs where r: "r = c # cs" by (cases r) auto
      obtain q where g: "GETCH (read_q y) = (c, q)" "q_ok q" "qdata q = cs"
        using GETCH_run [OF y(2) y(3) [unfolded r]] by (cases "GETCH (read_q y)") auto
      have l: "length l < 1023" using False Suc.prems(2) by simp
      have ed: "length (edit x c l) \<le> 1023" using l length_edit [of x c l] by linarith
      have step: "returns (input_st t d x cs l) (kbind (map_input y c) (\<lambda>r. kseq (case r of None \<Rightarrow> kreturn () | Some c \<Rightarrow> cook_char w t c) (cook_loop n w t)))
          (?Q cs (edit x c l))"
      proof -
        have loop: "returns (input_st t d x cs (edit x c l)) (cook_loop n w t) (?Q cs (edit x c l))"
          using Suc.prems ed by (intro Suc.IH) (auto simp: r)
        show ?thesis
        proof (cases "in_char x c")
          case None
          then show ?thesis using loop Suc.prems(3) by (simp add: map_input_eq flags_cong [OF y(1)] in_char_cong [OF y(1)] edit_def)
        next
          case (Some c')
          then have ed: "edit x c l = edit_line x c' l" by (simp add: edit_def)
          show ?thesis using returns_bind [OF cook_char_st [OF l] loop [unfolded ed]] Some Suc.prems(3)
            by (simp add: map_input_eq flags_cong [OF y(1)] in_char_cong [OF y(1)] ed)
        qed
      qed
      have "returns (\<lambda>s. input_st t d x r l s \<and> tty_table s ! t = y) (upd_tt t (\<lambda>x. x\<lparr>read_q := q\<rparr>)) (\<lambda>_. input_st t d x cs l)"
        using g by (intro returns_upd_tt) (auto simp: input_st_def input_is_def)
      from returns_bind [OF this step] have "returns (\<lambda>s. input_st t d x r l s \<and> tty_table s ! t = y) ?m (?Q cs (edit x c l))"
        by (simp add: g(1))
      then have "returns (\<lambda>s. input_st t d x r l s \<and> tty_table s ! t = y) ?m (?Q r l)"
      proof (rule returns_weaken)
        fix u :: unit and s assume "?Q cs (edit x c l) u s"
        then obtain k where "k \<le> length cs" "input_st t d x (drop k cs) (fold (edit x) (take k cs) (edit x c l)) s"
          "k = length cs \<or> length (fold (edit x) (take k cs) (edit x c l)) = 1023" by blast
        then show "?Q r l u s" by (intro exI [of _ "Suc k"]) (simp add: r)
      qed
      then show ?thesis using False by (simp add: stop)
    qed
  qed
qed simp

lemma cook_st:
  assumes "length l \<le> 1023" and "length r \<le> 1023" and "\<not> I_FLAG x IUCLC"
  shows "returns (input_st t d x r l) (cook w t) (\<lambda>_ s. \<exists>k \<le> length r. input_st t d x (drop k r) (fold (edit x) (take k r) l) s \<and>
      (k = length r \<or> length (fold (edit x) (take k r) l) = 1023) \<and> q_proc (secondary (tty_table s ! t)) = None)"
  unfolding cook_def
proof (rule returns_bind [OF cook_loop_st])
  let ?R = "\<lambda>s :: 'a ttyk_scheme. \<exists>k \<le> length r. input_st t d x (drop k r) (fold (edit x) (take k r) l) s \<and>
      (k = length r \<or> length (fold (edit x) (take k r) l) = 1023)"
  have keep: "input_st t d x p e (snd (wake_up q s)) = input_st t d x p e s" for p e q and s :: "'a ttyk_scheme"
    by (cases q) (simp_all add: wake_up_def upd_task_def input_st_def input_is_def)
  have wk: "returns ?R (wake_wait q) (\<lambda>_. ?R)" for q unfolding wake_wait_def by (rule returns_kmod) (simp add: keep)
  have un: "returns ?R (upd_tt t (\<lambda>x. x\<lparr>secondary := (secondary x)\<lparr>q_proc := None\<rparr>\<rparr>))
      (\<lambda>_ s. \<exists>k \<le> length r. input_st t d x (drop k r) (fold (edit x) (take k r) l) s \<and>
      (k = length r \<or> length (fold (edit x) (take k r) l) = 1023) \<and> q_proc (secondary (tty_table s ! t)) = None)"
    by (rule returns_upd_tt) (fastforce simp: input_st_def input_is_def q_ok_def qdata_def CHARS_def)
  show "returns ?R (kbind (tt t) (\<lambda>x. kseq (wake_wait (q_proc (secondary x))) (upd_tt t (\<lambda>x. x\<lparr>secondary := (secondary x)\<lparr>q_proc := None\<rparr>\<rparr>))))
      (\<lambda>_ s. \<exists>k \<le> length r. input_st t d x (drop k r) (fold (edit x) (take k r) l) s \<and>
      (k = length r \<or> length (fold (edit x) (take k r) l) = 1023) \<and> q_proc (secondary (tty_table s ! t)) = None)" for u :: unit
    by (rule returns_tt, force simp: input_st_def input_is_def) (rule returns_weaken [OF returns_bind [OF wk un]], erule conjunct1, assumption)
qed (use assms in \<open>simp_all add: COOK_FUEL_def\<close>)

end

section \<open>Serial lines\<close>

lemma rs_write_input: "returns (input_is t d m rq sec) (rs_write inb t) (\<lambda>_. input_is t d m rq sec)"
  unfolding rs_write_def
proof (rule returns_tt)
  show "returns (\<lambda>s. input_is t d m rq sec s \<and> tty_table s ! t = x)
     (let p = ucast (q_data (write_q x)) + 1 in kwhen (\<not> EMPTY (write_q x)) (kmod (outb (inb p OR 0x02) p))) (\<lambda>_. input_is t d m rq sec)" for x
    unfolding Let_def by (intro returns_when returns_kmod) (auto simp: input_is_def outb_def)
qed (simp add: input_is_def)

lemma tty_out_serial: "returns (input_is t RS_WRITE m rq sec) (tty_out (Suc n) inb t) (\<lambda>_. input_is t RS_WRITE m rq sec)"
  unfolding tty_out.simps
proof (rule returns_tt)
  show "returns (\<lambda>s. input_is t RS_WRITE m rq sec s \<and> tty_table s ! t = x)
     (case wr_fn x of CON_WRITE \<Rightarrow> con_write inb (cook (tty_out n inb)) t | RS_WRITE \<Rightarrow> rs_write inb t) (\<lambda>_. input_is t RS_WRITE m rq sec)" for x
  proof (cases "wr_fn x")
    case RS_WRITE
    then show ?thesis by (auto intro: returns_weaken [OF rs_write_input])
  qed (auto simp: returns_def input_is_def)
qed (simp add: input_is_def)

interpretation serial: tty_echo "tty_out (Suc n) inb" t RS_WRITE for n inb t
  by unfold_locales (rule tty_out_serial)

lemma TTY_FUEL_Suc: "TTY_FUEL = Suc 1023"
  by (simp add: TTY_FUEL_def)

lemma copy_to_cooked_st:
  assumes "\<not> I_FLAG x IUCLC"
  shows "returns (input_st t RS_WRITE x r l) (copy_to_cooked inb t) (\<lambda>_ s. \<exists>k \<le> length r. input_st t RS_WRITE x (drop k r) (fold (edit x) (take k r) l) s \<and>
      (k = length r \<or> length (fold (edit x) (take k r) l) = 1023) \<and> q_proc (secondary (tty_table s ! t)) = None)"
proof (cases "length l \<le> 1023 \<and> length r \<le> 1023")
  case True
  then show ?thesis using serial.cook_st [of l r x t 1023 inb] assms by (simp add: copy_to_cooked_def TTY_FUEL_Suc)
next
  case False
  have "length (qdata q) \<le> 1023" for q using CHARS_less [of q] by simp
  then have "\<not> input_st t RS_WRITE x r l s" for s :: "'a ttyk_scheme" using False by (auto simp: input_st_def)
  then show ?thesis by (simp add: returns_def)
qed

text \<open>
  C16: the line discipline of a serial line, in every combination of flags but the translation to lower
  case: \<open>copy_to_cooked\<close> returns; it takes the first characters out of \<open>read_q\<close>, until none is left or the
  secondary queue is full; what the secondary queue holds then is what the editing rules \<open>edit\<close> make of them
  one after the other (erase takes back one character and kill the whole line, but never beyond the
  last line end or end-of-file character); the counter \<open>data\<close> keeps being the number of line ends in the
  secondary queue; echoing does not disturb this.
\<close>

theorem cooked_line:
  assumes "t < length (tty_table s)" and "x = tty_table s ! t" and "wr_fn x = RS_WRITE" and "\<not> I_FLAG x IUCLC"
    and "q_ok (read_q x)" and "q_ok (secondary x)" and "q_data (secondary x) = of_nat (lines x (qdata (secondary x)))"
  shows "\<exists>s' y k. copy_to_cooked inb t s = Ret () s' \<and> y = tty_table s' ! t \<and> qdata (read_q y) = drop k (qdata (read_q x)) \<and>
    qdata (secondary y) = fold (edit x) (take k (qdata (read_q x))) (qdata (secondary x)) \<and>
    (qdata (read_q y) = [] \<or> length (qdata (secondary y)) = 1023) \<and> q_ok (read_q y) \<and> q_ok (secondary y) \<and>
    q_data (secondary y) = of_nat (lines x (qdata (secondary y))) \<and> q_proc (secondary y) = None"
proof -
  have "input_st t RS_WRITE x (qdata (read_q x)) (qdata (secondary x)) s" using assms by (auto simp: input_st_def input_is_def)
  then obtain s' k where k: "copy_to_cooked inb t s = Ret () s'" "input_st t RS_WRITE x (drop k (qdata (read_q x))) (fold (edit x) (take k (qdata (read_q x))) (qdata (secondary x))) s'"
      "k = length (qdata (read_q x)) \<or> length (fold (edit x) (take k (qdata (read_q x))) (qdata (secondary x))) = 1023" "q_proc (secondary (tty_table s' ! t)) = None"
    using copy_to_cooked_st [OF assms(4), of t "qdata (read_q x)" "qdata (secondary x)" inb] unfolding returns_def by (simp del: length_qdata) blast
  show ?thesis using k by (intro exI [of _ s'] exI [of _ "tty_table s' ! t"] exI [of _ k]) (auto simp: input_st_def input_is_def simp del: length_qdata)
qed

lemma q_ok_init: "q_ok (init_queue p)"
  by (simp add: q_ok_def init_queue_def)

lemma qdata_init: "qdata (init_queue p) = []"
  by (simp add: qdata_def init_queue_def CHARS_def)

lemma qdata_fold_PUTCH: "q_ok q \<Longrightarrow> length (qdata q) + length cs \<le> 1023 \<Longrightarrow> q_ok (fold PUTCH cs q) \<and> qdata (fold PUTCH cs q) = qdata q @ cs"
proof (induction cs arbitrary: q)
  case (Cons c cs)
  have "\<not> FULL q" using FULL_iff [OF Cons.prems(1)] Cons.prems(2) by auto
  then have "qdata (PUTCH c q) = qdata q @ [c]" by (rule qdata_PUTCH [OF Cons.prems(1)])
  then show ?case using Cons.IH [of "PUTCH c q"] Cons.prems by (metis (no_types, lifting) PUTCH_ok append.assoc append_Cons append_Nil fold_simps(2) length_append length_Cons list.size(3) add_Suc_right add.assoc plus_1_eq_Suc)
qed simp

text \<open>A serial line in canonical mode, on which \<open>ab\<close>, delete, \<open>c\<close> and a newline have arrived.\<close>

definition ex_line :: tty_struct where
  "ex_line = (init_serial 0x3f8)\<lparr>termios := (termios (init_serial 0x3f8))\<lparr>c_lflag := ICANON OR ECHO\<rparr>,
     read_q := fold PUTCH [97, 98, 127, 99, 10] (init_queue 0x3f8)\<rparr>"

definition ex_tty :: ttyk where
  "ex_tty = kern.extend (fsys.extend ex_fs (kern.fields [0, 0, 0] [])) (ttyk.fields [ex_line] ex_con 0)"

theorem cooked_line_witness:
  "\<exists>s'. copy_to_cooked (\<lambda>_. 0) 0 ex_tty = Ret () s' \<and> qdata (secondary (tty_table s' ! 0)) = [97, 99, 10] \<and> q_data (secondary (tty_table s' ! 0)) = 1"
proof -
  let ?x = "ex_line"
  have s: "tty_table ex_tty = [?x]" by (simp add: ex_tty_def fsys.defs kern.defs ttyk.defs)
  have r: "q_ok (read_q ?x) \<and> qdata (read_q ?x) = [97, 98, 127, 99, 10]"
    using qdata_fold_PUTCH [OF q_ok_init [where p = "0x3f8"], where cs = "[97, 98, 127, 99, 10]"] by (simp add: ex_line_def qdata_init)
  have sec: "secondary ?x = init_queue 0" by (simp add: ex_line_def init_serial_def)
  have x: "wr_fn ?x = RS_WRITE" "\<not> I_FLAG ?x IUCLC" by (simp_all add: ex_line_def init_serial_def I_FLAG_def)
  have n: "q_data (secondary ?x) = of_nat (lines ?x (qdata (secondary ?x)))" unfolding sec by (simp add: lines_def qdata_init) (simp add: init_queue_def)
  obtain s' y k where k: "copy_to_cooked (\<lambda>_. 0) 0 ex_tty = Ret () s'" "y = tty_table s' ! 0" "qdata (read_q y) = drop k (qdata (read_q ?x))"
      "qdata (secondary y) = fold (edit ?x) (take k (qdata (read_q ?x))) (qdata (secondary ?x))"
      "qdata (read_q y) = [] \<or> length (qdata (secondary y)) = 1023" "q_data (secondary y) = of_nat (lines ?x (qdata (secondary y)))"
    using cooked_line [of 0 ex_tty ?x "\<lambda>_. 0"] s r x n sec q_ok_init by fastforce
  have len: "length (fold (edit ?x) cs l) \<le> length l + length cs" for cs l
  proof (induction cs arbitrary: l)
    case (Cons c cs)
    show ?case using Cons [of "edit ?x c l"] length_edit [of ?x c l] by simp
  qed simp
  have "k \<ge> 5" using k(3,4,5) r len [of "take k (qdata (read_q ?x))" "[]"] by (auto simp: sec qdata_init)
  moreover have "fold (edit ?x) [97, 98, 127, 99, 10] [] = [97, 99, 10]"
    by (simp add: edit_def in_char_def edit_line_def kill_back_def line_end_def is_cc_def L_FLAG_def I_FLAG_def ex_line_def init_serial_def
      INIT_C_CC_def KILL_CHAR_def ERASE_CHAR_def EOF_CHAR_def STOP_CHAR_def START_CHAR_def INTR_CHAR_def QUIT_CHAR_def)
  ultimately have d: "qdata (secondary y) = [97, 99, 10]" using k(4) r by (simp add: sec qdata_init)
  moreover have "lines ?x [97, 99, 10] = 1"
    by (simp add: lines_def line_end_def is_cc_def EOF_CHAR_def ex_line_def init_serial_def INIT_C_CC_def)
  ultimately show ?thesis using k(1,2,6) by auto
qed

section \<open>Raw mode\<close>

definition raw_mode :: "tty_struct \<Rightarrow> bool" where
  "raw_mode x \<longleftrightarrow> c_iflag (termios x) = 0 \<and> c_lflag (termios x) AND (ISIG OR ICANON) = 0"

lemma raw_flags:
  assumes "raw_mode x"
  shows "\<not> L_FLAG x ISIG" "\<not> L_FLAG x ICANON" "\<not> I_FLAG x f"
proof -
  have b: "\<not> bit (c_lflag (termios x)) 0" "\<not> bit (c_lflag (termios x)) 1"
    using assms bit_eq_iff [of "c_lflag (termios x) AND 3" 0] by (auto simp: raw_mode_def bit_simps bit_1_iff dest: spec [of _ 0] spec [of _ 1])
  have "c_lflag (termios x) AND 1 = 0" "c_lflag (termios x) AND 2 = 0"
    using b by (auto intro!: bit_word_eqI simp: bit_simps bit_1_iff)
  then show "\<not> L_FLAG x ISIG" "\<not> L_FLAG x ICANON" by (simp_all add: L_FLAG_def)
  show "\<not> I_FLAG x f" using assms by (simp add: raw_mode_def I_FLAG_def)
qed

lemma edit_raw: "raw_mode x \<Longrightarrow> fold (edit x) cs l = l @ cs"
  by (induction cs arbitrary: l) (simp_all add: edit_def in_char_def edit_line_def raw_flags)

definition is_raw :: "nat \<Rightarrow> 'a ttyk_scheme \<Rightarrow> bool" where
  "is_raw t s \<longleftrightarrow> raw_mode (tty_table s ! t) \<and> (\<exists>r l. input_st t RS_WRITE (tty_table s ! t) r l s)"

definition raw_queue :: "nat \<Rightarrow> 'a ttyk_scheme \<Rightarrow> u8 list" where
  "raw_queue t s = qdata (secondary (tty_table s ! t)) @ qdata (read_q (tty_table s ! t))"

lemma input_st_raw:
  assumes "input_st t RS_WRITE x r l s" and "raw_mode x"
  shows "is_raw t s" and "qdata (secondary (tty_table s ! t)) = l" and "qdata (read_q (tty_table s ! t)) = r"
proof -
  have m: "termios (tty_table s ! t) = termios x" using assms by (auto simp: input_st_def input_is_def)
  have "lines (tty_table s ! t) = lines x" by (simp add: fun_eq_iff lines_def flags_cong(3) [OF m])
  then show "is_raw t s" using assms m by (auto simp: is_raw_def raw_mode_def input_st_def input_is_def)
  show "qdata (secondary (tty_table s ! t)) = l" "qdata (read_q (tty_table s ! t)) = r"
    using assms by (auto simp: input_st_def input_is_def)
qed

lemma is_rawE:
  assumes "is_raw t s"
  obtains x r l where "raw_mode x" "input_st t RS_WRITE x r l s" "raw_queue t s = l @ r" "length l \<le> 1023" "length r \<le> 1023"
proof -
  let ?x = "tty_table s ! t"
  obtain r l where i: "input_st t RS_WRITE ?x r l s" "raw_mode ?x" using assms by (auto simp: is_raw_def)
  have q: "qdata (secondary ?x) = l" "qdata (read_q ?x) = r" using input_st_raw [OF i] by simp_all
  have "length l \<le> 1023" "length r \<le> 1023" using CHARS_less [of "secondary ?x"] CHARS_less [of "read_q ?x"] by (simp_all flip: q)
  then show thesis using that i q by (simp add: raw_queue_def)
qed

lemma read_chars_raw:
  assumes "\<not> L_FLAG x ICANON"
  shows "0 < nr \<Longrightarrow> nr \<le> n \<Longrightarrow> l \<noteq> [] \<Longrightarrow> length l \<le> 1023 \<Longrightarrow>
    returns (\<lambda>s :: 'a ttyk_scheme. input_st t d x r l s \<and> user s = u) (read_chars n t ub (int k) (int nr))
     (\<lambda>z s. z = (False, int (k + min nr (length l)), int (nr - min nr (length l))) \<and>
        input_st t d x r (drop nr l) s \<and> user s = wbytes (ub + of_nat k) (take nr l) u)"
proof (induction n arbitrary: nr l k u)
  case (Suc n)
  obtain c cs where l: "l = c # cs" using Suc.prems(3) by (cases l) auto
  let ?w = "wbytes (ub + of_nat k) [c] u"
  have w1: "u(ub + of_nat k := c) = ?w" by (auto simp: wbytes_def fun_eq_iff unat_eq_0)
  have w: "wbytes (ub + of_nat (Suc k)) e ?w = wbytes (ub + of_nat k) (c # e) u" if "length e \<le> 1023" for e
    using wbytes_append [of "[c]" e "ub + of_nat k" u] that by (simp add: algebra_simps)
  show ?case
  proof (rule returnsI)
    fix s :: "'a ttyk_scheme" assume s: "input_st t d x r l s \<and> user s = u"
    let ?x = "tty_table s ! t"
    have m: "termios ?x = termios x" "t < length (tty_table s)" "q_ok (secondary ?x)" "qdata (secondary ?x) = c # cs"
      using s l by (auto simp: input_st_def input_is_def)
    obtain q where g: "GETCH (secondary ?x) = (c, q)" "q_ok q" "qdata q = cs"
      using GETCH_run [OF m(3,4)] by (cases "GETCH (secondary ?x)") auto
    have gd: "q_data q = q_data (secondary ?x)" using g(1) by (auto simp: GETCH_def)
    define q' where "q' = q\<lparr>q_data := (if line_end ?x c then q_data q - 1 else q_data q)\<rparr>"
    have q': "q_ok q'" "qdata q' = cs" using g by (simp_all add: q'_def q_ok_def qdata_def CHARS_def)
    have "q_data (secondary ?x) = of_nat (lines x l)" using s by (auto simp: input_st_def input_is_def)
    then have dq: "q_data q' = of_nat (lines x cs)" by (simp add: q'_def gd l lines_def flags_cong(3) [OF m(1)])
    define s1 where "s1 = s\<lparr>tty_table := (tty_table s)[t := ?x\<lparr>secondary := q'\<rparr>]\<rparr>"
    define s2 where "s2 = s1\<lparr>user := ?w\<rparr>"
    have s2: "input_st t d x r cs s2 \<and> user s2 = ?w"
      using s q' dq m(2) by (auto simp: s2_def s1_def input_st_def input_is_def)
    have go: "read_chars (Suc n) t ub (int k) (int nr) s =
        (if int nr - 1 = 0 then Ret (False, int k + 1, 0) s2
         else if int nr - 1 > 0 \<and> \<not> EMPTY q then read_chars n t ub (int k + 1) (int nr - 1) s2 else Ret (False, int k + 1, int nr - 1) s2)"
      using m(2) assms flags_cong(1) [OF m(1)]
      by (simp add: km_simps tt_def upd_tt_def put_fs_byte_def g(1) w1 s2_def s1_def q'_def conjunct2 [OF s] del: of_nat_diff)
    have run: "read_chars (Suc n) t ub (int k) (int nr) s =
        (if nr = 1 then Ret (False, int k + 1, 0) s2 else if cs \<noteq> [] then read_chars n t ub (int (Suc k)) (int (nr - 1)) s2
         else Ret (False, int k + 1, int nr - 1) s2)"
      unfolding go using EMPTY_iff [OF g(2)] g(3) Suc.prems(1) by (simp add: of_nat_diff add.commute)
    show "\<exists>z s'. read_chars (Suc n) t ub (int k) (int nr) s = Ret z s' \<and> z = (False, int (k + min nr (length l)), int (nr - min nr (length l))) \<and>
        input_st t d x r (drop nr l) s' \<and> user s' = wbytes (ub + of_nat k) (take nr l) u"
    proof (cases "nr = 1 \<or> cs = []")
      case True
      moreover have "drop nr l = cs" "take nr l = [c]" using True Suc.prems(1) by (auto simp: l drop_Cons' take_Cons')
      ultimately show ?thesis using run s2 Suc.prems(1) by (auto simp: l of_nat_diff min_def)
    next
      case False
      then have "0 < nr - 1" "nr - 1 \<le> n" "cs \<noteq> []" "length cs \<le> 1023" using Suc.prems by (auto simp: l)
      then obtain s' where s': "read_chars n t ub (int (Suc k)) (int (nr - 1)) s2 = Ret (False, int (Suc k + min (nr - 1) (length cs)), int (nr - 1 - min (nr - 1) (length cs))) s'"
          "input_st t d x r (drop (nr - 1) cs) s'" "user s' = wbytes (ub + of_nat (Suc k)) (take (nr - 1) cs) ?w"
        using Suc.IH [of "nr - 1" cs ?w "Suc k"] s2 unfolding returns_def by blast
      have "drop nr l = drop (nr - 1) cs" "take nr l = c # take (nr - 1) cs" using Suc.prems(1) by (auto simp: l drop_Cons' take_Cons')
      then show ?thesis using False run s' w [of "take (nr - 1) cs"] Suc.prems(1,4) by (auto simp: l min_def)
    qed
  qed
qed simp

text \<open>What a call has moved so far: the characters \<open>g\<close> are in the buffer at \<open>ub\<close>, \<open>l\<close> are in the secondary queue still.\<close>

definition raw_read_st :: "nat \<Rightarrow> tty_struct \<Rightarrow> u8 list \<Rightarrow> u32 \<Rightarrow> (u32 \<Rightarrow> u8) \<Rightarrow> u8 list \<Rightarrow> u8 list \<Rightarrow> 'a ttyk_scheme \<Rightarrow> bool" where
  "raw_read_st t x r ub u g l s \<longleftrightarrow> input_st t RS_WRITE x r l s \<and> user s = wbytes ub g u"

lemma raw_read_st_cur [simp]: "raw_read_st t x r ub u g l (upd_cur f s) = raw_read_st t x r ub u g l s"
  by (simp add: raw_read_st_def input_st_def input_is_def upd_cur_def)

text \<open>How a call of \<open>tty_read\<close> ends, with all it has moved.\<close>

definition raw_read_ends :: "nat \<Rightarrow> tty_struct \<Rightarrow> u8 list \<Rightarrow> u32 \<Rightarrow> (u32 \<Rightarrow> u8) \<Rightarrow> u8 list \<Rightarrow> u8 list \<Rightarrow> (int, 'a ttyk_scheme) outcome \<Rightarrow> bool" where
  "raw_read_ends t x r ub u g l z \<longleftrightarrow>
     (case z of Ret v s \<Rightarrow> \<exists>j \<le> length l. raw_read_st t x r ub u (g @ take j l) (drop j l) s \<and> nat v = length g + j
      | Stop h s \<Rightarrow> \<exists>j \<le> length l. raw_read_st t x r ub u (g @ take j l) (drop j l) s)"

lemma raw_read_ends_later:
  assumes "raw_read_ends t x r ub u (g @ take j l) (drop j l) z"
  shows "raw_read_ends t x r ub u g l z"
proof (cases "j \<le> length l")
  case True
  have step: "i \<le> length (drop j l) \<Longrightarrow> j + i \<le> length l \<and> (g @ take j l) @ take i (drop j l) = g @ take (j + i) l \<and> drop i (drop j l) = drop (j + i) l
      \<and> length (g @ take j l) + i = length g + (j + i)" for i
    using True by (auto simp: take_add drop_drop add.commute [of i j])
  then show ?thesis using assms unfolding raw_read_ends_def by (cases z) (simp_all only: outcome.case, (metis step)+)
next
  case False
  then have "raw_read_ends t x r ub u (g @ l) [] z" using assms by simp
  then show ?thesis unfolding raw_read_ends_def by (cases z) (auto intro!: exI [of _ "length l"])
qed

lemma tty_read_end_raw:
  assumes "raw_read_st t x r ub u g l s"
  shows "raw_read_ends t x r ub u g l (tty_read_end a (int (length g)) s)"
proof -
  have "raw_read_st t x r ub u g l (upd_cur (\<lambda>p. p\<lparr>alarm := a\<rparr>) s)" using assms by simp
  then show ?thesis unfolding raw_read_ends_def by (auto simp: tty_read_end_def set_alarm_def km_simps intro!: exI [of _ 0])
qed

lemma tty_read_loop_raw:
  assumes "\<not> L_FLAG x ICANON"
  shows "length g + length l \<le> 1023 \<Longrightarrow> raw_read_st t x r ub u g l s \<Longrightarrow>
    raw_read_ends t x r ub u g l (tty_read_loop n t ub a tm mn flag (int (length g)) nr s)"
proof (induction n arbitrary: g l s flag nr)
  case 0
  then show ?case by (auto simp: raw_read_ends_def km_simps intro!: exI [of _ 0])
next
  case (Suc n)
  let ?me = "cur s" and ?x = "tty_table s ! t"
  have st: "t < length (tty_table s)" "termios ?x = termios x" "q_ok (secondary ?x)" "qdata (secondary ?x) = l" "user s = wbytes ub g u"
    "input_st t RS_WRITE x r l s"
    using Suc.prems(2) by (auto simp: raw_read_st_def input_st_def input_is_def)
  have canon: "\<not> L_FLAG ?x ICANON" using assms flags_cong(1) [OF st(2)] by simp
  have tty: "tt t s = Ret ?x s" using st(1) by (simp add: tt_def)
  consider "nr \<le> 0 \<or> signal ?me \<noteq> 0" | "nr > 0" "signal ?me = 0" "l = []" | "nr > 0" "signal ?me = 0" "l \<noteq> []" by linarith
  then show ?case
  proof cases
    case 1
    have "raw_read_st t x r ub u g l (upd_cur f s)" for f using Suc.prems(2) by simp
    then show ?thesis using 1 Suc.prems(2) by (auto simp: km_simps intro: tty_read_end_raw)
  next
    case 2
    then have "tty_read_loop (Suc n) t ub a tm mn flag (int (length g)) nr s = Stop Sleeps s"
      using tty EMPTY_iff [OF st(3)] st(4) by (simp add: km_simps sleep_if_empty_def Let_def)
    then show ?thesis using Suc.prems(2) by (auto simp: raw_read_ends_def intro!: exI [of _ 0])
  next
    case 3
    let ?j = "min (nat nr) (length l)"
    have "returns (\<lambda>s. input_st t RS_WRITE x r l s \<and> user s = wbytes ub g u) (read_chars (nat nr) t ub (int (length g)) (int (nat nr)))
       (\<lambda>z s. z = (False, int (length g + ?j), int (nat nr - ?j)) \<and> input_st t RS_WRITE x r (drop (nat nr) l) s \<and>
          user s = wbytes (ub + of_nat (length g)) (take (nat nr) l) (wbytes ub g u))"
      using 3 Suc.prems(1) assms by (intro read_chars_raw) auto
    then obtain s1 where s1: "read_chars (nat nr) t ub (int (length g)) nr s = Ret (False, int (length g + ?j), int (nat nr - ?j)) s1"
        "input_st t RS_WRITE x r (drop (nat nr) l) s1" "user s1 = wbytes (ub + of_nat (length g)) (take (nat nr) l) (wbytes ub g u)"
      using st(5,6) 3(1) unfolding returns_def by (metis int_nat_eq less_imp_le)
    have "user s1 = wbytes ub (g @ take (nat nr) l) u" using Suc.prems(1) s1(3) by (simp add: wbytes_append)
    then have s1': "raw_read_st t x r ub u (g @ take ?j l) (drop ?j l) s1"
      using s1(2) by (cases "nat nr \<le> length l") (simp_all add: raw_read_st_def min_def)
    let ?g = "g @ take ?j l"
    have k: "int (length g + ?j) = int (length ?g)" by simp
    define flag' where "flag' = (if tm \<noteq> 0 then a = 0 \<or> tm + jiffies s1 < a else flag)"
    define s2 where "s2 = (if tm \<noteq> 0 then upd_cur (\<lambda>p. p\<lparr>alarm := (if flag' then tm + jiffies s1 else a)\<rparr>) s1 else s1)"
    have s2: "raw_read_st t x r ub u ?g (drop ?j l) s2" using s1' by (simp add: s2_def)
    have run: "tty_read_loop (Suc n) t ub a tm mn flag (int (length g)) nr s =
        (if int (length ?g) \<ge> mn then tty_read_end a (int (length ?g)) s2
         else tty_read_loop n t ub a tm mn flag' (int (length ?g)) (int (nat nr - ?j)) s2)"
      using 3 tty EMPTY_iff [OF st(3)] st(4) canon s1(1)
      by (simp add: km_simps Let_def set_alarm_def flag'_def [symmetric] s2_def)
        (auto simp: flag'_def)
    have "raw_read_ends t x r ub u ?g (drop ?j l) (tty_read_loop (Suc n) t ub a tm mn flag (int (length g)) nr s)"
      unfolding run using s2 Suc.prems(1) Suc.IH [OF _ s2, of flag' "int (nat nr - ?j)"] tty_read_end_raw [OF s2] by simp
    then show ?thesis by (rule raw_read_ends_later)
  qed
qed

lemma tty_read_raw:
  assumes "raw_mode x" and "input_st t RS_WRITE x r l s"
  shows "raw_read_ends t x r ub (user s) [] l (tty_read t ub nr s)"
proof -
  have l: "length l \<le> 1023"
  proof -
    have "qdata (secondary (tty_table s ! t)) = l" using assms(2) by (auto simp: input_st_def input_is_def)
    then show ?thesis using CHARS_less [of "secondary (tty_table s ! t)"] by auto
  qed
  have st: "raw_read_st t x r ub (user s) [] l (upd_cur f s)" "raw_read_st t x r ub (user s) [] l s" for f
    using assms(2) by (simp_all, simp_all add: raw_read_st_def)
  have tty: "tt t s = Ret (tty_table s ! t) s" using assms(2) by (auto simp: tt_def input_st_def input_is_def)
  show ?thesis
  proof (cases "t > 2 \<or> nr < 0")
    case True
    then show ?thesis using st(2) by (auto simp: tty_read_def km_simps raw_read_ends_def intro!: exI [of _ 0])
  next
    case False
    have L: "raw_read_ends t x r ub (user s) [] l (tty_read_loop n t ub a tm mn flag 0 nr s')"
      if "raw_read_st t x r ub (user s) [] l s'" for n a tm mn flag s'
      using tty_read_loop_raw [OF raw_flags(2) [OF assms(1)] _ that, of n a tm mn flag nr] l by simp
    note loop = L [OF st(1)] L [OF st(2)]
    show ?thesis using False tty by (simp add: tty_read_def km_simps Let_def set_alarm_def loop del: tty_read_loop.simps)
  qed
qed

section \<open>A serial line is a bounded queue\<close>

text \<open>
  The life of a line in raw mode: a character arrives and is put into \<open>read_q\<close> when there is room, the interrupt
  calls \<open>do_tty_interrupt\<close>, and programs call \<open>tty_read\<close>, to the end or until they sleep (what such a call
  has taken by then is the change of the secondary queue); between these, anything may happen
  that leaves the terminal alone.
\<close>

inductive raw_step :: "(u16 \<Rightarrow> u8) \<Rightarrow> nat \<Rightarrow> 'a ttyk_scheme \<Rightarrow> u8 list \<Rightarrow> u8 list \<Rightarrow> 'a ttyk_scheme \<Rightarrow> bool"
  for inb t where
  raw_arrive: "\<not> FULL (read_q (tty_table s ! t)) \<Longrightarrow> upd_tt t (\<lambda>x. x\<lparr>read_q := PUTCH c (read_q x)\<rparr>) s = Ret () s' \<Longrightarrow> raw_step inb t s [c] [] s'"
| raw_interrupt: "do_tty_interrupt inb t s = Ret () s' \<Longrightarrow> raw_step inb t s [] [] s'"
| raw_read: "tty_read t ub nr s = Ret v s' \<Longrightarrow> raw_step inb t s [] (rbytes (user s') ub (nat v)) s'"
| raw_read_sleep: "tty_read t ub nr s = Stop h s' \<Longrightarrow>
    raw_step inb t s [] (rbytes (user s') ub (unat (CHARS (secondary (tty_table s ! t))) - unat (CHARS (secondary (tty_table s' ! t))))) s'"
| raw_other: "is_raw t s' \<Longrightarrow> raw_queue t s' = raw_queue t s \<Longrightarrow> raw_step inb t s [] [] s'"

lemma raw_step_read:
  assumes "raw_mode x" and "raw_read_st t x r ub u (take j l) (drop j l) s" and "j \<le> length l" and "length l \<le> 1023"
  shows "is_raw t s" and "l @ r = rbytes (user s) ub j @ raw_queue t s" and "unat (CHARS (secondary (tty_table s ! t))) = length l - j"
proof -
  have i: "input_st t RS_WRITE x r (drop j l) s" "user s = wbytes ub (take j l) u" using assms(2) by (simp_all add: raw_read_st_def)
  note q = input_st_raw [OF i(1) assms(1)]
  show "is_raw t s" by (rule q(1))
  have "rbytes (user s) ub (length (take j l)) = take j l" unfolding i(2) using assms(4) by (intro read_wbytes) simp
  then have "rbytes (user s) ub j = take j l" using assms(3) by simp
  then show "l @ r = rbytes (user s) ub j @ raw_queue t s" using q(2,3) by (simp add: raw_queue_def)
  show "unat (CHARS (secondary (tty_table s ! t))) = length l - j" using arg_cong [OF q(2), of length] by simp
qed

lemma raw_step_queue:
  assumes "raw_step inb t s a b s'" and "is_raw t s"
  shows "is_raw t s'" and "raw_queue t s @ a = b @ raw_queue t s'"
proof -
  obtain x r l where x: "raw_mode x" "input_st t RS_WRITE x r l s" "raw_queue t s = l @ r" "length l \<le> 1023" "length r \<le> 1023"
    using is_rawE [OF assms(2)] .
  note q = input_st_raw [OF x(2,1)]
  have ends: "raw_read_ends t x r ub (user s) [] l (tty_read t ub nr s)" for ub nr by (rule tty_read_raw [OF x(1,2)])
  have "is_raw t s' \<and> raw_queue t s @ a = b @ raw_queue t s'" using assms(1)
  proof cases
    case (raw_arrive c)
    have lt: "t < length (tty_table s)" "q_ok (read_q (tty_table s ! t))" using x(2) by (auto simp: input_st_def input_is_def)
    have s': "s' = s\<lparr>tty_table := (tty_table s)[t := (tty_table s ! t)\<lparr>read_q := PUTCH c (read_q (tty_table s ! t))\<rparr>]\<rparr>"
      using raw_arrive(4) lt(1) by (simp add: upd_tt_def)
    have i: "input_st t RS_WRITE x (r @ [c]) l s'" using x(2) lt qdata_PUTCH [OF lt(2) raw_arrive(3), of c] q(3)
      by (auto simp: s' input_st_def input_is_def)
    then show ?thesis using input_st_raw [OF i x(1)] raw_arrive(1,2) x(3) by (simp add: raw_queue_def)
  next
    case raw_interrupt
    obtain k where k: "input_st t RS_WRITE x (drop k r) (fold (edit x) (take k r) l) s'"
      using raw_interrupt(3) x(2) copy_to_cooked_st [OF raw_flags(3) [OF x(1)], of t r l inb] unfolding returns_def do_tty_interrupt_def by (metis outcome.inject(1))
    then show ?thesis using input_st_raw [OF k x(1)] raw_interrupt(1,2) x(3) by (simp add: raw_queue_def edit_raw [OF x(1)])
  next
    case (raw_read ub nr v)
    obtain j where "j \<le> length l" "raw_read_st t x r ub (user s) (take j l) (drop j l) s'" "nat v = j"
      using ends [of ub nr] raw_read(3) by (auto simp: raw_read_ends_def)
    then show ?thesis using raw_step_read(1,2) [OF x(1), of t r ub "user s" j l s'] x(3,4) raw_read(1,2) by simp
  next
    case (raw_read_sleep ub nr h)
    obtain j where "j \<le> length l" "raw_read_st t x r ub (user s) (take j l) (drop j l) s'"
      using ends [of ub nr] raw_read_sleep(3) by (auto simp: raw_read_ends_def)
    then show ?thesis using raw_step_read [OF x(1), of t r ub "user s" j l s'] x(3,4) raw_read_sleep(1,2) arg_cong [OF q(2), of length] by simp
  next
    case raw_other
    then show ?thesis by simp
  qed
  then show "is_raw t s'" and "raw_queue t s @ a = b @ raw_queue t s'" by simp_all
qed

interpretation line: bounded_fifo "raw_step inb t" "is_raw t" "raw_queue t" 2046 for inb t
proof
  show "length (raw_queue t s) \<le> 2046" if "is_raw t s" for s :: "'a ttyk_scheme"
    using that by (rule is_rawE) simp
qed (use raw_step_queue in blast)+

text \<open>
  C17: a serial line in raw mode is a first-in, first-out queue: over any sequence of arriving characters,
  interrupts and reads (complete, interrupted by signals or asleep), with or without timeout and echo, what the
  programs got, followed by what is in the two queues, is what arrived; and at most 2046
  characters are waiting.
\<close>

theorem tty_raw_fifo:
  assumes "runs (raw_step inb t) s a b s'" and "is_raw t s" and "raw_queue t s = []"
  shows "is_raw t s' \<and> a = b @ raw_queue t s' \<and> length a \<le> length b + 2046"
  using line.runs_fifo [OF assms] line.runs_inv [OF assms(1,2)] by blast


text \<open>Two characters arrive, and a program reads one of them.\<close>

definition ex_raw :: "u8 list \<Rightarrow> ttyk" where
  "ex_raw cs = ex_tty\<lparr>tty_table := [(init_serial 0x3f8)\<lparr>secondary := fold PUTCH cs (init_queue 0)\<rparr>]\<rparr>"

lemma ex_raw_ok: "list_all (\<lambda>c. c \<noteq> 4 \<and> c \<noteq> 10) cs \<Longrightarrow> length cs \<le> 1023 \<Longrightarrow> is_raw 0 (ex_raw cs) \<and> raw_queue 0 (ex_raw cs) = cs"
proof -
  assume h: "list_all (\<lambda>c. c \<noteq> 4 \<and> c \<noteq> 10) cs" "length cs \<le> 1023"
  let ?x = "(init_serial 0x3f8)\<lparr>secondary := fold PUTCH cs (init_queue 0)\<rparr>"
  have q: "q_ok (fold PUTCH cs (init_queue 0))" "qdata (fold PUTCH cs (init_queue 0)) = cs"
    using qdata_fold_PUTCH [OF q_ok_init [where p = 0], where cs = cs] h(2) qdata_init [of 0] by simp_all
  have "sint c \<noteq> 4" if "c \<noteq> (4 :: u8)" for c using that signed_word_eqI [of c 4] by (auto simp: sint_numeral)
  then have "lines ?x cs = 0" using h(1)
    by (auto simp: lines_def line_end_def is_cc_def EOF_CHAR_def init_serial_def INIT_C_CC_def list_all_iff filter_empty_conv)
  moreover have "q_data (fold PUTCH cs (init_queue 0)) = 0"
    by (induction cs rule: rev_induct) (simp_all add: init_queue_def PUTCH_def)
  ultimately have "input_st 0 RS_WRITE ?x [] cs (ex_raw cs)"
    using q by (simp add: ex_raw_def input_st_def input_is_def) (simp add: init_serial_def q_ok_init qdata_init)
  moreover have "raw_mode ?x" by (simp add: raw_mode_def init_serial_def)
  ultimately show ?thesis using input_st_raw [of 0 ?x "[]" cs "ex_raw cs"] by (simp add: raw_queue_def)
qed

theorem tty_raw_fifo_witness: "\<exists>s'. runs (raw_step (\<lambda>_. 0) 0) (ex_raw []) [7, 8] [7] s' \<and> raw_queue 0 s' = [8]"
proof -
  let ?step = "raw_step (\<lambda>_. 0) 0 :: ttyk \<Rightarrow> _"
  let ?put = "\<lambda>c :: u8. upd_tt 0 (\<lambda>x. x\<lparr>read_q := PUTCH c (read_q x)\<rparr>) :: (ttyk, unit) km"
  note ok = ex_raw_ok [of "[]"] ex_raw_ok [of "[7, 8]"]
  obtain s1 s2 where s: "?put 7 (ex_raw []) = Ret () s1" "?put 8 s1 = Ret () s2" by (simp add: ex_raw_def upd_tt_def)
  have nf: "\<not> FULL (read_q (tty_table (ex_raw []) ! 0))" "\<not> FULL (read_q (tty_table s1 ! 0))"
    using s by (auto simp: ex_raw_def upd_tt_def init_serial_def init_queue_def FULL_def LEFT_def PUTCH_def INC_def)
  have r: "runs ?step (ex_raw []) [7, 8] [] s2"
    using runs_step [of ?step, OF runs_step [of ?step, OF runs_refl raw_arrive [OF nf(1) s(1)]] raw_arrive [OF nf(2) s(2)]] by simp
  have q2: "raw_queue 0 s2 = [7, 8]" using tty_raw_fifo [OF r] ok(1) by simp
  have j: "?step s2 [] [] (ex_raw [7, 8])" using ok(2) q2 by (intro raw_other) simp_all
  have c: "task ex_tty = task ex_fs" "current ex_tty = current ex_fs"
    by (simp_all add: ex_tty_def fsys.defs kern.defs ttyk.defs)
  have c: "current ex_tty < length (task ex_tty)" "task ex_tty ! current ex_tty \<noteq> None" "signal (cur ex_tty) = 0"
    unfolding cur_def c by (simp_all add: ex_fs_def ex_blk_def ex_mm_def boot_sched_def two_tasks_def INIT_TASK_def sched.defs mm.defs blk.defs fsys.defs)
  obtain s3 where s3: "tty_read 0 0 1 (ex_raw [7, 8]) = Ret 1 s3" "user s3 0 = 7"
    by (simp add: tty_read_def ex_raw_def tt_def upd_tt_def km_simps Let_def init_serial_def INIT_C_CC_def VTIME_CHAR_def VMIN_CHAR_def init_queue_def PUTCH_def INC_def
      EMPTY_def LEFT_def L_FLAG_def GETCH_def line_end_def is_cc_def EOF_CHAR_def put_fs_byte_def tty_read_end_def set_alarm_def upd_cur_def cur_def c(1) c(3) [unfolded cur_def])
  have "rbytes (user s3) 0 (nat 1) = [7]" using s3(2) by (simp add: rbytes_def)
  then have r3: "runs ?step (ex_raw []) [7, 8] [7] s3"
    using runs_step [of ?step, OF runs_step [of ?step, OF r j] raw_read [OF s3(1)]] by simp
  then have "raw_queue 0 s3 = [8]" using tty_raw_fifo [OF r3] ok(1) by simp
  then show ?thesis using r3 by blast
qed

section \<open>Terminals stay well-formed\<close>

text \<open>
  The accesses of the driver to the buffers of the queues and to the control characters are within their arrays as
  long as the terminals are well-formed. \<open>keeps P m\<close>: \<open>P\<close> holds after \<open>m\<close> if it did before, however \<open>m\<close> ends.
\<close>

definition tty_ok :: "tty_struct \<Rightarrow> bool" where
  "tty_ok x \<longleftrightarrow> q_ok (read_q x) \<and> q_ok (write_q x) \<and> q_ok (secondary x) \<and> length (c_cc (termios x)) = NCCS \<and> length (c_pad (termios x)) = 2"

definition ttys_ok :: "'a ttyk_scheme \<Rightarrow> bool" where
  "ttys_ok s \<longleftrightarrow> list_all tty_ok (tty_table s)"

definition final :: "('s, 'a) km \<Rightarrow> 's \<Rightarrow> 's" where
  "final m s = (case m s of Ret x t \<Rightarrow> t | Stop h t \<Rightarrow> t)"

definition keeps :: "('s \<Rightarrow> bool) \<Rightarrow> ('s, 'a) km \<Rightarrow> bool" where
  "keeps P m \<longleftrightarrow> (\<forall>s. P s \<longrightarrow> P (final m s))"

named_theorems keep_rules \<open>introduction rules for keeps\<close>

lemma keeps_bind [keep_rules]: "keeps P m \<Longrightarrow> (\<And>x. keeps P (f x)) \<Longrightarrow> keeps P (kbind m f)"
  unfolding keeps_def
proof (intro allI impI)
  fix s assume m: "\<forall>s. P s \<longrightarrow> P (final m s)" and f: "\<And>x. \<forall>s. P s \<longrightarrow> P (final (f x) s)" and s: "P s"
  show "P (final (kbind m f) s)"
    using m [rule_format, OF s] f by (cases "m s") (simp_all add: final_def kbind_def)
qed

lemma keeps_return [keep_rules]: "keeps P (kreturn x)"
  by (simp add: keeps_def final_def kreturn_def)

lemma keeps_stop [keep_rules]: "keeps P (kstop h)"
  by (simp add: keeps_def final_def kstop_def)

lemma keeps_get [keep_rules]: "keeps P (kget f)"
  by (simp add: keeps_def final_def kget_def)

lemma keeps_mod: "(\<And>s. P s \<Longrightarrow> P (g s)) \<Longrightarrow> keeps P (kmod g)"
  by (simp add: keeps_def final_def kmod_def)

lemma keeps_when [keep_rules]: "keeps P m \<Longrightarrow> keeps P (kwhen b m)"
  by (simp add: kwhen_def keeps_return)

lemma keeps_if [keep_rules]: "(b \<Longrightarrow> keeps P m) \<Longrightarrow> (\<not> b \<Longrightarrow> keeps P k) \<Longrightarrow> keeps P (if b then m else k)"
  by simp

lemma keeps_for [keep_rules]: "(\<And>i. keeps P (f i)) \<Longrightarrow> keeps P (kfor is f)"
  by (induction "is") (simp_all add: keeps_return keeps_bind)

lemma keeps_option [keep_rules]: "keeps P m \<Longrightarrow> (\<And>x. keeps P (f x)) \<Longrightarrow> keeps P (case r of None \<Rightarrow> m | Some x \<Rightarrow> f x)"
  by (cases r) simp_all

lemma ttys_ok_mod [keep_rules]: "(\<And>s. tty_table (g s) = tty_table s) \<Longrightarrow> keeps ttys_ok (kmod g)"
  by (rule keeps_mod) (simp add: ttys_ok_def)

lemma keeps_upd [keep_rules]: "(\<And>x. tty_ok x \<Longrightarrow> tty_ok (f x)) \<Longrightarrow> keeps ttys_ok (upd_tt t f)"
  by (auto simp: keeps_def final_def upd_tt_def ttys_ok_def list_all_length nth_list_update)

lemma keeps_tt: "(\<And>x. tty_ok x \<Longrightarrow> keeps ttys_ok (f x)) \<Longrightarrow> keeps ttys_ok (kbind (tt t) f)"
  by (auto simp: keeps_def final_def tt_def kbind_def ttys_ok_def list_all_length)

lemma keeps_GETCH: "(\<And>c q. q_ok q \<Longrightarrow> keeps P (f c q)) \<Longrightarrow> q_ok p \<Longrightarrow> keeps P (case GETCH p of (c, q) \<Rightarrow> f c q)"
  by (simp add: GETCH_def q_ok_def unat_INC)

lemma putch_keeps [keep_rules]: "keeps ttys_ok (putch_write t c)"
  unfolding putch_write_def by (rule keeps_upd) (simp add: tty_ok_def)

text \<open>Operations of the layers below do not touch the terminals.\<close>

lemma memory_keeps [keep_rules]:
  "keeps (ttys_ok :: 'a ttyk_scheme \<Rightarrow> bool) (peek a)" "keeps (ttys_ok :: 'a ttyk_scheme \<Rightarrow> bool) (poke a v)"
  "keeps (ttys_ok :: 'a ttyk_scheme \<Rightarrow> bool) (get_map i)" "keeps (ttys_ok :: 'a ttyk_scheme \<Rightarrow> bool) (set_map i w)"
  by (auto simp: keeps_def final_def peek_def poke_def get_map_def set_map_def kget_def kmod_def ttys_ok_def)

lemma get_free_page_keeps [keep_rules]: "keeps (ttys_ok :: 'a ttyk_scheme \<Rightarrow> bool) get_free_page"
  unfolding get_free_page_def by (intro keep_rules) simp

lemma write_verify_keeps [keep_rules]: "keeps (ttys_ok :: 'a ttyk_scheme \<Rightarrow> bool) (write_verify a)"
  unfolding write_verify_def un_wp_page_def oom_def Let_def by (intro keep_rules) simp

lemma verify_area_keeps [keep_rules]: "keeps (ttys_ok :: 'a ttyk_scheme \<Rightarrow> bool) (verify_area a n)"
proof -
  have "keeps (ttys_ok :: 'a ttyk_scheme \<Rightarrow> bool) (verify_loop n a)" for n a
    by (induction n arbitrary: a) (auto intro: keep_rules)
  then show ?thesis unfolding verify_area_def ldt_desc_def Let_def by (intro keep_rules)
qed

lemma user_keeps [keep_rules]:
  "keeps (ttys_ok :: 'a ttyk_scheme \<Rightarrow> bool) (put_fs_byte c a)" "keeps (ttys_ok :: 'a ttyk_scheme \<Rightarrow> bool) (put_fs_bytes d a)"
  "keeps (ttys_ok :: 'a ttyk_scheme \<Rightarrow> bool) (get_fs_byte a)" "keeps (ttys_ok :: 'a ttyk_scheme \<Rightarrow> bool) (put_result v a)"
  "keeps (ttys_ok :: 'a ttyk_scheme \<Rightarrow> bool) (wake_wait q)" "keeps (ttys_ok :: 'a ttyk_scheme \<Rightarrow> bool) (set_alarm m)"
  unfolding put_fs_byte_def put_fs_bytes_def get_fs_byte_def put_result_def put_fs_long_def put_fs_word_def wake_wait_def set_alarm_def
  by (intro keep_rules; simp add: wake_up_def upd_task_def upd_cur_def split: option.split)+

lemma yield_keeps [keep_rules]: "keeps (ttys_ok :: 'a ttyk_scheme \<Rightarrow> bool) yield_cpu"
proof -
  have "keeps (ttys_ok :: 'a ttyk_scheme \<Rightarrow> bool) schedule"
    by (auto simp: keeps_def final_def schedule_def Let_def ttys_ok_def split: option.splits)
  then show ?thesis unfolding yield_cpu_def by (intro keep_rules)
qed

lemma con_run_keeps [keep_rules]: "keeps (ttys_ok :: 'a ttyk_scheme \<Rightarrow> bool) (con_run f)"
  by (simp add: keeps_def final_def con_run_def ttys_ok_def split: prod.split)

lemma tty_ok_upd [simp]:
  "tty_ok x \<Longrightarrow> tty_ok (x\<lparr>stopped := v\<rparr>)" "tty_ok x \<Longrightarrow> tty_ok (x\<lparr>secondary := PUTCH c (secondary x)\<rparr>)"
  "tty_ok x \<Longrightarrow> tty_ok (x\<lparr>read_q := PUTCH c (read_q x)\<rparr>)" "tty_ok x \<Longrightarrow> q_ok q \<Longrightarrow> tty_ok (x\<lparr>read_q := q\<rparr>)" "tty_ok x \<Longrightarrow> q_ok q \<Longrightarrow> tty_ok (x\<lparr>write_q := q\<rparr>)"
  "tty_ok x \<Longrightarrow> q_ok q \<Longrightarrow> tty_ok (x\<lparr>secondary := q\<lparr>q_data := n\<rparr>\<rparr>)" "tty_ok x \<Longrightarrow> tty_ok (x\<lparr>secondary := (secondary x)\<lparr>q_proc := p\<rparr>\<rparr>)"
  "tty_ok x \<Longrightarrow> tty_ok (x\<lparr>secondary := (secondary x)\<lparr>q_head := DEC (q_head (secondary x))\<rparr>\<rparr>)"
  "tty_ok x \<Longrightarrow> tty_ok (x\<lparr>read_q := flush (read_q x)\<rparr>)" "tty_ok x \<Longrightarrow> tty_ok (x\<lparr>write_q := flush (write_q x)\<rparr>)"
  by (simp_all add: tty_ok_def q_ok_def unat_DEC PUTCH_def flush_def unat_INC)

lemma tty_okD [dest]: "tty_ok x \<Longrightarrow> q_ok (read_q x) \<and> q_ok (write_q x) \<and> q_ok (secondary x)"
  by (simp add: tty_ok_def)

lemma map_input_keeps [keep_rules]: "keeps P (map_input x c)"
  unfolding map_input_def tolower_def ctype_of_def Let_def by (intro keep_rules)

lemma toupper_keeps [keep_rules]: "keeps P (toupper c)"
  unfolding toupper_def ctype_of_def by (intro keep_rules)

lemma rub_out_keeps [keep_rules]: "keeps ttys_ok (w t) \<Longrightarrow> keeps ttys_ok (rub_out w t)"
  unfolding rub_out_def by (rule keeps_tt) (intro keep_rules tty_ok_upd; assumption)

lemma kill_line_keeps [keep_rules]: "keeps ttys_ok (w t) \<Longrightarrow> keeps ttys_ok (kill_line n w t)"
proof (induction n)
  case (Suc n)
  then show ?case unfolding kill_line.simps by (intro keeps_tt keep_rules) simp_all
qed (simp add: keeps_stop)

lemma put_secondary_keeps [keep_rules]: "keeps ttys_ok (w t) \<Longrightarrow> keeps ttys_ok (put_secondary w t c)"
  unfolding put_secondary_def echo_char_def by (intro keeps_tt keep_rules tty_ok_upd; (assumption | simp add: tty_ok_def)?)

lemma cook_char_keeps [keep_rules]: "keeps ttys_ok (w t) \<Longrightarrow> keeps ttys_ok (cook_char w t c)"
  unfolding cook_char_def tty_intr_def by (intro keeps_tt keep_rules tty_ok_upd; (assumption | simp add: Let_def)?)

lemma cook_loop_keeps [keep_rules]: "keeps ttys_ok (w t) \<Longrightarrow> keeps ttys_ok (cook_loop n w t)"
proof (induction n)
  case (Suc n)
  then show ?case unfolding cook_loop.simps Let_def
    by (intro keeps_tt keep_rules keeps_GETCH tty_ok_upd; (assumption | simp add: tty_ok_def)?)
qed (simp add: keeps_stop)

lemma cook_keeps [keep_rules]: "keeps ttys_ok (w t) \<Longrightarrow> keeps ttys_ok (cook w t)"
  unfolding cook_def by (intro keep_rules keeps_tt tty_ok_upd; assumption)

lemma con_write_keeps [keep_rules]:
  assumes "keeps ttys_ok (cc t)"
  shows "keeps ttys_ok (con_write inb cc t)"
proof -
  have "keeps ttys_ok (con_write_loop n inb cc t)" for n
  proof (induction n)
    case (Suc n)
    then show ?case unfolding con_write_loop.simps Let_def respond_def using assms
      by (intro keeps_tt keep_rules keeps_GETCH tty_ok_upd; (assumption | simp add: tty_ok_def)?)
  qed (simp add: keeps_return)
  then show ?thesis unfolding con_write_def by (intro keeps_tt keep_rules)
qed

lemma keeps_driver: "keeps P m \<Longrightarrow> keeps P k \<Longrightarrow> keeps P (case d of CON_WRITE \<Rightarrow> m | RS_WRITE \<Rightarrow> k)"
  by (cases d) simp_all

lemma rs_write_keeps: "keeps ttys_ok (rs_write inb t)"
  unfolding rs_write_def Let_def by (intro keeps_tt keep_rules) (simp add: outb_def)

lemma tty_out_keeps [keep_rules]: "keeps ttys_ok (tty_out n inb t)"
proof (induction n)
  case (Suc n)
  then show ?case unfolding tty_out.simps by (intro keeps_tt keeps_driver con_write_keeps cook_keeps rs_write_keeps)
qed (simp add: keeps_stop)

lemma copy_to_cooked_keeps: "keeps ttys_ok (copy_to_cooked inb t)"
  unfolding copy_to_cooked_def by (intro keep_rules)

lemma keeps_prod [keep_rules]: "(\<And>a b. keeps P (f a b)) \<Longrightarrow> keeps P (case z of (a, b) \<Rightarrow> f a b)"
  by (cases z) simp

lemma sleep_keeps [keep_rules]: "keeps ttys_ok (sleep_if_empty q t)" "keeps ttys_ok (sleep_if_full q t)"
  unfolding sleep_if_empty_def sleep_if_full_def by (intro keeps_tt keep_rules)+

lemma read_chars_keeps [keep_rules]: "keeps ttys_ok (read_chars n t ub k nr)"
proof (induction n arbitrary: k nr)
  case (Suc n)
  then show ?case unfolding read_chars.simps Let_def
    by (intro keeps_tt keep_rules keeps_GETCH tty_ok_upd; (assumption | simp add: tty_ok_def)?)
qed (simp add: keeps_stop)

lemma tty_read_loop_keeps [keep_rules]: "keeps ttys_ok (tty_read_loop n t ub a tm mn flag k nr)"
proof (induction n arbitrary: flag k nr)
  case (Suc n)
  then show ?case unfolding tty_read_loop.simps Let_def tty_read_end_def
    by (intro keeps_tt keep_rules) (simp_all add: upd_cur_def)
qed (simp add: keeps_stop)

lemma tty_read_keeps: "keeps ttys_ok (tty_read t ub nr)"
  unfolding tty_read_def Let_def by (intro keeps_tt keep_rules)

lemma write_chars_keeps [keep_rules]: "keeps ttys_ok (write_chars n t ub k nr)"
proof (induction n arbitrary: k nr)
  case (Suc n)
  then show ?case unfolding write_chars.simps Let_def by (intro keeps_tt keep_rules) simp_all
qed (simp add: keeps_stop)

lemma tty_write_keeps: "keeps ttys_ok (tty_write inb t ub nr)"
proof -
  have "keeps ttys_ok (tty_write_loop n inb t ub k nr)" for n k nr
  proof (induction n arbitrary: k nr)
    case (Suc n)
    then show ?case unfolding tty_write_loop.simps by (intro keep_rules)
  qed (simp add: keeps_stop)
  then show ?thesis unfolding tty_write_def by (intro keep_rules)
qed


lemma keeps_bytes:
  "(\<And>d. length d = n \<Longrightarrow> keeps P (f d)) \<Longrightarrow> keeps P (kbind (get_fs_bytes n a) f)"
  by (simp add: keeps_def final_def kbind_def get_fs_bytes_def kget_def)

lemma change_speed_keeps [keep_rules]: "keeps ttys_ok (change_speed t)"
proof -
  have "tty_table (fold (\<lambda>(v, p). outb v p) l s) = tty_table s" for l and s :: "'a ttyk_scheme"
    by (induction l arbitrary: s) (auto simp: outb_def)
  then show ?thesis unfolding change_speed_def Let_def by (intro keeps_tt keep_rules)
qed

lemma termios_keeps [keep_rules]:
  "keeps ttys_ok (get_termios t a)" "keeps ttys_ok (get_termio pad t a)" "keeps ttys_ok (set_termios t a)" "keeps ttys_ok (set_termio t a)"
  unfolding get_termios_def get_termio_def set_termios_def set_termio_def Let_def
  by (intro keeps_tt keep_rules keeps_bytes; simp add: tty_ok_def bytes_termios_def bytes_termio_def)+

lemma flush_keeps [keep_rules]: "keeps ttys_ok (flush_read t)" "keeps ttys_ok (flush_write t)"
  unfolding flush_read_def flush_write_def by (intro keep_rules tty_ok_upd; assumption)+

lemma tty_ioctl_keeps: "keeps ttys_ok (tty_ioctl pad dev cmd arg)"
  unfolding tty_ioctl_def get_fs_long_def by (intro keeps_tt keep_rules) simp

text \<open>
  What can happen to the terminals: a character arrives, an interrupt, the calls of the driver (to whatever end), and anything
  that leaves the table of terminals alone. \<open>t\<close>, \<open>channel\<close> and the other arguments are arbitrary.
\<close>

inductive tty_step :: "(u16 \<Rightarrow> u8) \<Rightarrow> 'a ttyk_scheme \<Rightarrow> 'a ttyk_scheme \<Rightarrow> bool" for inb where
  tty_arrive: "tty_step inb s (final (upd_tt t (\<lambda>x. x\<lparr>read_q := PUTCH c (read_q x)\<rparr>)) s)"
| tty_interrupt: "tty_step inb s (final (do_tty_interrupt inb t) s)"
| tty_reads: "tty_step inb s (final (tty_read channel ub nr) s)"
| tty_writes: "tty_step inb s (final (tty_write inb channel ub nr) s)"
| tty_controls: "tty_step inb s (final (tty_ioctl pad dev cmd arg) s)"
| tty_other: "tty_table s' = tty_table s \<Longrightarrow> tty_step inb s s'"

inductive_cases tty_stepE: "tty_step inb s s'"

lemma keepsD: "keeps P m \<Longrightarrow> P s \<Longrightarrow> P (final m s)"
  by (simp add: keeps_def)

lemma arrive_keeps: "keeps ttys_ok (upd_tt t (\<lambda>x. x\<lparr>read_q := PUTCH c (read_q x)\<rparr>))"
  by (intro keep_rules) simp

lemma tty_step_ok: "tty_step inb s s' \<Longrightarrow> ttys_ok s \<Longrightarrow> ttys_ok s'"
  by (elim tty_stepE) (simp_all add: keepsD arrive_keeps copy_to_cooked_keeps tty_read_keeps tty_write_keeps tty_ioctl_keeps do_tty_interrupt_def,
    simp add: ttys_ok_def)



section \<open>Setting what was read\<close>

lemma length_long_bytes [simp]: "length (long_bytes v) = 4"
  by (simp add: long_bytes_def)

lemma length_short_bytes [simp]: "length (short_bytes v) = 2"
  by (simp add: short_bytes_def)

lemma long_bytes_eq: "long_bytes v = [ucast v, ucast (drop_bit 8 v), ucast (drop_bit 16 v), ucast (drop_bit 24 v)]"
  by (simp add: long_bytes_def upt_rec)

lemma rd16_skip: "rd16 (xs @ ys) (length xs + n) = rd16 ys n"
  by (simp add: rd16_def nth_append)

lemma rd32_skip: "rd32 (xs @ ys) (length xs + n) = rd32 ys n"
  using rd16_skip [of xs ys "n + 2"] by (simp add: rd32_def rd16_skip add.assoc)

lemma rd16_short: "rd16 (short_bytes v @ ys) 0 = v"
  by (rule bit_word_eqI) (auto simp: rd16_def short_bytes_def bit_simps)

lemma rd32_long: "rd32 (long_bytes v @ ys) 0 = v"
  by (rule word32_by_bits) (simp add: rd32_def rd16_def long_bytes_eq bit_simps upt_rec, simp add: eval_nat_numeral)

lemma bytes_termios_bytes:
  assumes "length (c_cc m) = NCCS" and "length (c_pad m) = 2"
  shows "bytes_termios (termios_bytes m) = m" and "length (termios_bytes m) = 36"
proof -
  let ?e = "[c_line m] @ c_cc m @ c_pad m"
  have r: "rd32 (termios_bytes m) 0 = c_iflag m" "rd32 (termios_bytes m) 4 = c_oflag m" "rd32 (termios_bytes m) 8 = c_cflag m"
    "rd32 (termios_bytes m) 12 = c_lflag m"
    using rd32_skip [of "long_bytes (c_iflag m)" _ 0] rd32_skip [of "long_bytes (c_iflag m) @ long_bytes (c_oflag m)" _ 0]
      rd32_skip [of "long_bytes (c_iflag m) @ long_bytes (c_oflag m) @ long_bytes (c_cflag m)" _ 0]
    by (simp_all add: termios_bytes_def rd32_long)
  show "bytes_termios (termios_bytes m) = m"
    using assms by (simp add: bytes_termios_def r, simp add: termios_bytes_def nth_append)
  show "length (termios_bytes m) = 36" using assms by (simp add: termios_bytes_def)
qed

lemma set_low_same: "set_low (ucast w) w = w"
  by (rule word32_by_bits) (simp add: set_low_def bit_simps upt_rec)

lemma bytes_termio_bytes:
  assumes "length (a_cc m) = NCC"
  shows "bytes_termio (termio_bytes m pad) = m" and "length (termio_bytes m pad) = 18"
proof -
  have r: "rd16 (termio_bytes m pad) 0 = a_iflag m" "rd16 (termio_bytes m pad) 2 = a_oflag m" "rd16 (termio_bytes m pad) 4 = a_cflag m"
    "rd16 (termio_bytes m pad) 6 = a_lflag m"
    using rd16_skip [of "short_bytes (a_iflag m)" _ 0] rd16_skip [of "short_bytes (a_iflag m) @ short_bytes (a_oflag m)" _ 0]
      rd16_skip [of "short_bytes (a_iflag m) @ short_bytes (a_oflag m) @ short_bytes (a_cflag m)" _ 0]
    by (simp_all add: termio_bytes_def rd16_short)
  show "bytes_termio (termio_bytes m pad) = m"
    using assms by (simp add: bytes_termio_def r, simp add: termio_bytes_def short_bytes_def)
  show "length (termio_bytes m pad) = 18" using assms by (simp add: termio_bytes_def short_bytes_def)
qed

lemma get_fs_bytes_run: "get_fs_bytes n a s = Ret (rbytes (user s) a n) s"
  by (simp add: get_fs_bytes_def rbytes_def km_simps)

lemma change_speed_run: "t < length (tty_table s) \<Longrightarrow> \<exists>s'. change_speed t s = Ret () s' \<and> tty_table s' = tty_table s \<and> user s' = user s"
proof -
  assume t: "t < length (tty_table s)"
  then show ?thesis by (simp add: change_speed_def tt_def km_simps Let_def outb_def)
qed

text \<open>
  C34: the parameters of a terminal survive the way to a program and back. After \<open>TCGETS\<close> on one terminal, \<open>TCSETS\<close> of the
  same buffer on any terminal gives it all parameters of the first one, and after \<open>TCGETA\<close>, \<open>TCSETA\<close> leaves
  the terminal as it was, although it carries only half of the flags and of the control characters; nothing else of the terminals
  changes. (\<open>s\<close> is the state when \<open>verify_area\<close> has returned.)
\<close>

theorem termios_roundtrip:
  assumes "t < length (tty_table s)" and "u < length (tty_table s)" and "verify_area a 36 s0 = Ret () s" and "verify_area a 18 s0 = Ret () s"
    and "length (c_cc (termios (tty_table s ! t))) = NCCS" and "length (c_pad (termios (tty_table s ! t))) = 2"
  shows "(\<exists>s1 s2. get_termios t a s0 = Ret 0 s1 \<and> set_termios u a s1 = Ret 0 s2 \<and>
      tty_table s2 = (tty_table s)[u := (tty_table s ! u)\<lparr>termios := termios (tty_table s ! t)\<rparr>]) \<and>
    (\<exists>s1 s2. get_termio pad t a s0 = Ret 0 s1 \<and> set_termio t a s1 = Ret 0 s2 \<and> tty_table s2 = tty_table s)"
proof -
  let ?m = "termios (tty_table s ! t)"
  note b = bytes_termios_bytes [OF assms(5,6)]
  define s1 where "s1 = s\<lparr>user := wbytes a (termios_bytes ?m) (user s)\<rparr>"
  have g: "get_termios t a s0 = Ret 0 s1" using assms(1,3) b(2) by (simp add: get_termios_def km_simps tt_def put_fs_bytes_run s1_def)
  have "rbytes (user s1) a 36 = termios_bytes ?m" using read_wbytes [of "termios_bytes ?m" a "user s"] b(2) by (simp add: s1_def)
  moreover have "u < length (tty_table s1)" using assms(2) by (simp add: s1_def)
  ultimately have "\<exists>s2. set_termios u a s1 = Ret 0 s2 \<and> tty_table s2 = (tty_table s)[u := (tty_table s ! u)\<lparr>termios := ?m\<rparr>]"
    using change_speed_run [of u "s1\<lparr>tty_table := (tty_table s)[u := (tty_table s ! u)\<lparr>termios := ?m\<rparr>]\<rparr>"] b(1)
    by (auto simp: set_termios_def km_simps get_fs_bytes_run upd_tt_def s1_def)
  then have 1: "\<exists>s1 s2. get_termios t a s0 = Ret 0 s1 \<and> set_termios u a s1 = Ret 0 s2 \<and>
      tty_table s2 = (tty_table s)[u := (tty_table s ! u)\<lparr>termios := termios (tty_table s ! t)\<rparr>]" using g by blast
  define m where "m = \<lparr>a_iflag = ucast (c_iflag ?m), a_oflag = ucast (c_oflag ?m), a_cflag = ucast (c_cflag ?m),
             a_lflag = ucast (c_lflag ?m), a_line = c_line ?m, a_cc = take NCC (c_cc ?m)\<rparr>"
  have "length (a_cc m) = NCC" using assms(5) by (simp add: m_def)
  note c = bytes_termio_bytes [OF this, of pad]
  define s3 where "s3 = s\<lparr>user := wbytes a (termio_bytes m pad) (user s)\<rparr>"
  have g3: "get_termio pad t a s0 = Ret 0 s3" using assms(1,4) c(2) by (simp add: get_termio_def km_simps tt_def Let_def put_fs_bytes_run s3_def m_def)
  have r3: "rbytes (user s3) a 18 = termio_bytes m pad" using read_wbytes [of "termio_bytes m pad" a "user s"] c(2) by (simp add: s3_def)
  have same: "?m\<lparr>c_iflag := set_low (a_iflag m) (c_iflag ?m), c_oflag := set_low (a_oflag m) (c_oflag ?m),
      c_cflag := set_low (a_cflag m) (c_cflag ?m), c_lflag := set_low (a_lflag m) (c_lflag ?m), c_line := a_line m, c_cc := a_cc m @ drop NCC (c_cc ?m)\<rparr> = ?m"
    by (cases ?m) (simp add: m_def set_low_same)
  have "upd_tt t (\<lambda>x. let y = termios x in x\<lparr>termios := y\<lparr>c_iflag := set_low (a_iflag m) (c_iflag y), c_oflag := set_low (a_oflag m) (c_oflag y),
      c_cflag := set_low (a_cflag m) (c_cflag y), c_lflag := set_low (a_lflag m) (c_lflag y), c_line := a_line m, c_cc := a_cc m @ drop NCC (c_cc y)\<rparr>\<rparr>) s3 = Ret () s3"
    using assms(1) same by (simp add: upd_tt_def Let_def s3_def)
  then have "\<exists>s4. set_termio t a s3 = Ret 0 s4 \<and> tty_table s4 = tty_table s"
    using change_speed_run [of t s3] assms(1) c(1) r3
    by (auto simp: set_termio_def km_simps get_fs_bytes_run s3_def [symmetric] ) (auto simp: s3_def km_simps)
  then show ?thesis using 1 g3 by blast
qed


lemma verify_area_absent:
  "phys s = (\<lambda>_. 0) \<Longrightarrow> verify_area a n s = Ret () s"
proof -
  assume p: "phys s = (\<lambda>_. 0)"
  then have "write_verify a s = Ret () s" for a by (simp add: write_verify_def peek_def km_simps)
  then have "verify_loop n a s = Ret () s" for n a by (induction n arbitrary: a) (simp_all add: km_simps)
  then show ?thesis by (simp add: verify_area_def ldt_desc_def km_simps Let_def)
qed

theorem termios_roundtrip_witness:
  "\<exists>s1 s2. get_termios 0 0x1000 (ex_tty\<lparr>phys := (\<lambda>_. 0), tty_table := init_tty_table\<rparr>) = Ret 0 s1 \<and> set_termios 1 0x1000 s1 = Ret 0 s2 \<and>
     c_lflag (termios (tty_table s2 ! 1)) = (ISIG OR ICANON OR ECHO OR ECHOCTL OR ECHOKE)"
proof -
  let ?s = "ex_tty\<lparr>phys := (\<lambda>_. 0), tty_table := init_tty_table\<rparr>"
  have "phys ?s = (\<lambda>_. 0)" by simp
  note v = verify_area_absent [OF this]
  have i: "0 < length (tty_table ?s)" "1 < length (tty_table ?s)" "length (c_cc (termios (tty_table ?s ! 0))) = NCCS" "length (c_pad (termios (tty_table ?s ! 0))) = 2"
    by (simp_all add: init_tty_table_def INIT_C_CC_def)
  obtain s1 s2 where "get_termios 0 0x1000 ?s = Ret 0 s1" "set_termios 1 0x1000 s1 = Ret 0 s2"
      "tty_table s2 = (tty_table ?s)[1 := (tty_table ?s ! 1)\<lparr>termios := termios (tty_table ?s ! 0)\<rparr>]"
    using termios_roundtrip [OF i(1,2) v v i(3,4)] by blast
  then show ?thesis by (simp add: init_tty_table_def)
qed

end
