(* ===== verification/Exec.thy ===== *)
theory Exec
  imports Pipe
begin

text \<open>
  Program loading: \<open>fs/exec.c\<close>, with \<open>set_limit\<close> of \<open>include/linux/sched.h\<close> and the header of \<open>include/a.out.h\<close>.
  Arguments and environment of the new program are collected, last string first, in pages of kernel memory, which
  later become the top of the new data segment. Loops over user memory end at the latest where the
  segment of 64 MB ends (\<open>Fault\<close>).
\<close>

section \<open>Headers and segment limits\<close>

abbreviation (input) MAX_ARG_PAGES :: nat where "MAX_ARG_PAGES \<equiv> 32"
abbreviation (input) ENOEXEC :: int where "ENOEXEC \<equiv> 8"
abbreviation (input) S_ISUID :: u16 where "S_ISUID \<equiv> 0x800"
abbreviation (input) S_ISGID :: u16 where "S_ISGID \<equiv> 0x400"
abbreviation (input) ZMAGIC :: u32 where "ZMAGIC \<equiv> 0x10b"
abbreviation (input) USER_LIMIT :: nat where "USER_LIMIT \<equiv> 0x4000000"

record exec =
  a_magic :: u32
  a_text :: u32
  a_data :: u32
  a_bss :: u32
  a_syms :: u32
  a_entry :: u32
  a_trsize :: u32
  a_drsize :: u32

definition get_exec :: "u8 list \<Rightarrow> exec" where
  "get_exec d = \<lparr>a_magic = rd32 d 0, a_text = rd32 d 4, a_data = rd32 d 8, a_bss = rd32 d 12, a_syms = rd32 d 16,
     a_entry = rd32 d 20, a_trsize = rd32 d 24, a_drsize = rd32 d 28\<rparr>"

text \<open>\<open>SEGMENT_SIZE\<close> is 1024.\<close>

definition N_TXTOFF :: "exec \<Rightarrow> u32" where
  "N_TXTOFF x = (if a_magic x = ZMAGIC then (1024 - 32) + 32 else 32)"

definition set_limit :: "u32 \<Rightarrow> u32 \<times> u32 \<Rightarrow> u32 \<times> u32" where
  "set_limit limit d =
     (let l = drop_bit 12 (limit - 1)
      in ((fst d AND 0xffff0000) OR (l AND 0xffff),
          (snd d AND 0xff00ffff) OR (l AND 0xff0000) OR (snd d AND 0x00f00000)))"

section \<open>Strings in user memory\<close>

text \<open>\<open>while (get_fs_byte(p++))\<close>: the address after the zero byte.\<close>

fun skip_string :: "nat \<Rightarrow> u32 \<Rightarrow> ('a fsys_scheme, u32) km" where
  "skip_string 0 p = kstop (Fault ''fs'')"
| "skip_string (Suc n) p = kbind (get_fs_byte p) (\<lambda>c. if c \<noteq> 0 then skip_string n (p + 1) else kreturn (p + 1))"

fun table_loop :: "nat \<Rightarrow> u32 \<Rightarrow> u32 \<Rightarrow> ('a fsys_scheme, u32 \<times> u32) km" where
  "table_loop 0 p v = kreturn (p, v)"
| "table_loop (Suc n) p v =
     kseq (put_fs_long p v) (kbind (skip_string USER_LIMIT p) (\<lambda>p. table_loop n p (v + 4)))"

definition create_tables :: "u32 \<Rightarrow> int \<Rightarrow> int \<Rightarrow> ('a fsys_scheme, u32) km" where
  "create_tables p argc envc =
     (let envp = (0xfffffffc AND p) - 4 * (of_int envc + 1);
          argv = envp - 4 * (of_int argc + 1)
      in kseq (put_fs_long envp (argv - 4))
         (kseq (put_fs_long argv (argv - 8))
         (kseq (put_fs_long (of_int argc) (argv - 12))
         (kbind (table_loop (nat argc) p argv) (\<lambda>(p, v).
          kseq (put_fs_long 0 v)
          (kbind (table_loop (nat envc) p envp) (\<lambda>(p, v).
           kseq (put_fs_long 0 v) (kreturn (argv - 12)))))))))"

fun count_loop :: "nat \<Rightarrow> u32 \<Rightarrow> int \<Rightarrow> ('a fsys_scheme, int) km" where
  "count_loop 0 a i = kstop (Fault ''fs'')"
| "count_loop (Suc n) a i = kbind (get_fs_long a) (\<lambda>v. if v \<noteq> 0 then count_loop n (a + 4) (i + 1) else kreturn i)"

definition count :: "u32 \<Rightarrow> ('a fsys_scheme, int) km" where
  "count argv = (if argv \<noteq> 0 then count_loop (USER_LIMIT div 4) argv 0 else kreturn 0)"

section \<open>Collecting the arguments\<close>

text \<open>
  \<open>from_kmem\<close> tells from where the pointers and the strings are read. The model passes the two readers: \<open>getp i\<close>
  reads \<open>argv[i]\<close>, \<open>getc\<close> a byte of a string; reading does not change the state, so that the order of \<open>set_fs\<close>
  does not matter. \<open>p\<close> is unsigned, so that the test \<open>p-len < 0\<close> is never true. The first loop gives the
  length of the string with its zero.
\<close>

fun arg_len :: "nat \<Rightarrow> (u32 \<Rightarrow> ('a fsys_scheme, u8) km) \<Rightarrow> u32 \<Rightarrow> nat \<Rightarrow> ('a fsys_scheme, nat) km" where
  "arg_len 0 getc tmp len = kstop (Fault ''fs'')"
| "arg_len (Suc n) getc tmp len = kbind (getc tmp) (\<lambda>c. if c \<noteq> 0 then arg_len n getc (tmp + 1) (Suc len) else kreturn (Suc len))"

text \<open>
  The state of the copy: the array \<open>page\<close>, \<open>p\<close>, the page \<open>pag\<close> in use and the offset in it.
\<close>

record arg_copy =
  arg_page :: "u32 list"
  arg_p :: u32
  arg_pag :: u32
  arg_offset :: int

definition poke_byte :: "u32 \<Rightarrow> u8 \<Rightarrow> ('a mm_scheme, unit) km" where
  "poke_byte a v = kmod (\<lambda>s. s\<lparr>phys := poke8 a v (phys s)\<rparr>)"

text \<open>The page for the current \<open>p\<close>; the second component is false when there is none.\<close>

definition arg_get_page :: "arg_copy \<Rightarrow> ('a mm_scheme, arg_copy \<times> bool) km" where
  "arg_get_page c =
     (if arg_offset c \<ge> 0 then kreturn (c, True)
      else let i = unat (arg_p c div 4096); c = c\<lparr>arg_offset := int (unat (arg_p c mod 4096))\<rparr>
        in if i \<ge> length (arg_page c) then kstop (Fault ''page'')
           else if arg_page c ! i \<noteq> 0 then kreturn (c\<lparr>arg_pag := arg_page c ! i\<rparr>, True)
           else kbind get_free_page (\<lambda>g. kreturn (c\<lparr>arg_pag := g, arg_page := (arg_page c)[i := g]\<rparr>, g \<noteq> 0)))"

text \<open>The bytes of one string, the last one first; \<open>tmp\<close> is the address after the bytes that are left.\<close>

fun copy_string :: "nat \<Rightarrow> (u32 \<Rightarrow> ('a fsys_scheme, u8) km) \<Rightarrow> u32 \<Rightarrow> arg_copy \<Rightarrow> ('a fsys_scheme, arg_copy \<times> bool) km" where
  "copy_string 0 getc tmp c = kreturn (c, True)"
| "copy_string (Suc len) getc tmp c =
     kbind (arg_get_page (c\<lparr>arg_p := arg_p c - 1, arg_offset := arg_offset c - 1\<rparr>)) (\<lambda>(c, ok).
     if \<not> ok then kreturn (c, False)
     else kbind (getc (tmp - 1)) (\<lambda>v.
       kseq (poke_byte (arg_pag c + of_int (arg_offset c)) v) (copy_string len getc (tmp - 1) c)))"

fun copy_args :: "nat \<Rightarrow> (nat \<Rightarrow> ('a fsys_scheme, u32) km) \<Rightarrow> (u32 \<Rightarrow> ('a fsys_scheme, u8) km) \<Rightarrow> arg_copy \<Rightarrow> ('a fsys_scheme, arg_copy \<times> bool) km" where
  "copy_args 0 getp getc c = kreturn (c, True)"
| "copy_args (Suc n) getp getc c =
     kbind (getp n) (\<lambda>tmp.
     if tmp = 0 then kstop (Panic ''argc is wrong'')
     else kbind (arg_len USER_LIMIT getc tmp 0) (\<lambda>len.
       kbind (copy_string len getc (tmp + of_nat len) c) (\<lambda>(c, ok).
       if \<not> ok then kreturn (c, False) else copy_args n getp getc c)))"

text \<open>The new \<open>p\<close> (0 when there is no memory) and the array \<open>page\<close>.\<close>

definition copy_strings :: "int \<Rightarrow> (nat \<Rightarrow> ('a fsys_scheme, u32) km) \<Rightarrow> (u32 \<Rightarrow> ('a fsys_scheme, u8) km) \<Rightarrow> u32 list \<Rightarrow> u32 \<Rightarrow>
    ('a fsys_scheme, u32 \<times> u32 list) km" where
  "copy_strings argc getp getc page p =
     (if p = 0 then kreturn (0, page)
      else kbind (copy_args (nat argc) getp getc \<lparr>arg_page = page, arg_p = p, arg_pag = 0, arg_offset = 0\<rparr>) (\<lambda>(c, ok).
        kreturn (if ok then arg_p c else 0, arg_page c)))"

definition user_argv :: "u32 \<Rightarrow> nat \<Rightarrow> ('a fsys_scheme, u32) km" where
  "user_argv argv i = get_fs_long (argv + 4 * of_nat i)"

section \<open>The new address space\<close>

text \<open>
  The segments of the new program and its stack pages. From here on \<open>fs\<close> is the new data segment: its top are the
  argument pages, and \<open>demand\<close> is what page faults will bring at the other addresses.
\<close>

definition new_user :: "u32 list \<Rightarrow> (u32 \<Rightarrow> u32) \<Rightarrow> (u32 \<Rightarrow> u8) \<Rightarrow> u32 \<Rightarrow> u8" where
  "new_user page m demand a =
     (let i = unat (drop_bit 12 a) - (0x4000 - MAX_ARG_PAGES)
      in if 0x4000 - MAX_ARG_PAGES \<le> unat (drop_bit 12 a) \<and> i < MAX_ARG_PAGES \<and> page ! i \<noteq> 0 then peek8 m (page ! i + (a AND 0xfff)) else demand a)"

definition change_ldt :: "(u32 \<Rightarrow> u8) \<Rightarrow> u32 \<Rightarrow> u32 list \<Rightarrow> ('a fsys_scheme, u32) km" where
  "change_ldt demand text_size page =
     (let code_limit = (text_size + 4095) AND 0xFFFFF000; data_limit = 0x4000000
      in kbind (ldt_desc 1) (\<lambda>cd.
         let base = get_base cd
         in kseq (kmod (upd_cur (\<lambda>t. t\<lparr>ldt := (ldt t)[1 := set_limit code_limit (set_base base (ldt t ! 1)),
                    2 := set_limit data_limit (set_base base (ldt t ! 2))]\<rparr>)))
            (kseq (kfor (rev [0..<MAX_ARG_PAGES]) (\<lambda>i.
               kwhen (page ! i \<noteq> 0) (kbind (put_page (page ! i) (base + data_limit - 4096 * of_nat (MAX_ARG_PAGES - i))) (\<lambda>_. kreturn ()))))
            (kseq (kmod (\<lambda>s. s\<lparr>user := new_user page (phys s) demand\<rparr>)) (kreturn data_limit)))))"

section \<open>Interpreters\<close>

text \<open>
  The text after \<open>#!\<close>: \<open>strncpy\<close> of 1022 bytes and a zero. The result is the buffer as the parser leaves it (with the
  zeros it puts into it) and the positions of the name of the interpreter, of its last component and of the argument.
\<close>

definition bang_buf :: "u8 list \<Rightarrow> u8 list" where
  "bang_buf d = (let b = takeWhile (\<lambda>c. c \<noteq> 0) (take 1022 (drop 2 d)) in b @ replicate (1023 - length b) 0)"

definition skip_while :: "(u8 \<Rightarrow> bool) \<Rightarrow> u8 list \<Rightarrow> nat \<Rightarrow> nat" where
  "skip_while P b i = i + length (takeWhile P (drop i b))"

definition blank :: "u8 \<Rightarrow> bool" where
  "blank c \<longleftrightarrow> c = 0x20 \<or> c = 0x09"

definition last_slash :: "u8 list \<Rightarrow> nat \<Rightarrow> nat \<Rightarrow> nat" where
  "last_slash b i j = fold (\<lambda>k r. if b ! k = 0x2F then Suc k else r) [i..<j] i"

definition parse_bang :: "u8 list \<Rightarrow> (u8 list \<times> nat \<times> nat \<times> nat option) option" where
  "parse_bang b0 =
     (let nl = skip_while (\<lambda>c. c \<noteq> 10 \<and> c \<noteq> 0) b0 0
      in if b0 ! nl \<noteq> 10 then None
         else let b = b0[nl := 0]; cp = skip_while blank b 0
           in if b ! cp = 0 then None
              else let e = skip_while (\<lambda>c. c \<noteq> 0 \<and> \<not> blank c) b cp; i_name = last_slash b cp e
                in if b ! e \<noteq> 0 then Some (b[e := 0], cp, i_name, Some (Suc e)) else Some (b, cp, i_name, None))"

text \<open>\<open>set_fs(get_ds())\<close>: user accesses go to kernel memory, of which only the buffer \<open>b\<close> at \<open>kbuf\<close> is read.\<close>

definition kernel_bytes :: "u32 \<Rightarrow> u8 list \<Rightarrow> u32 \<Rightarrow> u8" where
  "kernel_bytes kbuf b a = (if unat (a - kbuf) < length b then b ! unat (a - kbuf) else 0)"

definition with_kernel_fs :: "(u32 \<Rightarrow> u8) \<Rightarrow> ('a fsys_scheme, 'r) km \<Rightarrow> ('a fsys_scheme, 'r) km" where
  "with_kernel_fs k m s =
     (case m (s\<lparr>user := k\<rparr>) of Ret x t \<Rightarrow> Ret x (t\<lparr>user := user s\<rparr>) | Stop h t \<Rightarrow> Stop h t)"

section \<open>execve\<close>

text \<open>What \<open>do_execve\<close> has computed when it decides to go on or to fail.\<close>

record exec_state =
  x_inode :: nat
  x_page :: "u32 list"
  x_p :: u32
  x_argc :: int
  x_envc :: int
  x_bang :: bool

datatype exec_result = Exec_error int | Exec_go exec u16 u16

definition exec_error1 :: "u32 list \<Rightarrow> ('a mm_scheme, unit) km" where
  "exec_error1 page = kfor [0..<MAX_ARG_PAGES] (\<lambda>i. free_page (page ! i))"

definition exec_error2 :: "nat \<Rightarrow> u32 list \<Rightarrow> ('a fsys_scheme, unit) km" where
  "exec_error2 i page = kseq (iput (Some i)) (exec_error1 page)"

text \<open>May the current process execute the file, and as which user and group?\<close>

definition exec_permission :: "m_inode \<Rightarrow> task_struct \<Rightarrow> bool" where
  "exec_permission x me =
     (let i = i_mode x;
          i = (if euid me = i_uid x then drop_bit 6 i else if egid me = ucast (i_gid x) then drop_bit 3 i else i)
      in i AND 1 \<noteq> 0 \<or> (i_mode x AND 0x49 \<noteq> 0 \<and> euid me = 0))"

definition exec_ids :: "m_inode \<Rightarrow> task_struct \<Rightarrow> u16 \<times> u16" where
  "exec_ids x me =
     (if i_mode x AND S_ISUID \<noteq> 0 then i_uid x else euid me, if i_mode x AND S_ISGID \<noteq> 0 then ucast (i_gid x) else egid me)"

definition bad_header :: "exec \<Rightarrow> u32 \<Rightarrow> bool" where
  "bad_header ex size0 \<longleftrightarrow> a_magic ex \<noteq> ZMAGIC \<or> a_trsize ex \<noteq> 0 \<or> a_drsize ex \<noteq> 0 \<or>
     a_text ex + a_data ex + a_bss ex > 0x3000000 \<or> size0 < a_text ex + a_data ex + a_syms ex + N_TXTOFF ex"

text \<open>
  The \<open>#!\<close> section: the strings are spliced in and the inode of the interpreter is looked up. \<open>Inl\<close> is the
  error with the array \<open>page\<close>. \<open>kbuf\<close> is the address of the local array \<open>buf\<close>.
\<close>

definition splice_args :: "u32 \<Rightarrow> u32 \<Rightarrow> u32 \<Rightarrow> u32 \<Rightarrow> u8 list \<times> nat \<times> nat \<times> nat option \<Rightarrow> exec_state \<Rightarrow> ('a fsys_scheme, (int \<times> u32 list) + exec_state) km" where
  "splice_args kbuf filename argv envp = (\<lambda>(b, interp, i_name, i_arg) x.
     let kc = (\<lambda>a. kreturn (kernel_bytes kbuf b a))
     in kbind (copy_strings (x_envc x) (user_argv envp) get_fs_byte (x_page x) (x_p x)) (\<lambda>(p, page).
        kbind (copy_strings (x_argc x - 1) (user_argv (argv + 4)) get_fs_byte page p) (\<lambda>(p, page).
        kbind (copy_strings 1 (\<lambda>_. kreturn filename) get_fs_byte page p) (\<lambda>(p, page).
        kbind (case i_arg of None \<Rightarrow> kreturn (p, page) | Some j \<Rightarrow> copy_strings 1 (\<lambda>_. kreturn (kbuf + of_nat j)) kc page p) (\<lambda>(p, page).
        kbind (copy_strings 1 (\<lambda>_. kreturn (kbuf + of_nat i_name)) kc page p) (\<lambda>(p, page).
        if p = 0 then kreturn (Inl (- ENOMEM, page))
        else kbind (with_kernel_fs (kernel_bytes kbuf b) (namei (kbuf + of_nat interp))) (\<lambda>q.
          case q of None \<Rightarrow> kreturn (Inl (- ENOENT, page))
          | Some i \<Rightarrow> kreturn (Inr \<lparr>x_inode = i, x_page = page, x_p = p,
              x_argc = x_argc x - 1 + 1 + (if i_arg = None then 0 else 1) + 1, x_envc = x_envc x, x_bang = True\<rparr>))))))))"

text \<open>The part from \<open>restart_interp\<close> to the point of no return; it restarts at most once (\<open>sh_bang\<close>).\<close>

fun exec_load :: "nat \<Rightarrow> u32 \<Rightarrow> u32 \<Rightarrow> u32 \<Rightarrow> u32 \<Rightarrow> exec_state \<Rightarrow> ('a fsys_scheme, exec_state \<times> exec_result) km" where
  "exec_load 0 kbuf filename argv envp x = kstop Diverges"
| "exec_load (Suc n) kbuf filename argv envp x =
     kbind (ino (x_inode x)) (\<lambda>y. kbind (kget cur) (\<lambda>me.
     let fail = (\<lambda>e. kseq (exec_error2 (x_inode x) (x_page x)) (kreturn (x, Exec_error e)))
     in if \<not> S_ISREG (i_mode y) then fail (- EACCES)
        else if \<not> exec_permission y me then fail (- ENOEXEC)
        else kbind (bread (i_dev y) (ucast (i_zone y ! 0))) (\<lambda>q.
          case q of None \<Rightarrow> fail (- EACCES)
          | Some bh \<Rightarrow> kbind (buf bh) (\<lambda>b.
            if b_data b ! 0 = 0x23 \<and> b_data b ! 1 = 0x21 \<and> \<not> x_bang x
            then kseq (brelse (Some bh)) (kseq (iput (Some (x_inode x)))
              (case parse_bang (bang_buf (b_data b)) of
                 None \<Rightarrow> kseq (exec_error1 (x_page x)) (kreturn (x, Exec_error (- ENOEXEC)))
               | Some pb \<Rightarrow> kbind (splice_args kbuf filename argv envp pb x) (\<lambda>r.
                   case r of Inl (e, page) \<Rightarrow> kseq (exec_error1 page) (kreturn (x, Exec_error e))
                   | Inr x' \<Rightarrow> exec_load n kbuf filename argv envp x')))
            else kseq (brelse (Some bh))
              (let ex = get_exec (b_data b)
               in if bad_header ex (i_size y) \<or> N_TXTOFF ex \<noteq> 1024 then fail (- ENOEXEC)
                  else if x_bang x then kreturn (x, Exec_go ex (fst (exec_ids y me)) (snd (exec_ids y me)))
                  else kbind (copy_strings (x_envc x) (user_argv envp) get_fs_byte (x_page x) (x_p x)) (\<lambda>(p, page).
                    kbind (copy_strings (x_argc x) (user_argv argv) get_fs_byte page p) (\<lambda>(p, page).
                    if p = 0 then kseq (exec_error2 (x_inode x) page) (kreturn (x, Exec_error (- ENOMEM)))
                    else kreturn (x\<lparr>x_page := page, x_p := p\<rparr>, Exec_go ex (fst (exec_ids y me)) (snd (exec_ids y me))))))))))"

fun zero_rest :: "nat \<Rightarrow> u32 \<Rightarrow> ('a fsys_scheme, unit) km" where
  "zero_rest 0 i = kreturn ()"
| "zero_rest (Suc n) i = (if i AND 0xfff \<noteq> 0 then kseq (put_fs_byte 0 i) (zero_rest n (i + 1)) else kreturn ())"

text \<open>From the point of no return on; the result is the new stack pointer.\<close>

definition exec_commit :: "(u32 \<Rightarrow> u8) \<Rightarrow> exec_state \<Rightarrow> exec \<Rightarrow> u16 \<Rightarrow> u16 \<Rightarrow> ('a fsys_scheme, u32) km" where
  "exec_commit demand x ex e_uid e_gid =
     kbind (kget (\<lambda>s. executable (cur s))) (\<lambda>old.
     kseq (kwhen (old \<noteq> None) (iput old))
     (kseq (kmod (upd_cur (\<lambda>t. t\<lparr>executable := Some (x_inode x), sigactions := map (\<lambda>a. a\<lparr>sa_handler := 0\<rparr>) (sigactions t)\<rparr>)))
     (kseq (kfor [0..<NR_OPEN] (\<lambda>i. kbind (kget (\<lambda>s. close_on_exec (cur s))) (\<lambda>m.
        kwhen (bit m i) (kbind (sys_close i) (\<lambda>_. kreturn ())))))
     (kseq (kmod (upd_cur (\<lambda>t. t\<lparr>close_on_exec := 0\<rparr>)))
     (kbind (ldt_desc 1) (\<lambda>cd. kbind (ldt_desc 2) (\<lambda>dd.
      kbind (free_page_tables (get_base cd) (get_limit cd)) (\<lambda>_.
      kbind (free_page_tables (get_base dd) (get_limit dd)) (\<lambda>_.
      kseq (kmod (\<lambda>s. if last_task_used_math s = Some (current s) then s\<lparr>last_task_used_math := None\<rparr> else s))
      (kseq (kmod (upd_cur (\<lambda>t. t\<lparr>used_math := 0\<rparr>)))
      (kbind (change_ldt demand (a_text ex) (x_page x)) (\<lambda>lim.
       kbind (create_tables (x_p x + lim - of_nat (MAX_ARG_PAGES * 4096)) (x_argc x) (x_envc x)) (\<lambda>p.
       kseq (kmod (upd_cur (\<lambda>t. t\<lparr>end_code := a_text ex, end_data := a_data ex + a_text ex, brk := a_bss ex + (a_data ex + a_text ex),
          start_stack := p AND 0xfffff000, euid := e_uid, egid := e_gid\<rparr>)))
       (kseq (zero_rest 4096 (a_text ex + a_data ex)) (kreturn p)))))))))))))))"

text \<open>\<open>eip\<close> points to the return address, the code segment, the flags and the stack pointer of the caller; the result gives the new ones.\<close>

definition do_execve :: "(u32 \<Rightarrow> u8) \<Rightarrow> u32 \<Rightarrow> u32 \<times> u32 \<times> u32 \<Rightarrow> u32 \<Rightarrow> u32 \<Rightarrow> u32 \<Rightarrow> ('a fsys_scheme, int \<times> u32 \<times> u32) km" where
  "do_execve demand kbuf = (\<lambda>(eip0, cs, esp0) filename argv envp.
     if 0xffff AND cs \<noteq> 0x000f then kstop (Panic ''execve called from supervisor mode'')
     else kbind (namei filename) (\<lambda>q.
       case q of None \<Rightarrow> kreturn (- ENOENT, eip0, esp0)
       | Some i \<Rightarrow> kbind (count argv) (\<lambda>argc. kbind (count envp) (\<lambda>envc.
           kbind (exec_load 2 kbuf filename argv envp \<lparr>x_inode = i, x_page = replicate MAX_ARG_PAGES 0,
             x_p = of_nat (4096 * MAX_ARG_PAGES - 4), x_argc = argc, x_envc = envc, x_bang = False\<rparr>) (\<lambda>(x, r).
           case r of Exec_error e \<Rightarrow> kreturn (e, eip0, esp0)
           | Exec_go ex u g \<Rightarrow> kbind (exec_commit demand x ex u g) (\<lambda>p. kreturn (0, a_entry ex, p)))))))"

section \<open>The argument pages\<close>

text \<open>The array \<open>page\<close> names distinct page frames in use.\<close>

definition pages_ok :: "u32 list \<Rightarrow> 'a mm_scheme \<Rightarrow> bool" where
  "pages_ok page s \<longleftrightarrow> length (mem_map s) = PAGING_PAGES \<and> length page = MAX_ARG_PAGES \<and>
     (\<forall>i < MAX_ARG_PAGES. page ! i \<noteq> 0 \<longrightarrow> (\<exists>j < PAGING_PAGES. page ! i = frame_addr j \<and> mem_map s ! j \<noteq> 0)) \<and>
     (\<forall>i < MAX_ARG_PAGES. \<forall>j < MAX_ARG_PAGES. page ! i \<noteq> 0 \<longrightarrow> page ! i = page ! j \<longrightarrow> i = j)"

text \<open>Byte \<open>k\<close> of the argument area, and the area from \<open>p\<close> on.\<close>

definition arg_addr :: "u32 list \<Rightarrow> nat \<Rightarrow> u32" where
  "arg_addr page k = page ! (k div 4096) + of_nat (k mod 4096)"

definition arg_area :: "u32 list \<Rightarrow> (u32 \<Rightarrow> u32) \<Rightarrow> nat \<Rightarrow> nat \<Rightarrow> u8 list" where
  "arg_area page m p hi = map (\<lambda>k. peek8 m (arg_addr page k)) [p..<hi]"

definition arg_filled :: "u32 list \<Rightarrow> nat \<Rightarrow> nat \<Rightarrow> bool" where
  "arg_filled page p hi \<longleftrightarrow> hi \<le> 4096 * MAX_ARG_PAGES \<and> (\<forall>k. p \<le> k \<longrightarrow> k < hi \<longrightarrow> page ! (k div 4096) \<noteq> 0)"

lemma page_of_long: "page_of (a AND NOT 3) = page_of a" for a :: u32
proof -
  have "page_of (a AND NOT 3) = (0xfffff000 AND NOT 3) AND a" by (simp only: ac_simps)
  then show ?thesis by simp
qed

lemma page_of_arg_addr:
  assumes "pages_ok page s" and "k < 4096 * MAX_ARG_PAGES" and "page ! (k div 4096) \<noteq> 0"
  shows "page_of (arg_addr page k AND NOT 3) = page ! (k div 4096)" "unat (arg_addr page k) = unat (page ! (k div 4096)) + k mod 4096"
    "unat (page ! (k div 4096)) mod 4096 = 0"
proof -
  have "k div 4096 < MAX_ARG_PAGES" using assms(2) by linarith
  then obtain j where j: "j < PAGING_PAGES" "page ! (k div 4096) = frame_addr j" using assms(1,3) by (auto simp: pages_ok_def)
  have u: "unat (arg_addr page k) = j * 4096 + 0x100000 + k mod 4096"
    unfolding arg_addr_def j(2) using j(1) unat_frame_addr [OF j(1)] mod_less_divisor [of 4096 k]
    by (simp add: unat_word_ariths unat32_of_nat)
  then show "unat (arg_addr page k) = unat (page ! (k div 4096)) + k mod 4096" using unat_frame_addr [OF j(1)] j(2) by simp
  have "j * 4096 + 0x100000 = (j + 256) * 4096" by simp
  then show "unat (page ! (k div 4096)) mod 4096 = 0" unfolding j(2) unat_frame_addr [OF j(1)] by (metis mod_mult_self2_is_0)
  have "page_of (arg_addr page k AND NOT 3) = page_of (arg_addr page k)" by (rule page_of_long)
  moreover have "(j * 4096 + 0x100000 + k mod 4096) div 4096 = j + 256" by simp
  ultimately show "page_of (arg_addr page k AND NOT 3) = page ! (k div 4096)"
    unfolding j(2) word_unat_eq_iff unat_frame_addr [OF j(1)] by (simp add: unat_page_of u)
qed

lemma arg_addr_inj:
  assumes "pages_ok page s" and "k < 4096 * MAX_ARG_PAGES" and "l < 4096 * MAX_ARG_PAGES" and "page ! (k div 4096) \<noteq> 0" and "page ! (l div 4096) \<noteq> 0"
  shows "arg_addr page k = arg_addr page l \<longleftrightarrow> k = l"
proof
  assume e: "arg_addr page k = arg_addr page l"
  then have "page ! (k div 4096) = page ! (l div 4096)" using page_of_arg_addr(1) [OF assms(1,2,4)] page_of_arg_addr(1) [OF assms(1,3,5)] by simp
  moreover from this have "k div 4096 = l div 4096" using assms by (auto simp: pages_ok_def)
  moreover have "k mod 4096 = l mod 4096" using page_of_arg_addr(2) [OF assms(1,2,4)] page_of_arg_addr(2) [OF assms(1,3,5)] e calculation by simp
  ultimately show "k = l" by (metis div_mult_mod_eq)
qed simp

lemma peek8_zero_page: "page_of (a AND NOT 3) \<noteq> p \<Longrightarrow> peek8 (zero_page p m) a = peek8 m a"
  by (simp add: peek8_def zero_page_def)

text \<open>A new page keeps the bytes in the others.\<close>

lemma arg_new_page:
  fixes s :: "'a fsys_scheme"
  assumes "pages_ok page s" and "i < MAX_ARG_PAGES" and "page ! i = 0" and "get_free_page s = Ret g t"
  shows "user t = user s \<and> (if g = 0 then t = s \<and> (\<forall>k < PAGING_PAGES. mem_map s ! k \<noteq> 0)
    else pages_ok (page[i := g]) t \<and> (arg_filled page p hi \<longrightarrow> arg_filled (page[i := g]) p hi \<and> arg_area (page[i := g]) (phys t) p hi = arg_area page (phys s) p hi))"
proof (cases "last_zero (mem_map s) PAGING_PAGES")
  case None
  then have "g = 0" "t = s" using assms(1,4) by (simp_all add: get_free_page_run pages_ok_def)
  then show ?thesis using last_zero_None [THEN iffD1, OF None] by simp
next
  case (Some j)
  have len: "length (mem_map s) = PAGING_PAGES" using assms(1) by (simp add: pages_ok_def)
  note j = last_zero_Some [OF Some]
  have t: "g = frame_addr j" "t = s\<lparr>mem_map := (mem_map s)[j := 1], phys := zero_page (frame_addr j) (phys s)\<rparr>"
    using assms(4) Some len by (auto simp: get_free_page_run)
  have nz: "g \<noteq> 0" using frame_addr_bounds [of j] j t(1) by auto
  have ne: "page ! k \<noteq> g" if "k < MAX_ARG_PAGES" for k
    using assms(1) that j frame_addr_inj [of _ j] nz unfolding pages_ok_def t(1) by metis
  have ok: "pages_ok (page[i := g]) t"
    using assms(1,2) j ne len unfolding pages_ok_def t
    by (auto simp: nth_list_update)
  have "arg_filled (page[i := g]) p hi \<and> arg_area (page[i := g]) (phys t) p hi = arg_area page (phys s) p hi" if f: "arg_filled page p hi"
  proof -
    have k: "k < 4096 * MAX_ARG_PAGES" "page ! (k div 4096) \<noteq> 0" "k div 4096 < MAX_ARG_PAGES" "k div 4096 \<noteq> i" if "k \<in> {p..<hi}" for k
      using f that assms(3) unfolding arg_filled_def by (auto simp: less_mult_imp_div_less)
    have "peek8 (phys t) (arg_addr (page[i := g]) k) = peek8 (phys s) (arg_addr page k)" if "k \<in> {p..<hi}" for k
      using k [OF that] ne [of "k div 4096"] page_of_arg_addr(1) [OF assms(1) k(1,2) [OF that]] t(1)
      by (simp add: arg_addr_def t(2) peek8_zero_page)
    moreover have "arg_filled (page[i := g]) p hi" using f k(4) unfolding arg_filled_def by (metis atLeastLessThan_iff nth_list_update_neq)
    ultimately show ?thesis by (simp add: arg_area_def)
  qed
  then show ?thesis using ok nz t(2) by simp
qed

section \<open>Copying strings\<close>

text \<open>\<open>getc\<close> reads the bytes \<open>g\<close> in every state whose user segment is \<open>u\<close>.\<close>

definition reads :: "(u32 \<Rightarrow> u8) \<Rightarrow> ('b \<Rightarrow> ('a fsys_scheme, 'c) km) \<Rightarrow> ('b \<Rightarrow> 'c) \<Rightarrow> bool" where
  "reads u getc g \<longleftrightarrow> (\<forall>a s. user s = u \<longrightarrow> getc a s = Ret (g a) s)"

lemma arg_poke:
  assumes "pages_ok page s" and "arg_filled page k hi" and "p = Suc k" and "k < hi"
  shows "arg_area page (poke8 (arg_addr page k) v m) k hi = v # arg_area page m p hi"
proof -
  have hi: "hi \<le> 4096 * MAX_ARG_PAGES" using assms(2) by (simp add: arg_filled_def)
  have "peek8 (poke8 (arg_addr page k) v m) (arg_addr page l) = (if l = k then v else peek8 m (arg_addr page l))" if "k \<le> l" "l < hi" for l
    using arg_addr_inj [OF assms(1), of k l] that assms(2,4) hi by (auto simp: peek_poke8 arg_filled_def)
  then show ?thesis using assms(3,4) by (simp add: arg_area_def upt_conv_Cons)
qed

text \<open>The offset is 0, or the copy is in the middle of a page.\<close>

definition copy_ok :: "arg_copy \<Rightarrow> 'a mm_scheme \<Rightarrow> bool" where
  "copy_ok c s \<longleftrightarrow> pages_ok (arg_page c) s \<and> (arg_offset c = 0 \<or>
     (arg_offset c = int (unat (arg_p c) mod 4096) \<and> arg_pag c = arg_page c ! (unat (arg_p c) div 4096) \<and> arg_pag c \<noteq> 0))"

definition mem_full :: "'a mm_scheme \<Rightarrow> bool" where
  "mem_full s \<longleftrightarrow> (\<forall>k < PAGING_PAGES. mem_map s ! k \<noteq> 0)"

lemma arg_get_page_run:
  fixes s :: "'a fsys_scheme"
  assumes "copy_ok c s" and "0 < unat (arg_p c)" and "unat (arg_p c) \<le> hi" and "arg_filled (arg_page c) (unat (arg_p c)) hi"
  shows "\<exists>c' ok t. arg_get_page (c\<lparr>arg_p := arg_p c - 1, arg_offset := arg_offset c - 1\<rparr>) s = Ret (c', ok) t \<and> user t = user s \<and>
    (if ok then arg_p c' = arg_p c - 1 \<and> arg_offset c' = int (unat (arg_p c - 1) mod 4096) \<and> arg_pag c' = arg_page c' ! (unat (arg_p c - 1) div 4096) \<and>
       arg_pag c' \<noteq> 0 \<and> pages_ok (arg_page c') t \<and> arg_filled (arg_page c') (unat (arg_p c - 1)) hi \<and>
       arg_area (arg_page c') (phys t) (unat (arg_p c)) hi = arg_area (arg_page c) (phys s) (unat (arg_p c)) hi
     else pages_ok (arg_page c') t \<and> mem_full t)"
proof -
  let ?p = "unat (arg_p c)" and ?q = "unat (arg_p c - 1)"
  have q: "?q = ?p - 1" using assms(2) by (simp add: word_minus_one_unat unat_gt_0)
  have hi: "hi \<le> 4096 * MAX_ARG_PAGES" using assms(4) by (simp add: arg_filled_def)
  then have i: "?q div 4096 < MAX_ARG_PAGES" using q assms(2,3) by (simp add: less_mult_imp_div_less)
  have pg: "pages_ok (arg_page c) s" using assms(1) by (simp add: copy_ok_def)
  have len: "length (arg_page c) = MAX_ARG_PAGES" using pg by (simp add: pages_ok_def)
  have fill: "arg_filled pgs ?q hi" if "arg_filled pgs ?p hi" "pgs ! (?q div 4096) \<noteq> 0" for pgs
  proof -
    have "?q = k \<or> ?p \<le> k" if "?q \<le> k" for k using that q by linarith
    then show ?thesis using that unfolding arg_filled_def by blast
  qed
  have w: "unat ((arg_p c - 1) div 4096) = ?q div 4096" "unat ((arg_p c - 1) mod 4096) = ?q mod 4096"
    by (simp_all add: unat_div_distrib unat_mod_distrib)
  show ?thesis
  proof (cases "0 < arg_offset c")
    case True
    then have o: "arg_offset c = int (?p mod 4096)" "arg_pag c = arg_page c ! (?p div 4096)" "arg_pag c \<noteq> 0" "0 < ?p mod 4096"
      using assms(1) by (auto simp: copy_ok_def)
    then have "?q div 4096 = ?p div 4096 \<and> ?q mod 4096 = ?p mod 4096 - 1" unfolding q
      by (metis One_nat_def Suc_pred assms(2) div_Suc mod_Suc diff_Suc_1 less_numeral_extra(3))
    then show ?thesis using True o pg fill [OF assms(4)] by (auto simp: arg_get_page_def km_simps)
  next
    case False
    then have z: "arg_offset c = 0" using assms(1) by (auto simp: copy_ok_def)
    show ?thesis
    proof (cases "arg_page c ! (?q div 4096) = 0")
      case False
      then show ?thesis using z i len pg fill [OF assms(4)] by (auto simp: arg_get_page_def km_simps w Let_def)
    next
      case True
      obtain g t where g: "get_free_page s = Ret g t"
        using pg by (cases "last_zero (mem_map s) PAGING_PAGES") (auto simp: pages_ok_def get_free_page_run)
      note n = arg_new_page [OF pg i True g, of ?p hi]
      show ?thesis
      proof (cases "g = 0")
        case 0: True
        then have "(arg_page c)[?q div 4096 := 0] = arg_page c" using True i len by simp
        then show ?thesis using n z i len g 0 pg True
          by (intro exI [of _ "c\<lparr>arg_p := arg_p c - 1, arg_offset := int (?q mod 4096), arg_pag := 0\<rparr>"] exI [of _ False] exI [of _ s])
            (simp add: arg_get_page_def km_simps w Let_def mem_full_def)
      next
        case nz: False
        then have "(arg_page c)[?q div 4096 := g] ! (?q div 4096) = g" using i len by simp
        then show ?thesis using n z i len g nz True assms(4) fill [of "(arg_page c)[?q div 4096 := g]"] 
          by (simp add: arg_get_page_def km_simps w Let_def) (rule exI [of _ True], simp)
      qed
    qed
  qed
qed


text \<open>The bytes \<open>d\<close> were put below the area that is filled already, or there is no free page left.\<close>

definition copied :: "u8 list \<Rightarrow> nat \<Rightarrow> arg_copy \<Rightarrow> 'a mm_scheme \<Rightarrow> arg_copy \<Rightarrow> bool \<Rightarrow> 'a mm_scheme \<Rightarrow> bool" where
  "copied d hi c s c' ok t \<longleftrightarrow>
     (if ok then copy_ok c' t \<and> unat (arg_p c') = unat (arg_p c) - length d \<and> arg_filled (arg_page c') (unat (arg_p c')) hi \<and>
        arg_area (arg_page c') (phys t) (unat (arg_p c')) hi = d @ arg_area (arg_page c) (phys s) (unat (arg_p c)) hi
      else pages_ok (arg_page c') t \<and> mem_full t)"

lemma copied_trans: "copied d hi c s c1 True t \<Longrightarrow> copied e hi c1 t c2 ok r \<Longrightarrow> copied (e @ d) hi c s c2 ok r"
  by (auto simp: copied_def)

lemma copied_Nil: "copy_ok c s \<Longrightarrow> arg_filled (arg_page c) (unat (arg_p c)) hi \<Longrightarrow> copied [] hi c s c True s"
  by (simp add: copied_def)

lemma copied_step:
  fixes s :: "'a fsys_scheme"
  assumes "copy_ok c s" and "0 < unat (arg_p c)" and "unat (arg_p c) \<le> hi" and "arg_filled (arg_page c) (unat (arg_p c)) hi"
  obtains c1 ok t where "arg_get_page (c\<lparr>arg_p := arg_p c - 1, arg_offset := arg_offset c - 1\<rparr>) s = Ret (c1, ok) t" and "user t = user s"
    and "\<not> ok \<Longrightarrow> copied d hi c s c1 False t"
    and "ok \<Longrightarrow> copied [v] hi c s c1 True (t\<lparr>phys := poke8 (arg_pag c1 + of_int (arg_offset c1)) v (phys t)\<rparr>)"
proof -
  let ?p = "unat (arg_p c)" and ?q = "unat (arg_p c - 1)"
  obtain c1 ok t where 1: "arg_get_page (c\<lparr>arg_p := arg_p c - 1, arg_offset := arg_offset c - 1\<rparr>) s = Ret (c1, ok) t" "user t = user s"
    "if ok then arg_p c1 = arg_p c - 1 \<and> arg_offset c1 = int (?q mod 4096) \<and> arg_pag c1 = arg_page c1 ! (?q div 4096) \<and>
       arg_pag c1 \<noteq> 0 \<and> pages_ok (arg_page c1) t \<and> arg_filled (arg_page c1) ?q hi \<and>
       arg_area (arg_page c1) (phys t) ?p hi = arg_area (arg_page c) (phys s) ?p hi
     else pages_ok (arg_page c1) t \<and> mem_full t"
    using arg_get_page_run [OF assms] by blast
  let ?m = "poke8 (arg_pag c1 + of_int (arg_offset c1)) v (phys t)"
  have "copied [v] hi c s c1 True (t\<lparr>phys := ?m\<rparr>)" if ok
  proof -
    have o: "arg_p c1 = arg_p c - 1" "arg_offset c1 = int (?q mod 4096)" "arg_pag c1 = arg_page c1 ! (?q div 4096)"
       "arg_pag c1 \<noteq> 0" "pages_ok (arg_page c1) t" "arg_filled (arg_page c1) ?q hi"
       "arg_area (arg_page c1) (phys t) ?p hi = arg_area (arg_page c) (phys s) ?p hi" using 1(3) that by auto
    have q: "?q = ?p - 1" using assms(2) by (intro word_minus_one_unat) auto
    have a: "arg_pag c1 + of_int (arg_offset c1) = arg_addr (arg_page c1) ?q" using o(2,3) by (simp add: arg_addr_def)
    have "arg_area (arg_page c1) ?m ?q hi = v # arg_area (arg_page c) (phys s) ?p hi"
      unfolding a o(7) [symmetric] using q assms(2,3) by (intro arg_poke [OF o(5,6)]) linarith+
    then show ?thesis using o q by (simp add: copied_def copy_ok_def pages_ok_def)
  qed
  then show thesis using 1 by (intro that [of c1 ok t]) (auto simp: copied_def)
qed

lemma copy_string_run:
  fixes s :: "'a fsys_scheme"
  assumes "copy_ok c s" and "len < unat (arg_p c)" and "unat (arg_p c) \<le> hi" and "arg_filled (arg_page c) (unat (arg_p c)) hi" and "reads u getc g" and "user s = u"
  shows "\<exists>c' ok t. copy_string len getc tmp c s = Ret (c', ok) t \<and> user t = u \<and> copied (rbytes g (tmp - of_nat len) len) hi c s c' ok t"
  using assms
proof (induction len arbitrary: c tmp s)
  case 0
  then show ?case by (auto simp: km_simps rbytes_def copied_Nil)
next
  case (Suc len)
  let ?d = "rbytes g (tmp - of_nat (Suc len)) (Suc len)"
  obtain c1 ok t where 1: "arg_get_page (c\<lparr>arg_p := arg_p c - 1, arg_offset := arg_offset c - 1\<rparr>) s = Ret (c1, ok) t" "user t = user s"
    "\<not> ok \<Longrightarrow> copied ?d hi c s c1 False t"
    "ok \<Longrightarrow> copied [g (tmp - 1)] hi c s c1 True (t\<lparr>phys := poke8 (arg_pag c1 + of_int (arg_offset c1)) (g (tmp - 1)) (phys t)\<rparr>)"
    using copied_step [OF Suc.prems(1) _ Suc.prems(3,4), of ?d "g (tmp - 1)"] Suc.prems(2) by auto
  show ?case
  proof (cases ok)
    case False
    then have "copy_string (Suc len) getc tmp c s = Ret (c1, False) t" using 1(1) by (simp add: km_simps)
    then show ?thesis using 1(2,3) False Suc.prems(6) by blast
  next
    case True
    define t1 where "t1 = t\<lparr>phys := poke8 (arg_pag c1 + of_int (arg_offset c1)) (g (tmp - 1)) (phys t)\<rparr>"
    have run: "copy_string (Suc len) getc tmp c s = copy_string len getc (tmp - 1) c1 t1"
      using 1(1,2) True Suc.prems(5,6) by (simp add: km_simps poke_byte_def reads_def t1_def)
    have r: "?d = rbytes g (tmp - 1 - of_nat len) len @ [g (tmp - 1)]"
      using rbytes_add [of g "tmp - of_nat (Suc len)" len 1] by (simp add: rbytes_def algebra_simps)
    have cp: "copied [g (tmp - 1)] hi c s c1 True t1" using 1(4) True by (simp add: t1_def)
    then have ih: "copy_ok c1 t1" "len < unat (arg_p c1)" "unat (arg_p c1) \<le> hi" "arg_filled (arg_page c1) (unat (arg_p c1)) hi"
      using Suc.prems(2,3) by (auto simp: copied_def)
    have "user t1 = u" using 1(2) Suc.prems(6) by (simp add: t1_def)
    then show ?thesis using Suc.IH [OF ih Suc.prems(5), of "tmp - 1"] copied_trans [OF cp] unfolding run r by blast
  qed
qed

text \<open>A string of C at an address, and strings with their zeros one after the other.\<close>

definition is_str :: "(u32 \<Rightarrow> u8) \<Rightarrow> u32 \<Rightarrow> u8 list \<Rightarrow> bool" where
  "is_str g a x \<longleftrightarrow> rbytes g a (Suc (length x)) = x @ [0] \<and> 0 \<notin> set x"

definition packed :: "u8 list list \<Rightarrow> u8 list" where
  "packed xs = concat (map (\<lambda>x. x @ [0]) xs)"

lemma is_str_Nil: "is_str g a [] \<longleftrightarrow> g a = 0"
  by (simp add: is_str_def rbytes_def)

lemma is_str_Cons: "is_str g a (c # x) \<longleftrightarrow> g a = c \<and> c \<noteq> 0 \<and> is_str g (a + 1) x"
proof -
  have "rbytes g a (Suc (length (c # x))) = g a # rbytes g (a + 1) (Suc (length x))"
    using rbytes_add [of g a 1 "Suc (length x)"] by (simp add: rbytes_def)
  then show ?thesis by (auto simp: is_str_def)
qed

lemma arg_len_run:
  assumes "is_str g a x" and "length x < n" and "reads u getc g" and "user s = u"
  shows "arg_len n getc a len s = Ret (len + Suc (length x)) s"
  using assms
proof (induction x arbitrary: n a len)
  case Nil
  then obtain m where "n = Suc m" by (cases n) auto
  then show ?case using Nil by (simp add: km_simps reads_def is_str_Nil)
next
  case (Cons c x)
  then obtain m where "n = Suc m" by (cases n) auto
  then show ?case using Cons by (simp add: km_simps reads_def is_str_Cons)
qed

lemma packed_snoc: "packed (xs @ [x]) = packed xs @ x @ [0]"
  by (simp add: packed_def)

lemma copy_args_run:
  fixes s :: "'a fsys_scheme"
  assumes "copy_ok c s" and "length (packed (take n xs)) < unat (arg_p c)" and "unat (arg_p c) \<le> hi" and "arg_filled (arg_page c) (unat (arg_p c)) hi"
    and "reads u getc g" and "reads u getp ptr" and "user s = u" and "n \<le> length xs" and "\<And>i. i < n \<Longrightarrow> ptr i \<noteq> 0 \<and> is_str g (ptr i) (xs ! i)"
  shows "\<exists>c' ok t. copy_args n getp getc c s = Ret (c', ok) t \<and> user t = u \<and> copied (packed (take n xs)) hi c s c' ok t"
  using assms
proof (induction n arbitrary: c s)
  case 0
  then show ?case by (auto simp: km_simps packed_def copied_Nil)
next
  case (Suc n)
  let ?x = "xs ! n"
  have tk: "packed (take (Suc n) xs) = packed (take n xs) @ (?x @ [0])" using Suc.prems(8) by (simp add: take_Suc_conv_app_nth packed_snoc)
  have l: "length (packed (take n xs)) + Suc (length ?x) < unat (arg_p c)" using Suc.prems(2) unfolding tk by simp
  have x: "ptr n \<noteq> 0" "is_str g (ptr n) ?x" using Suc.prems(9) [of n] by simp_all
  have hi: "hi \<le> 131072" using Suc.prems(4) by (simp add: arg_filled_def)
  have len: "arg_len USER_LIMIT getc (ptr n) 0 s = Ret (Suc (length ?x)) s"
    using arg_len_run [OF x(2) _ Suc.prems(5,7), of USER_LIMIT 0] l Suc.prems(3) hi by simp
  have "\<exists>c1 ok t. copy_string (Suc (length ?x)) getc (ptr n + of_nat (Suc (length ?x))) c s = Ret (c1, ok) t \<and> user t = u \<and> copied (?x @ [0]) hi c s c1 ok t"
    using copy_string_run [OF Suc.prems(1) _ Suc.prems(3,4,5,7), of "Suc (length ?x)" "ptr n + of_nat (Suc (length ?x))"] l x(2)
    by (simp add: is_str_def del: copy_string.simps)
  then obtain c1 ok t where 1: "copy_string (Suc (length ?x)) getc (ptr n + of_nat (Suc (length ?x))) c s = Ret (c1, ok) t" "user t = u"
    "copied (?x @ [0]) hi c s c1 ok t" by blast
  have run: "copy_args (Suc n) getp getc c s = (if ok then copy_args n getp getc c1 t else Ret (c1, False) t)"
    using len 1(1) x(1) Suc.prems(6,7) by (simp add: km_simps reads_def del: copy_string.simps)
  show ?case
  proof (cases ok)
    case False
    then have "copied (packed (take (Suc n) xs)) hi c s c1 False t" using 1(3) by (simp add: copied_def)
    then show ?thesis using 1(2) False unfolding run by (metis (no_types))
  next
    case True
    then have cp: "copied (?x @ [0]) hi c s c1 True t" using 1(3) by simp
    then have ih: "copy_ok c1 t" "length (packed (take n xs)) < unat (arg_p c1)" "unat (arg_p c1) \<le> hi" "arg_filled (arg_page c1) (unat (arg_p c1)) hi"
      using l Suc.prems(3) by (auto simp: copied_def)
    have "\<exists>c2 ok2 t2. copy_args n getp getc c1 t = Ret (c2, ok2) t2 \<and> user t2 = u \<and> copied (packed (take n xs)) hi c1 t c2 ok2 t2"
      using Suc.IH [OF ih Suc.prems(5,6) 1(2)] Suc.prems(8,9) by simp
    then show ?thesis using copied_trans [OF cp] True unfolding run tk by metis
  qed
qed

text \<open>The strings end up packed below the area that is in use, or there is no free page left.\<close>

definition area_copied :: "u8 list \<Rightarrow> nat \<Rightarrow> nat \<Rightarrow> u32 \<Rightarrow> u32 list \<Rightarrow> 'a mm_scheme \<Rightarrow> bool" where
  "area_copied d n hi p page s \<longleftrightarrow> pages_ok page s \<and>
     (if p = 0 then mem_full s else unat p = n \<and> arg_filled page n hi \<and> arg_area page (phys s) n hi = d)"

lemma copy_strings_run:
  fixes s :: "'a fsys_scheme"
  assumes "pages_ok page s" and "length (packed xs) < unat p" and "unat p \<le> hi" and "arg_filled page (unat p) hi"
    and "reads u getc g" and "reads u getp ptr" and "user s = u" and "\<And>i. i < length xs \<Longrightarrow> ptr i \<noteq> 0 \<and> is_str g (ptr i) (xs ! i)"
  shows "\<exists>p' page' t. copy_strings (int (length xs)) getp getc page p s = Ret (p', page') t \<and> user t = u \<and>
    area_copied (packed xs @ arg_area page (phys s) (unat p) hi) (unat p - length (packed xs)) hi p' page' t"
proof -
  let ?c = "\<lparr>arg_page = page, arg_p = p, arg_pag = 0, arg_offset = 0\<rparr>"
  have "copy_ok ?c s" using assms(1) by (simp add: copy_ok_def)
  then obtain c ok t where 1: "copy_args (length xs) getp getc ?c s = Ret (c, ok) t" "user t = u" "copied (packed xs) hi ?c s c ok t"
    using copy_args_run [of ?c s "length xs" xs hi u getc g getp ptr] assms by auto
  have run: "copy_strings (int (length xs)) getp getc page p s = Ret (if ok then arg_p c else 0, arg_page c) t"
    using 1(1) assms(2) by (auto simp: copy_strings_def km_simps)
  show ?thesis
  proof (cases ok)
    case True
    moreover from this have "arg_p c \<noteq> 0" using 1(3) assms(2) by (auto simp: copied_def)
    ultimately show ?thesis unfolding run using 1 by (auto simp: copied_def copy_ok_def area_copied_def)
  next
    case False
    then show ?thesis unfolding run using 1 by (simp add: copied_def area_copied_def)
  qed
qed

section \<open>The pointer tables\<close>

text \<open>A long word of the user segment.\<close>

definition ulong :: "(u32 \<Rightarrow> u8) \<Rightarrow> u32 \<Rightarrow> u32" where
  "ulong u a = ucast (u a) OR push_bit 8 (ucast (u (a + 1))) OR push_bit 16 (ucast (u (a + 2))) OR push_bit 24 (ucast (u (a + 3)))"

definition le32 :: "u32 \<Rightarrow> u8 list" where
  "le32 v = [ucast v, ucast (drop_bit 8 v), ucast (drop_bit 16 v), ucast (drop_bit 24 v)]"

lemma get_fs_long_app [km_simps]: "get_fs_long a s = Ret (ulong (user s) a) s"
  by (simp add: get_fs_long_def ulong_def km_simps)

lemma unat_diff_less:
  fixes x a :: u32
  assumes "unat a + n \<le> 2 ^ 32"
  shows "unat (x - a) < n \<longleftrightarrow> unat a \<le> unat x \<and> unat x < unat a + n"
  using assms unat32_less [of x] unat32_less [of a] by (auto simp: unat_sub_if')

lemma put_fs_long_run: "put_fs_long v a s = Ret () (s\<lparr>user := wbytes a (le32 v) (user s)\<rparr>)"
proof -
  have c: "ucast (drop_bit 8 (ucast v :: u16)) = (ucast (drop_bit 8 v) :: u8)" "ucast (ucast v :: u16) = (ucast v :: u8)"
    "ucast (drop_bit 8 (ucast (drop_bit 16 v) :: u16)) = (ucast (drop_bit 24 v) :: u8)" "ucast (ucast (drop_bit 16 v) :: u16) = (ucast (drop_bit 16 v) :: u8)"
    by (rule bit_word_eqI, simp add: bit_simps ac_simps)+
  have w: "wbytes a (le32 v) m = m(a := ucast v, a + 1 := ucast (drop_bit 8 v), a + 2 := ucast (drop_bit 16 v), a + 3 := ucast (drop_bit 24 v))" for m
  proof
    fix x
    have x: "x = a + (x - a)" by simp
    consider "x = a" | "x = a + 1" | "x = a + 2" | "x = a + 3" | "unat (x - a) \<ge> 4"
    proof (cases "unat (x - a) < 4")
      case True
      then have "unat (x - a) \<in> {0, 1, 2, 3}" by auto
      then have "x - a \<in> {0, 1, 2, 3}" by (auto simp: word_unat_eq_iff)
      then show thesis using that by (auto simp: algebra_simps)
    qed (use that in simp)
    then show "wbytes a (le32 v) m x = (m(a := ucast v, a + 1 := ucast (drop_bit 8 v), a + 2 := ucast (drop_bit 16 v), a + 3 := ucast (drop_bit 24 v))) x"
      by cases (auto simp: wbytes_def le32_def)
  qed
  show ?thesis by (simp add: put_fs_long_def put_fs_word_def km_simps c w add.assoc)
qed

lemma ulong_wbytes: "ulong (wbytes a (le32 v) u) a = v"
proof (rule bit_word_eqI)
  fix n
  show "bit (ulong (wbytes a (le32 v) u) a) n = bit v n" if "n < LENGTH(32)"
    using that by (cases "24 \<le> n"; cases "16 \<le> n") (auto simp: ulong_def wbytes_def le32_def bit_simps)
qed

text \<open>The table that starts at \<open>b\<close>; \<open>n\<close> slots below the end of the address space.\<close>

definition slot :: "u32 \<Rightarrow> nat \<Rightarrow> u32" where
  "slot b k = b + 4 * of_nat k"

lemma slot_add [simp]: "slot b k + 4 = slot b (Suc k)"
  by (simp add: slot_def)

lemma unat_slot: "unat b + 4 * k < 2 ^ 32 \<Longrightarrow> unat (slot b k) = unat b + 4 * k"
  by (simp add: slot_def unat_word_ariths unat32_of_nat)

definition same_outside :: "u32 \<Rightarrow> nat \<Rightarrow> nat \<Rightarrow> (u32 \<Rightarrow> u8) \<Rightarrow> (u32 \<Rightarrow> u8) \<Rightarrow> bool" where
  "same_outside b j k u v \<longleftrightarrow> (\<forall>x. unat x < unat b + 4 * j \<or> unat b + 4 * k \<le> unat x \<longrightarrow> v x = u x)"

lemma same_outside_refl [simp]: "same_outside b j k u u"
  by (simp add: same_outside_def)

lemma same_outside_trans:
  assumes "same_outside b j k u v" and "same_outside b j' k' v w" and "j'' \<le> j" and "j'' \<le> j'" and "k \<le> k''" and "k' \<le> k''"
  shows "same_outside b j'' k'' u w"
  using assms unfolding same_outside_def by auto

lemma same_outside_put:
  assumes "unat b + 4 * Suc j < 2 ^ 32"
  shows "same_outside b j (Suc j) u (wbytes (slot b j) (le32 v) u)"
  using assms by (auto simp: same_outside_def wbytes_def le32_def unat_diff_less unat_slot)

lemma ulong_same:
  assumes "same_outside b j k u v" and "unat b + 4 * Suc i < 2 ^ 32" and "i < j \<or> k \<le> i"
  shows "ulong v (slot b i) = ulong u (slot b i)"
proof -
  have "unat (slot b i + of_nat l) = unat b + 4 * i + l" if "l < 4" for l
    using that assms(2) unat_slot [of b i] by (simp add: unat_word_ariths unat32_of_nat)
  then have "v (slot b i + of_nat l) = u (slot b i + of_nat l)" if "l < 4" for l
    using that assms(1,3) unfolding same_outside_def by auto
  from this [of 0] this [of 1] this [of 2] this [of 3] show ?thesis by (simp add: ulong_def)
qed

lemma is_str_same:
  assumes "same_outside b j k u v" and "unat b + 4 * k \<le> unat a" and "unat a + length x < 2 ^ 32"
  shows "is_str v a x = is_str u a x"
proof -
  have "v (a + of_nat i) = u (a + of_nat i)" if "i < Suc (length x)" for i
  proof -
    have "unat (a + of_nat i) = unat a + i" using that assms(3) by (simp add: unat_word_ariths unat32_of_nat)
    then show ?thesis using assms(1,2) by (simp add: same_outside_def)
  qed
  then have "rbytes v a (Suc (length x)) = rbytes u a (Suc (length x))" by (simp add: rbytes_def)
  then show ?thesis by (simp add: is_str_def)
qed

lemma skip_string_run:
  assumes "is_str (user s) a x" and "length x < n"
  shows "skip_string n a s = Ret (a + of_nat (Suc (length x))) s"
  using assms
proof (induction x arbitrary: n a)
  case Nil
  then obtain m where "n = Suc m" by (cases n) auto
  then show ?case using Nil by (simp add: km_simps is_str_Nil)
next
  case (Cons c x)
  then obtain m where "n = Suc m" by (cases n) auto
  then show ?case using Cons by (simp add: km_simps is_str_Cons algebra_simps)
qed

text \<open>Strings one after the other from \<open>a\<close> on.\<close>

fun strings_at :: "(u32 \<Rightarrow> u8) \<Rightarrow> u32 \<Rightarrow> u8 list list \<Rightarrow> bool" where
  "strings_at u a [] \<longleftrightarrow> True"
| "strings_at u a (x # xs) \<longleftrightarrow> is_str u a x \<and> strings_at u (a + of_nat (Suc (length x))) xs"

lemma packed_Cons [simp]: "packed (x # xs) = x @ 0 # packed xs"
  by (simp add: packed_def)

lemma packed_Nil [simp]: "packed [] = []"
  by (simp add: packed_def)

lemma packed_append: "packed (xs @ ys) = packed xs @ packed ys"
  by (simp add: packed_def)

lemma strings_at_append:
  "strings_at u a (xs @ ys) \<longleftrightarrow> strings_at u a xs \<and> strings_at u (a + of_nat (length (packed xs))) ys"
  by (induction xs arbitrary: a) (simp_all add: algebra_simps)

lemma strings_at_nth: "strings_at u a xs \<Longrightarrow> i < length xs \<Longrightarrow> is_str u (a + of_nat (length (packed (take i xs)))) (xs ! i)"
  by (metis id_take_nth_drop strings_at.simps(2) strings_at_append)

lemma strings_at_same:
  assumes "same_outside b j k u v" and "unat b + 4 * k \<le> unat a" and "unat a + length (packed xs) < 2 ^ 32"
  shows "strings_at v a xs = strings_at u a xs"
  using assms(2,3)
proof (induction xs arbitrary: a)
  case (Cons x xs)
  have "unat (a + of_nat (Suc (length x))) = unat a + Suc (length x)"
    using Cons.prems by (simp add: unat_word_ariths unat32_of_nat del: of_nat_Suc)
  then show ?case using Cons is_str_same [OF assms(1), of a x] by simp
qed simp

lemma table_loop_run:
  assumes "strings_at (user s) p xs" and "unat b + 4 * (j + length xs) \<le> unat p" and "unat p + length (packed xs) < 2 ^ 32"
    and "length (packed xs) \<le> USER_LIMIT"
  shows "\<exists>u. table_loop (length xs) p (slot b j) s = Ret (p + of_nat (length (packed xs)), slot b (j + length xs)) (s\<lparr>user := u\<rparr>) \<and>
    same_outside b j (j + length xs) (user s) u \<and> (\<forall>i < length xs. ulong u (slot b (j + i)) = p + of_nat (length (packed (take i xs))))"
  using assms
proof (induction xs arbitrary: s p j)
  case Nil
  show ?case by (intro exI [of _ "user s"]) (simp add: km_simps)
next
  case (Cons x xs)
  let ?u1 = "wbytes (slot b j) (le32 p) (user s)" and ?p1 = "p + of_nat (Suc (length x))"
  have so: "same_outside b j (Suc j) (user s) ?u1" using Cons.prems(2,3) by (intro same_outside_put) simp
  have str: "is_str ?u1 p x" using Cons.prems is_str_same [OF so, of p x] by simp
  have p1: "unat ?p1 = unat p + Suc (length x)" using Cons.prems by (simp add: unat_word_ariths unat32_of_nat del: of_nat_Suc)
  have rest: "strings_at ?u1 ?p1 xs" using Cons.prems strings_at_same [OF so, of ?p1 xs] p1 by simp
  obtain u where u: "table_loop (length xs) ?p1 (slot b (Suc j)) (s\<lparr>user := ?u1\<rparr>) =
      Ret (?p1 + of_nat (length (packed xs)), slot b (Suc j + length xs)) (s\<lparr>user := ?u1\<rparr>\<lparr>user := u\<rparr>)"
    "same_outside b (Suc j) (Suc j + length xs) ?u1 u" "\<forall>i < length xs. ulong u (slot b (Suc j + i)) = ?p1 + of_nat (length (packed (take i xs)))"
    using Cons.IH [of "s\<lparr>user := ?u1\<rparr>" ?p1 "Suc j"] rest Cons.prems p1 by auto
  have run: "table_loop (length (x # xs)) p (slot b j) s = table_loop (length xs) ?p1 (slot b (Suc j)) (s\<lparr>user := ?u1\<rparr>)"
    using skip_string_run [of "s\<lparr>user := ?u1\<rparr>" p x USER_LIMIT] str Cons.prems(4) by (simp add: km_simps put_fs_long_run)
  have e0: "ulong u (slot b j) = p" using ulong_same [OF u(2), of j] Cons.prems by (simp add: ulong_wbytes)
  have "ulong u (slot b (j + i)) = p + of_nat (length (packed (take i (x # xs))))" if "i < length (x # xs)" for i
    using that u(3) e0 by (cases i) (auto simp: algebra_simps)
  moreover have "same_outside b j (j + length (x # xs)) (user s) u" using so u(2) by (rule same_outside_trans) simp_all
  ultimately show ?case unfolding run u(1) by (intro exI [of _ u]) (simp add: algebra_simps)
qed

text \<open>The table at \<open>b\<close> has pointers to the strings \<open>xs\<close> and a null pointer.\<close>

definition vector_at :: "(u32 \<Rightarrow> u8) \<Rightarrow> u32 \<Rightarrow> u8 list list \<Rightarrow> bool" where
  "vector_at u b xs \<longleftrightarrow> (\<forall>i < length xs. is_str u (ulong u (slot b i)) (xs ! i)) \<and> ulong u (slot b (length xs)) = 0"

text \<open>The same with the strings one after the other from \<open>p\<close> on, in slots from \<open>j\<close> on.\<close>

definition packed_vector :: "(u32 \<Rightarrow> u8) \<Rightarrow> u32 \<Rightarrow> nat \<Rightarrow> u32 \<Rightarrow> u8 list list \<Rightarrow> bool" where
  "packed_vector u b j p xs \<longleftrightarrow> strings_at u p xs \<and> ulong u (slot b (j + length xs)) = 0 \<and>
     (\<forall>i < length xs. ulong u (slot b (j + i)) = p + of_nat (length (packed (take i xs))))"

lemma slot_slot: "slot (slot b j) i = slot b (j + i)"
  by (simp add: slot_def algebra_simps)

lemma packed_vector_at: "packed_vector u b j p xs \<Longrightarrow> vector_at u (slot b j) xs"
  by (simp add: packed_vector_def vector_at_def slot_slot strings_at_nth)

lemma packed_vector_same:
  assumes "same_outside b l m u v" and "packed_vector u b j p xs" and "j + length xs < l \<or> m \<le> j"
    and "unat b + 4 * m \<le> unat p" and "unat b + 4 * Suc (j + length xs) \<le> unat p" and "unat p + length (packed xs) < 2 ^ 32"
  shows "packed_vector v b j p xs"
proof -
  have "ulong v (slot b (j + i)) = ulong u (slot b (j + i))" if "i \<le> length xs" for i
    using assms that by (intro ulong_same [OF assms(1)]) auto
  then show ?thesis using assms(2) strings_at_same [OF assms(1,4,6)] by (simp add: packed_vector_def)
qed

lemma vector_run:
  assumes "strings_at (user s) p xs" and "unat b + 4 * Suc (j + length xs) \<le> unat p" and "unat p + length (packed xs) < 2 ^ 32"
    and "length (packed xs) \<le> USER_LIMIT"
  shows "\<exists>u. kbind (table_loop (length xs) p (slot b j)) (\<lambda>(p, v). kseq (put_fs_long 0 v) (f p)) s =
    f (p + of_nat (length (packed xs))) (s\<lparr>user := u\<rparr>) \<and> same_outside b j (Suc (j + length xs)) (user s) u \<and> packed_vector u b j p xs"
proof -
  obtain u where u: "table_loop (length xs) p (slot b j) s = Ret (p + of_nat (length (packed xs)), slot b (j + length xs)) (s\<lparr>user := u\<rparr>)"
    "same_outside b j (j + length xs) (user s) u" "\<forall>i < length xs. ulong u (slot b (j + i)) = p + of_nat (length (packed (take i xs)))"
    using table_loop_run [of s p xs b j] assms by auto
  let ?u = "wbytes (slot b (j + length xs)) (le32 0) u"
  have so: "same_outside b (j + length xs) (Suc (j + length xs)) u ?u" using assms(2,3) by (intro same_outside_put) simp
  have all: "same_outside b j (Suc (j + length xs)) (user s) ?u" using u(2) so by (rule same_outside_trans) simp_all
  have "ulong ?u (slot b (j + i)) = ulong u (slot b (j + i))" if "i < length xs" for i
    using assms(2,3) that by (intro ulong_same [OF so]) auto
  then have "packed_vector ?u b j p xs"
    using u(3) strings_at_same [OF all assms(2,3)] assms(1) by (simp add: packed_vector_def ulong_wbytes)
  moreover have "kbind (table_loop (length xs) p (slot b j)) (\<lambda>(p, v). kseq (put_fs_long 0 v) (f p)) s =
      f (p + of_nat (length (packed xs))) (s\<lparr>user := ?u\<rparr>)" by (simp add: km_simps u(1) put_fs_long_run)
  ultimately show ?thesis using all by blast
qed

text \<open>The stack of the new program: the count and the two vectors.\<close>

definition stack_at :: "(u32 \<Rightarrow> u8) \<Rightarrow> u32 \<Rightarrow> u8 list list \<Rightarrow> u8 list list \<Rightarrow> bool" where
  "stack_at u sp args envs \<longleftrightarrow> ulong u sp = of_nat (length args) \<and> vector_at u (ulong u (sp + 4)) args \<and> vector_at u (ulong u (sp + 8)) envs"

lemma unat_align4: "unat (0xfffffffc AND p) = unat p div 4 * 4" for p :: u32
proof -
  have "(0xfffffffc :: u32) = NOT (mask 2)" by (simp add: mask_eq_exp_minus_1)
  then have "0xfffffffc AND p = NOT (mask 2) AND p" by simp
  also have "\<dots> = push_bit 2 (drop_bit 2 p)"
  proof (rule bit_word_eqI)
    fix n
    show "bit (NOT (mask 2) AND p) n = bit (push_bit 2 (drop_bit 2 p)) n" if "n < LENGTH(32)"
      using that by (cases "2 \<le> n") (auto simp: bit_simps dest!: le_Suc_ex)
  qed
  finally have "0xfffffffc AND p = push_bit 2 (drop_bit 2 p)" .
  moreover have "unat (drop_bit 2 p) = unat p div 4" unfolding unat_drop_bit_eq by (simp add: drop_bit_eq_div)
  moreover have "push_bit 2 (drop_bit 2 p) = of_nat (unat (drop_bit 2 p) * 4)" by (simp add: push_bit_eq_mult)
  moreover have "unat p div 4 * 4 < 4294967296" using unat32_less [of p] by linarith
  ultimately show ?thesis by (simp only: unat32_of_nat)
qed

lemma put_fs_long_seq: "kbind (put_fs_long v a) f s = f () (s\<lparr>user := wbytes a (le32 v) (user s)\<rparr>)"
  by (simp add: kbind_app put_fs_long_run)

lemma create_tables_run:
  assumes "strings_at (user s) p (args @ envs)" and "4 * (length args + length envs) + 23 \<le> unat p"
    and "unat p + length (packed (args @ envs)) < 2 ^ 32" and "length (packed (args @ envs)) \<le> USER_LIMIT"
  shows "\<exists>sp u. create_tables p (int (length args)) (int (length envs)) s = Ret sp (s\<lparr>user := u\<rparr>) \<and> stack_at u sp args envs"
proof -
  let ?n = "length args" and ?m = "length envs"
  let ?k = "4 * (?m + ?n) + 20"
  define b where "b = (0xfffffffc AND p) - of_nat ?k"
  have k: "unat (of_nat ?k :: u32) = ?k" using assms(2,3) by (intro unat32_of_nat) simp
  have "?m + ?n + 5 \<le> unat p div 4" using div_le_mono [OF assms(2), of 4] by simp
  then have "?k \<le> unat (0xfffffffc AND p)" unfolding unat_align4 using mult_le_mono1 [of "?m + ?n + 5" "unat p div 4" 4] by simp
  then have "unat b = unat (0xfffffffc AND p) - ?k" unfolding b_def using k by (subst unat_sub) (simp_all add: word_le_nat_alt)
  moreover have "unat (0xfffffffc AND p) \<le> unat p" unfolding unat_align4 by linarith
  ultimately have ub: "unat b + 4 * (?n + ?m + 5) \<le> unat p" using \<open>?k \<le> unat (0xfffffffc AND p)\<close> by simp
  have e: "(0xfffffffc AND p) - 4 * (of_int (int ?m) + 1) = slot b (?n + 4)"
      "slot b (?n + 4) - 4 * (of_int (int ?n) + 1) = slot b 3" "slot b 3 - 4 = slot b 2" "slot b 3 - 8 = slot b 1" "slot b 3 - 12 = slot b 0"
    by (simp_all add: b_def slot_def algebra_simps)
  let ?u1 = "wbytes (slot b 2) (le32 (slot b (?n + 4))) (user s)"
  let ?u2 = "wbytes (slot b 1) (le32 (slot b 3)) ?u1"
  let ?u3 = "wbytes (slot b 0) (le32 (of_nat ?n)) ?u2"
  define s1 where "s1 = s\<lparr>user := ?u3\<rparr>"
  have o: "same_outside b 2 3 (user s) ?u1" "same_outside b 1 2 ?u1 ?u2" "same_outside b 0 1 ?u2 ?u3"
    using same_outside_put [of b 2 "user s" "slot b (?n + 4)"] same_outside_put [of b 1 ?u1 "slot b 3"]
      same_outside_put [of b 0 ?u2 "of_nat ?n"] ub assms(3)
    by (simp_all flip: numeral_2_eq_2)
  have so: "same_outside b 0 3 (user s) (user s1)"
    unfolding s1_def using same_outside_trans [OF same_outside_trans [OF o(1,2), of 1 3] o(3), of 0 3] by simp
  have "ulong ?u3 (slot b 1) = slot b 3" "ulong ?u3 (slot b 2) = slot b (?n + 4)"
    using ulong_same [OF o(3), of 1] ulong_same [OF o(3), of 2] ulong_same [OF o(2), of 2] ub assms(3) by (simp_all add: ulong_wbytes)
  then have h: "ulong (user s1) (slot b 0) = of_nat ?n" "ulong (user s1) (slot b 1) = slot b 3" "ulong (user s1) (slot b 2) = slot b (?n + 4)"
    by (simp_all add: s1_def ulong_wbytes)
  have lp: "length (packed args) + length (packed envs) \<le> USER_LIMIT" "unat p + length (packed args) + length (packed envs) < 2 ^ 32"
    using assms(3,4) by (simp_all add: packed_append)
  have st: "strings_at (user s1) p args" using strings_at_same [OF so, of p "args @ envs"] assms ub by (simp add: strings_at_append)
  let ?q = "p + of_nat (length (packed args))" and ?sp = "slot b 0"
  have uq: "unat ?q = unat p + length (packed args)" using lp by (simp add: unat_word_ariths unat32_of_nat)
  obtain u where u: "kbind (table_loop ?n p (slot b 3)) (\<lambda>(p, v). kseq (put_fs_long 0 v) (kbind (table_loop ?m p (slot b (?n + 4))) (\<lambda>(p, v). kseq (put_fs_long 0 v) (kreturn ?sp)))) s1 =
      kbind (table_loop ?m ?q (slot b (?n + 4))) (\<lambda>(p, v). kseq (put_fs_long 0 v) (kreturn ?sp)) (s1\<lparr>user := u\<rparr>)"
    "same_outside b 3 (Suc (3 + ?n)) (user s1) u" "packed_vector u b 3 p args"
    using vector_run [OF st, of b 3 "\<lambda>p. kbind (table_loop ?m p (slot b (?n + 4))) (\<lambda>(p, v). kseq (put_fs_long 0 v) (kreturn ?sp))"] ub lp by auto
  have so2: "same_outside b 0 (Suc (3 + ?n)) (user s) u" using so u(2) by (rule same_outside_trans) simp_all
  have st2: "strings_at (user (s1\<lparr>user := u\<rparr>)) ?q envs"
    using strings_at_same [OF so2, of p "args @ envs"] assms ub by (simp add: strings_at_append)
  obtain v where v: "kbind (table_loop ?m ?q (slot b (?n + 4))) (\<lambda>(p, v). kseq (put_fs_long 0 v) (kreturn ?sp)) (s1\<lparr>user := u\<rparr>) = Ret ?sp (s1\<lparr>user := u\<rparr>\<lparr>user := v\<rparr>)"
    "same_outside b (?n + 4) (Suc (?n + 4 + ?m)) u v" "packed_vector v b (?n + 4) ?q envs"
    using vector_run [OF st2, of b "?n + 4" "\<lambda>_. kreturn ?sp"] ub lp uq by (auto simp: km_simps)
  have "packed_vector v b 3 p args" using packed_vector_same [OF v(2) u(3)] ub lp by simp
  moreover have "ulong v (slot b i) = ulong (user s1) (slot b i)" if "i < 3" for i
    using ulong_same [OF v(2), of i] ulong_same [OF u(2), of i] that ub lp by simp
  moreover have "slot b 0 + 8 = slot b 2" by (simp add: slot_def)
  ultimately have "stack_at v ?sp args envs"
    using h v(3) by (simp add: stack_at_def packed_vector_at slot_slot flip: One_nat_def) 
  moreover have "create_tables p (int ?n) (int ?m) s = Ret ?sp (s\<lparr>user := v\<rparr>)"
  proof -
    have "create_tables p (int ?n) (int ?m) s =
      kbind (table_loop ?n p (slot b 3)) (\<lambda>(p, v). kseq (put_fs_long 0 v) (kbind (table_loop ?m p (slot b (?n + 4))) (\<lambda>(p, v). kseq (put_fs_long 0 v) (kreturn ?sp)))) s1"
      unfolding create_tables_def Let_def e s1_def by (simp add: put_fs_long_seq)
    then show ?thesis unfolding u(1) v(1) by (simp add: s1_def)
  qed
  ultimately show ?thesis by blast
qed

section \<open>Arguments arrive\<close>

text \<open>The new data segment shows the argument area at its top.\<close>

lemma new_user_area:
  assumes "pages_ok page s" and "arg_filled page lo hi" and "lo \<le> k" and "k < hi"
  shows "new_user page m demand (0x3fe0000 + of_nat k) = peek8 m (arg_addr page k)"
proof -
  have hi: "k < 131072" using assms(2,4) by (simp add: arg_filled_def)
  let ?a = "0x3fe0000 + of_nat k :: u32"
  have u: "unat ?a = 0x3fe0000 + k" using hi by (simp add: unat_word_ariths unat32_of_nat)
  have "unat (drop_bit 12 ?a) = (0x3fe0000 + k) div 4096" unfolding unat_drop_bit_eq u by (simp add: drop_bit_eq_div)
  then have d: "unat (drop_bit 12 ?a) = 0x3fe0 + k div 4096" by simp
  have "?a AND 0xfff = take_bit 12 ?a" by (simp add: take_bit_eq_mask mask_eq_exp_minus_1)
  then have "unat (?a AND 0xfff) = (0x3fe0000 + k) mod 4096" using u by (simp add: unat_mod_distrib take_bit_eq_mod)
  then have "unat (?a AND 0xfff) = k mod 4096" by (simp add: mod_add_left_eq [symmetric])
  then have "?a AND 0xfff = of_nat (k mod 4096)" by (simp add: word_unat_eq_iff unat32_of_nat)
  moreover have "k div 4096 < 32" using hi by (simp add: less_mult_imp_div_less)
  moreover have "page ! (k div 4096) \<noteq> 0" using assms(2-4) by (simp add: arg_filled_def)
  ultimately show ?thesis by (simp add: new_user_def Let_def d arg_addr_def)
qed

lemma strings_at_packed:
  assumes "rbytes u a (length (packed xs)) = packed xs" and "\<forall>x \<in> set xs. 0 \<notin> set x"
  shows "strings_at u a xs"
  using assms
proof (induction xs arbitrary: a)
  case (Cons x xs)
  have "length (packed (x # xs)) = Suc (length x) + length (packed xs)" by simp
  then have "rbytes u a (Suc (length x)) @ rbytes u (a + of_nat (Suc (length x))) (length (packed xs)) = (x @ [0]) @ packed xs"
    using Cons.prems(1) by (simp only: rbytes_add) simp
  then have "rbytes u a (Suc (length x)) = x @ [0]" "rbytes u (a + of_nat (Suc (length x))) (length (packed xs)) = packed xs"
    by (auto simp del: of_nat_Suc append_assoc simp: append_eq_append_conv)
  then show ?case using Cons by (simp add: is_str_def)
qed simp

lemma length_le_packed: "length xs \<le> length (packed xs)"
  by (induction xs) simp_all

text \<open>A vector of strings in the old data segment; pointers are not null.\<close>

definition user_vector :: "(u32 \<Rightarrow> u8) \<Rightarrow> u32 \<Rightarrow> u8 list list \<Rightarrow> bool" where
  "user_vector u v xs \<longleftrightarrow> vector_at u v xs \<and> (\<forall>i < length xs. ulong u (slot v i) \<noteq> 0)"

lemma user_argv_reads: "reads u (user_argv v) (\<lambda>i. ulong u (slot v i))"
  by (simp add: reads_def user_argv_def km_simps slot_def)

lemma get_fs_byte_reads: "reads u get_fs_byte u"
  by (simp add: reads_def km_simps)

lemma user_vector_no_zero: "user_vector u v xs \<Longrightarrow> \<forall>x \<in> set xs. 0 \<notin> set x"
  by (auto simp: user_vector_def vector_at_def is_str_def in_set_conv_nth)

lemma count_loop_run:
  assumes "\<forall>i < n. ulong (user s) (slot v i) \<noteq> 0" and "ulong (user s) (slot v n) = 0" and "j \<le> n" and "n - j < m"
  shows "count_loop m (slot v j) k s = Ret (k + int (n - j)) s"
  using assms(3,4)
proof (induction m arbitrary: j k)
  case (Suc m)
  show ?case
  proof (cases "j = n")
    case True
    then show ?thesis using assms(2) by (simp add: km_simps)
  next
    case False
    then have "j < n" "n - Suc j < m" "n - j = Suc (n - Suc j)" using Suc.prems by auto
    then show ?thesis using Suc.IH [of "Suc j" "k + 1"] assms(1) by (simp add: km_simps)
  qed
qed simp

lemma count_run:
  assumes "user_vector (user s) v xs" and "length xs < 0x1000000" and "v \<noteq> 0"
  shows "count v s = Ret (int (length xs)) s"
  using assms count_loop_run [of "length xs" s v 0 "USER_LIMIT div 4" 0]
  by (simp add: count_def user_vector_def vector_at_def slot_def [of _ 0])


text \<open>The part of \<open>do_execve\<close> that handles the arguments of a program without an interpreter: they are counted and copied, and once the data segment is the new one, the tables are built. The result is the new stack pointer, or nothing when memory runs out.\<close>

definition exec_args :: "(u32 \<Rightarrow> u8) \<Rightarrow> u32 \<Rightarrow> u32 \<Rightarrow> ('a fsys_scheme, u32 option) km" where
  "exec_args demand argv envp =
     kbind (count argv) (\<lambda>argc. kbind (count envp) (\<lambda>envc.
     kbind (copy_strings envc (user_argv envp) get_fs_byte (replicate MAX_ARG_PAGES 0) (of_nat (4096 * MAX_ARG_PAGES - 4))) (\<lambda>(p, page).
     kbind (copy_strings argc (user_argv argv) get_fs_byte page p) (\<lambda>(p, page).
     if p = 0 then kreturn None
     else kseq (kmod (\<lambda>s. s\<lparr>user := new_user page (phys s) demand\<rparr>))
       (kbind (create_tables (p + 0x4000000 - of_nat (MAX_ARG_PAGES * 4096)) argc envc) (\<lambda>sp. kreturn (Some sp)))))))"

lemma pages_ok_empty: "length (mem_map s) = PAGING_PAGES \<Longrightarrow> pages_ok (replicate MAX_ARG_PAGES 0) s"
  by (simp add: pages_ok_def)

lemma copy_strings_0: "copy_strings n getp getc page 0 s = Ret (0, page) s"
  by (simp add: copy_strings_def km_simps)

text \<open>
  C19: the arguments of \<open>execve\<close> arrive. If the vectors \<open>argv\<close> and \<open>envp\<close> of the caller hold the strings \<open>args\<close> and \<open>envs\<close>, which take
  less than 128 kB, then the new program finds on its stack the number of arguments and two null-terminated vectors
  of pointers to the same strings; or all page frames are in use.
\<close>

theorem exec_args_arrive:
  fixes s :: "'a fsys_scheme"
  assumes "length (mem_map s) = PAGING_PAGES" and "user_vector (user s) argv args" and "user_vector (user s) envp envs"
    and "argv \<noteq> 0" and "envp \<noteq> 0" and "length (packed args) + length (packed envs) < 4096 * MAX_ARG_PAGES - 4"
  shows "\<exists>r t. exec_args demand argv envp s = Ret r t \<and> (case r of None \<Rightarrow> mem_full t | Some sp \<Rightarrow> stack_at (user t) sp args envs)"
proof -
  let ?hi = "131068 :: nat"
  have n: "length args \<le> length (packed args)" "length envs \<le> length (packed envs)" by (rule length_le_packed)+
  have c: "count argv s = Ret (int (length args)) s" "count envp s = Ret (int (length envs)) s"
    using count_run [OF assms(2)] count_run [OF assms(3)] assms(4-6) n by simp_all
  have str: "\<And>i. i < length xs \<Longrightarrow> ulong (user s) (slot v i) \<noteq> 0 \<and> is_str (user s) (ulong (user s) (slot v i)) (xs ! i)"
    if "user_vector (user s) v xs" for v xs
    using that by (simp add: user_vector_def vector_at_def)
  have z: "arg_filled (replicate MAX_ARG_PAGES 0) ?hi ?hi" "arg_area (replicate MAX_ARG_PAGES 0) (phys s) ?hi ?hi = []"
    by (simp_all add: arg_filled_def arg_area_def)
  have "\<exists>p1 page1 t1. copy_strings (int (length envs)) (user_argv envp) get_fs_byte (replicate MAX_ARG_PAGES 0) 131068 s = Ret (p1, page1) t1 \<and>
    user t1 = user s \<and> area_copied (packed envs) (?hi - length (packed envs)) ?hi p1 page1 t1"
    using copy_strings_run [OF pages_ok_empty [OF assms(1)] _ _ _ get_fs_byte_reads user_argv_reads refl str [OF assms(3)], of 131068 ?hi] assms(6) z by simp
  then obtain p1 page1 t1 where 1: "copy_strings (int (length envs)) (user_argv envp) get_fs_byte (replicate MAX_ARG_PAGES 0) 131068 s = Ret (p1, page1) t1"
    "user t1 = user s" "area_copied (packed envs) (?hi - length (packed envs)) ?hi p1 page1 t1" by blast
  show ?thesis
  proof (cases "p1 = 0")
    case True
    then have "exec_args demand argv envp s = Ret None t1" using c 1(1) by (simp add: exec_args_def km_simps copy_strings_0)
    then show ?thesis using 1(3) True by (simp add: area_copied_def)
  next
    case False
    then have p1: "unat p1 = ?hi - length (packed envs)" "arg_filled page1 (unat p1) ?hi" "arg_area page1 (phys t1) (unat p1) ?hi = packed envs" "pages_ok page1 t1"
      using 1(3) by (auto simp: area_copied_def)
    have n2: "unat p1 - length (packed args) = ?hi - length (packed (args @ envs))" using p1(1) by (simp add: packed_append)
    have "\<exists>p2 page2 t2. copy_strings (int (length args)) (user_argv argv) get_fs_byte page1 p1 t1 = Ret (p2, page2) t2 \<and>
      user t2 = user s \<and> area_copied (packed (args @ envs)) (?hi - length (packed (args @ envs))) ?hi p2 page2 t2"
      using copy_strings_run [OF p1(4) _ _ p1(2) get_fs_byte_reads user_argv_reads 1(2) str [OF assms(2)]] p1(1) assms(6) unfolding p1(3) n2
      by (simp add: packed_append)
    then obtain p2 page2 t2 where 2: "copy_strings (int (length args)) (user_argv argv) get_fs_byte page1 p1 t1 = Ret (p2, page2) t2"
      "user t2 = user s" "area_copied (packed (args @ envs)) (?hi - length (packed (args @ envs))) ?hi p2 page2 t2" by blast
    show ?thesis
    proof (cases "p2 = 0")
      case True
      then have "exec_args demand argv envp s = Ret None t2" using c 1(1) 2(1) by (simp add: exec_args_def km_simps)
      then show ?thesis using 2(3) True by (simp add: area_copied_def)
    next
      case nz: False
      then have p2: "unat p2 = ?hi - length (packed (args @ envs))" "arg_filled page2 (unat p2) ?hi" "arg_area page2 (phys t2) (unat p2) ?hi = packed (args @ envs)" "pages_ok page2 t2"
        using 2(3) by (auto simp: area_copied_def)
      let ?t = "t2\<lparr>user := new_user page2 (phys t2) demand\<rparr>" and ?q = "p2 + 0x4000000 - of_nat (MAX_ARG_PAGES * 4096)"
      have len: "length (packed (args @ envs)) < ?hi" using assms(6) by (simp add: packed_append)
      have q: "?q = 0x3fe0000 + p2" by simp
      have uq: "unat ?q = 0x3fe0000 + unat p2" unfolding q using p2(1) by (simp add: unat_word_ariths)
      have "rbytes (user ?t) ?q (length (packed (args @ envs))) = packed (args @ envs)"
      proof -
        have "user ?t (?q + of_nat i) = packed (args @ envs) ! i" if "i < length (packed (args @ envs))" for i
        proof -
          have "user ?t (?q + of_nat i) = new_user page2 (phys t2) demand (0x3fe0000 + of_nat (unat p2 + i))" by (simp add: q add.assoc)
          also have "\<dots> = peek8 (phys t2) (arg_addr page2 (unat p2 + i))" using that p2(1) len by (intro new_user_area [OF p2(4,2)]) linarith+
          also have "\<dots> = arg_area page2 (phys t2) (unat p2) ?hi ! i" using that p2(1) len by (simp add: arg_area_def)
          finally show ?thesis unfolding p2(3) .
        qed
        then show ?thesis by (intro nth_equalityI) simp_all
      qed
      then have st: "strings_at (user ?t) ?q (args @ envs)"
        using user_vector_no_zero assms(2,3) by (intro strings_at_packed) auto
      have tab: "\<exists>sp u. create_tables ?q (int (length args)) (int (length envs)) ?t = Ret sp (?t\<lparr>user := u\<rparr>) \<and> stack_at u sp args envs"
        using len n unfolding packed_append by (intro create_tables_run [OF st]) (simp_all add: uq [unfolded q] packed_append p2(1))
      then obtain sp u where t: "create_tables ?q (int (length args)) (int (length envs)) ?t = Ret sp (?t\<lparr>user := u\<rparr>)" "stack_at u sp args envs" by blast
      have run: "exec_args demand argv envp s = Ret (Some sp) (?t\<lparr>user := u\<rparr>)"
        using c 1(1) 2(1) t(1) nz by (simp add: exec_args_def km_simps)
      show ?thesis using t(2) unfolding run by simp
    qed
  qed
qed


text \<open>A call with one argument, \<open>ls\<close>, and an empty environment.\<close>

definition ex_exec :: fsys where
  "ex_exec = ex_fs\<lparr>user := wbytes 0x1000 (le32 0x2000 @ replicate 8 0) (wbytes 0x2000 [0x6c, 0x73, 0] (\<lambda>_. 0))\<rparr>"

theorem exec_args_arrive_witness:
  "\<exists>r t. exec_args (\<lambda>_. 0) 0x1000 0x1004 ex_exec = Ret r t \<and> (case r of None \<Rightarrow> mem_full t | Some sp \<Rightarrow> stack_at (user t) sp [[0x6c, 0x73]] [])"
proof -
  have u: "ulong (user ex_exec) 0x1000 = 0x2000" "ulong (user ex_exec) 0x1004 = 0"
    by (simp_all add: ex_exec_def ulong_def wbytes_def le32_def)
  have "is_str (user ex_exec) 0x2000 [0x6c, 0x73]"
    by (simp add: is_str_Cons is_str_Nil ex_exec_def wbytes_def le32_def)
  then have "user_vector (user ex_exec) 0x1000 [[0x6c, 0x73]]" "user_vector (user ex_exec) 0x1004 []"
    using u by (simp_all add: user_vector_def vector_at_def slot_def)
  moreover have "length (mem_map ex_exec) = PAGING_PAGES" by (simp add: ex_exec_def ex_fs_def ex_blk_def mm.defs blk.defs fsys.defs)
  ultimately show ?thesis by (intro exec_args_arrive) simp_all
qed

section \<open>Refusals\<close>

text \<open>The execute bit that applies: that of the owner, of the group or of the others; for the super-user any of them.\<close>

definition may_execute :: "m_inode \<Rightarrow> task_struct \<Rightarrow> bool" where
  "may_execute x me \<longleftrightarrow>
     bit (i_mode x) (if euid me = i_uid x then 6 else if egid me = ucast (i_gid x) then 3 else 0) \<or>
     (euid me = 0 \<and> (bit (i_mode x) 6 \<or> bit (i_mode x) 3 \<or> bit (i_mode x) 0))"

lemma and_1_bit: "w AND 1 \<noteq> 0 \<longleftrightarrow> bit w 0" for w :: u16
  by (simp add: and_one_eq odd_iff_mod_2_eq_one bit_0)

lemma and_0x49_bits: "w AND 0x49 \<noteq> 0 \<longleftrightarrow> bit w 6 \<or> bit w 3 \<or> bit w 0" for w :: u16
proof -
  have "(0x49 :: u16) = push_bit 6 1 OR push_bit 3 1 OR 1" by simp
  then have "bit (0x49 :: u16) n \<longleftrightarrow> n = 6 \<or> n = 3 \<or> n = 0" for n
    by (simp only: bit_or_iff bit_push_bit_iff bit_1_iff) auto
  then have "bit (w AND 0x49) n \<longleftrightarrow> bit w n \<and> (n = 6 \<or> n = 3 \<or> n = 0)" for n by (simp add: bit_and_iff)
  then show ?thesis by (metis bit_0_eq bit_eqI bot_apply bot_bool_def)
qed

lemma exec_permission_iff: "exec_permission x me \<longleftrightarrow> may_execute x me"
  unfolding exec_permission_def may_execute_def Let_def and_1_bit and_0x49_bits by (auto simp: bit_simps)

lemma free_page_0: "free_page 0 s = Ret () s"
  by (simp add: free_page_def km_simps)

lemma exec_error1_empty: "exec_error1 (replicate MAX_ARG_PAGES 0) s = Ret () s"
proof -
  have "kfor xs (\<lambda>i. free_page ((replicate MAX_ARG_PAGES 0) ! i)) s = Ret () s" if "\<forall>i \<in> set xs. i < MAX_ARG_PAGES" for xs
    using that by (induction xs) (simp_all add: km_simps free_page_0)
  then show ?thesis by (simp add: exec_error1_def)
qed

lemma exec_error2_empty: "iput (Some i) s = Ret () t \<Longrightarrow> exec_error2 i (replicate MAX_ARG_PAGES 0) s = Ret () t"
  by (simp add: exec_error2_def kbind_app exec_error1_empty)

text \<open>Why a file \<open>i\<close> is refused, with the error, and the state after the file and its first block are given back.\<close>

inductive exec_refuses :: "'a fsys_scheme \<Rightarrow> nat \<Rightarrow> int \<Rightarrow> 'a fsys_scheme \<Rightarrow> bool" for s i where
  not_regular: "\<lbrakk>\<not> S_ISREG (i_mode (inode_table s ! i)); iput (Some i) s = Ret () t\<rbrakk> \<Longrightarrow> exec_refuses s i EACCES t"
| no_permission: "\<lbrakk>S_ISREG (i_mode y); \<not> may_execute y (cur s); y = inode_table s ! i; iput (Some i) s = Ret () t\<rbrakk> \<Longrightarrow> exec_refuses s i ENOEXEC t"
| unreadable: "\<lbrakk>S_ISREG (i_mode y); may_execute y (cur s); y = inode_table s ! i; bread (i_dev y) (ucast (i_zone y ! 0)) s = Ret None r;
    iput (Some i) r = Ret () t\<rbrakk> \<Longrightarrow> exec_refuses s i EACCES t"
| bad_program: "\<lbrakk>S_ISREG (i_mode y); may_execute y (cur s); y = inode_table s ! i; bread (i_dev y) (ucast (i_zone y ! 0)) s = Ret (Some bh) r; bh < length (buffers r);
    b = b_data (buffers r ! bh); \<not> (b ! 0 = 0x23 \<and> b ! 1 = 0x21); bad_header (get_exec b) (i_size y); brelse (Some bh) r = Ret () r';
    iput (Some i) r' = Ret () t\<rbrakk> \<Longrightarrow> exec_refuses s i ENOEXEC t"

lemma exec_load_refused:
  assumes "exec_refuses s i e t" and "i < length (inode_table s)" and "x_inode x = i" and "x_page x = replicate MAX_ARG_PAGES 0" and "\<not> x_bang x"
  shows "exec_load (Suc n) kbuf filename argv envp x s = Ret (x, Exec_error (- e)) t"
  using assms
proof cases
  case (bad_program y bh r b r')
  have "exec_error2 i (replicate MAX_ARG_PAGES 0) r' = Ret () t" using bad_program by (intro exec_error2_empty)
  then show ?thesis using bad_program assms(2-5) by (auto simp: km_simps ino_def buf_def exec_permission_iff Let_def)
qed (auto simp: km_simps ino_def exec_error2_empty exec_permission_iff Let_def)


text \<open>The root directory is not a program.\<close>

definition ex_root :: fsys where
  "ex_root = ex_fs\<lparr>inode_table := [zero_inode\<lparr>i_mode := 0x41ed, i_nlinks := 2, i_dev := RAMDISK, i_count := 1\<rparr>], user := (\<lambda>_. 0)(0x1000 := 47),
     task := (task ex_fs)[current ex_fs := map_option (\<lambda>x. x\<lparr>root := Some 0, pwd := Some 0\<rparr>) (task ex_fs ! current ex_fs)]\<rparr>"

lemma ex_root_simps [simp]:
  "inode_table ex_root = [zero_inode\<lparr>i_mode := 0x41ed, i_nlinks := 2, i_dev := RAMDISK, i_count := 1\<rparr>]" "user ex_root = (\<lambda>_. 0)(0x1000 := 47)"
  "root (cur ex_root) = Some 0" "pwd (cur ex_root) = Some 0" "euid (cur ex_root) = 0"
  by (simp_all add: ex_root_def ex_fs_def ex_blk_def ex_mm_def mm.defs blk.defs fsys.defs sched.defs boot_sched_def cur_def two_tasks_def INIT_TASK_def)


end
