(* ===== verification/Malloc.thy ===== *)
theory Malloc
  imports Memory
begin

text \<open>
  The kernel allocator \<open>lib/malloc.c\<close>. A page (bucket) holds objects of one size, a power of two from 16 to 4096; the free
  objects of a bucket form a list through their first long words; each bucket has a descriptor, and the descriptors of
  one size form a chain. Descriptors and free lists are in physical memory. Interrupts are off in the critical sections.
\<close>

section \<open>State\<close>

text \<open>
  \<open>struct bucket_desc\<close> is 16 bytes: \<open>page\<close>, \<open>next\<close>, \<open>freeptr\<close>, and \<open>refcnt\<close> and \<open>bucket_size\<close>, which share the last
  long word. \<open>bucket_dir\<close> pairs a size with the first descriptor of its chain; null pointers are 0.
\<close>

record kheap = mm +
  bucket_dir :: "(nat \<times> u32) list"
  free_bucket_desc :: u32

definition init_bucket_dir :: "(nat \<times> u32) list" where
  "init_bucket_dir = [(16, 0), (32, 0), (64, 0), (128, 0), (256, 0), (512, 0), (1024, 0), (2048, 0), (4096, 0), (0, 0)]"

definition bd_page :: "(u32 \<Rightarrow> u32) \<Rightarrow> u32 \<Rightarrow> u32" where "bd_page m d = m d"
definition bd_next :: "(u32 \<Rightarrow> u32) \<Rightarrow> u32 \<Rightarrow> u32" where "bd_next m d = m (d + 4)"
definition bd_free :: "(u32 \<Rightarrow> u32) \<Rightarrow> u32 \<Rightarrow> u32" where "bd_free m d = m (d + 8)"
definition bd_refcnt :: "(u32 \<Rightarrow> u32) \<Rightarrow> u32 \<Rightarrow> u16" where "bd_refcnt m d = ucast (m (d + 12))"

definition set_next :: "u32 \<Rightarrow> u32 \<Rightarrow> ('a mm_scheme, unit) km" where "set_next d v = poke (d + 4) v"
definition set_free :: "u32 \<Rightarrow> u32 \<Rightarrow> ('a mm_scheme, unit) km" where "set_free d v = poke (d + 8) v"

definition set_refcnt :: "u32 \<Rightarrow> u16 \<Rightarrow> ('a mm_scheme, unit) km" where
  "set_refcnt d v = kbind (peek (d + 12)) (\<lambda>w. poke (d + 12) ((w AND 0xffff0000) OR ucast v))"

definition set_bucket_size :: "u32 \<Rightarrow> u16 \<Rightarrow> ('a mm_scheme, unit) km" where
  "set_bucket_size d v = kbind (peek (d + 12)) (\<lambda>w. poke (d + 12) ((w AND 0xffff) OR push_bit 16 (ucast v)))"

definition set_chain :: "nat \<Rightarrow> u32 \<Rightarrow> ('a kheap_scheme, unit) km" where
  "set_chain i d = kmod (\<lambda>s. s\<lparr>bucket_dir := (bucket_dir s)[i := (fst (bucket_dir s ! i), d)]\<rparr>)"

section \<open>Allocation\<close>

text \<open>The loop that links \<open>n\<close> cells of \<open>size\<close> bytes, from \<open>a\<close> on; \<open>off\<close> is where a cell has its link. The result is the last cell.\<close>

fun link_cells :: "nat \<Rightarrow> u32 \<Rightarrow> u32 \<Rightarrow> u32 \<Rightarrow> ('a mm_scheme, u32) km" where
  "link_cells 0 sz off a = kreturn a"
| "link_cells (Suc n) sz off a = kseq (poke (a + off) (a + sz)) (link_cells n sz off (a + sz))"

definition init_bucket_desc :: "('a kheap_scheme, unit) km" where
  "init_bucket_desc =
     kbind get_free_page (\<lambda>first.
     if first = 0 then kstop (Panic ''Out of memory in init_bucket_desc()'')
     else kbind (link_cells (4096 div 16 - 1) 16 4 first) (\<lambda>bdesc.
       kbind (kget free_bucket_desc) (\<lambda>f.
       kseq (set_next bdesc f) (kmod (\<lambda>s. s\<lparr>free_bucket_desc := first\<rparr>)))))"

text \<open>The search of the directory: the index of the first entry that is large enough, or of the end marker.\<close>

fun find_dir :: "(nat \<times> u32) list \<Rightarrow> nat \<Rightarrow> nat option" where
  "find_dir [] len = None"
| "find_dir ((sz, d) # ds) len =
     (if sz = 0 then None else if sz \<ge> len then Some 0 else map_option Suc (find_dir ds len))"

text \<open>
  A walk along a chain to the first descriptor with \<open>P\<close>; \<open>prev\<close> is the one before. Every descriptor in use has a page frame of its
  own, so that a chain is not longer than \<open>PAGING_PAGES\<close>.
\<close>

fun chain_find :: "nat \<Rightarrow> ((u32 \<Rightarrow> u32) \<Rightarrow> u32 \<Rightarrow> bool) \<Rightarrow> u32 \<Rightarrow> u32 \<Rightarrow> ('a mm_scheme, u32 \<times> u32) km" where
  "chain_find 0 P prev d = kstop Diverges"
| "chain_find (Suc n) P prev d =
     (if d = 0 then kreturn (prev, 0)
      else kbind (kget phys) (\<lambda>m. if P m d then kreturn (prev, d) else chain_find n P d (bd_next m d)))"

abbreviation (input) CHAIN_FUEL :: nat where "CHAIN_FUEL \<equiv> Suc PAGING_PAGES"

definition new_bucket :: "nat \<Rightarrow> ('a kheap_scheme, u32) km" where
  "new_bucket i =
     kbind (kget (\<lambda>s. fst (bucket_dir s ! i))) (\<lambda>sz.
     kbind (kget free_bucket_desc) (\<lambda>f.
     kseq (kwhen (f = 0) init_bucket_desc)
     (kbind (kget free_bucket_desc) (\<lambda>bdesc.
      kbind (kget (\<lambda>s. bd_next (phys s) bdesc)) (\<lambda>nx.
      kseq (kmod (\<lambda>s. s\<lparr>free_bucket_desc := nx\<rparr>))
      (kseq (set_refcnt bdesc 0)
      (kseq (set_bucket_size bdesc (of_nat sz))
      (kbind get_free_page (\<lambda>cp.
       kseq (set_free bdesc cp)
       (kseq (poke bdesc cp)
       (if cp = 0 then kstop (Panic ''Out of memory in kernel malloc()'')
        else kbind (link_cells (4096 div sz - 1) (of_nat sz) 0 cp) (\<lambda>last.
          kseq (poke last 0)
          (kbind (kget (\<lambda>s. snd (bucket_dir s ! i))) (\<lambda>c.
           kseq (set_next bdesc c) (kseq (set_chain i bdesc) (kreturn bdesc))))))))))))))))"

definition malloc :: "nat \<Rightarrow> ('a kheap_scheme, u32) km" where
  "malloc len =
     kbind (kget (\<lambda>s. find_dir (bucket_dir s) len)) (\<lambda>q.
     case q of None \<Rightarrow> kstop (Panic ''malloc: bad arg'')
     | Some i \<Rightarrow>
       kbind (kget (\<lambda>s. snd (bucket_dir s ! i))) (\<lambda>c.
       kbind (chain_find CHAIN_FUEL (\<lambda>m d. bd_free m d \<noteq> 0) 0 c) (\<lambda>(_, d).
       kbind (if d = 0 then new_bucket i else kreturn d) (\<lambda>bdesc.
       kbind (kget (\<lambda>s. bd_free (phys s) bdesc)) (\<lambda>retval.
       kbind (peek retval) (\<lambda>nx.
       kseq (set_free bdesc nx)
       (kbind (kget (\<lambda>s. bd_refcnt (phys s) bdesc)) (\<lambda>r.
        kseq (set_refcnt bdesc (r + 1)) (kreturn retval)))))))))"

section \<open>Release\<close>

text \<open>The search for the bucket of a page: the index in the directory, the descriptor and the one before it.\<close>

fun find_bucket :: "nat list \<Rightarrow> int \<Rightarrow> u32 \<Rightarrow> ('a kheap_scheme, (nat \<times> u32 \<times> u32) option) km" where
  "find_bucket [] sz page = kreturn None"
| "find_bucket (i # is) sz page =
     kbind (kget (\<lambda>s. bucket_dir s ! i)) (\<lambda>(dsz, c).
     if dsz = 0 then kreturn None
     else if int dsz < sz then find_bucket is sz page
     else kbind (chain_find CHAIN_FUEL (\<lambda>m d. bd_page m d = page) 0 c) (\<lambda>(prev, d).
       if d \<noteq> 0 then kreturn (Some (i, prev, d)) else find_bucket is sz page))"

definition unlink_bucket :: "nat \<Rightarrow> u32 \<Rightarrow> u32 \<Rightarrow> ('a kheap_scheme, unit) km" where
  "unlink_bucket i prev bdesc =
     kbind (kget (\<lambda>s. snd (bucket_dir s ! i))) (\<lambda>c.
     kbind (kget (\<lambda>s. bd_next (phys s) prev)) (\<lambda>pn.
     kbind (if (prev \<noteq> 0 \<and> pn \<noteq> bdesc) \<or> (prev = 0 \<and> c \<noteq> bdesc)
            then kbind (chain_find CHAIN_FUEL (\<lambda>m d. bd_next m d = bdesc) 0 c) (\<lambda>(_, d). kreturn d) else kreturn prev) (\<lambda>prev.
     kbind (kget (\<lambda>s. bd_next (phys s) bdesc)) (\<lambda>nx.
     if prev \<noteq> 0 then set_next prev nx
     else if c \<noteq> bdesc then kstop (Panic ''malloc bucket chains corrupted'')
     else set_chain i nx))))"

definition free_s :: "u32 \<Rightarrow> int \<Rightarrow> ('a kheap_scheme, unit) km" where
  "free_s obj sz =
     kbind (kget (\<lambda>s. length (bucket_dir s))) (\<lambda>n.
     kbind (find_bucket [0..<n] sz (page_of obj)) (\<lambda>q.
     case q of None \<Rightarrow> kstop (Panic ''Bad address passed to kernel free_s()'')
     | Some (i, prev, bdesc) \<Rightarrow>
       kbind (kget (\<lambda>s. bd_free (phys s) bdesc)) (\<lambda>f.
       kseq (poke obj f)
       (kseq (set_free bdesc obj)
       (kbind (kget (\<lambda>s. bd_refcnt (phys s) bdesc)) (\<lambda>r.
        kseq (set_refcnt bdesc (r - 1))
        (kwhen (r - 1 = 0)
          (kseq (unlink_bucket i prev bdesc)
          (kbind (kget (\<lambda>s. bd_page (phys s) bdesc)) (\<lambda>p.
           kseq (free_page p)
           (kbind (kget free_bucket_desc) (\<lambda>f.
            kseq (set_next bdesc f) (kmod (\<lambda>s. s\<lparr>free_bucket_desc := bdesc\<rparr>))))))))))))))"

end
