(* ===== verification/Hd.thy ===== *)
theory Hd
  imports Super
begin

text \<open>
  The hard disk driver \<open>kernel/blk_drv/hd.c\<close>. It works on the queue of requests of major number 3: \<open>do_hd_request\<close>
  programs the controller for the request in front and sets \<open>do_hd\<close> to the routine that the next interrupt calls.

  The controller is an input of the model: \<open>hd_in\<close> are the bytes that successive reads of its status and error ports return,
  \<open>hd_din\<close> those of its data port; \<open>hd_dout\<close> are the bytes written to the data port.
\<close>

section \<open>State\<close>

record hd_i_struct =
  hi_head :: u32
  hi_sect :: u32
  hi_cyl :: u32
  hi_wpcom :: u32
  hi_lzone :: u32
  hi_ctl :: u32

datatype hd_handler = READ_INTR | WRITE_INTR | RECAL_INTR

text \<open>
  \<open>hd_part\<close> is the array \<open>hd\<close> of pairs \<open>start_sect\<close>, \<open>nr_sects\<close>. \<open>hd_boff\<close> is how far \<open>CURRENT->buffer\<close> has moved from the
  start of the data of its buffer: only the request in front moves, and \<open>end_request\<close> takes it from the queue.
\<close>

record hdk = fsys +
  hd_recalibrate :: bool
  hd_reset :: bool
  hd_info :: "hd_i_struct list"
  NR_HD :: nat
  hd_part :: "(u32 \<times> u32) list"
  hd_callable :: bool
  do_hd :: "hd_handler option"
  hd_boff :: nat
  hd_in :: "nat \<Rightarrow> u8"
  hd_in_pos :: nat
  hd_din :: "nat \<Rightarrow> u8"
  hd_din_pos :: nat
  hd_dout :: "u8 list"

abbreviation (input) HD_DATA :: u16 where "HD_DATA \<equiv> 0x1f0"
abbreviation (input) HD_CMD :: u16 where "HD_CMD \<equiv> 0x3f6"
abbreviation (input) HD_MAX_ERRORS :: nat where "HD_MAX_ERRORS \<equiv> 7"
abbreviation (input) WIN_RESTORE :: u8 where "WIN_RESTORE \<equiv> 0x10"
abbreviation (input) WIN_READ :: u8 where "WIN_READ \<equiv> 0x20"
abbreviation (input) WIN_WRITE :: u8 where "WIN_WRITE \<equiv> 0x30"
abbreviation (input) WIN_SPECIFY :: u8 where "WIN_SPECIFY \<equiv> 0x91"

definition hd_inb :: "('a hdk_scheme, u8) km" where
  "hd_inb = kbind (kget (\<lambda>s. hd_in s (hd_in_pos s))) (\<lambda>v. kseq (kmod (\<lambda>s. s\<lparr>hd_in_pos := hd_in_pos s + 1\<rparr>)) (kreturn v))"

text \<open>A loop that reads the status up to \<open>n\<close> times until it satisfies \<open>P\<close>.\<close>

fun hd_poll :: "nat \<Rightarrow> (u8 \<Rightarrow> bool) \<Rightarrow> ('a hdk_scheme, bool) km" where
  "hd_poll 0 P = kreturn False"
| "hd_poll (Suc n) P = kbind hd_inb (\<lambda>v. if P v then kreturn True else hd_poll n P)"

text \<open>The request in front and its buffer; \<open>port_read\<close> and \<open>port_write\<close> of 256 words at \<open>CURRENT->buffer\<close>.\<close>

definition hd_current :: "('a hdk_scheme, nat) km" where
  "hd_current = kbind (kget (\<lambda>s. current_request s ! 3)) (the_ptr ''CURRENT'')"

definition hd_buffer :: "('a hdk_scheme, nat \<times> nat) km" where
  "hd_buffer = kbind hd_current (\<lambda>r. kbind (req r) (\<lambda>x. kbind (the_ptr ''CURRENT->bh'' (rq_bh x)) (\<lambda>bh.
     kbind (kget hd_boff) (\<lambda>off. if off + 512 > BLOCK_SIZE then kstop (Fault ''CURRENT->buffer'') else kreturn (bh, off)))))"

definition port_read :: "('a hdk_scheme, unit) km" where
  "port_read =
     kbind hd_buffer (\<lambda>(bh, off).
     kbind (kget (\<lambda>s. map (\<lambda>k. hd_din s (hd_din_pos s + k)) [0..<512])) (\<lambda>d.
     kseq (kmod (\<lambda>s. s\<lparr>hd_din_pos := hd_din_pos s + 512\<rparr>))
     (upd_buf bh (\<lambda>b. b\<lparr>b_data := take off (b_data b) @ d @ drop (off + 512) (b_data b)\<rparr>))))"

definition port_write :: "('a hdk_scheme, unit) km" where
  "port_write =
     kbind hd_buffer (\<lambda>(bh, off).
     kbind (buf bh) (\<lambda>b. kmod (\<lambda>s. s\<lparr>hd_dout := hd_dout s @ take 512 (drop off (b_data b))\<rparr>)))"

definition hd_end_request :: "bool \<Rightarrow> ('a hdk_scheme, unit) km" where
  "hd_end_request uptodate = kseq (end_request 3 uptodate) (kmod (\<lambda>s. s\<lparr>hd_boff := 0\<rparr>))"

section \<open>The controller\<close>

definition controller_ready :: "('a hdk_scheme, bool) km" where
  "controller_ready = hd_poll 9999 (\<lambda>v. v AND 0xc0 = 0x40)"

text \<open>\<open>win_result\<close> is true when the controller reports an error.\<close>

definition win_result :: "('a hdk_scheme, bool) km" where
  "win_result =
     kbind hd_inb (\<lambda>i.
     if i AND (0x80 OR 0x40 OR 0x20 OR 0x10 OR 0x01) = (0x40 OR 0x10) then kreturn False
     else kseq (kwhen (i AND 1 \<noteq> 0) (kbind hd_inb (\<lambda>_. kreturn ()))) (kreturn True))"

definition hd_drive :: "nat \<Rightarrow> ('a hdk_scheme, hd_i_struct) km" where
  "hd_drive nr = (\<lambda>s. if nr < length (hd_info s) then Ret (hd_info s ! nr) s else Stop (Fault ''hd_info'') s)"

definition hd_out :: "nat \<Rightarrow> u32 \<Rightarrow> u32 \<Rightarrow> u32 \<Rightarrow> u32 \<Rightarrow> u8 \<Rightarrow> hd_handler \<Rightarrow> ('a hdk_scheme, unit) km" where
  "hd_out drive nsect sect hea cyl cmd intr_addr =
     (if drive > 1 \<or> hea > 15 then kstop (Panic ''Trying to write bad sector'')
      else kbind controller_ready (\<lambda>ok.
        if \<not> ok then kstop (Panic ''HD controller not ready'')
        else kseq (kmod (\<lambda>s. s\<lparr>do_hd := Some intr_addr\<rparr>))
          (kbind (hd_drive drive) (\<lambda>h.
           kmod (fold (\<lambda>(v, p). outb v p)
             [(ucast (hi_ctl h), HD_CMD), (ucast (drop_bit 2 (hi_wpcom h)), HD_DATA + 1), (ucast nsect, HD_DATA + 2), (ucast sect, HD_DATA + 3),
              (ucast cyl, HD_DATA + 4), (ucast (drop_bit 8 cyl), HD_DATA + 5), (0xA0 OR push_bit 4 (of_nat drive) OR ucast hea, HD_DATA + 6),
              (cmd, HD_DATA + 7)])))))"

definition drive_busy :: "('a hdk_scheme, bool) km" where
  "drive_busy =
     kbind (hd_poll 10000 (\<lambda>v. v AND (0x80 OR 0x40) = 0x40)) (\<lambda>_.
     kbind hd_inb (\<lambda>i. kreturn (i AND (0x80 OR 0x40 OR 0x10) \<noteq> (0x40 OR 0x10))))"

definition reset_controller :: "('a hdk_scheme, unit) km" where
  "reset_controller =
     kbind (hd_drive 0) (\<lambda>h.
     kseq (kmod (\<lambda>s. outb (ucast (hi_ctl h) AND 0x0f) HD_CMD (outb 4 HD_CMD s)))
     (kbind drive_busy (\<lambda>_. kbind hd_inb (\<lambda>_. kreturn ()))))"

definition reset_hd :: "nat \<Rightarrow> ('a hdk_scheme, unit) km" where
  "reset_hd nr =
     kseq reset_controller
     (kbind (hd_drive nr) (\<lambda>h. hd_out nr (hi_sect h) (hi_sect h) (hi_head h - 1) (hi_cyl h) WIN_SPECIFY RECAL_INTR))"

section \<open>Requests and interrupts\<close>

text \<open>After \<open>end_request\<close> the code looks at the errors of the next request; there may be none.\<close>

definition bad_rw_intr :: "('a hdk_scheme, unit) km" where
  "bad_rw_intr =
     kbind hd_current (\<lambda>r.
     kseq (upd_req r (\<lambda>x. x\<lparr>rq_errors := rq_errors x + 1\<rparr>))
     (kbind (req r) (\<lambda>x.
      kseq (kwhen (rq_errors x \<ge> HD_MAX_ERRORS) (hd_end_request False))
      (kbind hd_current (\<lambda>r. kbind (req r) (\<lambda>x.
       kmod (\<lambda>s. if rq_errors x > HD_MAX_ERRORS div 2 then s\<lparr>hd_reset := True\<rparr> else s)))))))"

definition divl :: "u32 \<Rightarrow> u32 \<Rightarrow> ('s, u32 \<times> u32) km" where
  "divl a b = (if b = 0 then kstop (Fault ''divl'') else kreturn (a div b, a mod b))"

text \<open>
  The part of \<open>do_hd_request\<close> after \<open>INIT_REQUEST\<close>, on the request \<open>x\<close>; the result says whether to repeat.
\<close>

definition do_hd_one :: "request \<Rightarrow> ('a hdk_scheme, bool) km" where
  "do_hd_one x =
     kbind (kget (\<lambda>s. (NR_HD s, hd_part s))) (\<lambda>(n, part).
     let minor = nat (rq_minor x); block = rq_sector x
     in if minor \<ge> 5 * n \<or> block + 2 > snd (part ! minor) then kseq (hd_end_request False) (kreturn True)
        else let block = block + fst (part ! minor); dev = minor div 5
          in kbind (hd_drive dev) (\<lambda>h.
             kbind (divl block (hi_sect h)) (\<lambda>(block, sec).
             kbind (divl block (hi_head h)) (\<lambda>(cyl, hea).
             let sec = sec + 1; nsect = rq_nr_sectors x
             in kbind (kget (\<lambda>s. (hd_reset s, hd_recalibrate s))) (\<lambda>(rs, rc).
                if rs then kseq (kmod (\<lambda>s. s\<lparr>hd_reset := False, hd_recalibrate := True\<rparr>)) (kseq (reset_hd dev) (kreturn False))
                else if rc then kseq (kmod (\<lambda>s. s\<lparr>hd_recalibrate := False\<rparr>))
                  (kseq (hd_out dev (hi_sect h) 0 0 0 WIN_RESTORE RECAL_INTR) (kreturn False))
                else if rq_cmd x = WRITE then
                  kseq (hd_out dev nsect sec hea cyl WIN_WRITE WRITE_INTR)
                  (kbind (hd_poll 3000 (\<lambda>v. v AND 0x08 \<noteq> 0)) (\<lambda>drq.
                   if \<not> drq then kseq bad_rw_intr (kreturn True) else kseq port_write (kreturn False)))
                else if rq_cmd x = READ then kseq (hd_out dev nsect sec hea cyl WIN_READ READ_INTR) (kreturn False)
                else kstop (Panic ''unknown hd-command''))))))"

text \<open>
  A repetition follows the end of a request or an error of the one in front, which ends after 7 errors.
\<close>

fun do_hd_loop :: "nat \<Rightarrow> ('a hdk_scheme, unit) km" where
  "do_hd_loop 0 = kstop Diverges"
| "do_hd_loop (Suc n) =
     kbind (kget (\<lambda>s. current_request s ! 3)) (\<lambda>c.
     case c of None \<Rightarrow> kreturn ()
     | Some r \<Rightarrow> kbind (req r) (\<lambda>x.
         if rq_major x \<noteq> 3 then kstop (Panic ''harddisk: request list destroyed'')
         else kbind (case rq_bh x of None \<Rightarrow> kreturn 1 | Some bh \<Rightarrow> kbind (buf bh) (\<lambda>b. kreturn (b_lock b))) (\<lambda>lock.
           if lock = 0 then kstop (Panic ''harddisk: block not locked'')
           else kbind (do_hd_one x) (\<lambda>again. if again then do_hd_loop n else kreturn ()))))"

definition do_hd_request :: "('a hdk_scheme, unit) km" where
  "do_hd_request = do_hd_loop (HD_MAX_ERRORS * NR_REQUEST + 1)"

definition read_intr :: "('a hdk_scheme, unit) km" where
  "read_intr =
     kbind win_result (\<lambda>bad.
     if bad then kseq bad_rw_intr do_hd_request
     else kseq port_read
       (kbind hd_current (\<lambda>r.
        kseq (upd_req r (\<lambda>x. x\<lparr>rq_errors := 0, rq_sector := rq_sector x + 1, rq_nr_sectors := rq_nr_sectors x - 1\<rparr>))
        (kseq (kmod (\<lambda>s. s\<lparr>hd_boff := hd_boff s + 512\<rparr>))
        (kbind (req r) (\<lambda>x.
         if rq_nr_sectors x \<noteq> 0 then kmod (\<lambda>s. s\<lparr>do_hd := Some READ_INTR\<rparr>)
         else kseq (hd_end_request True) do_hd_request))))))"

definition write_intr :: "('a hdk_scheme, unit) km" where
  "write_intr =
     kbind win_result (\<lambda>bad.
     if bad then kseq bad_rw_intr do_hd_request
     else kbind hd_current (\<lambda>r.
       kseq (upd_req r (\<lambda>x. x\<lparr>rq_nr_sectors := rq_nr_sectors x - 1\<rparr>))
       (kbind (req r) (\<lambda>x.
        if rq_nr_sectors x \<noteq> 0
        then kseq (upd_req r (\<lambda>x. x\<lparr>rq_sector := rq_sector x + 1\<rparr>))
          (kseq (kmod (\<lambda>s. s\<lparr>hd_boff := hd_boff s + 512, do_hd := Some WRITE_INTR\<rparr>)) port_write)
        else kseq (hd_end_request True) do_hd_request))))"

definition recal_intr :: "('a hdk_scheme, unit) km" where
  "recal_intr = kbind win_result (\<lambda>bad. kseq (kwhen bad bad_rw_intr) do_hd_request)"

text \<open>The interrupt: \<open>hd_interrupt\<close> takes the routine out of \<open>do_hd\<close> and calls it.\<close>

definition hd_interrupt :: "('a hdk_scheme, unit) km" where
  "hd_interrupt =
     kbind (kget do_hd) (\<lambda>h.
     kseq (kmod (\<lambda>s. outb 0x20 0x20 ((outb 0x20 0xA0 s)\<lparr>do_hd := None\<rparr>)))
     (case h of None \<Rightarrow> kreturn () | Some READ_INTR \<Rightarrow> read_intr | Some WRITE_INTR \<Rightarrow> write_intr | Some RECAL_INTR \<Rightarrow> recal_intr))"

definition hd_init :: "(u16 \<Rightarrow> u8) \<Rightarrow> 'a hdk_scheme \<Rightarrow> 'a hdk_scheme" where
  "hd_init inb s = outb (inb 0xA1 AND 0xbf) 0xA1 (outb (inb 0x21 AND 0xfb) 0x21 (s\<lparr>request_fn := (request_fn s)[3 := True]\<rparr>))"

section \<open>Set-up\<close>

text \<open>The table of drive parameters that the BIOS left, 16 bytes for each drive.\<close>

definition bios_drive :: "u8 list \<Rightarrow> nat \<Rightarrow> hd_i_struct" where
  "bios_drive d drive = (let p = 16 * drive in
     \<lparr>hi_head = ucast (d ! (p + 2)), hi_sect = ucast (d ! (p + 14)), hi_cyl = ucast (rd16 d p), hi_wpcom = ucast (rd16 d (p + 5)),
      hi_lzone = ucast (rd16 d (p + 12)), hi_ctl = ucast (d ! (p + 8))\<rparr>)"

definition partition_entry :: "u8 list \<Rightarrow> nat \<Rightarrow> u32 \<times> u32" where
  "partition_entry d i = (let p = 0x1BE + 16 * (i - 1) in (rd32 d (p + 8), rd32 d (p + 12)))"

definition read_partitions :: "nat \<Rightarrow> ('a hdk_scheme, unit) km" where
  "read_partitions drive =
     kbind (bread (0x300 + of_nat drive * 5) 0) (\<lambda>q.
     case q of None \<Rightarrow> kstop (Panic [])
     | Some bh \<Rightarrow> kbind (buf bh) (\<lambda>b.
         if b_data b ! 510 \<noteq> 0x55 \<or> b_data b ! 511 \<noteq> 0xAA then kstop (Panic [])
         else kseq (kfor [1..<5] (\<lambda>i. kmod (\<lambda>s. s\<lparr>hd_part := (hd_part s)[i + 5 * drive := partition_entry (b_data b) i]\<rparr>)))
           (brelse (Some bh))))"

text \<open>\<open>cmos\<close> is byte 0x12 of the CMOS memory.\<close>

definition sys_setup :: "u8 list \<Rightarrow> u8 \<Rightarrow> ('a hdk_scheme, int) km" where
  "sys_setup BIOS cmos =
     kbind (kget hd_callable) (\<lambda>ok.
     if \<not> ok then kreturn (-1)
     else let info = [bios_drive BIOS 0, bios_drive BIOS 1];
              n1 = (if hi_cyl (info ! 1) \<noteq> 0 then 2 else 1 :: nat);
              n2 = (if cmos AND 0xf0 \<noteq> 0 then (if cmos AND 0x0f \<noteq> 0 then 2 else 1) else 0 :: nat)
       in kseq (kmod (\<lambda>s. s\<lparr>hd_callable := False, hd_info := info\<rparr>))
          (kseq (kfor [0..<n1] (\<lambda>i. kmod (\<lambda>s. s\<lparr>hd_part := (hd_part s)[5 * i := (0, hi_head (info ! i) * hi_sect (info ! i) * hi_cyl (info ! i))]\<rparr>)))
          (kseq (kmod (\<lambda>s. outb (0x80 OR 0x12) 0x70 (s\<lparr>NR_HD := n2\<rparr>)))
          (kseq (kfor [n2..<2] (\<lambda>i. kmod (\<lambda>s. s\<lparr>hd_part := (hd_part s)[5 * i := (0, 0)]\<rparr>)))
          (kseq (kfor [0..<n2] read_partitions)
          (kseq rd_load (kbind mount_root (\<lambda>_. kreturn 0))))))))"

section \<open>Reading a block\<close>

lemma hd_inb_run: "hd_inb s = Ret (hd_in s (hd_in_pos s)) (s\<lparr>hd_in_pos := hd_in_pos s + 1\<rparr>)"
  by (simp add: hd_inb_def km_simps)

lemma hd_poll_now: "P (hd_in s (hd_in_pos s)) \<Longrightarrow> hd_poll (Suc n) P s = Ret True (s\<lparr>hd_in_pos := hd_in_pos s + 1\<rparr>)"
  by (simp add: km_simps hd_inb_run)

definition hd_ports :: "nat \<Rightarrow> hd_i_struct \<Rightarrow> u32 \<Rightarrow> u32 \<Rightarrow> u32 \<Rightarrow> u32 \<Rightarrow> u8 \<Rightarrow> (u16 \<times> u8) list" where
  "hd_ports drive h nsect sect hea cyl cmd =
     [(HD_CMD, ucast (hi_ctl h)), (HD_DATA + 1, ucast (drop_bit 2 (hi_wpcom h))), (HD_DATA + 2, ucast nsect), (HD_DATA + 3, ucast sect),
      (HD_DATA + 4, ucast cyl), (HD_DATA + 5, ucast (drop_bit 8 cyl)), (HD_DATA + 6, 0xA0 OR push_bit 4 (of_nat drive) OR ucast hea), (HD_DATA + 7, cmd)]"

lemma hd_out_run:
  assumes "drive \<le> 1" and "hea \<le> 15" and "hd_in s (hd_in_pos s) AND 0xc0 = 0x40" and "drive < length (hd_info s)"
  shows "hd_out drive nsect sect hea cyl cmd intr s =
    Ret () (s\<lparr>hd_in_pos := hd_in_pos s + 1, do_hd := Some intr, ports := ports s @ hd_ports drive (hd_info s ! drive) nsect sect hea cyl cmd\<rparr>)"
proof -
  have "controller_ready s = Ret True (s\<lparr>hd_in_pos := hd_in_pos s + 1\<rparr>)"
    unfolding controller_ready_def using hd_poll_now [of "\<lambda>v. v AND 0xc0 = 0x40" s 9998] assms(3) by simp
  then show ?thesis using assms(1,2,4)
    by (simp add: hd_out_def km_simps hd_drive_def outb_def hd_ports_def not_less)
qed

lemma do_hd_request_Suc: "do_hd_request = do_hd_loop (Suc 224)"
  by (simp add: do_hd_request_def)

lemma do_hd_idle: "current_request s ! 3 = None \<Longrightarrow> do_hd_request s = Ret () s"
  unfolding do_hd_request_Suc do_hd_loop.simps by (simp add: km_simps)

text \<open>A request to read that the driver can start at once: it is alone in the queue, and the drive needs no reset.\<close>

definition hd_ready_read :: "nat \<Rightarrow> nat \<Rightarrow> 'a hdk_scheme \<Rightarrow> bool" where
  "hd_ready_read r bh s \<longleftrightarrow> length (current_request s) = 7 \<and> current_request s ! 3 = Some r \<and> r < length (request s) \<and> bh < length (buffers s) \<and>
     rq_major (request s ! r) = 3 \<and> rq_cmd (request s ! r) = READ \<and> rq_nr_sectors (request s ! r) = 2 \<and>
     rq_bh (request s ! r) = Some bh \<and> rq_next (request s ! r) = None \<and> b_lock (buffers s ! bh) \<noteq> 0 \<and> length (b_data (buffers s ! bh)) = BLOCK_SIZE \<and>
     \<not> hd_reset s \<and> \<not> hd_recalibrate s \<and> hd_boff s = 0"

definition hd_minor :: "nat \<Rightarrow> 'a hdk_scheme \<Rightarrow> nat" where
  "hd_minor r s = nat (rq_minor (request s ! r))"

lemma do_hd_read_run:
  assumes "hd_ready_read r bh s" and "hd_minor r s < 5 * NR_HD s" and "NR_HD s \<le> 2" and "length (hd_info s) = 2"
    and "\<not> rq_sector (request s ! r) + 2 > snd (hd_part s ! hd_minor r s)" and "h = hd_info s ! (hd_minor r s div 5)" and "hi_sect h \<noteq> 0" and "hi_head h \<noteq> 0"
    and "hi_head h \<le> 16" and "hd_in s (hd_in_pos s) AND 0xc0 = 0x40" and "b = rq_sector (request s ! r) + fst (hd_part s ! hd_minor r s)"
  shows "do_hd_request s = Ret () (s\<lparr>hd_in_pos := hd_in_pos s + 1, do_hd := Some READ_INTR, ports := ports s @
     hd_ports (hd_minor r s div 5) h 2 (b mod hi_sect h + 1) (b div hi_sect h mod hi_head h) (b div hi_sect h div hi_head h) WIN_READ\<rparr>)"
proof -
  have d: "hd_minor r s div 5 \<le> 1" using assms(2,3) by linarith
  have "b div hi_sect h mod hi_head h < hi_head h" using assms(8) by (simp add: word_gt_0 word_mod_less_divisor)
  then have hea: "b div hi_sect h mod hi_head h \<le> 15" using assms(9) by (simp add: word_less_nat_alt word_le_nat_alt)
  note out = hd_out_run [of "hd_minor r s div 5" "b div hi_sect h mod hi_head h" s 2 "b mod hi_sect h + 1" "b div hi_sect h div hi_head h" WIN_READ READ_INTR, OF d hea assms(10)]
  show ?thesis using assms d out unfolding do_hd_request_Suc do_hd_loop.simps
    by (simp add: km_simps hd_ready_read_def req_def buf_def do_hd_one_def hd_minor_def Let_def hd_drive_def divl_def)
qed


lemma win_result_ok: "hd_in s (hd_in_pos s) AND 0xf1 = 0x50 \<Longrightarrow> win_result s = Ret False (s\<lparr>hd_in_pos := hd_in_pos s + 1\<rparr>)"
  by (simp add: win_result_def km_simps hd_inb_run)

text \<open>The state after half a block has been read.\<close>

definition hd_half :: "nat \<Rightarrow> nat \<Rightarrow> 'a hdk_scheme \<Rightarrow> 'a hdk_scheme" where
  "hd_half r bh s =
     (let d = map (\<lambda>k. hd_din s (hd_din_pos s + k)) [0..<512]; off = hd_boff s
      in s\<lparr>hd_in_pos := hd_in_pos s + 1, hd_din_pos := hd_din_pos s + 512,
           buffers := (buffers s)[bh := (buffers s ! bh)\<lparr>b_data := take off (b_data (buffers s ! bh)) @ d @ drop (off + 512) (b_data (buffers s ! bh))\<rparr>],
           request := (request s)[r := (request s ! r)\<lparr>rq_errors := 0, rq_sector := rq_sector (request s ! r) + 1,
             rq_nr_sectors := rq_nr_sectors (request s ! r) - 1\<rparr>], hd_boff := off + 512\<rparr>)"

lemma read_intr_run:
  assumes "current_request s ! 3 = Some r" and "r < length (request s)" and "rq_bh (request s ! r) = Some bh" and "bh < length (buffers s)"
    and "hd_boff s + 512 \<le> BLOCK_SIZE" and "hd_in s (hd_in_pos s) AND 0xf1 = 0x50"
  shows "read_intr s = (if rq_nr_sectors (request s ! r) - 1 \<noteq> 0 then Ret () ((hd_half r bh s)\<lparr>do_hd := Some READ_INTR\<rparr>)
    else kseq (hd_end_request True) do_hd_request (hd_half r bh s))"
  using assms(1-5)
  by (simp add: read_intr_def kbind_app win_result_ok [OF assms(6)])
    (simp add: km_simps port_read_def hd_buffer_def hd_current_def the_ptr_def req_def upd_req_def upd_buf_def hd_half_def Let_def)

definition hd_ended :: "nat \<Rightarrow> nat \<Rightarrow> 'a hdk_scheme \<Rightarrow> 'a hdk_scheme \<Rightarrow> bool" where
  "hd_ended r bh s t \<longleftrightarrow> b_data (buffers t ! bh) = b_data (buffers s ! bh) \<and> b_uptodate (buffers t ! bh) = 1 \<and> b_lock (buffers t ! bh) = 0 \<and>
     rq_dev (request t ! r) = -1 \<and> current_request t ! 3 = rq_next (request s ! r) \<and> hd_boff t = 0"

lemma wake_up_same [simp]:
  "buffers (snd (wake_up q s)) = buffers s" "request (snd (wake_up q s)) = request s" "current_request (snd (wake_up q s)) = current_request s"
  "wait_for_request (snd (wake_up q s)) = wait_for_request s"
  for s :: "'a hdk_scheme"
  by (simp_all add: wake_up_def upd_task_def split: option.split)

lemma hd_end_request_run:
  assumes "length (current_request s) = 7" and "current_request s ! 3 = Some r" and "r < length (request s)" and "rq_bh (request s ! r) = Some bh"
    and "bh < length (buffers s)"
  shows "\<exists>t. hd_end_request True s = Ret () t \<and> hd_ended r bh s t"
  using assms
  by (simp add: hd_end_request_def end_request_def unlock_buffer_def wake_wait_def km_simps the_ptr_def req_def upd_req_def buf_def upd_buf_def
    set_current_def hd_ended_def)


text \<open>
  C21: a block is read from the hard disk. For a request to read a block that lies in its partition, on a drive whose controller is
  ready and answers both interrupts without an error, \<open>do_hd_request\<close> sends the controller a read command for two sectors, whose
  cylinder, head and sector are those of the sector number in the partition; the first interrupt
  stores the first half of the block, and the second one the other half, after which the buffer is up to date and unlocked, the request is free and the
  queue is empty.
\<close>

theorem hd_read_block:
  assumes "hd_ready_read r bh s" and "hd_minor r s < 5 * NR_HD s" and "NR_HD s \<le> 2" and "length (hd_info s) = 2"
    and "unat (rq_sector (request s ! r)) + 2 \<le> unat (snd (hd_part s ! hd_minor r s))"
    and "unat (rq_sector (request s ! r)) + unat (fst (hd_part s ! hd_minor r s)) < 2 ^ 32"
    and "h = hd_info s ! (hd_minor r s div 5)" and "0 < hi_sect h" and "0 < hi_head h" and "hi_head h \<le> 16"
    and "hd_in s (hd_in_pos s) AND 0xc0 = 0x40" and "hd_in s (hd_in_pos s + 1) AND 0xf1 = 0x50" and "hd_in s (hd_in_pos s + 2) AND 0xf1 = 0x50"
  shows "\<exists>s1 s2 s3 sec hea cyl. do_hd_request s = Ret () s1 \<and> hd_interrupt s1 = Ret () s2 \<and> hd_interrupt s2 = Ret () s3 \<and>
    ports s1 = ports s @ hd_ports (hd_minor r s div 5) h 2 sec hea cyl WIN_READ \<and>
    (unat cyl * unat (hi_head h) + unat hea) * unat (hi_sect h) + (unat sec - 1) =
      unat (fst (hd_part s ! hd_minor r s)) + unat (rq_sector (request s ! r)) \<and>
    1 \<le> unat sec \<and> unat sec \<le> unat (hi_sect h) \<and> unat hea < unat (hi_head h) \<and>
    b_data (buffers s3 ! bh) = map (\<lambda>k. hd_din s (hd_din_pos s + k)) [0..<BLOCK_SIZE] \<and> b_uptodate (buffers s3 ! bh) = 1 \<and>
    b_lock (buffers s3 ! bh) = 0 \<and> rq_dev (request s3 ! r) = -1 \<and> current_request s3 ! 3 = None"
proof -
  let ?x = "request s ! r" and ?p = "hd_part s ! hd_minor r s"
  define b where "b = rq_sector ?x + fst ?p"
  have ub: "unat b = unat (rq_sector ?x) + unat (fst ?p)" using assms(6) by (simp add: b_def unat_word_ariths)
  have nw: "unat (rq_sector ?x + 2) = unat (rq_sector ?x) + 2" using assms(5) unat32_less [of "snd ?p"] by (simp add: unat_word_ariths)
  then have inp: "\<not> rq_sector ?x + 2 > snd ?p" using assms(5) by (simp add: word_less_nat_alt)
  let ?sec = "b mod hi_sect h + 1" and ?hea = "b div hi_sect h mod hi_head h" and ?cyl = "b div hi_sect h div hi_head h"
  define s1 where "s1 = s\<lparr>hd_in_pos := hd_in_pos s + 1, do_hd := Some READ_INTR, ports := ports s @ hd_ports (hd_minor r s div 5) h 2 ?sec ?hea ?cyl WIN_READ\<rparr>"
  have nz: "hi_sect h \<noteq> 0" "hi_head h \<noteq> 0" using assms(8,9) by auto
  have 1: "do_hd_request s = Ret () s1"
    unfolding s1_def by (rule do_hd_read_run [OF assms(1-4) inp assms(7) nz assms(10,11) b_def])
  have r: "length (current_request s) = 7" "current_request s ! 3 = Some r" "r < length (request s)" "bh < length (buffers s)" "rq_nr_sectors ?x = 2"
    "rq_bh ?x = Some bh" "rq_next ?x = None" "length (b_data (buffers s ! bh)) = BLOCK_SIZE" "hd_boff s = 0"
    using assms(1) by (simp_all add: hd_ready_read_def)
  define e1 where "e1 = outb 0x20 0x20 ((outb 0x20 0xA0 s1)\<lparr>do_hd := None\<rparr>)"
  define s2 where "s2 = (hd_half r bh e1)\<lparr>do_hd := Some READ_INTR\<rparr>"
  have e1: "current_request e1 = current_request s" "request e1 = request s" "buffers e1 = buffers s" "hd_boff e1 = hd_boff s"
    "hd_in e1 = hd_in s" "hd_in_pos e1 = hd_in_pos s + 1" "hd_din e1 = hd_din s" "hd_din_pos e1 = hd_din_pos s"
    by (simp_all add: e1_def outb_def s1_def)
  have 2: "hd_interrupt s1 = Ret () s2"
    using read_intr_run [of e1 r bh] r assms(12) by (simp add: hd_interrupt_def km_simps s1_def [symmetric] e1_def [symmetric] e1 s2_def) (simp add: s1_def)
  define e2 where "e2 = outb 0x20 0x20 ((outb 0x20 0xA0 s2)\<lparr>do_hd := None\<rparr>)"
  define s2' where "s2' = hd_half r bh e2"
  let ?d = "\<lambda>n. map (\<lambda>k. hd_din s (hd_din_pos s + n + k)) [0..<512]"
  have e2: "current_request e2 = current_request s" "request e2 = request (hd_half r bh e1)" "buffers e2 = buffers (hd_half r bh e1)" "hd_boff e2 = 512"
    "hd_in e2 = hd_in s" "hd_in_pos e2 = hd_in_pos s + 2" "hd_din e2 = hd_din s" "hd_din_pos e2 = hd_din_pos s + 512"
    by (simp_all add: e2_def outb_def s2_def hd_half_def Let_def e1 r(9))
  have h1: "length (request e2) = length (request s)" "length (buffers e2) = length (buffers s)" "rq_bh (request e2 ! r) = Some bh" "rq_nr_sectors (request e2 ! r) = 1"
    "rq_next (request e2 ! r) = None" "b_data (buffers e2 ! bh) = ?d 0 @ drop 512 (b_data (buffers s ! bh))"
    using r by (simp_all add: e2 hd_half_def Let_def e1)
  have h2: "length (current_request s2') = 7" "current_request s2' ! 3 = Some r" "r < length (request s2')" "rq_bh (request s2' ! r) = Some bh"
    "bh < length (buffers s2')" "rq_next (request s2' ! r) = None" "b_data (buffers s2' ! bh) = ?d 0 @ ?d 512"
    using r h1 by (simp_all add: s2'_def hd_half_def Let_def e2(1,4,7,8))
  obtain s3 where s3: "hd_end_request True s2' = Ret () s3" "hd_ended r bh s2' s3" using hd_end_request_run [OF h2(1-5)] by blast
  have none: "current_request s3 ! 3 = None" using s3(2) h2(6) by (simp add: hd_ended_def)
  have 3: "hd_interrupt s2 = Ret () s3"
    using read_intr_run [of e2 r bh] r h1 e2 assms(13) s3(1) do_hd_idle [OF none]
    by (simp add: hd_interrupt_def km_simps e2_def [symmetric] s2'_def [symmetric]) (simp add: s2_def)
  have dat: "?d 0 @ ?d 512 = map (\<lambda>k. hd_din s (hd_din_pos s + k)) [0..<BLOCK_SIZE]"
    by (rule nth_equalityI) (auto simp: nth_append add.assoc nth_upt)
  have sec: "unat ?sec = unat b mod unat (hi_sect h) + 1"
  proof -
    have "unat b mod unat (hi_sect h) < unat (hi_sect h)" using assms(8) by (simp add: word_less_nat_alt)
    then show ?thesis using unat32_less [of "hi_sect h"] by (simp add: unat_word_ariths unat_mod_distrib)
  qed
  have hea: "unat ?hea = unat b div unat (hi_sect h) mod unat (hi_head h)" "unat ?cyl = unat b div unat (hi_sect h) div unat (hi_head h)"
    by (simp_all add: unat_mod_distrib unat_div_distrib)
  have geo: "(unat ?cyl * unat (hi_head h) + unat ?hea) * unat (hi_sect h) + (unat ?sec - 1) = unat (fst ?p) + unat (rq_sector ?x)"
    "1 \<le> unat ?sec" "unat ?sec \<le> unat (hi_sect h)" "unat ?hea < unat (hi_head h)"
    unfolding sec hea using assms(8,9) ub by (simp_all add: div_mult_mod_eq word_less_nat_alt Suc_leI)
  show ?thesis using 1 2 3 geo s3(2) h2(6,7) dat
    by (intro exI [of _ s1] exI [of _ s2] exI [of _ s3] exI [of _ ?sec] exI [of _ ?hea] exI [of _ ?cyl]) (simp add: hd_ended_def s1_def)
qed

text \<open>A drive of four heads and 17 sectors a track, and a request for the sectors 200 and 201 of its first partition.\<close>

definition ex_hd :: hdk where
  "ex_hd = fsys.extend
     (ex_fs\<lparr>buffers := [(ex_buffer 0)\<lparr>b_lock := 1\<rparr>, ex_buffer 1], request := (replicate 32 (ex_request (-1) 0 0 None))[0 := ex_request 0x301 0 200 None],
        current_request := (replicate 7 None)[3 := Some 0]\<rparr>)
     (hdk.fields False False (replicate 2 \<lparr>hi_head = 4, hi_sect = 17, hi_cyl = 615, hi_wpcom = 300, hi_lzone = 615, hi_ctl = 8\<rparr>) 1
        ([(0, 41820), (1, 41819)] @ replicate 8 (0, 0)) True None 0 (\<lambda>_. 0x50) 0 of_nat 0 [])"

lemma ex_hd_simps [simp]:
  "buffers ex_hd = [(ex_buffer 0)\<lparr>b_lock := 1\<rparr>, ex_buffer 1]" "request ex_hd = (replicate 32 (ex_request (-1) 0 0 None))[0 := ex_request 0x301 0 200 None]"
  "current_request ex_hd = (replicate 7 None)[3 := Some 0]" "hd_reset ex_hd = False" "hd_recalibrate ex_hd = False" "hd_boff ex_hd = 0"
  "hd_info ex_hd = replicate 2 \<lparr>hi_head = 4, hi_sect = 17, hi_cyl = 615, hi_wpcom = 300, hi_lzone = 615, hi_ctl = 8\<rparr>" "NR_HD ex_hd = 1"
  "hd_part ex_hd = [(0, 41820), (1, 41819)] @ replicate 8 (0, 0)" "hd_in ex_hd = (\<lambda>_. 0x50)" "hd_din ex_hd = of_nat" "hd_din_pos ex_hd = 0"
  by (simp_all add: ex_hd_def fsys.defs hdk.defs)

theorem hd_read_block_witness:
  "\<exists>s1 s2 s3. do_hd_request ex_hd = Ret () s1 \<and> hd_interrupt s1 = Ret () s2 \<and> hd_interrupt s2 = Ret () s3 \<and>
    b_data (buffers s3 ! 0) = map of_nat [0..<1024] \<and> b_uptodate (buffers s3 ! 0) = 1"
proof -
  have "hd_ready_read 0 0 ex_hd" by (simp add: hd_ready_read_def ex_request_def ex_buffer_def rq_major_def)
  moreover have m: "hd_minor 0 ex_hd = 1" by (simp add: hd_minor_def rq_minor_def ex_request_def)
  ultimately show ?thesis
    using hd_read_block [of 0 0 ex_hd "hd_info ex_hd ! 0"] by (auto simp: ex_request_def)
qed

end
