(* ===== verification/Floppy.thy ===== *)
theory Floppy
  imports Super
begin

text \<open>
  The floppy disk driver \<open>kernel/blk_drv/floppy.c\<close>, with \<open>floppy_on\<close> of \<open>kernel/sched.c\<close>. It works on the queue of requests of major
  number 2. A request waits for the motor (a kernel timer calls \<open>floppy_on_interrupt\<close>), seeks when it has to
  (the interrupt calls \<open>seek_interrupt\<close>), and starts a transfer by DMA, whose interrupt calls \<open>rw_interrupt\<close>.

  The controller is an input of the model: \<open>fd_in\<close> are the bytes that successive reads of its ports return. \<open>addr\<close> gives the
  address of the data of a buffer (\<open>Some\<close>) and that of \<open>tmp_floppy_area\<close> (\<open>None\<close>). The data that the DMA controller moves are not part of the driver.
\<close>

section \<open>State\<close>

record floppy_struct =
  fl_size :: u32
  fl_sect :: u32
  fl_head :: u32
  fl_track :: u32
  fl_stretch :: nat
  fl_gap :: u8
  fl_rate :: u8
  fl_spec1 :: u8

definition fl :: "u32 \<Rightarrow> u32 \<Rightarrow> u32 \<Rightarrow> u32 \<Rightarrow> nat \<Rightarrow> u8 \<Rightarrow> u8 \<Rightarrow> u8 \<Rightarrow> floppy_struct" where
  "fl sz se he tr st ga ra sp = \<lparr>fl_size = sz, fl_sect = se, fl_head = he, fl_track = tr, fl_stretch = st, fl_gap = ga, fl_rate = ra, fl_spec1 = sp\<rparr>"

definition floppy_type :: "floppy_struct list" where
  "floppy_type =
     [fl 0 0 0 0 0 0x00 0x00 0x00, fl 720 9 2 40 0 0x2A 0x02 0xDF, fl 2400 15 2 80 0 0x1B 0x00 0xDF, fl 720 9 2 40 1 0x2A 0x02 0xDF,
      fl 1440 9 2 80 0 0x2A 0x02 0xDF, fl 720 9 2 40 1 0x23 0x01 0xDF, fl 1440 9 2 80 0 0x23 0x01 0xDF, fl 2880 18 2 80 0 0x1B 0x00 0xCF]"

datatype fd_handler = RW_INTERRUPT | SEEK_INTERRUPT | RECAL_INTERRUPT | RESET_INTERRUPT

record fdk = fsys +
  fd_recalibrate :: bool
  fd_reset :: bool
  fd_seek :: bool
  reply_buffer :: "u8 list"
  cur_spec1 :: int
  cur_rate :: int
  fd_floppy :: floppy_struct
  current_drive :: u8
  fd_sector :: u8
  fd_head :: u8
  fd_track :: u8
  seek_track :: u8
  current_track :: u8
  fd_command :: u8
  wait_on_floppy_select :: "nat option"
  do_floppy :: "fd_handler option"
  tmp_floppy_area :: "u8 list"
  fd_in :: "nat \<Rightarrow> u8"
  fd_in_pos :: nat

abbreviation (input) FD_DATA :: u16 where "FD_DATA \<equiv> 0x3f5"
abbreviation (input) FD_DCR :: u16 where "FD_DCR \<equiv> 0x3f7"
abbreviation (input) FD_RECALIBRATE :: u8 where "FD_RECALIBRATE \<equiv> 0x07"
abbreviation (input) FD_SEEK :: u8 where "FD_SEEK \<equiv> 0x0F"
abbreviation (input) FD_READ :: u8 where "FD_READ \<equiv> 0xE6"
abbreviation (input) FD_WRITE :: u8 where "FD_WRITE \<equiv> 0xC5"
abbreviation (input) FD_SENSEI :: u8 where "FD_SENSEI \<equiv> 0x08"
abbreviation (input) FD_SPECIFY :: u8 where "FD_SPECIFY \<equiv> 0x03"
abbreviation (input) FD_MAX_ERRORS :: nat where "FD_MAX_ERRORS \<equiv> 8"
abbreviation (input) MAX_REPLIES :: nat where "MAX_REPLIES \<equiv> 7"

text \<open>The timer functions of the driver.\<close>

abbreviation (input) TIMER_TRANSFER :: nat where "TIMER_TRANSFER \<equiv> 1"
abbreviation (input) TIMER_FLOPPY_ON :: nat where "TIMER_FLOPPY_ON \<equiv> 2"

definition fd_inb :: "('a fdk_scheme, u8) km" where
  "fd_inb = kbind (kget (\<lambda>s. fd_in s (fd_in_pos s))) (\<lambda>v. kseq (kmod (\<lambda>s. s\<lparr>fd_in_pos := fd_in_pos s + 1\<rparr>)) (kreturn v))"

definition fd_current :: "('a fdk_scheme, nat) km" where
  "fd_current = kbind (kget (\<lambda>s. current_request s ! 2)) (the_ptr ''CURRENT'')"

definition fd_bh :: "('a fdk_scheme, nat) km" where
  "fd_bh = kbind fd_current (\<lambda>r. kbind (req r) (\<lambda>x. the_ptr ''CURRENT->bh'' (rq_bh x)))"

text \<open>\<open>DEVICE_OFF\<close> starts the timer that switches the motor off.\<close>

definition fd_end_request :: "bool \<Rightarrow> ('a fdk_scheme, unit) km" where
  "fd_end_request uptodate =
     kbind fd_current (\<lambda>r. kbind (req r) (\<lambda>x.
     kseq (kmod (floppy_off (nat (rq_dev x mod 4)))) (end_request 2 uptodate)))"

section \<open>Drives\<close>

definition floppy_deselect :: "('a fdk_scheme, unit) km" where
  "floppy_deselect = kmod (\<lambda>s. (snd (wake_up (wait_on_floppy_select s) (s\<lparr>selected := 0\<rparr>)))\<lparr>wait_on_floppy_select := None\<rparr>)"

definition floppy_on :: "nat \<Rightarrow> ('a sched_scheme, unit) km" where
  "floppy_on nr = kbind (ticks_to_floppy_on nr) (\<lambda>t. kwhen (t \<noteq> 0) (kstop Sleeps))"

text \<open>The loop repeats only when the drive is not selected, and then \<open>floppy_on\<close> selects it.\<close>

fun floppy_change_loop :: "nat \<Rightarrow> nat \<Rightarrow> ('a fdk_scheme, bool) km" where
  "floppy_change_loop 0 nr = kstop Diverges"
| "floppy_change_loop (Suc n) nr =
     kseq (floppy_on nr)
     (kbind (kget (\<lambda>s. (unat (current_DOR s AND 3), selected s))) (\<lambda>(d, sel).
      if d \<noteq> nr \<and> sel \<noteq> 0 then kstop Sleeps
      else if d \<noteq> nr then floppy_change_loop n nr
      else kbind fd_inb (\<lambda>v. kseq (kmod (floppy_off nr)) (kreturn (v AND 0x80 \<noteq> 0)))))"

definition floppy_change :: "nat \<Rightarrow> ('a fdk_scheme, bool) km" where
  "floppy_change nr = floppy_change_loop 3 nr"

section \<open>The controller\<close>

definition setup_DMA :: "(nat option \<Rightarrow> u32) \<Rightarrow> ('a fdk_scheme, unit) km" where
  "setup_DMA addr =
     kbind fd_bh (\<lambda>bh. kbind (buf bh) (\<lambda>b. kbind (kget fd_command) (\<lambda>cmd.
     let high = addr (Some bh) \<ge> 0x100000; a = (if high then addr None else addr (Some bh))
     in kseq (kwhen (high \<and> cmd = FD_WRITE) (kmod (\<lambda>s. s\<lparr>tmp_floppy_area := b_data b\<rparr>)))
        (kmod (fold (\<lambda>(v, p). outb v p)
          [(4 OR 2, 10), (if cmd = FD_READ then 0x46 else 0x4A, 12), (if cmd = FD_READ then 0x46 else 0x4A, 11),
           (ucast a, 4), (ucast (drop_bit 8 a), 4), (ucast (drop_bit 16 a), 0x81), (0xff, 5), (3, 5), (0 OR 2, 10)])))))"

fun output_loop :: "nat \<Rightarrow> u8 \<Rightarrow> ('a fdk_scheme, unit) km" where
  "output_loop 0 byte = kmod (\<lambda>s. s\<lparr>fd_reset := True\<rparr>)"
| "output_loop (Suc n) byte = kbind fd_inb (\<lambda>v. if v AND (0x80 OR 0x40) = 0x80 then kmod (outb byte FD_DATA) else output_loop n byte)"

definition output_byte :: "u8 \<Rightarrow> ('a fdk_scheme, unit) km" where
  "output_byte byte = kbind (kget fd_reset) (\<lambda>r. if r then kreturn () else output_loop 10000 byte)"

fun result_loop :: "nat \<Rightarrow> nat \<Rightarrow> ('a fdk_scheme, int) km" where
  "result_loop 0 i = kseq (kmod (\<lambda>s. s\<lparr>fd_reset := True\<rparr>)) (kreturn (-1))"
| "result_loop (Suc n) i =
     kbind fd_inb (\<lambda>v.
     let st = v AND (0x40 OR 0x80 OR 0x10)
     in if st = 0x80 then kreturn (int i)
        else if st = (0x40 OR 0x80 OR 0x10)
        then (if i \<ge> MAX_REPLIES then kseq (kmod (\<lambda>s. s\<lparr>fd_reset := True\<rparr>)) (kreturn (-1))
              else kbind fd_inb (\<lambda>b. kseq (kmod (\<lambda>s. s\<lparr>reply_buffer := (reply_buffer s)[i := b]\<rparr>)) (result_loop n (Suc i))))
        else result_loop n i)"

definition fd_result :: "('a fdk_scheme, int) km" where
  "fd_result = kbind (kget fd_reset) (\<lambda>r. if r then kreturn (-1) else result_loop 10000 0)"

definition bad_flp_intr :: "('a fdk_scheme, unit) km" where
  "bad_flp_intr =
     kbind fd_current (\<lambda>r.
     kseq (upd_req r (\<lambda>x. x\<lparr>rq_errors := rq_errors x + 1\<rparr>))
     (kbind (req r) (\<lambda>x.
      kseq (kwhen (rq_errors x > FD_MAX_ERRORS) (kseq floppy_deselect (fd_end_request False)))
      (kbind fd_current (\<lambda>r. kbind (req r) (\<lambda>x.
       kmod (\<lambda>s. if rq_errors x > FD_MAX_ERRORS div 2 then s\<lparr>fd_reset := True\<rparr> else s\<lparr>fd_recalibrate := True\<rparr>)))))))"

section \<open>Transfers\<close>

text \<open>The routines call \<open>do_fd_request\<close>, which calls some of them; it is their argument \<open>again\<close>.\<close>

definition drive_byte :: "('a fdk_scheme, unit) km" where
  "drive_byte = kbind (kget (\<lambda>s. push_bit 2 (fd_head s) OR current_drive s)) output_byte"

definition when_reset :: "('a fdk_scheme, unit) km \<Rightarrow> ('a fdk_scheme, unit) km" where
  "when_reset again = kbind (kget fd_reset) (\<lambda>r. kwhen r again)"

definition setup_rw_floppy :: "(nat option \<Rightarrow> u32) \<Rightarrow> ('a fdk_scheme, unit) km \<Rightarrow> ('a fdk_scheme, unit) km" where
  "setup_rw_floppy addr again =
     kseq (setup_DMA addr)
     (kseq (kmod (\<lambda>s. s\<lparr>do_floppy := Some RW_INTERRUPT\<rparr>))
     (kseq (kbind (kget fd_command) output_byte)
     (kseq drive_byte
     (kseq (kbind (kget fd_track) output_byte)
     (kseq (kbind (kget fd_head) output_byte)
     (kseq (kbind (kget fd_sector) output_byte)
     (kseq (output_byte 2)
     (kseq (kbind (kget (\<lambda>s. ucast (fl_sect (fd_floppy s)))) output_byte)
     (kseq (kbind (kget (\<lambda>s. fl_gap (fd_floppy s))) output_byte)
     (kseq (output_byte 0xFF) (when_reset again)))))))))))"

definition rw_interrupt :: "(nat option \<Rightarrow> u32) \<Rightarrow> ('a fdk_scheme, unit) km \<Rightarrow> ('a fdk_scheme, unit) km" where
  "rw_interrupt addr again =
     kbind fd_result (\<lambda>n. kbind (kget reply_buffer) (\<lambda>st.
     if n \<noteq> 7 \<or> st ! 0 AND 0xf8 \<noteq> 0 \<or> st ! 1 AND 0xbf \<noteq> 0 \<or> st ! 2 AND 0x73 \<noteq> 0
     then kseq (if st ! 1 AND 0x02 \<noteq> 0 then kseq floppy_deselect (fd_end_request False) else bad_flp_intr) again
     else kbind fd_bh (\<lambda>bh. kbind (kget fd_command) (\<lambda>cmd.
       kseq (kwhen (cmd = FD_READ \<and> addr (Some bh) \<ge> 0x100000)
               (kbind (kget tmp_floppy_area) (\<lambda>d. upd_buf bh (\<lambda>b. b\<lparr>b_data := d\<rparr>))))
       (kseq floppy_deselect (kseq (fd_end_request True) again))))))"

definition seek_interrupt :: "(nat option \<Rightarrow> u32) \<Rightarrow> ('a fdk_scheme, unit) km \<Rightarrow> ('a fdk_scheme, unit) km" where
  "seek_interrupt addr again =
     kseq (output_byte FD_SENSEI)
     (kbind fd_result (\<lambda>n. kbind (kget (\<lambda>s. (reply_buffer s, seek_track s))) (\<lambda>(st, tr).
      if n \<noteq> 2 \<or> st ! 0 AND 0xF8 \<noteq> 0x20 \<or> st ! 1 \<noteq> tr then kseq bad_flp_intr again
      else kseq (kmod (\<lambda>s. s\<lparr>current_track := st ! 1\<rparr>)) (setup_rw_floppy addr again))))"

definition transfer :: "(nat option \<Rightarrow> u32) \<Rightarrow> ('a fdk_scheme, unit) km \<Rightarrow> ('a fdk_scheme, unit) km" where
  "transfer addr again =
     kbind (kget fd_floppy) (\<lambda>f.
     kbind (kget cur_spec1) (\<lambda>sp.
     kseq (kwhen (sp \<noteq> uint (fl_spec1 f))
       (kseq (kmod (\<lambda>s. s\<lparr>cur_spec1 := uint (fl_spec1 f)\<rparr>))
       (kseq (output_byte FD_SPECIFY) (kseq (output_byte (fl_spec1 f)) (output_byte 6)))))
     (kbind (kget cur_rate) (\<lambda>ra.
      kseq (kwhen (ra \<noteq> uint (fl_rate f)) (kmod (\<lambda>s. outb (fl_rate f) FD_DCR (s\<lparr>cur_rate := uint (fl_rate f)\<rparr>))))
      (kbind (kget (\<lambda>s. (fd_reset s, fd_seek s, seek_track s))) (\<lambda>(rs, sk, tr).
       if rs then again
       else if \<not> sk then setup_rw_floppy addr again
       else kseq (kmod (\<lambda>s. s\<lparr>do_floppy := Some SEEK_INTERRUPT\<rparr>))
         (kseq (if tr \<noteq> 0 then kseq (output_byte FD_SEEK) (kseq drive_byte (output_byte tr))
                else kseq (output_byte FD_RECALIBRATE) drive_byte)
         (when_reset again))))))))"

definition recal_interrupt :: "('a fdk_scheme, unit) km \<Rightarrow> ('a fdk_scheme, unit) km" where
  "recal_interrupt again =
     kseq (output_byte FD_SENSEI)
     (kbind fd_result (\<lambda>n.
      kseq (kmod (\<lambda>s. if n \<noteq> 2 \<or> reply_buffer s ! 0 AND 0xE0 = 0x60 then s\<lparr>fd_reset := True\<rparr> else s\<lparr>fd_recalibrate := False\<rparr>)) again))"

definition unexpected_floppy_interrupt :: "('a fdk_scheme, unit) km" where
  "unexpected_floppy_interrupt =
     kseq (output_byte FD_SENSEI)
     (kbind fd_result (\<lambda>n.
      kmod (\<lambda>s. if n \<noteq> 2 \<or> reply_buffer s ! 0 AND 0xE0 = 0x60 then s\<lparr>fd_reset := True\<rparr> else s\<lparr>fd_recalibrate := True\<rparr>)))"

definition recalibrate_floppy :: "('a fdk_scheme, unit) km \<Rightarrow> ('a fdk_scheme, unit) km" where
  "recalibrate_floppy again =
     kseq (kmod (\<lambda>s. s\<lparr>fd_recalibrate := False, current_track := 0, do_floppy := Some RECAL_INTERRUPT\<rparr>))
     (kseq (output_byte FD_RECALIBRATE) (kseq drive_byte (when_reset again)))"

definition reset_interrupt :: "('a fdk_scheme, unit) km \<Rightarrow> ('a fdk_scheme, unit) km" where
  "reset_interrupt again =
     kseq (output_byte FD_SENSEI)
     (kbind fd_result (\<lambda>_.
      kseq (output_byte FD_SPECIFY)
      (kseq (kbind (kget (\<lambda>s. of_int (cur_spec1 s))) output_byte) (kseq (output_byte 6) again))))"

definition reset_floppy :: "('a fdk_scheme, unit) km" where
  "reset_floppy =
     kmod (\<lambda>s. let s = s\<lparr>fd_reset := False, cur_spec1 := -1, cur_rate := -1, fd_recalibrate := True, do_floppy := Some RESET_INTERRUPT\<rparr>
       in outb (current_DOR s) FD_DOR (outb (current_DOR s AND NOT 0x04) FD_DOR s))"

text \<open>A timer that is due at once calls its function at once.\<close>

definition floppy_on_interrupt :: "(nat option \<Rightarrow> u32) \<Rightarrow> ('a fdk_scheme, unit) km \<Rightarrow> ('a fdk_scheme, unit) km" where
  "floppy_on_interrupt addr again =
     kbind (kget (\<lambda>s. (current_drive s, current_DOR s))) (\<lambda>(d, dor).
     kseq (kmod (\<lambda>s. s\<lparr>selected := 1\<rparr>))
     (if d \<noteq> dor AND 3
      then kseq (kmod (\<lambda>s. let dor = (dor AND 0xFC) OR d in outb dor FD_DOR (s\<lparr>current_DOR := dor\<rparr>)))
        (kbind (add_timer 2 TIMER_TRANSFER) (\<lambda>_. kreturn ()))
      else transfer addr again))"

section \<open>Requests\<close>

text \<open>
  The geometry: sector, head and track of a block on a diskette of type \<open>f\<close>, and the track to seek to. Sectors and heads are
  stored as bytes.
\<close>

definition fd_position :: "floppy_struct \<Rightarrow> u32 \<Rightarrow> u8 \<times> u8 \<times> u8" where
  "fd_position f block = (ucast (block mod fl_sect f), ucast (block div fl_sect f mod fl_head f), ucast (block div fl_sect f div fl_head f))"

fun fd_repeat :: "nat \<Rightarrow> (nat option \<Rightarrow> u32) \<Rightarrow> ('a fdk_scheme, unit) km \<Rightarrow> ('a fdk_scheme, unit) km" where
  "fd_repeat 0 addr again = kstop Diverges"
| "fd_repeat (Suc n) addr again =
     kbind (kget (\<lambda>s. current_request s ! 2)) (\<lambda>c.
     case c of None \<Rightarrow> kreturn ()
     | Some r \<Rightarrow> kbind (req r) (\<lambda>x.
         if rq_major x \<noteq> 2 then kstop (Panic ''floppy: request list destroyed'')
         else kbind (case rq_bh x of None \<Rightarrow> kreturn 1 | Some bh \<Rightarrow> kbind (buf bh) (\<lambda>b. kreturn (b_lock b))) (\<lambda>lock.
           if lock = 0 then kstop (Panic ''floppy: block not locked'')
           else let ty = nat (rq_minor x) div 4; dev = of_int (rq_dev x mod 4); block = rq_sector x
             in if ty \<ge> length floppy_type then kstop (Fault ''floppy_type'')
                else let f = floppy_type ! ty
                  in kseq (kmod (\<lambda>s. s\<lparr>fd_floppy := f, fd_seek := (fd_seek s \<or> current_drive s \<noteq> dev), current_drive := dev\<rparr>))
                     (if block + 2 > fl_size f then kseq (fd_end_request False) (fd_repeat n addr again)
                      else if fl_sect f = 0 then kstop (Fault ''division by zero'')
                      else let (sec, hea, tr) = fd_position f block; str = push_bit (fl_stretch f) tr
                        in kseq (kmod (\<lambda>s. s\<lparr>fd_sector := sec + 1, fd_head := hea, fd_track := tr, seek_track := str,
                             fd_seek := (fd_seek s \<or> str \<noteq> current_track s)\<rparr>))
                           (if rq_cmd x \<noteq> READ \<and> rq_cmd x \<noteq> WRITE then kstop (Panic ''do_fd_request: unknown command'')
                            else kseq (kmod (\<lambda>s. s\<lparr>fd_command := (if rq_cmd x = READ then FD_READ else FD_WRITE)\<rparr>))
                              (kbind (ticks_to_floppy_on (unat dev)) (\<lambda>t.
                               kbind (add_timer t TIMER_FLOPPY_ON) (\<lambda>fs.
                               kwhen (fs \<noteq> []) (floppy_on_interrupt addr again)))))))))"

text \<open>
  \<open>do_fd_request\<close>. Nested calls follow a failure to talk to the controller, which sets \<open>reset\<close>; the next call resets the controller and
  returns, so that the nesting is shallow.
\<close>

fun do_fd_n :: "nat \<Rightarrow> (nat option \<Rightarrow> u32) \<Rightarrow> ('a fdk_scheme, unit) km" where
  "do_fd_n 0 addr = kstop Diverges"
| "do_fd_n (Suc n) addr =
     kseq (kmod (\<lambda>s. s\<lparr>fd_seek := False\<rparr>))
     (kbind (kget (\<lambda>s. (fd_reset s, fd_recalibrate s))) (\<lambda>(rs, rc).
      if rs then reset_floppy
      else if rc then recalibrate_floppy (do_fd_n n addr)
      else fd_repeat (NR_REQUEST + 1) addr (do_fd_n n addr)))"

definition do_fd_request :: "(nat option \<Rightarrow> u32) \<Rightarrow> ('a fdk_scheme, unit) km" where
  "do_fd_request addr = do_fd_n 4 addr"

text \<open>The interrupt of the controller, and the calls of the two timer functions.\<close>

definition floppy_interrupt :: "(nat option \<Rightarrow> u32) \<Rightarrow> ('a fdk_scheme, unit) km" where
  "floppy_interrupt addr =
     kbind (kget do_floppy) (\<lambda>h.
     kseq (kmod (\<lambda>s. (outb 0x20 0x20 s)\<lparr>do_floppy := None\<rparr>))
     (case h of None \<Rightarrow> unexpected_floppy_interrupt
      | Some RW_INTERRUPT \<Rightarrow> rw_interrupt addr (do_fd_request addr)
      | Some SEEK_INTERRUPT \<Rightarrow> seek_interrupt addr (do_fd_request addr)
      | Some RECAL_INTERRUPT \<Rightarrow> recal_interrupt (do_fd_request addr)
      | Some RESET_INTERRUPT \<Rightarrow> reset_interrupt (do_fd_request addr)))"

definition floppy_timer_fn :: "(nat option \<Rightarrow> u32) \<Rightarrow> nat \<Rightarrow> ('a fdk_scheme, unit) km" where
  "floppy_timer_fn addr fn =
     (if fn = TIMER_TRANSFER then transfer addr (do_fd_request addr)
      else if fn = TIMER_FLOPPY_ON then floppy_on_interrupt addr (do_fd_request addr) else kreturn ())"

definition floppy_init :: "(u16 \<Rightarrow> u8) \<Rightarrow> 'a fdk_scheme \<Rightarrow> 'a fdk_scheme" where
  "floppy_init inb s = outb (inb 0x21 AND NOT 0x40) 0x21 (s\<lparr>request_fn := (request_fn s)[2 := True]\<rparr>)"

section \<open>Geometry\<close>

lemma floppy_cases:
  assumes "f \<in> set floppy_type" and "0 < fl_size f"
  shows "unat (fl_size f) = unat (fl_track f) * unat (fl_head f) * unat (fl_sect f) \<and> 0 < unat (fl_sect f) \<and> unat (fl_sect f) < 256 \<and>
    unat (fl_head f) = 2 \<and> unat (fl_track f) * 2 ^ fl_stretch f \<le> 80"
  using assms by (auto simp: floppy_type_def fl_def)

lemma unat_ucast8: "unat (w :: u32) < 256 \<Longrightarrow> unat (ucast w :: u8) = unat w"
  by (simp add: unsigned_ucast_eq take_bit_nat_eq_self)

text \<open>
  C38: for every diskette type and every block that lies on it, sector, head and track fit into the bytes in which the driver keeps
  them, are within the geometry of the diskette, and name the sector with the number of the block; the track to
  seek to is not truncated either.
\<close>

theorem fd_position_exact:
  assumes "f \<in> set floppy_type" and "unat block + 2 \<le> unat (fl_size f)" and "fd_position f block = (sec, hea, tr)"
  shows "(unat tr * unat (fl_head f) + unat hea) * unat (fl_sect f) + unat sec = unat block \<and>
    unat sec < unat (fl_sect f) \<and> unat hea < unat (fl_head f) \<and> unat tr < unat (fl_track f) \<and>
    unat (push_bit (fl_stretch f) tr) = unat tr * 2 ^ fl_stretch f"
proof -
  let ?b = "unat block" and ?s = "unat (fl_sect f)" and ?t = "unat (fl_track f)"
  have "0 < fl_size f" using assms(2) by (simp add: word_less_nat_alt)
  then have g: "unat (fl_size f) = ?t * 2 * ?s" "0 < ?s" "?s < 256" "unat (fl_head f) = 2" "?t * 2 ^ fl_stretch f \<le> 80"
    using floppy_cases [OF assms(1)] by auto
  have t80: "?t \<le> 80" using g(5) mult_le_mono2 [of 1 "2 ^ fl_stretch f" ?t] by (metis le_trans mult.right_neutral one_le_numeral one_le_power)
  have q: "?b div ?s div 2 < ?t"
  proof -
    have "?b < ?t * 2 * ?s" using assms(2) g(1) by simp
    then have "?b div ?s < ?t * 2" using g(2) by (simp add: div_less_iff_less_mult)
    then show ?thesis by (simp add: div_less_iff_less_mult)
  qed
  have s8: "?b mod ?s < 256" using g(2,3) mod_less_divisor [of ?s ?b] by linarith
  have eq: "sec = ucast (block mod fl_sect f)" "hea = ucast (block div fl_sect f mod fl_head f)" "tr = ucast (block div fl_sect f div fl_head f)"
    using assms(3) by (simp_all add: fd_position_def)
  have sec: "unat sec = ?b mod ?s" unfolding eq(1) using s8 by (subst unat_ucast8) (simp_all add: unat_mod_distrib)
  have hea: "unat hea = ?b div ?s mod 2" unfolding eq(2) by (subst unat_ucast8) (simp_all add: unat_mod_distrib unat_div_distrib g(4))
  have tr: "unat tr = ?b div ?s div 2" unfolding eq(3) using q t80 by (subst unat_ucast8) (simp_all add: unat_div_distrib g(4))
  have "unat tr * 2 ^ fl_stretch f \<le> ?t * 2 ^ fl_stretch f" using q tr by simp
  then have "unat tr * 2 ^ fl_stretch f < 256" using g(5) by linarith
  then have "unat (push_bit (fl_stretch f) tr) = unat tr * 2 ^ fl_stretch f"
    by (simp add: unsigned_push_bit_eq take_bit_nat_eq_self push_bit_nat_def)
  moreover have "(?b div ?s div 2 * 2 + ?b div ?s mod 2) * ?s + ?b mod ?s = ?b" by (simp add: div_mult_mod_eq)
  ultimately show ?thesis using q g(2,4) by (simp add: sec hea tr)
qed

theorem fd_position_exact_witness:
  "fd_position (floppy_type ! 7) 2878 = (16, 1, 79) \<and> (79 * 2 + 1) * 18 + 16 = (2878 :: nat)"
proof -
  have f: "floppy_type ! 7 = fl 2880 18 2 80 0 0x1B 0x00 0xCF" "floppy_type ! 7 \<in> set floppy_type" by (simp_all add: floppy_type_def)
  obtain sec hea tr where p: "fd_position (floppy_type ! 7) 2878 = (sec, hea, tr)" by (cases "fd_position (floppy_type ! 7) 2878") auto
  have "(unat tr * 2 + unat hea) * 18 + unat sec = 2878" "unat sec < 18" "unat hea < 2"
    using fd_position_exact [OF f(2) _ p] by (simp_all add: f(1) fl_def)
  moreover have "fd_position (floppy_type ! 7) 2878 = (16, 1, 79)" by (simp add: fd_position_def f(1) fl_def)
  ultimately show ?thesis by simp
qed

end
