(* ===== verification/Boot.thy ===== *)
theory Boot
  imports Lib Blockdev
begin

text \<open>
  What \<open>init/main.c\<close> computes when the kernel starts: the areas of memory, and the time from the clock chip. The initialisation routines it calls are
  in the theories of their components; interrupt gates and the first process, which only makes system calls, are not modelled.
\<close>

section \<open>The clock\<close>

text \<open>\<open>rd i a\<close> is what the \<open>i\<close>-th read of the chip gives when it reads register \<open>a\<close> (\<open>CMOS_READ\<close>).\<close>

partial_function (option) time_loop :: "(nat \<Rightarrow> nat \<Rightarrow> int) \<Rightarrow> nat \<Rightarrow> tm option" where
  "time_loop rd i =
     (let time = \<lparr>tm_sec = rd i 0, tm_min = rd (i + 1) 2, tm_hour = rd (i + 2) 4, tm_mday = rd (i + 3) 7, tm_mon = rd (i + 4) 8, tm_year = rd (i + 5) 9,
        tm_wday = 0, tm_yday = 0, tm_isdst = 0\<rparr>
      in if tm_sec time \<noteq> rd (i + 6) 0 then time_loop rd (i + 7) else Some time)"

unbundle bit_operations_syntax

definition BCD_TO_BIN :: "int \<Rightarrow> int" where
  "BCD_TO_BIN val = (val AND 15) + drop_bit 4 val * 10"

text \<open>\<open>kernel_mktime\<close> gives \<open>None\<close> for a month outside of its table.\<close>

definition time_init :: "(nat \<Rightarrow> nat \<Rightarrow> int) \<Rightarrow> ('a sched_scheme, unit) km" where
  "time_init rd =
     (case time_loop rd 0 of None \<Rightarrow> kstop Diverges
      | Some t \<Rightarrow>
          let t = t\<lparr>tm_sec := BCD_TO_BIN (tm_sec t), tm_min := BCD_TO_BIN (tm_min t), tm_hour := BCD_TO_BIN (tm_hour t), tm_mday := BCD_TO_BIN (tm_mday t),
                tm_mon := BCD_TO_BIN (tm_mon t), tm_year := BCD_TO_BIN (tm_year t)\<rparr>;
              t = t\<lparr>tm_mon := tm_mon t - 1\<rparr>
          in case kernel_mktime t of None \<Rightarrow> kstop (Fault ''month'') | Some r \<Rightarrow> kmod (\<lambda>s. s\<lparr>startup_time := r\<rparr>))"

section \<open>Memory\<close>

text \<open>\<open>ext\<close> is the size of extended memory in KB that the boot code found; \<open>rdk\<close> is \<open>RAMDISK\<close> when it is defined.\<close>

definition memory_end :: "u16 \<Rightarrow> u32" where
  "memory_end ext =
     (let e = (push_bit 20 1 + push_bit 10 (ucast ext)) AND 0xfffff000
      in if e > 16 * 1024 * 1024 then 16 * 1024 * 1024 else e)"

definition buffer_memory_end :: "u16 \<Rightarrow> u32" where
  "buffer_memory_end ext =
     (if memory_end ext > 12 * 1024 * 1024 then 4 * 1024 * 1024
      else if memory_end ext > 6 * 1024 * 1024 then 2 * 1024 * 1024 else 1 * 1024 * 1024)"

definition main_memory_init :: "u16 \<Rightarrow> nat option \<Rightarrow> ('a blk_scheme, unit) km" where
  "main_memory_init ext rdk =
     (let start = buffer_memory_end ext
      in case rdk of None \<Rightarrow> mem_init start (memory_end ext)
         | Some k \<Rightarrow> kseq (kmod (rd_init start (k * 1024))) (mem_init (start + of_nat (k * 1024)) (memory_end ext)))"

section \<open>The clock is read right\<close>

text \<open>A date, and the registers of the chip that shows it: two decimal digits per byte, the year without the century.\<close>

record date =
  dt_year :: nat
  dt_month :: nat
  dt_day :: nat
  dt_hour :: nat
  dt_min :: nat
  dt_sec :: nat

definition bcd :: "nat \<Rightarrow> int" where
  "bcd n = int (n mod 10 + 16 * (n div 10))"

definition chip :: "date \<Rightarrow> nat \<Rightarrow> int" where
  "chip x a = bcd (if a = 0 then dt_sec x else if a = 2 then dt_min x else if a = 4 then dt_hour x else if a = 7 then dt_day x
     else if a = 8 then dt_month x + 1 else if a = 9 then dt_year x - 1900 else 0)"

definition date_at :: "int \<Rightarrow> date \<Rightarrow> bool" where
  "date_at t x \<longleftrightarrow> 1970 \<le> dt_year x \<and> dt_year x < 2000 \<and> dt_month x < 12 \<and> 1 \<le> dt_day x \<and> dt_day x \<le> 31 \<and> dt_hour x < 24 \<and> dt_min x < 60 \<and> dt_sec x < 60 \<and>
     t = 86400 * int (epoch_days (dt_year x) (dt_month x) (dt_day x)) + 3600 * int (dt_hour x) + 60 * int (dt_min x) + int (dt_sec x)"

lemma BCD_TO_BIN_bcd: "BCD_TO_BIN (bcd n) = int n"
proof -
  have a: "(v :: int) AND 15 = v mod 16" for v using take_bit_eq_mask [of 4 v] by (simp add: take_bit_eq_mod mask_eq_exp_minus_1)
  define q r where "q = int (n div 10)" and "r = int (n mod 10)"
  have r: "0 \<le> r" "r < 16" "bcd n = r + 16 * q" by (simp_all add: r_def q_def bcd_def)
  have n: "int n = r + 10 * q" unfolding q_def r_def by (metis add.commute mult_div_mod_eq of_nat_add of_nat_mult of_nat_numeral)
  have "bcd n mod 16 = r" "bcd n div 16 = q" using r by simp_all
  then show ?thesis unfolding BCD_TO_BIN_def a drop_bit_eq_div n by simp
qed

lemma date_at_sec: "date_at t x \<Longrightarrow> int (dt_sec x) = t mod 60"
proof -
  assume d: "date_at t x"
  define e where "e = 1440 * int (epoch_days (dt_year x) (dt_month x) (dt_day x)) + 60 * int (dt_hour x) + int (dt_min x)"
  have "t = int (dt_sec x) + 60 * e" "int (dt_sec x) < 60" using d by (simp_all add: date_at_def e_def)
  then show ?thesis by simp
qed

lemma bcd_inj: "bcd m = bcd n \<Longrightarrow> m = n"
  by (metis BCD_TO_BIN_bcd of_nat_eq_iff)

lemma mod_60_eq: "(a :: int) mod 60 = b mod 60 \<Longrightarrow> a \<le> b \<Longrightarrow> b < a + 60 \<Longrightarrow> a = b"
  using mod_eq_dvd_iff [of b 60 a] zdvd_imp_le [of 60 "b - a"] by force

lemma time_loop_rounds:
  assumes "\<forall>j < n. rd (i + 7 * j) 0 \<noteq> rd (i + 7 * j + 6) 0" and "rd (i + 7 * n) 0 = rd (i + 7 * n + 6) 0"
  shows "time_loop rd i = Some \<lparr>tm_sec = rd (i + 7 * n) 0, tm_min = rd (i + 7 * n + 1) 2, tm_hour = rd (i + 7 * n + 2) 4, tm_mday = rd (i + 7 * n + 3) 7,
    tm_mon = rd (i + 7 * n + 4) 8, tm_year = rd (i + 7 * n + 5) 9, tm_wday = 0, tm_yday = 0, tm_isdst = 0\<rparr>"
  using assms
proof (induction n arbitrary: i)
  case 0
  then show ?case by (subst time_loop.simps) simp
next
  case (Suc n)
  have "rd i 0 \<noteq> rd (i + 6) 0" using Suc.prems(1) by fastforce
  then have "time_loop rd i = time_loop rd (i + 7)" by (subst time_loop.simps) simp
  moreover have "rd (i + 7 + 7 * j) 0 \<noteq> rd (i + 7 + 7 * j + 6) 0" if "j < n" for j
    using Suc.prems(1) [rule_format, of "Suc j"] that by (simp add: ac_simps)
  ultimately show ?case using Suc.IH [of "i + 7"] Suc.prems(2) by (simp add: ac_simps)
qed

text \<open>
  C36: The time of day is set right at start-up: whenever the clock chip shows the dates of a time that only goes forward (of the years 1970 to 1999), ticks less than a minute
  during the seven reads of a round, and stands still during some round, the loop of time_init ends, and the start-up time of the kernel is the exact number of
  seconds since 1970 that the clock showed during the whole of that last round, never a mixture of the values before and after a tick.
\<close>

theorem time_init_exact:
  assumes "\<forall>j. date_at (T j) (D (T j))" and "\<forall>i j. i \<le> j \<longrightarrow> T i \<le> T j" and "\<forall>i. T (i + 6) < T i + 60" and "T (7 * k) = T (7 * k + 6)"
  shows "\<exists>n \<le> k. time_init (\<lambda>j. chip (D (T j))) s = Ret () (s\<lparr>startup_time := T (7 * n)\<rparr>) \<and> T (7 * n) = T (7 * n + 6)"
proof -
  let ?rd = "\<lambda>j. chip (D (T j))"
  have same: "?rd i 0 = ?rd (i + 6) 0 \<longleftrightarrow> T i = T (i + 6)" for i
  proof
    assume "?rd i 0 = ?rd (i + 6) 0"
    then have "dt_sec (D (T i)) = dt_sec (D (T (i + 6)))" by (intro bcd_inj) (simp add: chip_def)
    then have "T i mod 60 = T (i + 6) mod 60" using date_at_sec assms(1) by metis
    moreover have "T i \<le> T (i + 6)" "T (i + 6) < T i + 60" using assms(2,3) by simp_all
    ultimately show "T i = T (i + 6)" by (rule mod_60_eq)
  qed simp
  define n where "n = (LEAST n. T (7 * n) = T (7 * n + 6))"
  have n: "n \<le> k" "T (7 * n) = T (7 * n + 6)" unfolding n_def using assms(4) by (auto intro: Least_le LeastI)
  have "\<forall>j < n. ?rd (0 + 7 * j) 0 \<noteq> ?rd (0 + 7 * j + 6) 0" unfolding same n_def using not_less_Least by fastforce
  moreover have "?rd (0 + 7 * n) 0 = ?rd (0 + 7 * n + 6) 0" using n(2) by simp
  ultimately have "time_loop ?rd 0 = Some \<lparr>tm_sec = ?rd (7 * n) 0, tm_min = ?rd (7 * n + 1) 2, tm_hour = ?rd (7 * n + 2) 4, tm_mday = ?rd (7 * n + 3) 7,
    tm_mon = ?rd (7 * n + 4) 8, tm_year = ?rd (7 * n + 5) 9, tm_wday = 0, tm_yday = 0, tm_isdst = 0\<rparr>" using time_loop_rounds [of n ?rd 0] by simp
  moreover have st: "T (7 * n + j) = T (7 * n)" if "j \<le> 6" for j
    using n(2) assms(2) [rule_format, of "7 * n" "7 * n + j"] assms(2) [rule_format, of "7 * n + j" "7 * n + 6"] that by simp
  moreover obtain x where x: "x = D (T (7 * n))" "date_at (T (7 * n)) x" using assms(1) by simp
  moreover have "T (7 * n + 1) = T (7 * n)" "T (7 * n + 2) = T (7 * n)" "T (7 * n + 3) = T (7 * n)" "T (7 * n + 4) = T (7 * n)" "T (7 * n + 5) = T (7 * n)"
    using st [of 1] st [of 2] st [of 3] st [of 4] st [of 5] by simp_all
  ultimately have l: "time_loop ?rd 0 = Some \<lparr>tm_sec = chip x 0, tm_min = chip x 2, tm_hour = chip x 4, tm_mday = chip x 7, tm_mon = chip x 8, tm_year = chip x 9,
    tm_wday = 0, tm_yday = 0, tm_isdst = 0\<rparr>" by simp
  have "time_init ?rd s = Ret () (s\<lparr>startup_time := T (7 * n)\<rparr>)" unfolding time_init_def l
    using x(2) by (simp add: chip_def BCD_TO_BIN_bcd Let_def kernel_mktime_date [of "dt_year x" _ "dt_month x" "dt_day x"] date_at_def km_simps of_nat_diff)
  then show ?thesis using n by blast
qed

text \<open>A clock that ticks between the third and the fourth read.\<close>

definition ticking :: "nat \<Rightarrow> int" where
  "ticking j = (if j < 3 then 0 else 1)"

theorem time_init_exact_witness:
  "time_init (\<lambda>j. chip \<lparr>dt_year = 1970, dt_month = 0, dt_day = 1, dt_hour = 0, dt_min = 0, dt_sec = nat (ticking j)\<rparr>) boot_sched =
     Ret () (boot_sched\<lparr>startup_time := 1\<rparr>)"
proof -
  let ?D = "\<lambda>t. \<lparr>dt_year = 1970, dt_month = 0, dt_day = 1, dt_hour = 0, dt_min = 0, dt_sec = nat t\<rparr>"
  have "\<forall>j. date_at (ticking j) (?D (ticking j))" by (simp add: date_at_def ticking_def epoch_days_def)
  moreover have "\<forall>i j. i \<le> j \<longrightarrow> ticking i \<le> ticking j" "\<forall>i. ticking (i + 6) < ticking i + 60" "ticking (7 * 1) = ticking (7 * 1 + 6)" by (simp_all add: ticking_def)
  ultimately obtain n where n: "n \<le> 1" "time_init (\<lambda>j. chip (?D (ticking j))) boot_sched = Ret () (boot_sched\<lparr>startup_time := ticking (7 * n)\<rparr>)"
    "ticking (7 * n) = ticking (7 * n + 6)" using time_init_exact [of ticking ?D 1 boot_sched] by blast
  moreover have "n = 1" using n(1,3) by (cases n) (simp_all add: ticking_def)
  ultimately show ?thesis by (simp add: ticking_def)
qed

section \<open>The areas of memory\<close>

lemma memory_end_unat:
  "unat (memory_end ext) = min 0x1000000 (4096 * (256 + unat ext div 4))"
proof -
  let ?e = "push_bit 20 1 + push_bit 10 (ucast ext) :: u32"
  have x: "unat ext < 65536" using unsigned_less [of ext] by simp
  have of: "?e = of_nat (1048576 + 1024 * unat ext)" by (simp add: push_bit_eq_mult)
  have e: "unat ?e = 1048576 + 1024 * unat ext" unfolding of by (rule unat32_of_nat) (use x in simp)
  have "(1048576 + 1024 * unat ext) div 4096 = (1024 + unat ext) div 4" using div_mult_mult1 [of 1024 "1024 + unat ext" 4] by simp
  moreover have "(1024 + unat ext) div 4 = 256 + unat ext div 4" using div_mult_self3 [of 4 256 "unat ext"] by simp
  ultimately have "unat (0xfffff000 AND ?e) = 4096 * (256 + unat ext div 4)" unfolding unat_page_of e by simp
  then have "unat (?e AND 0xfffff000) = 4096 * (256 + unat ext div 4)" by (simp add: and.commute)
  then show ?thesis by (auto simp: memory_end_def Let_def word_less_nat_alt)
qed

text \<open>Without a ram disk, exactly the page frames between the end of the buffers and the end of memory are free after start-up; both ends are on page boundaries.\<close>

theorem boot_memory:
  fixes s :: "'a blk_scheme" and ext :: u16
  defines "b \<equiv> unat (buffer_memory_end ext)" and "e \<equiv> unat (memory_end ext)"
  shows "0x100000 \<le> b \<and> b \<le> e \<and> e \<le> 0x1000000 \<and> 4096 dvd b \<and> 4096 dvd e \<and>
    (\<exists>t. main_memory_init ext None s = Ret () t \<and> HIGH_MEMORY t = memory_end ext \<and> length (mem_map t) = PAGING_PAGES \<and>
      (\<forall>i < PAGING_PAGES. mem_map t ! i = (if b \<le> 0x100000 + 4096 * i \<and> 0x100000 + 4096 * i < e then 0 else USED)))"
proof -
  have e: "e = min 0x1000000 (4096 * (256 + unat ext div 4))" unfolding e_def by (rule memory_end_unat)
  have b: "b = (if e > 0xc00000 then 0x400000 else if e > 0x600000 then 0x200000 else 0x100000)"
    by (simp add: b_def e_def buffer_memory_end_def word_less_nat_alt)
  have be: "0x100000 \<le> b" "b \<le> e" "e \<le> 0x1000000" "4096 dvd b" "4096 dvd e" unfolding b by (auto simp: e min_def)
  define p q where "p = b div 4096 - 256" and "q = e div 4096 - b div 4096"
  have m: "MAP_NR (buffer_memory_end ext) = p"
  proof -
    have "unat (buffer_memory_end ext - LOW_MEM) = b - 0x100000" using be(1) unfolding b_def by (subst unat_sub) (simp_all add: word_le_nat_alt)
    then show ?thesis using be(1,4) unfolding MAP_NR_def unat_drop_bit_eq p_def by (auto simp: drop_bit_eq_div elim!: dvdE)
  qed
  have d: "unat (drop_bit 12 (memory_end ext - buffer_memory_end ext)) = q"
  proof -
    have "unat (memory_end ext - buffer_memory_end ext) = e - b" using be(2) unfolding b_def e_def by (subst unat_sub) (simp_all add: word_le_nat_alt)
    then show ?thesis using be(2,4,5) unfolding unat_drop_bit_eq q_def by (auto simp: drop_bit_eq_div elim!: dvdE)
  qed
  have pq: "b = 4096 * (p + 256)" "e = 4096 * (p + q + 256)" "p + q \<le> 3840" using be unfolding p_def q_def by (auto elim!: dvdE)
  have c: "(b \<le> 0x100000 + 4096 * i \<and> 0x100000 + 4096 * i < e) \<longleftrightarrow> p \<le> i \<and> i < p + q" for i unfolding pq by auto
  have "\<exists>t. main_memory_init ext None s = Ret () t \<and> HIGH_MEMORY t = memory_end ext \<and> length (mem_map t) = PAGING_PAGES \<and>
      (\<forall>i < PAGING_PAGES. mem_map t ! i = (if p \<le> i \<and> i < p + q then 0 else USED))"
    using pq(3) by (simp add: main_memory_init_def Let_def mem_init_def kbind_def kmod_def clear_map_run m d) (auto simp: nth_append)
  then show ?thesis unfolding c using be by blast
qed

end
