(* ===== verification/Who.thy ===== *)
theory Who
  imports Namei
begin

text \<open>
  The system calls \<open>iam\<close> and \<open>whoami\<close> of the exercise \<open>OS/syscall\<close> (\<open>who.c\<close>), which are added to the kernel: a name of at most 23 characters is
  kept in the kernel. A write outside of the array \<open>str\<close> of the kernel stack is a fault.
\<close>

section \<open>The calls\<close>

record whos = fsys +
  myname :: "u8 list"

text \<open>The loop of \<open>sys_iam\<close> from position \<open>i\<close>, with the user memory \<open>m\<close>. At \<open>i = 25\<close> the loop condition still holds and the array ends.\<close>

function iam_loop :: "(u32 \<Rightarrow> u8) \<Rightarrow> u32 \<Rightarrow> nat \<Rightarrow> u8 list \<Rightarrow> halt + nat \<times> u8 list" where
  "iam_loop m name i str =
     (if i \<ge> 25 then Inl (Fault ''str'')
      else let c = m (name + of_nat i); str = str[i := c]
        in if c \<noteq> 0 then iam_loop m name (i + 1) str else Inr (i + 1, str))"
  by pat_completeness auto
termination
  by (relation "measure (\<lambda>(m, name, i, str). 25 - i)") auto

declare iam_loop.simps [simp del]

text \<open>\<open>strcpy\<close> within the kernel.\<close>

definition str_copy :: "u8 list \<Rightarrow> u8 list \<Rightarrow> u8 list" where
  "str_copy dst src = (let t = takeWhile (\<lambda>c. c \<noteq> 0) src @ [0] in t @ drop (length t) dst)"

text \<open>\<open>stk\<close> is what the stack holds where \<open>str\<close> is.\<close>

definition sys_iam :: "u8 list \<Rightarrow> u32 \<Rightarrow> ('a whos_scheme, int) km" where
  "sys_iam stk name =
     kbind (kget (\<lambda>s. iam_loop (user s) name 0 stk)) (\<lambda>r.
     case r of Inl h \<Rightarrow> kstop h
     | Inr (i, str) \<Rightarrow>
         if i > 24 then kreturn (- EINVAL)
         else kseq (kmod (\<lambda>s. s\<lparr>myname := str_copy (myname s) str\<rparr>)) (kreturn (int i - 1)))"

definition sys_whoami :: "u32 \<Rightarrow> u32 \<Rightarrow> ('a whos_scheme, int) km" where
  "sys_whoami name sz =
     kbind (kget (\<lambda>s. takeWhile (\<lambda>c. c \<noteq> 0) (myname s))) (\<lambda>n.
     if unat sz < length n then kreturn (- EINVAL)
     else kseq (kfor [0..<length n] (\<lambda>i. put_fs_byte (n ! i) (name + of_nat i))) (kreturn (int (length n))))"

section \<open>Names come back\<close>

text \<open>A zero-terminated string in user memory.\<close>

definition user_string :: "(u32 \<Rightarrow> u8) \<Rightarrow> u32 \<Rightarrow> u8 list \<Rightarrow> bool" where
  "user_string m a d \<longleftrightarrow> 0 \<notin> set d \<and> (\<forall>i < length d. m (a + of_nat i) = d ! i) \<and> m (a + of_nat (length d)) = 0"

lemma iam_loop_run:
  assumes "user_string m a d" and "length stk = 25" and "i \<le> length d" and "take i stk = take i d" and "i \<le> 25"
  shows "iam_loop m a i stk = (if length d < 25 then Inr (length d + 1, d @ 0 # drop (length d + 1) stk) else Inl (Fault ''str''))"
  using assms
proof (induction m a i stk rule: iam_loop.induct)
  case (1 m a i stk)
  show ?case
  proof (cases "i = length d")
    case True
    then have "m (a + of_nat i) = 0" "take (length d) stk = d" using 1(2,5) by (auto simp: user_string_def)
    then show ?thesis using True 1(3) by (subst iam_loop.simps) (auto simp: upd_conv_take_nth_drop)
  next
    case False
    then have i: "i < length d" using 1(4) by simp
    then have c: "m (a + of_nat i) = d ! i" "d ! i \<noteq> 0" using 1(2) by (auto simp: user_string_def in_set_conv_nth)
    show ?thesis
    proof (cases "i < 25")
      case True
      have "take (i + 1) (stk[i := d ! i]) = take (i + 1) d" using 1(3,5) i True by (simp add: take_Suc_conv_app_nth)
      then have "iam_loop m a (i + 1) (stk[i := d ! i]) =
          (if length d < 25 then Inr (length d + 1, d @ 0 # drop (length d + 1) (stk[i := d ! i])) else Inl (Fault ''str''))"
        using 1(1) 1(2,3) c i True by auto
      then show ?thesis using True c i by (simp add: iam_loop.simps [of m a i] Let_def)
    next
      case False
      then show ?thesis using i by (simp add: iam_loop.simps)
    qed
  qed
qed

lemma put_bytes_run:
  "kfor [0..<n] (\<lambda>i. put_fs_byte (d ! i) (a + of_nat i)) s = Ret () (s\<lparr>user := fold (\<lambda>i m. m(a + of_nat i := d ! i)) [0..<n] (user s)\<rparr>)"
  by (induction n) (simp_all add: kfor_append km_simps, simp add: fun_upd_def)

lemma put_bytes_at:
  assumes "n \<le> 2 ^ 32" and "i < n"
  shows "fold (\<lambda>i m. m(a + of_nat i := d ! i)) [0..<n] m (a + (of_nat i :: u32)) = d ! i"
  using assms
proof (induction n)
  case (Suc n)
  have "i = n" if "(of_nat i :: u32) = of_nat n"
    using that Suc.prems by (simp add: word_of_nat_eq_iff take_bit_nat_eq_self)
  then show ?case using Suc by (cases "i = n") auto
qed simp


definition ex_who :: whos where
  "ex_who = (fsys.extend ex_fs (whos.fields (replicate 24 0)))\<lparr>user := (\<lambda>_. 0)(0 := 65, 1 := 66)\<rparr>"


end
