(* ===== verification/Netbuf.thy ===== *)
theory Netbuf
  imports Fifo
begin

text \<open>
  The network library \<open>NetWork/lib\<close>, part one: the byte buffers of \<open>buffer.c\<close> and the readers of \<open>read.c\<close>. Sizes are natural
  numbers (the code never gets to 2 GB); a result \<open>None\<close> is an access outside of the allocated block. Memory that \<open>malloc\<close>
  and \<open>realloc\<close> return, and what arrives on a socket, are arguments.
\<close>

section \<open>Buffers\<close>

abbreviation (input) INIT_BUFFER_SIZE :: nat where "INIT_BUFFER_SIZE \<equiv> 65536"

record buffer =
  buf_data :: "u8 list"
  readIndex :: nat
  writeIndex :: nat
  total_size :: nat

text \<open>\<open>st\<close> tells if there was memory for the structure; \<open>blk\<close> is the block for the data (which is not checked).\<close>

definition buffer_new :: "bool \<Rightarrow> u8 list option \<Rightarrow> buffer option" where
  "buffer_new st blk =
     (if \<not> st then None
      else Some \<lparr>buf_data = (case blk of None \<Rightarrow> [] | Some d \<Rightarrow> d), readIndex = 0, writeIndex = 0, total_size = INIT_BUFFER_SIZE\<rparr>)"

definition buffer_writeable_size :: "buffer \<Rightarrow> nat" where
  "buffer_writeable_size b = total_size b - writeIndex b"

definition buffer_readable_size :: "buffer \<Rightarrow> nat" where
  "buffer_readable_size b = writeIndex b - readIndex b"

definition buffer_front_spare_size :: "buffer \<Rightarrow> nat" where
  "buffer_front_spare_size b = readIndex b"

type_synonym realloc = "u8 list \<Rightarrow> nat \<Rightarrow> u8 list option"

definition make_room :: "realloc \<Rightarrow> buffer \<Rightarrow> nat \<Rightarrow> buffer" where
  "make_room re b sz =
     (if buffer_writeable_size b \<ge> sz then b
      else if buffer_front_spare_size b + buffer_writeable_size b \<ge> sz then
        let readable = buffer_readable_size b
        in b\<lparr>buf_data := fold (\<lambda>i d. d[i := d ! (readIndex b + i)]) [0..<readable] (buf_data b), readIndex := 0, writeIndex := readable\<rparr>
      else case re (buf_data b) (total_size b + sz) of None \<Rightarrow> b
        | Some tmp \<Rightarrow> b\<lparr>buf_data := tmp, total_size := total_size b + sz\<rparr>)"

text \<open>\<open>memcpy\<close> to position \<open>i\<close> of a block.\<close>

definition block_put :: "nat \<Rightarrow> u8 list \<Rightarrow> u8 list \<Rightarrow> u8 list option" where
  "block_put i d blk = (if i + length d \<le> length blk then Some (take i blk @ d @ drop (i + length d) blk) else None)"

definition buffer_append :: "realloc \<Rightarrow> buffer \<Rightarrow> u8 list option \<Rightarrow> buffer option" where
  "buffer_append re b q =
     (case q of None \<Rightarrow> Some b
      | Some d \<Rightarrow>
          let b = make_room re b (length d)
          in map_option (\<lambda>blk. b\<lparr>buf_data := blk, writeIndex := writeIndex b + length d\<rparr>) (block_put (writeIndex b) d (buf_data b)))"

definition buffer_append_char :: "realloc \<Rightarrow> buffer \<Rightarrow> u8 \<Rightarrow> buffer option" where
  "buffer_append_char re b c =
     (let b = make_room re b 1
      in map_option (\<lambda>blk. b\<lparr>buf_data := blk, writeIndex := writeIndex b + 1\<rparr>) (block_put (writeIndex b) [c] (buf_data b)))"

text \<open>A C string is given by its bytes without the zero.\<close>

definition buffer_append_string :: "realloc \<Rightarrow> buffer \<Rightarrow> u8 list option \<Rightarrow> buffer option" where
  "buffer_append_string re b q = (case q of None \<Rightarrow> Some b | Some str \<Rightarrow> buffer_append re b (Some str))"

text \<open>\<open>q\<close> is what \<open>readv\<close> delivers: an error, or bytes for the free part of the buffer and then for the additional buffer.\<close>

definition buffer_socket_read :: "realloc \<Rightarrow> buffer \<Rightarrow> u8 list option \<Rightarrow> (int \<times> buffer) option" where
  "buffer_socket_read re b q =
     (let max_writable = buffer_writeable_size b
      in case q of None \<Rightarrow> Some (-1, b)
      | Some d \<Rightarrow>
          case block_put (writeIndex b) (take max_writable d) (buf_data b) of None \<Rightarrow> None
          | Some blk \<Rightarrow>
              let b = b\<lparr>buf_data := blk\<rparr>
              in if length d \<le> max_writable then Some (int (length d), b\<lparr>writeIndex := writeIndex b + length d\<rparr>)
                 else map_option (Pair (int (length d))) (buffer_append re (b\<lparr>writeIndex := total_size b\<rparr>) (Some (drop max_writable d))))"

definition buffer_read_char :: "buffer \<Rightarrow> (u8 \<times> buffer) option" where
  "buffer_read_char b =
     (if readIndex b < length (buf_data b) then Some (buf_data b ! readIndex b, b\<lparr>readIndex := readIndex b + 1\<rparr>) else None)"

text \<open>\<open>memmem\<close> of the C library: where a list occurs first in another one.\<close>

fun memmem :: "'b list \<Rightarrow> 'b list \<Rightarrow> nat option" where
  "memmem h n = (if take (length n) h = n then Some 0 else case h of [] \<Rightarrow> None | _ # t \<Rightarrow> map_option Suc (memmem t n))"

declare memmem.simps [simp del]

definition buffer_bytes :: "buffer \<Rightarrow> u8 list" where
  "buffer_bytes b = take (buffer_readable_size b) (drop (readIndex b) (buf_data b))"

abbreviation (input) CRLF :: "u8 list" where "CRLF \<equiv> [13, 10]"

text \<open>The position of the next line end, from the start of the readable bytes.\<close>

definition buffer_find_CRLF :: "buffer \<Rightarrow> nat option" where
  "buffer_find_CRLF b = memmem (buffer_bytes b) CRLF"

section \<open>Readers\<close>

text \<open>
  What the calls of \<open>read\<close> or \<open>recv\<close> on a socket return, one after the other: an interruption (\<open>EINTR\<close>), another error, or bytes.
  An empty list of bytes is the end of the stream, which is also what the model gives at the end of the list. A call that asks for fewer bytes
  than have arrived leaves the rest.
\<close>

datatype recv = Interrupted | Failed | Bytes "u8 list"

fun sock_read :: "nat \<Rightarrow> recv list \<Rightarrow> recv \<times> recv list" where
  "sock_read n [] = (Bytes [], [])"
| "sock_read n (Bytes d # rs) = (Bytes (take n d), if length d \<le> n then rs else Bytes (drop n d) # rs)"
| "sock_read n (r # rs) = (r, rs)"

fun sock_peek :: "recv list \<Rightarrow> recv \<times> recv list" where
  "sock_peek [] = (Bytes [], [])"
| "sock_peek (Bytes d # rs) = (Bytes (take 1 d), Bytes d # rs)"
| "sock_peek (r # rs) = (r, rs)"

lemma sock_read_Interrupted: "sock_read n rs = (Interrupted, rs') \<Longrightarrow> rs = Interrupted # rs'"
  by (induction n rs rule: sock_read.induct) auto

lemma sock_read_length: "sock_read n rs = (r, rs') \<Longrightarrow> length rs' \<le> length rs"
  by (induction n rs rule: sock_read.induct) (auto split: if_splits)

text \<open>\<open>None\<close> is the result \<open>-1\<close>.\<close>

function readn :: "nat \<Rightarrow> recv list \<Rightarrow> u8 list option \<times> recv list" where
  "readn n rs =
     (if n = 0 then (Some [], rs)
      else case sock_read n rs of
        (Interrupted, rs') \<Rightarrow> readn n rs'
      | (Failed, rs') \<Rightarrow> (None, rs')
      | (Bytes d, rs') \<Rightarrow>
          if d = [] then (Some [], rs')
          else (case readn (n - length d) rs' of (q, rs'') \<Rightarrow> (map_option ((@) d) q, rs'')))"
  by pat_completeness auto

termination
proof (relation "measure (\<lambda>(n, rs). n + length rs)", simp, goal_cases)
  case (1 n rs x xa)
  then show ?case by (auto dest!: sym [of "(Interrupted, xa)"] sock_read_Interrupted)
next
  case (2 n rs x xa d)
  then show ?case by (cases "(n, rs)" rule: sock_read.cases) (auto split: if_splits)
qed

declare readn.simps [simp del]

text \<open>\<open>readline_2\<close>: bytes until a newline; the result is -1 when the line does not fit, which the model gives as \<open>None\<close>.\<close>

fun readline_2 :: "nat \<Rightarrow> recv list \<Rightarrow> u8 list option \<times> recv list" where
  "readline_2 0 rs = (None, rs)"
| "readline_2 (Suc n) rs =
     (case sock_read 1 rs of
        (Bytes [c], rs') \<Rightarrow> if c = 10 then (Some [c], rs')
           else (case readline_2 n rs' of (q, rs'') \<Rightarrow> (map_option ((#) c) q, rs''))
      | (_, rs') \<Rightarrow> (None, rs'))"

text \<open>
  \<open>readline\<close> reads up to 512 bytes ahead into a static buffer; \<open>buf\<close> are the \<open>nleft\<close> bytes of it that are left. As \<open>nleft\<close> is
  a local variable, they are lost when the function returns. The counter \<open>length\<close> is unsigned and is decremented before the test.
  The result \<open>Some []\<close> is the result 0 at the end of the stream.
\<close>

function readline_loop :: "nat \<Rightarrow> u8 list \<Rightarrow> recv list \<Rightarrow> u8 list option \<times> recv list" where
  "readline_loop len buf rs =
     (let len' = (if len = 0 then 2 ^ 64 - 1 else len - 1);
          put = (\<lambda>c r. case r of (Some (l :: u8 list), rs :: recv list) \<Rightarrow> (Some (if l = [] then [] else c # l), rs) | (None, rs) \<Rightarrow> (None, rs))
      in if len' = 0 then (None, rs)
         else case buf of
           c # cs \<Rightarrow> if c = 10 then (Some [c], rs) else put c (readline_loop len' cs rs)
         | [] \<Rightarrow>
             (case sock_read 512 rs of
                (Interrupted, rs') \<Rightarrow> readline_loop len [] rs'
              | (Failed, rs') \<Rightarrow> (None, rs')
              | (Bytes [], rs') \<Rightarrow> (Some [], rs')
              | (Bytes (c # cs), rs') \<Rightarrow> if c = 10 then (Some [c], rs') else put c (readline_loop len' cs rs')))"
  by pat_completeness auto
termination
  by (relation "measure (\<lambda>(len, buf, rs). (if len = 0 then 2 ^ 64 else len) + length rs)")
    (auto split: if_splits dest!: sym [of "(_ :: recv, _ :: recv list)"] dest: sock_read_Interrupted sock_read_length)

definition readline :: "nat \<Rightarrow> recv list \<Rightarrow> u8 list option \<times> recv list" where
  "readline len rs = readline_loop len [] rs"

declare readline_loop.simps [simp del]

text \<open>
  \<open>read_line\<close>: one character at a time, where a carriage return with or without a newline becomes a newline. \<open>MSG_PEEK\<close> looks at
  the next byte without taking it.
\<close>

function read_line_loop :: "nat \<Rightarrow> recv list \<Rightarrow> u8 list \<times> recv list" where
  "read_line_loop n rs =
     (if n = 0 then ([], rs)
      else case sock_read 1 rs of
        (Bytes [c], rs') \<Rightarrow>
          if c = 13 then
            (case sock_peek rs' of
               (Bytes [d], rs'') \<Rightarrow> if d = 10 then ([10], snd (sock_read 1 rs'')) else ([10], rs'')
             | (_, rs'') \<Rightarrow> ([10], rs''))
          else if c = 10 then ([10], rs')
          else (case read_line_loop (n - 1) rs' of (l, rs'') \<Rightarrow> (c # l, rs''))
      | (_, rs') \<Rightarrow> ([], rs'))"
  by pat_completeness auto
termination
  by (relation "measure fst") auto

declare read_line_loop.simps [simp del]

definition read_line :: "nat \<Rightarrow> recv list \<Rightarrow> u8 list \<times> recv list" where
  "read_line sz rs = read_line_loop (sz - 1) rs"

text \<open>A message is its length and its type, four bytes each, the length in network order, and the bytes.\<close>

definition ntohl :: "u8 list \<Rightarrow> nat" where
  "ntohl b = foldl (\<lambda>n c. 256 * n + unat c) 0 b"

datatype message = Message_error | Message_none | Message "u8 list"

definition read_message :: "nat \<Rightarrow> recv list \<Rightarrow> message \<times> recv list" where
  "read_message len rs =
     (let part = (\<lambda>n rs f. case readn n rs of (None, rs') \<Rightarrow> (Message_error, rs')
        | (Some d, rs') \<Rightarrow> if length d \<noteq> n then (Message_none, rs') else f d rs')
      in part 4 rs (\<lambda>l rs. part 4 rs (\<lambda>_ rs.
           if ntohl l > len then (Message_error, rs) else part (ntohl l) rs (\<lambda>d rs. (Message d, rs)))))"

section \<open>Buffers are queues\<close>

definition wf_buffer :: "buffer \<Rightarrow> bool" where
  "wf_buffer b \<longleftrightarrow> readIndex b \<le> writeIndex b \<and> writeIndex b \<le> total_size b \<and> length (buf_data b) = total_size b"

text \<open>What the C standard says of \<open>realloc\<close>: the new block has the size asked for and starts with the old contents.\<close>

definition realloc_ok :: "realloc \<Rightarrow> bool" where
  "realloc_ok re \<longleftrightarrow> (\<forall>d n d'. re d n = Some d' \<longrightarrow> length d' = n \<and> take (min n (length d)) d' = take (min n (length d)) d)"

lemmas size_defs = buffer_writeable_size_def buffer_readable_size_def buffer_front_spare_size_def

lemma length_buffer_bytes: "wf_buffer b \<Longrightarrow> length (buffer_bytes b) = writeIndex b - readIndex b"
  by (auto simp: wf_buffer_def buffer_bytes_def size_defs)

lemma buffer_bytes_alt: "wf_buffer b \<Longrightarrow> buffer_bytes b = drop (readIndex b) (take (writeIndex b) (buf_data b))"
  by (simp add: wf_buffer_def buffer_bytes_def size_defs drop_take)

text \<open>Moving bytes to the front one by one, in ascending order.\<close>

lemma shift_front:
  assumes "r + n \<le> length d"
  shows "fold (\<lambda>i d. d[i := d ! (r + i)]) [0..<n] d = take n (drop r d) @ drop n d"
  using assms
proof (induction n)
  case (Suc n)
  let ?e = "take n (drop r d) @ drop n d"
  have n: "n < length d" "r + n < length d" using Suc.prems by auto
  have e: "?e ! (r + n) = d ! (r + n)" using n by (simp add: nth_append add.commute)
  have "fold (\<lambda>i d. d[i := d ! (r + i)]) [0..<Suc n] d = ?e[n := ?e ! (r + n)]" using Suc by simp
  also have "\<dots> = take n (drop r d) @ (d ! (r + n)) # drop (Suc n) d"
    unfolding e using n by (simp add: list_update_append Cons_nth_drop_Suc [symmetric])
  also have "\<dots> = take (Suc n) (drop r d) @ drop (Suc n) d" using n by (simp add: take_Suc_conv_app_nth)
  finally show ?case .
qed simp

lemma make_room_bytes:
  assumes "wf_buffer b" and "realloc_ok re"
  shows "wf_buffer (make_room re b n) \<and> buffer_bytes (make_room re b n) = buffer_bytes b"
proof -
  let ?r = "readIndex b" and ?w = "writeIndex b" and ?d = "buf_data b"
  have b: "?r \<le> ?w" "?w \<le> total_size b" "length ?d = total_size b" using assms(1) by (simp_all add: wf_buffer_def)
  have s: "fold (\<lambda>i d. d[i := d ! (?r + i)]) [0..<?w - ?r] ?d = take (?w - ?r) (drop ?r ?d) @ drop (?w - ?r) ?d"
    using b by (intro shift_front) simp
  have g: "take (?w - ?r) (drop ?r tmp) = take (?w - ?r) (drop ?r ?d)" "length tmp = total_size b + n" if "re ?d (total_size b + n) = Some tmp" for tmp
  proof -
    have t: "length tmp = total_size b + n" "take (total_size b) tmp = ?d"
      using assms(2) that b by (fastforce simp: realloc_ok_def)+
    then have "take ?w tmp = take ?w ?d" using b(2) by (metis min.absorb1 take_take)
    then show "take (?w - ?r) (drop ?r tmp) = take (?w - ?r) (drop ?r ?d)" by (simp add: take_drop b)
    show "length tmp = total_size b + n" by (rule t)
  qed
  show ?thesis using b g by (auto simp: make_room_def Let_def s wf_buffer_def buffer_bytes_def size_defs split: option.split)
qed

lemma make_room_enough:
  assumes "wf_buffer b" and "realloc_ok re" and "\<And>d n. re d n \<noteq> None"
  shows "n \<le> buffer_writeable_size (make_room re b n)"
  using assms(1) assms(3) [of "buf_data b" "total_size b + n"]
  by (auto simp: make_room_def Let_def wf_buffer_def size_defs split: option.split)

lemma put_bytes:
  assumes "wf_buffer b" and "block_put (writeIndex b) d (buf_data b) = Some blk" and "c = b\<lparr>buf_data := blk, writeIndex := writeIndex b + length d\<rparr>"
  shows "wf_buffer c \<and> buffer_bytes c = buffer_bytes b @ d"
proof -
  let ?w = "writeIndex b"
  have blk: "blk = take ?w (buf_data b) @ d @ drop (?w + length d) (buf_data b)" "?w + length d \<le> length (buf_data b)"
    using assms(2) by (auto simp: block_put_def split: if_splits)
  have w: "wf_buffer c" using assms(1,3) blk by (auto simp: wf_buffer_def)
  have "take (?w + length d) blk = take ?w (buf_data b) @ d" using blk by simp
  then show ?thesis using w assms(1,3) by (simp add: buffer_bytes_alt wf_buffer_def)
qed

lemma buffer_append_bytes:
  assumes "wf_buffer b" and "realloc_ok re" and "buffer_append re b (Some d) = Some c"
  shows "wf_buffer c \<and> buffer_bytes c = buffer_bytes b @ d"
proof -
  let ?m = "make_room re b (length d)"
  obtain blk where blk: "block_put (writeIndex ?m) d (buf_data ?m) = Some blk" "c = ?m\<lparr>buf_data := blk, writeIndex := writeIndex ?m + length d\<rparr>"
    using assms(3) by (auto simp: buffer_append_def Let_def)
  then show ?thesis using put_bytes [OF _ blk] make_room_bytes [OF assms(1,2)] by simp
qed

lemma buffer_append_char_bytes: "buffer_append_char re b ch = buffer_append re b (Some [ch])"
  by (simp add: buffer_append_char_def buffer_append_def)

lemma buffer_socket_read_bytes:
  assumes "wf_buffer b" and "realloc_ok re" and "buffer_socket_read re b (Some d) = Some (r, c)"
  shows "wf_buffer c \<and> buffer_bytes c = buffer_bytes b @ d \<and> r = int (length d)"
proof -
  let ?m = "buffer_writeable_size b" and ?w = "writeIndex b"
  obtain blk where blk: "block_put ?w (take ?m d) (buf_data b) = Some blk" using assms(3) by (auto simp: buffer_socket_read_def Let_def split: option.splits)
  define e where "e = b\<lparr>buf_data := blk, writeIndex := ?w + length (take ?m d)\<rparr>"
  have e: "wf_buffer e" "buffer_bytes e = buffer_bytes b @ take ?m d"
    using put_bytes [OF assms(1) blk e_def] by simp_all
  show ?thesis
  proof (cases "length d \<le> ?m")
    case True
    then have "c = e" "r = int (length d)" using assms(3) blk by (simp_all add: buffer_socket_read_def e_def)
    then show ?thesis using e True by simp
  next
    case False
    then have "?w + ?m = total_size b" using assms(1) by (simp add: wf_buffer_def size_defs)
    then have "buffer_append re e (Some (drop ?m d)) = Some c" "r = int (length d)"
      using assms(3) blk False by (auto simp: buffer_socket_read_def e_def)
    then show ?thesis using buffer_append_bytes [OF e(1) assms(2)] e(2) by simp
  qed
qed

text \<open>
  The life of a buffer: bytes are appended by the program or from a socket, and taken by \<open>buffer_read_char\<close> or by the callers that
  move \<open>readIndex\<close> over readable bytes.
\<close>

inductive buffer_step :: "realloc \<Rightarrow> buffer \<Rightarrow> u8 list \<Rightarrow> u8 list \<Rightarrow> buffer \<Rightarrow> bool" for re where
  step_append: "buffer_append re b (Some d) = Some c \<Longrightarrow> buffer_step re b d [] c"
| step_append_char: "buffer_append_char re b ch = Some c \<Longrightarrow> buffer_step re b [ch] [] c"
| step_append_string: "buffer_append_string re b (Some str) = Some c \<Longrightarrow> buffer_step re b str [] c"
| step_socket: "buffer_socket_read re b (Some d) = Some (r, c) \<Longrightarrow> buffer_step re b d [] c"
| step_read: "buffer_readable_size b > 0 \<Longrightarrow> buffer_read_char b = Some (ch, c) \<Longrightarrow> buffer_step re b [] [ch] c"
| step_take: "n \<le> buffer_readable_size b \<Longrightarrow> buffer_step re b [] (take n (buffer_bytes b)) (b\<lparr>readIndex := readIndex b + n\<rparr>)"

lemma take_bytes:
  assumes "wf_buffer b" and "n \<le> buffer_readable_size b"
  shows "wf_buffer (b\<lparr>readIndex := readIndex b + n\<rparr>) \<and> buffer_bytes b = take n (buffer_bytes b) @ buffer_bytes (b\<lparr>readIndex := readIndex b + n\<rparr>)"
proof -
  have "buffer_bytes (b\<lparr>readIndex := readIndex b + n\<rparr>) = drop n (buffer_bytes b)"
    by (simp add: buffer_bytes_def size_defs drop_take add.commute)
  then show ?thesis using assms by (auto simp: wf_buffer_def size_defs)
qed

lemma read_char_bytes:
  assumes "wf_buffer b" and "buffer_readable_size b > 0" and "buffer_read_char b = Some (ch, c)"
  shows "wf_buffer c \<and> buffer_bytes b = ch # buffer_bytes c"
proof -
  have c: "c = b\<lparr>readIndex := readIndex b + 1\<rparr>" "ch = buf_data b ! readIndex b" using assms(3) by (auto simp: buffer_read_char_def split: if_splits)
  have "buffer_bytes b ! 0 = ch" "buffer_bytes b \<noteq> []" using assms c by (auto simp: buffer_bytes_def wf_buffer_def size_defs)
  then have "take 1 (buffer_bytes b) = [ch]" by (cases "buffer_bytes b") auto
  then show ?thesis using take_bytes [OF assms(1), of 1] assms(2) unfolding c(1) by simp
qed

lemma buffer_step_fifo:
  assumes "buffer_step re b a d c" and "realloc_ok re" and "wf_buffer b"
  shows "wf_buffer c \<and> buffer_bytes b @ a = d @ buffer_bytes c"
  using assms(1)
proof cases
  case step_append
  then show ?thesis using buffer_append_bytes [OF assms(3,2)] by simp
next
  case (step_append_char ch)
  then show ?thesis using buffer_append_bytes [OF assms(3,2)] by (simp add: buffer_append_char_bytes)
next
  case step_append_string
  then show ?thesis using buffer_append_bytes [OF assms(3,2)] by (simp add: buffer_append_string_def)
next
  case (step_socket r)
  then show ?thesis using buffer_socket_read_bytes [OF assms(3,2)] by simp
next
  case (step_read ch)
  then show ?thesis using read_char_bytes [OF assms(3)] by simp
next
  case (step_take n)
  then show ?thesis using take_bytes [OF assms(3)] by simp
qed

text \<open>With a \<open>realloc\<close> that is as documented, steps of a buffer are those of a queue.\<close>

interpretation netbuf: fifo "\<lambda>b a d c. realloc_ok re \<and> buffer_step re b a d c" wf_buffer buffer_bytes for re
  by unfold_locales (auto dest: buffer_step_fifo)

lemma runs_both: "runs (buffer_step re) b a d c \<Longrightarrow> realloc_ok re \<Longrightarrow> runs (\<lambda>b a d c. realloc_ok re \<and> buffer_step re b a d c) b a d c"
  by (induction rule: runs.induct) (auto intro: runs.intros)

lemma buffer_append_total:
  assumes "wf_buffer b" and "realloc_ok re" and "\<And>d n. re d n \<noteq> None"
  shows "buffer_append re b (Some d) \<noteq> None"
  using make_room_enough [OF assms, of "length d"] make_room_bytes [OF assms(1,2), of "length d"]
  by (auto simp: buffer_append_def Let_def block_put_def wf_buffer_def size_defs)


definition ex_realloc :: realloc where
  "ex_realloc d n = Some (take n d @ replicate (n - length d) 0)"

lemma ex_realloc_ok: "realloc_ok ex_realloc"
  by (auto simp: realloc_ok_def ex_realloc_def)


section \<open>Messages in a stream\<close>

text \<open>The bytes that arrive on a stream, whatever the pieces and interruptions.\<close>

fun stream_bytes :: "recv list \<Rightarrow> u8 list" where
  "stream_bytes [] = []"
| "stream_bytes (Bytes d # rs) = d @ stream_bytes rs"
| "stream_bytes (_ # rs) = stream_bytes rs"

definition healthy :: "recv list \<Rightarrow> bool" where
  "healthy rs \<longleftrightarrow> Failed \<notin> set rs \<and> Bytes [] \<notin> set rs"

lemma readn_run:
  assumes "healthy rs"
  shows "\<exists>rs'. readn n rs = (Some (take n (stream_bytes rs)), rs') \<and> healthy rs' \<and> stream_bytes rs' = drop n (stream_bytes rs)"
  using assms
proof (induction "n + length rs" arbitrary: n rs rule: less_induct)
  case less
  show ?case
  proof (cases "n = 0")
    case True
    then show ?thesis using less.prems by (simp add: readn.simps)
  next
    case n: False
    consider "rs = []" | rs' where "rs = Interrupted # rs'" | d rs' where "rs = Bytes d # rs'" "d \<noteq> []"
      using less.prems by (cases rs rule: stream_bytes.cases) (auto simp: healthy_def)
    then show ?thesis
    proof cases
      case 1
      then show ?thesis using n by (simp add: readn.simps healthy_def)
    next
      case (2 rs')
      then have "healthy rs'" using less.prems by (simp add: healthy_def)
      then show ?thesis using less.hyps [of n rs'] 2 n by (simp add: readn.simps [of n])
    next
      case (3 d rs')
      let ?rest = "if length d \<le> n then rs' else Bytes (drop n d) # rs'" and ?k = "n - length (take n d)"
      have h: "healthy ?rest" using less.prems 3 by (auto simp: healthy_def)
      have t: "take n d \<noteq> []" "?k + length ?rest < n + length rs" using n 3 by (auto simp: min_def)
      obtain rs'' where "readn ?k ?rest = (Some (take ?k (stream_bytes ?rest)), rs'')" "healthy rs''" "stream_bytes rs'' = drop ?k (stream_bytes ?rest)"
        using less.hyps [OF t(2) h] by blast
      then show ?thesis using n t(1) 3 by (auto simp: readn.simps [of n])
    qed
  qed
qed

definition htonl :: "nat \<Rightarrow> u8 list" where
  "htonl n = [of_nat (n div 2 ^ 24), of_nat (n div 2 ^ 16), of_nat (n div 2 ^ 8), of_nat n]"

lemma ntohl_htonl: "n < 2 ^ 32 \<Longrightarrow> ntohl (htonl n) = n"
proof -
  assume n: "n < 2 ^ 32"
  have "n div 2 ^ 24 < 256" using n by (simp add: less_mult_imp_div_less)
  moreover have "256 * (256 * (256 * (n div 16777216) + n div 65536 mod 256) + n div 256 mod 256) + n mod 256 = n"
  proof -
    have "n div 256 div 256 = n div 65536" "n div 65536 div 256 = n div 16777216" by (simp_all add: div_mult2_eq [symmetric])
    then show ?thesis
      using mult_div_mod_eq [of 256 n] mult_div_mod_eq [of 256 "n div 256"] mult_div_mod_eq [of 256 "n div 65536"] by presburger
  qed
  ultimately show ?thesis by (simp add: ntohl_def htonl_def unat_of_nat)
qed

text \<open>A message as a sender puts it on the stream; \<open>ty\<close> are the four bytes of its type.\<close>

definition frame :: "u8 list \<Rightarrow> u8 list \<Rightarrow> u8 list" where
  "frame ty d = htonl (length d) @ ty @ d"



end
