(* ===== verification/Netloop.thy ===== *)
theory Netloop
  imports Netbuf
begin

text \<open>
  The network library, part two: \<open>channel.c\<close>, \<open>channel_map.c\<close>, \<open>event_loop.c\<close>, the dispatchers \<open>poll_dispatcher.c\<close> and \<open>epoll_dispatcher.c\<close>,
  and \<open>thread_pool.c\<close>. Channels and loops are in tables, pointers to them are indices. A failed \<open>assert\<close> and \<open>exit\<close> are panics. Critical sections are
  guarded by the mutex of the loop and are atomic. Log output is left out.
\<close>

section \<open>State\<close>

abbreviation (input) EVENT_READ :: u32 where "EVENT_READ \<equiv> 2"
abbreviation (input) EVENT_WRITE :: u32 where "EVENT_WRITE \<equiv> 4"

text \<open>The functions that are used as callbacks, and what \<open>data\<close> of a channel can point to.\<close>

datatype callback = HandleWakeup | HandleConnectionEstablished | HandleRead | HandleWrite

datatype chdata = Loop nat | Server | Connection nat

record channel =
  ch_fd :: int
  ch_events :: u32
  eventReadCallback :: "callback option"
  eventWriteCallback :: "callback option"
  ch_data :: chdata

text \<open>
  \<open>struct event_loop\<close>; \<open>channelMap\<close> is the array \<open>entries\<close>, as long as \<open>nentries\<close>; \<open>pending\<close> is the list from \<open>pending_head\<close> to
  \<open>pending_tail\<close>, with the type and the channel of each element.
\<close>

record 'd event_loop =
  quit :: bool
  event_dispatcher_data :: 'd
  channelMap :: "nat option list"
  is_handle_pending :: bool
  pending :: "(nat \<times> nat) list"
  owner_thread_id :: nat
  socketPair :: "int \<times> int"

record 'd netk =
  loops :: "'d event_loop list"
  channels :: "channel list"
  wakeups :: "int list"

text \<open>\<open>struct event_dispatcher\<close>, as far as the loop calls it to change the set of descriptors; \<open>None\<close> is the end of the process.\<close>

record 'd event_dispatcher =
  ed_add :: "channel \<Rightarrow> 'd \<Rightarrow> 'd option"
  ed_del :: "channel \<Rightarrow> 'd \<Rightarrow> 'd option"
  ed_update :: "channel \<Rightarrow> 'd \<Rightarrow> 'd option"

definition get_chan :: "nat \<Rightarrow> (('d, 'a) netk_scheme, channel) km" where
  "get_chan c = (\<lambda>s. if c < length (channels s) then Ret (channels s ! c) s else Stop (Fault ''channel'') s)"

definition upd_chan :: "nat \<Rightarrow> (channel \<Rightarrow> channel) \<Rightarrow> (('d, 'a) netk_scheme, unit) km" where
  "upd_chan c f = kmod (\<lambda>s. s\<lparr>channels := (channels s)[c := f (channels s ! c)]\<rparr>)"

definition get_loop :: "nat \<Rightarrow> (('d, 'a) netk_scheme, 'd event_loop) km" where
  "get_loop l = (\<lambda>s. if l < length (loops s) then Ret (loops s ! l) s else Stop (Fault ''event_loop'') s)"

definition upd_loop :: "nat \<Rightarrow> ('d event_loop \<Rightarrow> 'd event_loop) \<Rightarrow> (('d, 'a) netk_scheme, unit) km" where
  "upd_loop l f = kmod (\<lambda>s. s\<lparr>loops := (loops s)[l := f (loops s ! l)]\<rparr>)"

section \<open>Channel maps\<close>

text \<open>The loop that doubles the size until the slot is inside.\<close>

function map_size :: "nat \<Rightarrow> nat \<Rightarrow> nat" where
  "map_size n slot = (if 0 < n \<and> n \<le> slot then map_size (2 * n) slot else n)"
  by pat_completeness auto
termination
  by (relation "measure (\<lambda>(n, slot). Suc slot - n)") auto

declare map_size.simps [simp del]

text \<open>\<open>mem n\<close> tells if \<open>realloc\<close> finds memory for \<open>n\<close> entries; \<open>None\<close> is the result -1.\<close>

definition map_make_space :: "(nat \<Rightarrow> bool) \<Rightarrow> 'b option list \<Rightarrow> nat \<Rightarrow> 'b option list option" where
  "map_make_space mem es slot =
     (if length es \<le> slot then
        let n = map_size (if es = [] then 32 else length es) slot
        in if \<not> mem n then None else Some (es @ replicate (n - length es) None)
      else Some es)"

definition map_init :: "'b option list" where
  "map_init = []"

definition map_clear :: "'b option list \<Rightarrow> 'b option list" where
  "map_clear es = []"

section \<open>The poll dispatcher\<close>

record pollfd =
  pfd_fd :: int
  pfd_events :: u32
  pfd_revents :: u32

abbreviation (input) INIT_POLL_SIZE :: nat where "INIT_POLL_SIZE \<equiv> 1024"
abbreviation (input) POLLRDNORM :: u32 where "POLLRDNORM \<equiv> 0x40"
abbreviation (input) POLLWRNORM :: u32 where "POLLWRNORM \<equiv> 0x100"

text \<open>\<open>blk\<close> is the block that \<open>malloc\<close> returned.\<close>

definition poll_init :: "pollfd list \<Rightarrow> pollfd list" where
  "poll_init blk = map (\<lambda>p. p\<lparr>pfd_fd := -1\<rparr>) blk"

definition poll_events :: "channel \<Rightarrow> u32" where
  "poll_events ch =
     (let e = 0; e = (if ch_events ch AND EVENT_READ \<noteq> 0 then e OR POLLRDNORM else e)
      in if ch_events ch AND EVENT_WRITE \<noteq> 0 then e OR POLLWRNORM else e)"

text \<open>The loops over the array: the first entry that fits is changed. When there is none, a message is logged and the result is 0 all the same.\<close>

fun poll_first :: "(pollfd \<Rightarrow> bool) \<Rightarrow> (pollfd \<Rightarrow> pollfd) \<Rightarrow> pollfd list \<Rightarrow> pollfd list" where
  "poll_first P f [] = []"
| "poll_first P f (p # ps) = (if P p then f p # ps else p # poll_first P f ps)"

definition poll_add :: "channel \<Rightarrow> pollfd list \<Rightarrow> pollfd list option" where
  "poll_add ch ps = Some (poll_first (\<lambda>p. pfd_fd p < 0) (\<lambda>p. p\<lparr>pfd_fd := ch_fd ch, pfd_events := poll_events ch\<rparr>) ps)"

definition poll_del :: "channel \<Rightarrow> pollfd list \<Rightarrow> pollfd list option" where
  "poll_del ch ps = Some (poll_first (\<lambda>p. pfd_fd p = ch_fd ch) (\<lambda>p. p\<lparr>pfd_fd := -1\<rparr>) ps)"

definition poll_update :: "channel \<Rightarrow> pollfd list \<Rightarrow> pollfd list option" where
  "poll_update ch ps = Some (poll_first (\<lambda>p. pfd_fd p = ch_fd ch) (\<lambda>p. p\<lparr>pfd_events := poll_events ch\<rparr>) ps)"

definition poll_dispatcher :: "pollfd list event_dispatcher" where
  "poll_dispatcher = \<lparr>ed_add = poll_add, ed_del = poll_del, ed_update = poll_update\<rparr>"

section \<open>The epoll dispatcher\<close>

text \<open>
  The set of descriptors is in the operating system. \<open>ctl\<close> stands for \<open>epoll_ctl\<close> on the descriptor \<open>efd\<close>, with its operation, the descriptor and the events;
  when it fails, the process ends.
\<close>

datatype epoll_op = EPOLL_CTL_ADD | EPOLL_CTL_DEL | EPOLL_CTL_MOD

abbreviation (input) EPOLLIN :: u32 where "EPOLLIN \<equiv> 1"
abbreviation (input) EPOLLOUT :: u32 where "EPOLLOUT \<equiv> 4"

definition epoll_events :: "channel \<Rightarrow> u32" where
  "epoll_events ch =
     (let e = 0; e = (if ch_events ch AND EVENT_READ \<noteq> 0 then e OR EPOLLIN else e)
      in if ch_events ch AND EVENT_WRITE \<noteq> 0 then e OR EPOLLOUT else e)"

definition epoll_add :: "(epoll_op \<Rightarrow> int \<Rightarrow> u32 \<Rightarrow> 'd \<Rightarrow> 'd option) \<Rightarrow> channel \<Rightarrow> 'd \<Rightarrow> 'd option" where
  "epoll_add ctl ch d = ctl EPOLL_CTL_ADD (ch_fd ch) (epoll_events ch) d"

definition epoll_del :: "(epoll_op \<Rightarrow> int \<Rightarrow> u32 \<Rightarrow> 'd \<Rightarrow> 'd option) \<Rightarrow> channel \<Rightarrow> 'd \<Rightarrow> 'd option" where
  "epoll_del ctl ch d = ctl EPOLL_CTL_DEL (ch_fd ch) (epoll_events ch) d"

definition epoll_update :: "(epoll_op \<Rightarrow> int \<Rightarrow> u32 \<Rightarrow> 'd \<Rightarrow> 'd option) \<Rightarrow> channel \<Rightarrow> 'd \<Rightarrow> 'd option" where
  "epoll_update ctl ch d = ctl EPOLL_CTL_MOD (ch_fd ch) (epoll_events ch) d"

definition epoll_dispatcher :: "(epoll_op \<Rightarrow> int \<Rightarrow> u32 \<Rightarrow> 'd \<Rightarrow> 'd option) \<Rightarrow> 'd event_dispatcher" where
  "epoll_dispatcher ctl = \<lparr>ed_add = epoll_add ctl, ed_del = epoll_del ctl, ed_update = epoll_update ctl\<rparr>"

section \<open>Pending changes\<close>

text \<open>A call of the dispatcher of loop \<open>l\<close>.\<close>

definition ed_call :: "('d \<Rightarrow> 'd option) \<Rightarrow> nat \<Rightarrow> (('d, 'a) netk_scheme, unit) km" where
  "ed_call f l =
     kbind (get_loop l) (\<lambda>x.
     case f (event_dispatcher_data x) of None \<Rightarrow> kstop (Panic ''exit'')
     | Some d \<Rightarrow> upd_loop l (\<lambda>x. x\<lparr>event_dispatcher_data := d\<rparr>))"

definition event_loop_handle_pending_add :: "'d event_dispatcher \<Rightarrow> (nat \<Rightarrow> bool) \<Rightarrow> nat \<Rightarrow> int \<Rightarrow> nat \<Rightarrow> (('d, 'a) netk_scheme, int) km" where
  "event_loop_handle_pending_add ed mem l fd c =
     (if fd < 0 then kreturn 0
      else kbind (get_loop l) (\<lambda>x.
        case (if nat fd \<ge> length (channelMap x) then map_make_space mem (channelMap x) (nat fd) else Some (channelMap x)) of
          None \<Rightarrow> kreturn (-1)
        | Some es \<Rightarrow>
            if es ! nat fd = None then
              kbind (get_chan c) (\<lambda>ch.
              kseq (upd_loop l (\<lambda>x. x\<lparr>channelMap := es[nat fd := Some c]\<rparr>))
              (kseq (ed_call (ed_add ed ch) l) (kreturn 1)))
            else kseq (upd_loop l (\<lambda>x. x\<lparr>channelMap := es\<rparr>)) (kreturn 0)))"

definition event_loop_handle_pending_remove :: "'d event_dispatcher \<Rightarrow> nat \<Rightarrow> int \<Rightarrow> nat \<Rightarrow> (('d, 'a) netk_scheme, int) km" where
  "event_loop_handle_pending_remove ed l fd c =
     kbind (get_chan c) (\<lambda>ch1.
     if fd \<noteq> ch_fd ch1 then kstop (Panic ''assert'')
     else if fd < 0 then kreturn 0
     else kbind (get_loop l) (\<lambda>x.
       if nat fd \<ge> length (channelMap x) then kreturn (-1)
       else case channelMap x ! nat fd of None \<Rightarrow> kstop (Fault ''channel2'')
         | Some c2 \<Rightarrow> kbind (get_chan c2) (\<lambda>ch2.
             kseq (ed_call (ed_del ed ch2) l)
             (kseq (upd_loop l (\<lambda>x. x\<lparr>channelMap := (channelMap x)[nat fd := None]\<rparr>)) (kreturn 1)))))"

text \<open>The index is not compared with the size of the map.\<close>

definition event_loop_handle_pending_update :: "'d event_dispatcher \<Rightarrow> nat \<Rightarrow> int \<Rightarrow> nat \<Rightarrow> (('d, 'a) netk_scheme, unit) km" where
  "event_loop_handle_pending_update ed l fd c =
     (if fd < 0 then kreturn ()
      else kbind (get_loop l) (\<lambda>x.
        if nat fd \<ge> length (channelMap x) then kstop (Fault ''entries'')
        else if channelMap x ! nat fd = None then kreturn ()
        else kbind (get_chan c) (\<lambda>ch. ed_call (ed_update ed ch) l)))"

definition handle_element :: "'d event_dispatcher \<Rightarrow> (nat \<Rightarrow> bool) \<Rightarrow> nat \<Rightarrow> nat \<times> nat \<Rightarrow> (('d, 'a) netk_scheme, unit) km" where
  "handle_element ed mem l = (\<lambda>(ty, c).
     kbind (get_chan c) (\<lambda>ch.
     let fd = ch_fd ch
     in if ty = 1 then kbind (event_loop_handle_pending_add ed mem l fd c) (\<lambda>_. kreturn ())
        else if ty = 2 then kbind (event_loop_handle_pending_remove ed l fd c) (\<lambda>_. kreturn ())
        else if ty = 3 then event_loop_handle_pending_update ed l fd c
        else kreturn ()))"

definition event_loop_handle_pending_channel :: "'d event_dispatcher \<Rightarrow> (nat \<Rightarrow> bool) \<Rightarrow> nat \<Rightarrow> (('d, 'a) netk_scheme, unit) km" where
  "event_loop_handle_pending_channel ed mem l =
     kseq (upd_loop l (\<lambda>x. x\<lparr>is_handle_pending := True\<rparr>))
     (kbind (get_loop l) (\<lambda>x.
      kseq (kfor (pending x) (handle_element ed mem l))
      (upd_loop l (\<lambda>x. x\<lparr>pending := [], is_handle_pending := False\<rparr>))))"

definition event_loop_channel_buffer_nolock :: "nat \<Rightarrow> nat \<Rightarrow> nat \<Rightarrow> (('d, 'a) netk_scheme, unit) km" where
  "event_loop_channel_buffer_nolock l c ty = upd_loop l (\<lambda>x. x\<lparr>pending := pending x @ [(ty, c)]\<rparr>)"

text \<open>A byte on the socket pair; a failure is only logged.\<close>

definition event_loop_wakeup :: "nat \<Rightarrow> (('d, 'a) netk_scheme, unit) km" where
  "event_loop_wakeup l = kbind (get_loop l) (\<lambda>x. kmod (\<lambda>s. s\<lparr>wakeups := wakeups s @ [fst (socketPair x)]\<rparr>))"

definition isInSameThread :: "nat \<Rightarrow> 'd event_loop \<Rightarrow> bool" where
  "isInSameThread self x \<longleftrightarrow> owner_thread_id x = self"

text \<open>\<open>self\<close> is the calling thread.\<close>

definition event_loop_do_channel_event :: "'d event_dispatcher \<Rightarrow> (nat \<Rightarrow> bool) \<Rightarrow> nat \<Rightarrow> nat \<Rightarrow> nat \<Rightarrow> nat \<Rightarrow> (('d, 'a) netk_scheme, unit) km" where
  "event_loop_do_channel_event ed mem self l c ty =
     kbind (get_loop l) (\<lambda>x.
     if is_handle_pending x then kstop (Panic ''assert'')
     else kseq (event_loop_channel_buffer_nolock l c ty)
       (if \<not> isInSameThread self x then event_loop_wakeup l else event_loop_handle_pending_channel ed mem l))"

definition event_loop_add_channel_event :: "'d event_dispatcher \<Rightarrow> (nat \<Rightarrow> bool) \<Rightarrow> nat \<Rightarrow> nat \<Rightarrow> nat \<Rightarrow> (('d, 'a) netk_scheme, unit) km" where
  "event_loop_add_channel_event ed mem self l c = event_loop_do_channel_event ed mem self l c 1"

definition event_loop_remove_channel_event :: "'d event_dispatcher \<Rightarrow> (nat \<Rightarrow> bool) \<Rightarrow> nat \<Rightarrow> nat \<Rightarrow> nat \<Rightarrow> (('d, 'a) netk_scheme, unit) km" where
  "event_loop_remove_channel_event ed mem self l c = event_loop_do_channel_event ed mem self l c 2"

definition event_loop_update_channel_event :: "'d event_dispatcher \<Rightarrow> (nat \<Rightarrow> bool) \<Rightarrow> nat \<Rightarrow> nat \<Rightarrow> nat \<Rightarrow> (('d, 'a) netk_scheme, unit) km" where
  "event_loop_update_channel_event ed mem self l c = event_loop_do_channel_event ed mem self l c 3"

definition assertInSameThread :: "nat \<Rightarrow> nat \<Rightarrow> (('d, 'a) netk_scheme, unit) km" where
  "assertInSameThread self l = kbind (get_loop l) (\<lambda>x. if owner_thread_id x \<noteq> self then kstop (Panic ''exit'') else kreturn ())"

section \<open>Channels\<close>

definition channel_new :: "int \<Rightarrow> u32 \<Rightarrow> callback option \<Rightarrow> callback option \<Rightarrow> chdata \<Rightarrow> (('d, 'a) netk_scheme, nat) km" where
  "channel_new fd ev r w d =
     kbind (kget (\<lambda>s. length (channels s))) (\<lambda>c.
     kseq (kmod (\<lambda>s. s\<lparr>channels := channels s @ [\<lparr>ch_fd = fd, ch_events = ev, eventReadCallback = r, eventWriteCallback = w, ch_data = d\<rparr>]\<rparr>))
     (kreturn c))"

definition channel_write_event_is_enabled :: "channel \<Rightarrow> bool" where
  "channel_write_event_is_enabled ch \<longleftrightarrow> ch_events ch AND EVENT_WRITE \<noteq> 0"

text \<open>
  The two functions take the data of the channel for an event loop. The data of a channel of a connection is the
  connection: what the call then does is not defined.
\<close>

definition channel_loop :: "nat \<Rightarrow> (('d, 'a) netk_scheme, nat) km" where
  "channel_loop c = kbind (get_chan c) (\<lambda>ch. case ch_data ch of Loop l \<Rightarrow> kreturn l | _ \<Rightarrow> kstop (Fault ''eventLoop''))"

definition channel_write_event_enable :: "'d event_dispatcher \<Rightarrow> (nat \<Rightarrow> bool) \<Rightarrow> nat \<Rightarrow> nat \<Rightarrow> (('d, 'a) netk_scheme, unit) km" where
  "channel_write_event_enable ed mem self c =
     kseq (upd_chan c (\<lambda>ch. ch\<lparr>ch_events := ch_events ch OR EVENT_WRITE\<rparr>))
     (kbind (channel_loop c) (\<lambda>l. event_loop_update_channel_event ed mem self l c))"

definition channel_write_event_disable :: "'d event_dispatcher \<Rightarrow> (nat \<Rightarrow> bool) \<Rightarrow> nat \<Rightarrow> nat \<Rightarrow> (('d, 'a) netk_scheme, unit) km" where
  "channel_write_event_disable ed mem self c =
     kseq (upd_chan c (\<lambda>ch. ch\<lparr>ch_events := ch_events ch AND NOT EVENT_WRITE\<rparr>))
     (kbind (channel_loop c) (\<lambda>l. event_loop_update_channel_event ed mem self l c))"

section \<open>Loops and the thread pool\<close>

text \<open>A new loop of the thread \<open>self\<close>; \<open>d\<close> is what the \<open>init\<close> of the dispatcher returned and \<open>sp\<close> the socket pair.\<close>

definition event_loop_init :: "'d event_dispatcher \<Rightarrow> (nat \<Rightarrow> bool) \<Rightarrow> nat \<Rightarrow> 'd \<Rightarrow> int \<times> int \<Rightarrow> (('d, 'a) netk_scheme, nat) km" where
  "event_loop_init ed mem self d sp =
     kbind (kget (\<lambda>s. length (loops s))) (\<lambda>l.
     kseq (kmod (\<lambda>s. s\<lparr>loops := loops s @ [\<lparr>quit = False, event_dispatcher_data = d, channelMap = map_init, is_handle_pending = False, pending = [],
        owner_thread_id = self, socketPair = sp\<rparr>]\<rparr>))
     (kbind (channel_new (snd sp) EVENT_READ (Some HandleWakeup) None (Loop l)) (\<lambda>c.
      kseq (event_loop_add_channel_event ed mem self l c) (kreturn l))))"

record thread_pool =
  mainLoop :: nat
  started :: bool
  thread_number :: int
  eventLoopThreads :: "nat list"
  position :: nat

definition thread_pool_new :: "nat \<Rightarrow> int \<Rightarrow> thread_pool" where
  "thread_pool_new ml n = \<lparr>mainLoop = ml, started = False, thread_number = n, eventLoopThreads = [], position = 0\<rparr>"

text \<open>
  Each thread makes its own loop, and the main thread waits for it. \<open>env i\<close> gives the thread, the dispatcher data and the socket pair of thread \<open>i\<close>.
\<close>

fun start_threads :: "'d event_dispatcher \<Rightarrow> (nat \<Rightarrow> bool) \<Rightarrow> (nat \<Rightarrow> nat \<times> 'd \<times> int \<times> int) \<Rightarrow> nat list \<Rightarrow> (('d, 'a) netk_scheme, nat list) km" where
  "start_threads ed mem env [] = kreturn []"
| "start_threads ed mem env (i # is) =
     (case env i of (tid, d, sp) \<Rightarrow>
      kbind (event_loop_init ed mem tid d sp) (\<lambda>l. kbind (start_threads ed mem env is) (\<lambda>ls. kreturn (l # ls))))"

definition thread_pool_start :: "'d event_dispatcher \<Rightarrow> (nat \<Rightarrow> bool) \<Rightarrow> (nat \<Rightarrow> nat \<times> 'd \<times> int \<times> int) \<Rightarrow> nat \<Rightarrow> thread_pool \<Rightarrow> (('d, 'a) netk_scheme, thread_pool) km" where
  "thread_pool_start ed mem env self tp =
     (if started tp then kstop (Panic ''assert'')
      else kseq (assertInSameThread self (mainLoop tp))
        (let tp = tp\<lparr>started := True\<rparr>
         in if thread_number tp \<le> 0 then kreturn tp
            else kbind (start_threads ed mem env [0..<nat (thread_number tp)]) (\<lambda>ls. kreturn (tp\<lparr>eventLoopThreads := ls\<rparr>))))"

definition thread_pool_get_loop :: "nat \<Rightarrow> thread_pool \<Rightarrow> (('d, 'a) netk_scheme, nat \<times> thread_pool) km" where
  "thread_pool_get_loop self tp =
     (if \<not> started tp then kstop (Panic ''assert'')
      else kseq (assertInSameThread self (mainLoop tp))
        (if thread_number tp > 0 then
           if position tp < length (eventLoopThreads tp) then
             kreturn (eventLoopThreads tp ! position tp,
               tp\<lparr>position := (if int (position tp + 1) \<ge> thread_number tp then 0 else position tp + 1)\<rparr>)
           else kstop (Fault ''eventLoopThreads'')
         else kreturn (mainLoop tp, tp)))"

section \<open>The map\<close>

lemma map_size_gt: "0 < n \<Longrightarrow> slot < map_size n slot"
  by (induction n slot rule: map_size.induct) (subst map_size.simps, auto)

lemma map_make_space_spec:
  assumes "map_make_space mem es slot = Some es'"
  shows "slot < length es' \<and> length es \<le> length es' \<and> (\<forall>i < length es'. es' ! i = (if i < length es then es ! i else None))"
proof (cases "length es \<le> slot")
  case True
  let ?n = "map_size (if es = [] then 32 else length es) slot"
  have "slot < ?n" by (rule map_size_gt) simp
  then show ?thesis using assms True by (auto simp: map_make_space_def Let_def nth_append split: if_splits)
qed (use assms in \<open>simp add: map_make_space_def\<close>)

section \<open>Dispatchers\<close>

text \<open>
  The contract of a dispatcher: it keeps the set of descriptors with the events asked for. A descriptor is added only when it is not there and there are fewer than \<open>cap\<close>;
  events of a descriptor are changed only when it is there.
\<close>

locale dispatcher =
  fixes ed :: "'d event_dispatcher" and dinv :: "'d \<Rightarrow> bool" and interest :: "'d \<Rightarrow> int \<Rightarrow> u32 option" and want :: "channel \<Rightarrow> u32" and cap :: nat
  assumes add_law: "dinv d \<Longrightarrow> 0 \<le> ch_fd ch \<Longrightarrow> interest d (ch_fd ch) = None \<Longrightarrow> card (dom (interest d)) < cap \<Longrightarrow>
      \<exists>e. ed_add ed ch d = Some e \<and> dinv e \<and> interest e = (interest d)(ch_fd ch \<mapsto> want ch)"
    and del_law: "dinv d \<Longrightarrow> 0 \<le> ch_fd ch \<Longrightarrow> \<exists>e. ed_del ed ch d = Some e \<and> dinv e \<and> interest e = (interest d)(ch_fd ch := None)"
    and update_law: "dinv d \<Longrightarrow> interest d (ch_fd ch) \<noteq> None \<Longrightarrow> 0 \<le> ch_fd ch \<Longrightarrow>
      \<exists>e. ed_update ed ch d = Some e \<and> dinv e \<and> interest e = (interest d)(ch_fd ch \<mapsto> want ch)"

text \<open>The descriptors of a loop with their channels.\<close>

definition chan_map :: "'d event_loop \<Rightarrow> int \<Rightarrow> nat option" where
  "chan_map x fd = (if 0 \<le> fd \<and> nat fd < length (channelMap x) then channelMap x ! nat fd else None)"

text \<open>What a pending change does to the map, and when it is asked for properly.\<close>

definition pend_op :: "channel list \<Rightarrow> nat \<times> nat \<Rightarrow> (int \<rightharpoonup> nat) \<Rightarrow> int \<rightharpoonup> nat" where
  "pend_op cs = (\<lambda>(ty, c) m. let fd = ch_fd (cs ! c)
     in if ty = 1 then if m fd = None then m(fd \<mapsto> c) else m else if ty = 2 then m(fd := None) else m)"

definition pend_want :: "(channel \<Rightarrow> u32) \<Rightarrow> channel list \<Rightarrow> nat \<times> nat \<Rightarrow> (int \<rightharpoonup> u32) \<Rightarrow> int \<rightharpoonup> u32" where
  "pend_want want cs = (\<lambda>(ty, c) w. let fd = ch_fd (cs ! c)
     in if ty = 1 then if w fd = None then w(fd \<mapsto> want (cs ! c)) else w else if ty = 2 then w(fd := None)
        else if ty = 3 \<and> w fd \<noteq> None then w(fd \<mapsto> want (cs ! c)) else w)"

definition pend_ok :: "nat \<Rightarrow> channel list \<Rightarrow> nat \<times> nat \<Rightarrow> (int \<rightharpoonup> nat) \<Rightarrow> bool" where
  "pend_ok cap cs = (\<lambda>(ty, c) m. let fd = ch_fd (cs ! c)
     in c < length cs \<and> 0 \<le> fd \<and> (ty = 1 \<and> (m fd = None \<longrightarrow> card (dom m) < cap) \<or> ty \<in> {2, 3} \<and> m fd \<noteq> None))"

fun pend_all_ok :: "nat \<Rightarrow> channel list \<Rightarrow> (nat \<times> nat) list \<Rightarrow> (int \<rightharpoonup> nat) \<Rightarrow> bool" where
  "pend_all_ok cap cs [] m \<longleftrightarrow> True"
| "pend_all_ok cap cs (p # ps) m \<longleftrightarrow> pend_ok cap cs p m \<and> pend_all_ok cap cs ps (pend_op cs p m)"

lemma pend_all_ok_append: "pend_all_ok cap cs (ps @ qs) m \<longleftrightarrow> pend_all_ok cap cs ps m \<and> pend_all_ok cap cs qs (fold (pend_op cs) ps m)"
  by (induction ps arbitrary: m) simp_all

text \<open>The map of a loop and its dispatcher agree, and channels are under their descriptors.\<close>

definition loop_agrees :: "('d \<Rightarrow> bool) \<Rightarrow> ('d \<Rightarrow> int \<Rightarrow> u32 option) \<Rightarrow> channel list \<Rightarrow> 'd event_loop \<Rightarrow> bool" where
  "loop_agrees dinv interest cs x \<longleftrightarrow> dinv (event_dispatcher_data x) \<and> dom (interest (event_dispatcher_data x)) = dom (chan_map x) \<and>
     (\<forall>fd c. chan_map x fd = Some c \<longrightarrow> c < length cs \<and> ch_fd (cs ! c) = fd)"

lemma chan_map_upd: "0 \<le> fd \<Longrightarrow> nat fd < length es \<Longrightarrow> chan_map (x\<lparr>channelMap := es[nat fd := q]\<rparr>) = (chan_map (x\<lparr>channelMap := es\<rparr>))(fd := q)"
  by (auto simp: chan_map_def fun_eq_iff nth_list_update)

lemma chan_map_space:
  assumes "map_make_space mem (channelMap x) slot = Some es"
  shows "chan_map (x\<lparr>channelMap := es\<rparr>) = chan_map x"
  using map_make_space_spec [OF assms] by (auto simp: chan_map_def fun_eq_iff)

lemma chan_map_other [simp]:
  "chan_map (x\<lparr>event_dispatcher_data := d\<rparr>) = chan_map x" "chan_map (x\<lparr>pending := ps\<rparr>) = chan_map x" "chan_map (x\<lparr>is_handle_pending := h\<rparr>) = chan_map x"
  by (simp_all add: chan_map_def fun_eq_iff)

definition same_control :: "'d event_loop \<Rightarrow> 'd event_loop \<Rightarrow> bool" where
  "same_control x y \<longleftrightarrow> y = x\<lparr>channelMap := channelMap y, event_dispatcher_data := event_dispatcher_data y\<rparr>"

lemma same_control_facts:
  assumes "same_control x y"
  shows "pending y = pending x" "is_handle_pending y = is_handle_pending x" "owner_thread_id y = owner_thread_id x" "quit y = quit x" "socketPair y = socketPair x"
  using assms unfolding same_control_def by (metis event_loop.select_convs event_loop.surjective event_loop.update_convs)+

lemma same_control_trans: "same_control x y \<Longrightarrow> same_control y z \<Longrightarrow> same_control x z"
  unfolding same_control_def by (cases x; cases y; cases z) simp

lemmas net_defs = Let_def get_loop_def upd_loop_def get_chan_def ed_call_def

context dispatcher
begin

lemma handle_element_run:
  assumes a: "loop_agrees dinv interest (channels s) x" and x: "x = loops s ! l" and l: "l < length (loops s)"
    and p: "pend_ok cap (channels s) (ty, c) (chan_map x)" and m: "\<forall>n. mem n"
  shows "\<exists>y. handle_element ed mem l (ty, c) s = Ret () (s\<lparr>loops := (loops s)[l := y]\<rparr>) \<and> loop_agrees dinv interest (channels s) y \<and>
    chan_map y = pend_op (channels s) (ty, c) (chan_map x) \<and> same_control x y \<and>
    interest (event_dispatcher_data y) = pend_want want (channels s) (ty, c) (interest (event_dispatcher_data x))"
proof -
  let ?ch = "channels s ! c" and ?d = "event_dispatcher_data x"
  let ?fd = "ch_fd ?ch"
  have c: "c < length (channels s)" "0 \<le> ?fd" using p by (auto simp: pend_ok_def Let_def)
  have i: "dinv ?d" "dom (interest ?d) = dom (chan_map x)" using a by (simp_all add: loop_agrees_def)
  have n: "interest ?d ?fd = None \<longleftrightarrow> chan_map x ?fd = None" using i(2) by (metis domIff)
  show ?thesis
  proof (cases "ty = 1")
    case True
    obtain es where es: "(if nat ?fd \<ge> length (channelMap x) then map_make_space mem (channelMap x) (nat ?fd) else Some (channelMap x)) = Some es"
      using m by (cases "nat ?fd \<ge> length (channelMap x)") (auto simp: map_make_space_def Let_def)
    have len: "nat ?fd < length es" using es map_make_space_spec by (fastforce split: if_splits)
    have cm: "chan_map (x\<lparr>channelMap := es\<rparr>) = chan_map x" using es chan_map_space by (fastforce split: if_splits)
    have e: "es ! nat ?fd = chan_map x ?fd" unfolding cm [symmetric] using c(2) len by (simp add: chan_map_def)
    show ?thesis
    proof (cases "chan_map x ?fd")
      case None
      then obtain d where d: "ed_add ed ?ch ?d = Some d" "dinv d" "interest d = (interest ?d)(?fd \<mapsto> want ?ch)"
        using add_law [OF i(1) c(2)] p True i(2) by (auto simp: pend_ok_def Let_def)
      let ?y = "x\<lparr>channelMap := es[nat ?fd := Some c], event_dispatcher_data := d\<rparr>"
      have "handle_element ed mem l (ty, c) s = Ret () (s\<lparr>loops := (loops s)[l := ?y]\<rparr>)"
        using True es e None c l d(1) by (simp add: handle_element_def event_loop_handle_pending_add_def net_defs km_simps x [symmetric])
      moreover have "chan_map ?y = (chan_map x)(?fd \<mapsto> c)" using chan_map_upd [OF c(2) len, where x = x and q = "Some c"] cm by simp
      ultimately show ?thesis using True None a d i c n
        by (intro exI [of _ ?y]) (auto simp: loop_agrees_def pend_op_def pend_want_def same_control_def)
    next
      case (Some c')
      let ?y = "x\<lparr>channelMap := es\<rparr>"
      have "handle_element ed mem l (ty, c) s = Ret () (s\<lparr>loops := (loops s)[l := ?y]\<rparr>)"
        using True es e Some c l by (simp add: handle_element_def event_loop_handle_pending_add_def net_defs km_simps x [symmetric])
      then show ?thesis using True Some a cm n by (intro exI [of _ ?y]) (auto simp: loop_agrees_def pend_op_def pend_want_def same_control_def)
    qed
  next
    case False
    then have ty: "ty = 2 \<or> ty = 3" "chan_map x ?fd \<noteq> None" using p by (auto simp: pend_ok_def Let_def)
    then obtain c2 where c2: "chan_map x ?fd = Some c2" by auto
    then have fd: "nat ?fd < length (channelMap x)" "channelMap x ! nat ?fd = Some c2" by (auto simp: chan_map_def split: if_splits)
    have ch2: "c2 < length (channels s)" "ch_fd (channels s ! c2) = ?fd" using a c2 by (auto simp: loop_agrees_def)
    show ?thesis
    proof (cases "ty = 2")
      case True
      obtain d where d: "ed_del ed (channels s ! c2) ?d = Some d" "dinv d" "interest d = (interest ?d)(?fd := None)"
        using del_law [OF i(1), of "channels s ! c2"] ch2 c(2) by auto
      let ?y = "x\<lparr>event_dispatcher_data := d, channelMap := (channelMap x)[nat ?fd := None]\<rparr>"
      have "handle_element ed mem l (ty, c) s = Ret () (s\<lparr>loops := (loops s)[l := ?y]\<rparr>)"
        using True c l d(1) fd ch2 by (simp add: handle_element_def event_loop_handle_pending_remove_def net_defs km_simps x [symmetric])
      moreover have "chan_map ?y = (chan_map x)(?fd := None)"
        using c(2) fd(1) by (auto simp: chan_map_def fun_eq_iff nth_list_update)
      ultimately show ?thesis using True a d i by (intro exI [of _ ?y]) (auto simp: loop_agrees_def pend_op_def pend_want_def same_control_def split: if_splits)
    next
      case u: False
      have "interest ?d ?fd \<noteq> None" using c2 i(2) by auto
      then obtain d where d: "ed_update ed ?ch ?d = Some d" "dinv d" "interest d = (interest ?d)(?fd \<mapsto> want ?ch)"
        using update_law [OF i(1) _ c(2)] by auto
      let ?y = "x\<lparr>event_dispatcher_data := d\<rparr>"
      have "handle_element ed mem l (ty, c) s = Ret () (s\<lparr>loops := (loops s)[l := ?y]\<rparr>)"
        using u ty(1) c l d(1) fd by (simp add: handle_element_def event_loop_handle_pending_update_def net_defs km_simps x [symmetric])
      then show ?thesis using u ty(1) a d i c2 n by (intro exI [of _ ?y]) (auto simp: loop_agrees_def pend_op_def pend_want_def same_control_def Let_def)
    qed
  qed
qed

lemma handle_elements_run:
  assumes "loop_agrees dinv interest (channels s) (loops s ! l)" and "l < length (loops s)"
    and "pend_all_ok cap (channels s) ps (chan_map (loops s ! l))" and "\<forall>n. mem n"
  shows "\<exists>y. kfor ps (handle_element ed mem l) s = Ret () (s\<lparr>loops := (loops s)[l := y]\<rparr>) \<and> loop_agrees dinv interest (channels s) y \<and>
    chan_map y = fold (pend_op (channels s)) ps (chan_map (loops s ! l)) \<and> same_control (loops s ! l) y \<and>
    interest (event_dispatcher_data y) = fold (pend_want want (channels s)) ps (interest (event_dispatcher_data (loops s ! l)))"
  using assms
proof (induction ps arbitrary: s)
  case Nil
  then show ?case by (intro exI [of _ "loops s ! l"]) (simp add: km_simps same_control_def)
next
  case (Cons p ps)
  obtain ty c where p: "p = (ty, c)" by (cases p)
  obtain y where y: "handle_element ed mem l p s = Ret () (s\<lparr>loops := (loops s)[l := y]\<rparr>)" "loop_agrees dinv interest (channels s) y"
    "chan_map y = pend_op (channels s) p (chan_map (loops s ! l))" "same_control (loops s ! l) y"
    "interest (event_dispatcher_data y) = pend_want want (channels s) p (interest (event_dispatcher_data (loops s ! l)))"
    using handle_element_run [OF Cons.prems(1) refl Cons.prems(2) _ Cons.prems(4), of ty c] Cons.prems(3) p by auto
  let ?s = "s\<lparr>loops := (loops s)[l := y]\<rparr>"
  have eq: "loops ?s ! l = y" "channels ?s = channels s" "l < length (loops ?s)" using Cons.prems(2) by simp_all
  have "loop_agrees dinv interest (channels ?s) (loops ?s ! l)" "pend_all_ok cap (channels ?s) ps (chan_map (loops ?s ! l))"
    using Cons.prems(3) y(2,3) unfolding eq by simp_all
  from Cons.IH [OF this(1) eq(3) this(2) Cons.prems(4)]
  have next_run: "\<exists>z. kfor ps (handle_element ed mem l) ?s = Ret () (?s\<lparr>loops := (loops ?s)[l := z]\<rparr>) \<and> loop_agrees dinv interest (channels s) z \<and>
    chan_map z = fold (pend_op (channels s)) ps (chan_map y) \<and> same_control y z \<and>
    interest (event_dispatcher_data z) = fold (pend_want want (channels s)) ps (interest (event_dispatcher_data (y)))" unfolding eq(1,2) .
  obtain z where z: "kfor ps (handle_element ed mem l) ?s = Ret () (?s\<lparr>loops := (loops ?s)[l := z]\<rparr>)" "loop_agrees dinv interest (channels s) z"
    "chan_map z = fold (pend_op (channels s)) ps (chan_map y)" "same_control y z"
    "interest (event_dispatcher_data z) = fold (pend_want want (channels s)) ps (interest (event_dispatcher_data (y)))"
    using next_run by blast
  have "kfor (p # ps) (handle_element ed mem l) s = Ret () (s\<lparr>loops := (loops s)[l := z]\<rparr>)"
    using y(1) z(1) by (simp add: km_simps)
  then show ?case using z y same_control_trans [OF y(4) z(4)] by (intro exI [of _ z]) simp
qed

lemma handle_pending_run:
  assumes "loop_agrees dinv interest (channels s) x" and "x = loops s ! l" and "l < length (loops s)"
    and "pend_all_ok cap (channels s) (pending x) (chan_map x)" and "\<forall>n. mem n"
  shows "\<exists>y. event_loop_handle_pending_channel ed mem l s = Ret () (s\<lparr>loops := (loops s)[l := y]\<rparr>) \<and> loop_agrees dinv interest (channels s) y \<and>
    chan_map y = fold (pend_op (channels s)) (pending x) (chan_map x) \<and> pending y = [] \<and> \<not> is_handle_pending y \<and> owner_thread_id y = owner_thread_id x \<and>
    interest (event_dispatcher_data y) = fold (pend_want want (channels s)) (pending x) (interest (event_dispatcher_data (x)))"
proof -
  let ?s = "s\<lparr>loops := (loops s)[l := x\<lparr>is_handle_pending := True\<rparr>]\<rparr>"
  have "loop_agrees dinv interest (channels ?s) (loops ?s ! l)" using assms(1,3) by (simp add: loop_agrees_def)
  then obtain y where y: "kfor (pending x) (handle_element ed mem l) ?s = Ret () (?s\<lparr>loops := (loops ?s)[l := y]\<rparr>)" "loop_agrees dinv interest (channels s) y"
    "chan_map y = fold (pend_op (channels s)) (pending x) (chan_map x)" "same_control (loops ?s ! l) y"
    "interest (event_dispatcher_data y) = fold (pend_want want (channels s)) (pending x) (interest (event_dispatcher_data (x)))"
    using handle_elements_run [of ?s l "pending x" mem] assms by auto
  let ?y = "y\<lparr>pending := [], is_handle_pending := False\<rparr>"
  have "event_loop_handle_pending_channel ed mem l s = Ret () (s\<lparr>loops := (loops s)[l := ?y]\<rparr>)"
    using y(1) assms(2,3) by (simp add: event_loop_handle_pending_channel_def net_defs km_simps)
  moreover have "owner_thread_id y = owner_thread_id x" using same_control_facts(3) [OF y(4)] assms(3) by simp
  ultimately show ?thesis using y(2,3,5) by (intro exI [of _ ?y]) (simp add: loop_agrees_def)
qed

end

text \<open>
  Changes to a loop: a thread posts a change, or the loop handles the pending changes (as the loop does after each dispatch). \<open>posts\<close> is what was posted so far.
\<close>

inductive loop_run :: "'d event_dispatcher \<Rightarrow> (nat \<Rightarrow> bool) \<Rightarrow> nat \<Rightarrow> ('d, 'a) netk_scheme \<Rightarrow> (nat \<times> nat) list \<Rightarrow> ('d, 'a) netk_scheme \<Rightarrow> bool" for ed mem l s where
  start: "loop_run ed mem l s [] s"
| post: "loop_run ed mem l s posts t \<Longrightarrow> event_loop_do_channel_event ed mem self l c ty t = Ret () u \<Longrightarrow> loop_run ed mem l s (posts @ [(ty, c)]) u"
| handle: "loop_run ed mem l s posts t \<Longrightarrow> event_loop_handle_pending_channel ed mem l t = Ret () u \<Longrightarrow> loop_run ed mem l s posts u"

text \<open>After the changes \<open>posts\<close>, from a loop with the map \<open>m\<close>: what is pending still has to be applied.\<close>

definition loop_after ::
  "('d \<Rightarrow> bool) \<Rightarrow> ('d \<Rightarrow> int \<Rightarrow> u32 option) \<Rightarrow> (channel \<Rightarrow> u32) \<Rightarrow> nat \<Rightarrow> channel list \<Rightarrow> (int \<rightharpoonup> nat) \<Rightarrow> (int \<rightharpoonup> u32) \<Rightarrow>
    (nat \<times> nat) list \<Rightarrow> ('d, 'a) netk_scheme \<Rightarrow> bool" where
  "loop_after dinv interest want l cs m w posts t \<longleftrightarrow> channels t = cs \<and> l < length (loops t) \<and> loop_agrees dinv interest cs (loops t ! l) \<and> \<not> is_handle_pending (loops t ! l) \<and>
     (\<exists>dn. posts = dn @ pending (loops t ! l) \<and> chan_map (loops t ! l) = fold (pend_op cs) dn m \<and>
       interest (event_dispatcher_data (loops t ! l)) = fold (pend_want want cs) dn w)"

context dispatcher
begin

lemma after_handle:
  assumes "loop_after dinv interest want l cs m w posts t" and "pend_all_ok cap cs posts m" and "\<forall>n. mem n"
  shows "\<exists>u. event_loop_handle_pending_channel ed mem l t = Ret () u \<and> loop_after dinv interest want l cs m w posts u \<and> pending (loops u ! l) = []"
proof -
  let ?x = "loops t ! l"
  obtain dn where dn: "posts = dn @ pending ?x" "chan_map ?x = fold (pend_op cs) dn m" "interest (event_dispatcher_data ?x) = fold (pend_want want cs) dn w" using assms(1) by (auto simp: loop_after_def)
  have t: "channels t = cs" "l < length (loops t)" "loop_agrees dinv interest (channels t) ?x" using assms(1) by (simp_all add: loop_after_def)
  have "pend_all_ok cap (channels t) (pending ?x) (chan_map ?x)" using assms(2) dn t(1) by (simp add: pend_all_ok_append)
  then obtain y where "event_loop_handle_pending_channel ed mem l t = Ret () (t\<lparr>loops := (loops t)[l := y]\<rparr>)" "loop_agrees dinv interest (channels t) y"
    "chan_map y = fold (pend_op (channels t)) (pending ?x) (chan_map ?x)" "pending y = []" "\<not> is_handle_pending y"
    "interest (event_dispatcher_data y) = fold (pend_want want (channels t)) (pending ?x) (interest (event_dispatcher_data ?x))"
    using handle_pending_run [OF t(3) refl t(2) _ assms(3)] by blast
  then show ?thesis using t dn by (intro exI [of _ "t\<lparr>loops := (loops t)[l := y]\<rparr>"]) (simp add: loop_after_def)
qed

lemma after_post:
  assumes "loop_after dinv interest want l cs m w posts t" and "pend_all_ok cap cs (posts @ [(ty, c)]) m" and "\<forall>n. mem n"
  shows "\<exists>u. event_loop_do_channel_event ed mem self l c ty t = Ret () u \<and> loop_after dinv interest want l cs m w (posts @ [(ty, c)]) u"
proof -
  let ?x = "loops t ! l" and ?t = "t\<lparr>loops := (loops t)[l := (loops t ! l)\<lparr>pending := pending (loops t ! l) @ [(ty, c)]\<rparr>]\<rparr>"
  have t: "l < length (loops t)" "\<not> is_handle_pending ?x" using assms(1) by (simp_all add: loop_after_def)
  have a: "loop_after dinv interest want l cs m w (posts @ [(ty, c)]) ?t" using assms(1) by (auto simp: loop_after_def loop_agrees_def)
  have run: "event_loop_do_channel_event ed mem self l c ty t =
    (if \<not> isInSameThread self ?x then event_loop_wakeup l else event_loop_handle_pending_channel ed mem l) ?t"
    using t by (simp add: event_loop_do_channel_event_def event_loop_channel_buffer_nolock_def net_defs km_simps)
  show ?thesis
  proof (cases "isInSameThread self ?x")
    case True
    then show ?thesis using after_handle [OF a assms(2,3)] run by auto
  next
    case False
    then show ?thesis using a t unfolding run by (auto simp: event_loop_wakeup_def net_defs km_simps loop_after_def)
  qed
qed

lemma run_after:
  assumes "loop_run ed mem l s posts t" and "loop_after dinv interest want l cs m w [] s" and "pend_all_ok cap cs posts m" and "\<forall>n. mem n"
  shows "loop_after dinv interest want l cs m w posts t"
  using assms(1,3)
proof (induction rule: loop_run.induct)
  case start
  then show ?case using assms(2) by simp
next
  case (post posts t self c ty u)
  then have "loop_after dinv interest want l cs m w posts t" by (simp add: pend_all_ok_append)
  from after_post [OF this post.prems assms(4), of self] show ?case using post.hyps(2) by auto
next
  case (handle posts t u)
  then have "loop_after dinv interest want l cs m w posts t" by simp
  from after_handle [OF this handle.prems assms(4)] show ?case using handle.hyps(2) by auto
qed

end


section \<open>The poll dispatcher keeps the contract\<close>

definition poll_inv :: "pollfd list \<Rightarrow> bool" where
  "poll_inv ps \<longleftrightarrow> length ps = INIT_POLL_SIZE \<and> distinct (filter (\<lambda>fd. 0 \<le> fd) (map pfd_fd ps))"

definition poll_interest :: "pollfd list \<Rightarrow> int \<Rightarrow> u32 option" where
  "poll_interest ps fd = (if fd < 0 then None else map_option pfd_events (find (\<lambda>p. pfd_fd p = fd) ps))"

lemma poll_first_length [simp]: "length (poll_first P f ps) = length ps"
  by (induction ps) simp_all

lemma poll_first_split: "(\<exists>p \<in> set ps. P p) \<Longrightarrow> \<exists>xs p ys. ps = xs @ p # ys \<and> P p \<and> (\<forall>q \<in> set xs. \<not> P q) \<and> poll_first P f ps = xs @ f p # ys"
proof (induction ps)
  case (Cons q ps)
  show ?case
  proof (cases "P q")
    case True
    then show ?thesis by (intro exI [of _ "[]"]) auto
  next
    case False
    then obtain xs p ys where "ps = xs @ p # ys \<and> P p \<and> (\<forall>q \<in> set xs. \<not> P q) \<and> poll_first P f ps = xs @ f p # ys" using Cons by auto
    then show ?thesis using False by (intro exI [of _ "q # xs"] exI [of _ p] exI [of _ ys]) auto
  qed
qed simp

lemma poll_first_none: "\<forall>p \<in> set ps. \<not> P p \<Longrightarrow> poll_first P f ps = ps"
  by (induction ps) auto

lemma poll_interest_None: "0 \<le> fd \<Longrightarrow> poll_interest ps fd = None \<longleftrightarrow> fd \<notin> pfd_fd ` set ps"
  by (induction ps) (auto simp: poll_interest_def)

lemma poll_interest_dom: "dom (poll_interest ps) = {fd \<in> pfd_fd ` set ps. 0 \<le> fd}"
proof (rule set_eqI)
  fix fd show "fd \<in> dom (poll_interest ps) \<longleftrightarrow> fd \<in> {fd \<in> pfd_fd ` set ps. 0 \<le> fd}"
    using poll_interest_None [of fd ps] by (cases "0 \<le> fd") (auto simp: poll_interest_def)
qed

lemma poll_interest_mid: "0 \<le> fd \<Longrightarrow> fd \<notin> pfd_fd ` set xs \<Longrightarrow>
    poll_interest (xs @ p # ys) fd = (if pfd_fd p = fd then Some (pfd_events p) else poll_interest ys fd)"
  by (induction xs) (auto simp: poll_interest_def)

lemma poll_interest_other: "pfd_fd p \<noteq> fd \<Longrightarrow> poll_interest (xs @ p # ys) fd = poll_interest (xs @ ys) fd"
  by (induction xs) (auto simp: poll_interest_def)

text \<open>A free entry is there as long as fewer than 1024 descriptors are in the table.\<close>

lemma poll_free:
  assumes "poll_inv ps" and "card (dom (poll_interest ps)) < INIT_POLL_SIZE"
  shows "\<exists>p \<in> set ps. pfd_fd p < 0"
proof (rule ccontr)
  assume "\<not> ?thesis"
  then have all: "\<forall>fd \<in> set (map pfd_fd ps). 0 \<le> fd" by auto
  then have "filter (\<lambda>fd. 0 \<le> fd) (map pfd_fd ps) = map pfd_fd ps" by (simp add: filter_id_conv)
  then have "card (set (map pfd_fd ps)) = 1024" using assms(1) distinct_card [of "map pfd_fd ps"] by (simp add: poll_inv_def)
  moreover have "dom (poll_interest ps) = set (map pfd_fd ps)" unfolding poll_interest_dom using all by auto
  ultimately show False using assms(2) by simp
qed

lemma poll_inv_set:
  assumes "poll_inv (xs @ p # ys)" and "fd < 0 \<or> fd = pfd_fd p \<or> fd \<notin> pfd_fd ` set (xs @ p # ys)" and "pfd_fd q = fd"
  shows "poll_inv (xs @ q # ys)"
proof (cases "fd = pfd_fd p")
  case False
  then have "fd < 0 \<or> fd \<notin> pfd_fd ` set xs \<and> fd \<notin> pfd_fd ` set ys" using assms(2) by auto
  then show ?thesis using assms(1,3) by (auto simp: poll_inv_def split: if_splits)
qed (use assms in \<open>simp add: poll_inv_def\<close>)

lemma poll_inv_once: "poll_inv (xs @ p # ys) \<Longrightarrow> 0 \<le> pfd_fd p \<Longrightarrow> pfd_fd p \<notin> pfd_fd ` set (xs @ ys)"
  by (auto simp: poll_inv_def image_iff)


lemma poll_add_law:
  assumes "poll_inv ps" and "0 \<le> ch_fd ch" and "poll_interest ps (ch_fd ch) = None" and "card (dom (poll_interest ps)) < INIT_POLL_SIZE"
  shows "\<exists>qs. poll_add ch ps = Some qs \<and> poll_inv qs \<and> poll_interest qs = (poll_interest ps)(ch_fd ch \<mapsto> poll_events ch)"
proof -
  let ?f = "\<lambda>p. p\<lparr>pfd_fd := ch_fd ch, pfd_events := poll_events ch\<rparr>"
  obtain xs p ys where s: "ps = xs @ p # ys" "pfd_fd p < 0" "poll_first (\<lambda>p. pfd_fd p < 0) ?f ps = xs @ ?f p # ys"
    using poll_first_split [OF poll_free [OF assms(1,4)], of ?f] by blast
  have n: "ch_fd ch \<notin> pfd_fd ` set ps" using assms(2,3) poll_interest_None by blast
  have "poll_interest (xs @ ?f p # ys) fd = ((poll_interest ps)(ch_fd ch \<mapsto> poll_events ch)) fd" for fd
  proof (cases "fd = ch_fd ch")
    case True
    then show ?thesis using n s(1) assms(2) by (simp add: poll_interest_mid image_Un)
  next
    case False
    then have "poll_interest (xs @ p # ys) fd = poll_interest (xs @ ys) fd" using s(2)
      by (cases "fd < 0") (simp add: poll_interest_def, simp add: poll_interest_other)
    then show ?thesis using False s(1) by (simp add: poll_interest_other)
  qed
  moreover have "poll_inv (xs @ ?f p # ys)" using poll_inv_set [of xs p ys "ch_fd ch" "?f p"] assms(1) n s(1) by simp
  ultimately show ?thesis by (auto simp: poll_add_def s(3))
qed

lemma poll_del_law:
  assumes "poll_inv ps" and "0 \<le> ch_fd ch"
  shows "\<exists>qs. poll_del ch ps = Some qs \<and> poll_inv qs \<and> poll_interest qs = (poll_interest ps)(ch_fd ch := None)"
proof (cases "poll_interest ps (ch_fd ch)")
  case None
  then have "\<forall>p \<in> set ps. pfd_fd p \<noteq> ch_fd ch" using assms(2) poll_interest_None [of "ch_fd ch" ps] by (auto simp: image_iff)
  then show ?thesis using assms(1) None by (simp add: poll_del_def poll_first_none fun_upd_idem)
next
  case (Some e)
  let ?f = "\<lambda>p. p\<lparr>pfd_fd := -1\<rparr>"
  have "\<exists>p \<in> set ps. pfd_fd p = ch_fd ch" using Some assms(2) poll_interest_None [of "ch_fd ch" ps] by auto
  from poll_first_split [OF this, of ?f]
  obtain xs p ys where s: "ps = xs @ p # ys" "pfd_fd p = ch_fd ch" "poll_first (\<lambda>p. pfd_fd p = ch_fd ch) ?f ps = xs @ ?f p # ys" by blast
  have n: "ch_fd ch \<notin> pfd_fd ` set (xs @ ys)" using poll_inv_once [of xs p ys] assms s(1,2) by simp
  have "poll_interest (xs @ ?f p # ys) fd = ((poll_interest ps)(ch_fd ch := None)) fd" for fd
  proof (cases "fd < 0")
    case False
    then have "poll_interest (xs @ ?f p # ys) fd = poll_interest (xs @ ys) fd" by (simp add: poll_interest_other)
    then show ?thesis using False n s(1,2) poll_interest_None [of fd "xs @ ys"] by (auto simp: poll_interest_other)
  qed (use assms in \<open>simp add: poll_interest_def\<close>)
  moreover have "poll_inv (xs @ ?f p # ys)" using poll_inv_set [of xs p ys "-1" "?f p"] assms(1) s(1) by simp
  ultimately show ?thesis by (auto simp: poll_del_def s(3))
qed

lemma poll_update_law:
  assumes "poll_inv ps" and "poll_interest ps (ch_fd ch) \<noteq> None" and "0 \<le> ch_fd ch"
  shows "\<exists>qs. poll_update ch ps = Some qs \<and> poll_inv qs \<and> poll_interest qs = (poll_interest ps)(ch_fd ch \<mapsto> poll_events ch)"
proof -
  let ?f = "\<lambda>p. p\<lparr>pfd_events := poll_events ch\<rparr>"
  have "\<exists>p \<in> set ps. pfd_fd p = ch_fd ch" using assms(2,3) poll_interest_None [of "ch_fd ch" ps] by auto
  from poll_first_split [OF this, of ?f]
  obtain xs p ys where s: "ps = xs @ p # ys" "pfd_fd p = ch_fd ch" "poll_first (\<lambda>p. pfd_fd p = ch_fd ch) ?f ps = xs @ ?f p # ys" by blast
  have n: "ch_fd ch \<notin> pfd_fd ` set xs" using poll_inv_once [of xs p ys] assms s(1,2) by (simp add: image_Un)
  have "poll_interest (xs @ ?f p # ys) fd = ((poll_interest ps)(ch_fd ch \<mapsto> poll_events ch)) fd" for fd
    using n s(1,2) assms(3) by (cases "fd = ch_fd ch") (simp_all add: poll_interest_mid poll_interest_other)
  moreover have "poll_inv (xs @ ?f p # ys)" using poll_inv_set [of xs p ys "ch_fd ch" "?f p"] assms(1) s(1,2) by simp
  ultimately show ?thesis by (auto simp: poll_update_def s(3))
qed

interpretation poll: dispatcher poll_dispatcher poll_inv poll_interest poll_events INIT_POLL_SIZE
  by unfold_locales (simp_all add: poll_dispatcher_def poll_add_law poll_del_law poll_update_law)


text \<open>
  C23: Changes that threads post to an event loop (event_loop_add/remove/update_channel_event, from the thread of the loop or from another one, with the loop handling
  pending changes in between at any times) are applied each exactly once and in the order of posting: once the loop has handled what is pending, nothing is pending,
  its channel map is the initial map changed by the posts in order, and the poll table holds exactly the descriptors of the map, with the events that
  the posts ask for, as long as each post fits the state it meets and at most 1024 descriptors are in the table.
\<close>

theorem posts_applied_in_order:
  fixes s :: "(pollfd list, 'a) netk_scheme"
  assumes "loop_run poll_dispatcher mem l s posts t" and "\<forall>n. mem n"
    and "l < length (loops s)" and "loop_agrees poll_inv poll_interest (channels s) (loops s ! l)" and "pending (loops s ! l) = []" and "\<not> is_handle_pending (loops s ! l)"
    and "pend_all_ok 1024 (channels s) posts (chan_map (loops s ! l))"
  shows "\<exists>u. event_loop_handle_pending_channel poll_dispatcher mem l t = Ret () u \<and> pending (loops u ! l) = [] \<and> \<not> is_handle_pending (loops u ! l) \<and>
    chan_map (loops u ! l) = fold (pend_op (channels s)) posts (chan_map (loops s ! l)) \<and>
    poll_interest (event_dispatcher_data (loops u ! l)) = fold (pend_want poll_events (channels s)) posts (poll_interest (event_dispatcher_data (loops s ! l))) \<and>
    dom (poll_interest (event_dispatcher_data (loops u ! l))) = dom (chan_map (loops u ! l))"
proof -
  let ?m = "chan_map (loops s ! l)" and ?w = "poll_interest (event_dispatcher_data (loops s ! l))"
  have "loop_after poll_inv poll_interest poll_events l (channels s) ?m ?w [] s" using assms(3-6) by (simp add: loop_after_def)
  from poll.run_after [OF assms(1) this assms(7,2)]
  have "loop_after poll_inv poll_interest poll_events l (channels s) ?m ?w posts t" .
  from poll.after_handle [OF this assms(7,2)] show ?thesis by (auto simp: loop_after_def loop_agrees_def)
qed

definition netk0 :: "pollfd list netk" where
  "netk0 = \<lparr>loops = [\<lparr>quit = False, event_dispatcher_data = poll_init (replicate 1024 \<lparr>pfd_fd = 0, pfd_events = 0, pfd_revents = 0\<rparr>), channelMap = map_init,
     is_handle_pending = False, pending = [], owner_thread_id = 1, socketPair = (3, 4)\<rparr>],
     channels = [\<lparr>ch_fd = 5, ch_events = EVENT_READ, eventReadCallback = None, eventWriteCallback = None, ch_data = Loop 0\<rparr>], wakeups = []\<rparr>"

lemma netk0_agrees: "loop_agrees poll_inv poll_interest (channels netk0) (loops netk0 ! 0)"
proof -
  have "find (\<lambda>p. pfd_fd p = fd) (replicate n \<lparr>pfd_fd = -1, pfd_events = 0, pfd_revents = 0\<rparr>) = None" if "\<not> fd < 0" for n fd
    using that by (induction n) auto
  then show ?thesis by (auto simp: loop_agrees_def netk0_def poll_init_def poll_inv_def poll_interest_def chan_map_def map_init_def dom_def)
qed

lemma netk0_run: "loop_run poll_dispatcher (\<lambda>_. True) 0 netk0 [(1, 0)] (netk0\<lparr>loops := [(loops netk0 ! 0)\<lparr>pending := [(1, 0)]\<rparr>], wakeups := [3]\<rparr>)"
  by (rule loop_run.post [where posts = "[]" and self = 2, OF loop_run.start, simplified])
    (simp add: netk0_def event_loop_do_channel_event_def event_loop_channel_buffer_nolock_def isInSameThread_def event_loop_wakeup_def net_defs km_simps)

theorem posts_applied_in_order_witness:
  "\<exists>u. event_loop_handle_pending_channel poll_dispatcher (\<lambda>_. True) 0 (netk0\<lparr>loops := [(loops netk0 ! 0)\<lparr>pending := [(1, 0)]\<rparr>], wakeups := [3]\<rparr>) = Ret () u \<and>
     chan_map (loops u ! 0) 5 = Some 0 \<and> poll_interest (event_dispatcher_data (loops u ! 0)) 5 = Some POLLRDNORM"
proof -
  have e: "chan_map (loops netk0 ! 0) = (\<lambda>_. None)" by (simp add: netk0_def chan_map_def map_init_def fun_eq_iff)
  have w: "poll_interest (event_dispatcher_data (loops netk0 ! 0)) 5 = None"
    using netk0_agrees e by (simp add: loop_agrees_def dom_def)
  have c: "channels netk0 ! 0 = \<lparr>ch_fd = 5, ch_events = EVENT_READ, eventReadCallback = None, eventWriteCallback = None, ch_data = Loop 0\<rparr>" by (simp add: netk0_def)
  have p: "pend_all_ok 1024 (channels netk0) [(1, 0)] (chan_map (loops netk0 ! 0))" unfolding e by (simp add: pend_ok_def netk0_def)
  have st: "0 < length (loops netk0)" "pending (loops netk0 ! 0) = []" "\<not> is_handle_pending (loops netk0 ! 0)" by (simp_all add: netk0_def)
  from posts_applied_in_order [OF netk0_run _ st(1) netk0_agrees st(2,3) p]
  obtain u where u: "event_loop_handle_pending_channel poll_dispatcher (\<lambda>_. True) 0 (netk0\<lparr>loops := [(loops netk0 ! 0)\<lparr>pending := [(1, 0)]\<rparr>], wakeups := [3]\<rparr>) = Ret () u"
    "chan_map (loops u ! 0) = fold (pend_op (channels netk0)) [(1, 0)] (chan_map (loops netk0 ! 0))"
    "poll_interest (event_dispatcher_data (loops u ! 0)) = fold (pend_want poll_events (channels netk0)) [(1, 0)] (poll_interest (event_dispatcher_data (loops netk0 ! 0)))"
    by blast
  then show ?thesis using e w by (intro exI [of _ u]) (simp add: pend_op_def pend_want_def c poll_events_def)
qed

end
