(* ===== verification/Nethttp.thy ===== *)
theory Nethttp
  imports Netloop
begin

text \<open>
  The network library, part three: the HTTP messages of \<open>http_request.c\<close>, \<open>http_response.c\<close> and the parser of \<open>http_server.c\<close>.
  A C string is given by its bytes without the zero. \<open>blk n\<close> is the block that \<open>malloc(n)\<close> returns, with as many bytes as can be
  used (the code never tests for \<open>NULL\<close> here).
\<close>

section \<open>Requests\<close>

definition ascii :: "string \<Rightarrow> u8 list" where
  "ascii s = map (\<lambda>c. word_of_nat (of_char c)) s"

text \<open>The string that starts a block.\<close>

definition cstring :: "u8 list \<Rightarrow> u8 list" where
  "cstring d = takeWhile (\<lambda>c. c \<noteq> 0) d"

datatype http_request_state = REQUEST_STATUS | REQUEST_HEADERS | REQUEST_BODY | REQUEST_DONE

record http_request =
  req_version :: "u8 list option"
  req_method :: "u8 list option"
  req_url :: "u8 list option"
  current_state :: http_request_state
  request_headers :: "(u8 list \<times> u8 list) list"

text \<open>
  The table of headers is allocated with the size of 128 structures \<open>http_request\<close> (48 bytes on a 64-bit machine) and holds pairs of pointers:
  there is space for 384 of them.
\<close>

abbreviation (input) HEADER_SPACE :: nat where "HEADER_SPACE \<equiv> 384"

definition http_request_new :: http_request where
  "http_request_new = \<lparr>req_version = None, req_method = None, req_url = None, current_state = REQUEST_STATUS, request_headers = []\<rparr>"

definition http_request_reset :: "http_request \<Rightarrow> http_request" where
  "http_request_reset r = r\<lparr>req_method := None, current_state := REQUEST_STATUS, req_version := None, req_url := None, request_headers := []\<rparr>"

definition http_request_add_header :: "http_request \<Rightarrow> u8 list \<Rightarrow> u8 list \<Rightarrow> halt + http_request" where
  "http_request_add_header r key val =
     (if length (request_headers r) < HEADER_SPACE then Inr (r\<lparr>request_headers := request_headers r @ [(key, val)]\<rparr>) else Inl (Fault ''request_headers''))"

text \<open>\<open>sn\<close> stands for \<open>strncmp\<close> of the C library.\<close>

type_synonym strncmp = "u8 list \<Rightarrow> u8 list \<Rightarrow> nat \<Rightarrow> int"

definition http_request_get_header :: "strncmp \<Rightarrow> http_request \<Rightarrow> u8 list \<Rightarrow> u8 list option" where
  "http_request_get_header sn r key = map_option snd (find (\<lambda>(k, v). sn k key (length key) = 0) (request_headers r))"

definition http_request_current_state :: "http_request \<Rightarrow> http_request_state" where
  "http_request_current_state r = current_state r"

abbreviation (input) HTTP10 :: "u8 list" where "HTTP10 \<equiv> ascii ''HTTP/1.0''"
abbreviation (input) KEEP_ALIVE :: "u8 list" where "KEEP_ALIVE \<equiv> ascii ''Keep-Alive''"
abbreviation (input) CLOSE :: "u8 list" where "CLOSE \<equiv> ascii ''close''"

text \<open>With version 1.0 and no such header, \<open>strncmp\<close> is called with \<open>NULL\<close>.\<close>

definition http_request_close_connection :: "strncmp \<Rightarrow> http_request \<Rightarrow> halt + bool" where
  "http_request_close_connection sn r =
     (let connection = http_request_get_header sn r (ascii ''Connection'')
      in if (case connection of None \<Rightarrow> False | Some c \<Rightarrow> sn c CLOSE (length CLOSE) = 0) then Inr True
         else if (case req_version r of None \<Rightarrow> False | Some v \<Rightarrow> sn (cstring v) HTTP10 (length HTTP10) = 0) then
           (case connection of None \<Rightarrow> Inl (Fault ''connection'') | Some c \<Rightarrow> Inr (sn c KEEP_ALIVE (length KEEP_ALIVE) = 1))
         else Inr False)"

section \<open>The parser\<close>

definition strncpy_bytes :: "u8 list \<Rightarrow> u8 list" where
  "strncpy_bytes d = cstring d @ replicate (length d - length (cstring d)) 0"

text \<open>
  A word of the status line is copied to a block of its length plus one; the zero is then written one byte after that block, and the last
  byte of it is left as it was.
\<close>

definition status_word :: "(nat \<Rightarrow> u8 list) \<Rightarrow> u8 list \<Rightarrow> u8 list option" where
  "status_word blk d =
     (let b = blk (length d + 1)
      in if length d + 1 < length b then Some ((strncpy_bytes d @ drop (length d) b)[length d + 1 := 0]) else None)"

definition process_status_line :: "(nat \<Rightarrow> u8 list) \<Rightarrow> u8 list \<Rightarrow> http_request \<Rightarrow> halt + nat \<times> http_request" where
  "process_status_line blk line r =
     (case memmem line [32] of None \<Rightarrow> Inl (Panic ''assert'')
      | Some n \<Rightarrow>
          case status_word blk (take n line) of None \<Rightarrow> Inl (Fault ''method'')
          | Some m \<Rightarrow>
              let r = r\<lparr>req_method := Some m\<rparr>; rest = drop (n + 1) line
              in case memmem rest [32] of None \<Rightarrow> Inl (Panic ''assert'')
                | Some k \<Rightarrow>
                    case status_word blk (take k rest) of None \<Rightarrow> Inl (Fault ''url'')
                    | Some u \<Rightarrow>
                        case status_word blk (drop (k + 1) rest) of None \<Rightarrow> Inl (Fault ''version'')
                        | Some v \<Rightarrow> Inr (length line, r\<lparr>req_url := Some u, req_version := Some v\<rparr>))"

text \<open>One round of the loop of \<open>parse_http_request\<close>. When no line end has arrived nothing changes. A line without a colon takes the parser to the end,
  whatever is in it.\<close>

definition parse_step :: "(nat \<Rightarrow> u8 list) \<Rightarrow> buffer \<Rightarrow> http_request \<Rightarrow> halt + buffer \<times> http_request" where
  "parse_step blk input r =
     (case current_state r of
        REQUEST_STATUS \<Rightarrow>
          (case buffer_find_CRLF input of None \<Rightarrow> Inr (input, r)
           | Some crlf \<Rightarrow>
               case process_status_line blk (take crlf (buffer_bytes input)) r of Inl h \<Rightarrow> Inl h
               | Inr (sz, r) \<Rightarrow>
                   if sz \<noteq> 0 then Inr (input\<lparr>readIndex := readIndex input + sz + 2\<rparr>, r\<lparr>current_state := REQUEST_HEADERS\<rparr>)
                   else Inr (input, r))
      | REQUEST_HEADERS \<Rightarrow>
          (case buffer_find_CRLF input of None \<Rightarrow> Inr (input, r)
           | Some crlf \<Rightarrow>
               let line = take crlf (buffer_bytes input)
               in case memmem line (ascii '': '') of
                    Some colon \<Rightarrow>
                      (case http_request_add_header r (cstring (take colon line)) (cstring (drop (colon + 2) line)) of Inl h \<Rightarrow> Inl h
                       | Inr r \<Rightarrow> Inr (input\<lparr>readIndex := readIndex input + length line + 2\<rparr>, r))
                  | None \<Rightarrow> Inr (input\<lparr>readIndex := readIndex input + 2\<rparr>, r\<lparr>current_state := REQUEST_DONE\<rparr>))
      | _ \<Rightarrow> Inr (input, r))"

text \<open>The loop may not end; then the value is \<open>None\<close>. The result of the function is \<open>ok\<close>, which is never changed.\<close>

partial_function (option) parse_http_request :: "(nat \<Rightarrow> u8 list) \<Rightarrow> buffer \<Rightarrow> http_request \<Rightarrow> (halt + int \<times> buffer \<times> http_request) option" where
  "parse_http_request blk input r =
     (if current_state r = REQUEST_DONE then Some (Inr (1, input, r))
      else case parse_step blk input r of Inl h \<Rightarrow> Some (Inl h)
        | Inr p \<Rightarrow> parse_http_request blk (fst p) (snd p))"

section \<open>Responses\<close>

record http_response =
  statusCode :: nat
  statusMessage :: "u8 list option"
  resp_body :: "u8 list option"
  response_headers :: "(u8 list \<times> u8 list) list"
  keep_connected :: bool

definition http_response_new :: http_response where
  "http_response_new = \<lparr>statusCode = 0, statusMessage = None, resp_body = None, response_headers = [], keep_connected = False\<rparr>"

text \<open>The conversion \<open>%d\<close> of a number that is not negative.\<close>

fun decimal :: "nat \<Rightarrow> u8 list" where
  "decimal n = (if n < 10 then [] else decimal (n div 10)) @ [word_of_nat (48 + n mod 10)]"

declare decimal.simps [simp del]

text \<open>\<open>snprintf\<close> to a buffer of 32 bytes.\<close>

definition snprintf32 :: "u8 list \<Rightarrow> u8 list" where
  "snprintf32 d = take 31 d"

fun append_strings :: "realloc \<Rightarrow> u8 list option list \<Rightarrow> buffer \<Rightarrow> buffer option" where
  "append_strings re [] out = Some out"
| "append_strings re (p # ps) out = Option.bind (buffer_append_string re out p) (append_strings re ps)"

fun header_strings :: "(u8 list \<times> u8 list) list \<Rightarrow> u8 list option list" where
  "header_strings [] = []"
| "header_strings ((k, v) # hs) = [Some k, Some (ascii '': ''), Some v, Some CRLF] @ header_strings hs"

text \<open>With \<open>keep_connected\<close> the response says that the connection is closed. Without it the length of the body is taken, which must not be \<open>NULL\<close>.\<close>

definition http_response_encode_buffer :: "realloc \<Rightarrow> http_response \<Rightarrow> buffer \<Rightarrow> buffer option" where
  "http_response_encode_buffer re resp out =
     Option.bind (append_strings re [Some (snprintf32 (ascii ''HTTP/1.1 '' @ decimal (statusCode resp) @ ascii '' '')), statusMessage resp, Some CRLF] out) (\<lambda>out.
     Option.bind
       (if keep_connected resp then append_strings re [Some (ascii ''Connection: close'' @ CRLF)] out
        else case resp_body resp of None \<Rightarrow> None
          | Some bd \<Rightarrow>
              append_strings re [Some (snprintf32 (ascii ''Content-Length: '' @ decimal (length bd) @ CRLF)), Some (ascii ''Connection: Keep-Alive'' @ CRLF)] out) (\<lambda>out.
     Option.bind (append_strings re (header_strings (response_headers resp)) out) (\<lambda>out.
     append_strings re [Some CRLF, resp_body resp] out)))"

section \<open>Complete requests are parsed\<close>

lemma memmem_first: "c \<notin> set xs \<Longrightarrow> memmem (xs @ c # t @ ys) (c # t) = Some (length xs)"
proof (induction xs)
  case (Cons x xs)
  then show ?case by (subst memmem.simps) auto
qed (simp add: memmem.simps)

lemmas memmem_first1 = memmem_first [where t = "[]", simplified]

lemma memmem_absent: "c \<notin> set xs \<Longrightarrow> memmem xs (c # t) = None"
proof (induction xs)
  case (Cons x xs)
  then show ?case by (subst memmem.simps) auto
qed (simp add: memmem.simps)

text \<open>A part of a line that lacks the end of its line end has none.\<close>

lemma memmem_part:
  assumes "p @ q = line @ CRLF" and "q \<noteq> []" and "13 \<notin> set line"
  shows "memmem p CRLF = None"
  using assms
proof (induction line arbitrary: p)
  case Nil
  then show ?case by (cases p) (auto simp: memmem.simps Cons_eq_append_conv append_eq_Cons_conv)
next
  case (Cons x line)
  then show ?case by (cases p) (auto simp: memmem.simps [of _ CRLF])
qed

definition request_line :: "u8 list \<Rightarrow> u8 list \<Rightarrow> u8 list \<Rightarrow> u8 list" where
  "request_line m u v = m @ [32] @ u @ [32] @ v"

fun header_lines :: "(u8 list \<times> u8 list) list \<Rightarrow> u8 list" where
  "header_lines [] = CRLF"
| "header_lines ((k, v) # hs) = k @ ascii '': '' @ v @ CRLF @ header_lines hs"

definition request_head :: "u8 list \<Rightarrow> u8 list \<Rightarrow> u8 list \<Rightarrow> (u8 list \<times> u8 list) list \<Rightarrow> u8 list" where
  "request_head m u v hs = request_line m u v @ CRLF @ header_lines hs"

text \<open>Words have no zero, line end or space, names of headers no colon.\<close>

definition plain :: "u8 set \<Rightarrow> u8 list \<Rightarrow> bool" where
  "plain A d \<longleftrightarrow> set d \<inter> ({0, 13} \<union> A) = {}"

definition plain_request :: "u8 list \<Rightarrow> u8 list \<Rightarrow> u8 list \<Rightarrow> (u8 list \<times> u8 list) list \<Rightarrow> bool" where
  "plain_request m u v hs \<longleftrightarrow> plain {32} m \<and> plain {32} u \<and> plain {} v \<and> list_all (\<lambda>(k, x). plain {58} k \<and> plain {} x) hs"

text \<open>The blocks of the three words happen to have a byte more than was asked for.\<close>

definition blocks_fit :: "(nat \<Rightarrow> u8 list) \<Rightarrow> u8 list list \<Rightarrow> bool" where
  "blocks_fit blk ds \<longleftrightarrow> list_all (\<lambda>d. length d + 1 < length (blk (length d + 1))) ds"

lemma ascii_colon [simp]: "ascii '': '' = [58, 32]"
  by (simp add: ascii_def)

lemma cstring_plain: "plain A d \<Longrightarrow> cstring d = d"
  by (auto simp: cstring_def plain_def takeWhile_eq_all_conv)

lemma buffer_skip:
  assumes "wf_buffer b" and "buffer_bytes b = xs @ ys" and "n = readIndex b + length xs"
  shows "wf_buffer (b\<lparr>readIndex := n\<rparr>) \<and> buffer_bytes (b\<lparr>readIndex := n\<rparr>) = ys"
proof -
  have "length xs \<le> writeIndex b - readIndex b" using length_buffer_bytes [OF assms(1)] assms(2) by simp
  then have w: "wf_buffer (b\<lparr>readIndex := n\<rparr>)" using assms(1,3) by (auto simp: wf_buffer_def)
  have "buffer_bytes (b\<lparr>readIndex := n\<rparr>) = drop (length xs) (buffer_bytes b)"
    unfolding buffer_bytes_alt [OF w] buffer_bytes_alt [OF assms(1)] using assms(3) by (simp add: add.commute)
  then show ?thesis using w assms(2) by simp
qed

lemma status_word_fit: "blocks_fit blk [d] \<Longrightarrow> plain A d \<Longrightarrow> \<exists>x. status_word blk d = Some (d @ x)"
  by (auto simp: blocks_fit_def status_word_def strncpy_bytes_def cstring_plain Let_def list_update_append)

lemma process_status_line_plain:
  assumes "plain {32} m" and "plain {32} u" and "plain {} v" and "blocks_fit blk [m, u, v]"
  shows "\<exists>x y z. process_status_line blk (request_line m u v) r =
    Inr (length (request_line m u v), r\<lparr>req_method := Some (m @ x), req_url := Some (u @ y), req_version := Some (v @ z)\<rparr>)"
proof -
  obtain x y z where "status_word blk m = Some (m @ x)" "status_word blk u = Some (u @ y)" "status_word blk v = Some (v @ z)"
    using status_word_fit assms by (metis (no_types, lifting) blocks_fit_def list.pred_inject)
  moreover have "32 \<notin> set m" "32 \<notin> set u" using assms(1,2) by (auto simp: plain_def)
  ultimately show ?thesis
    by (intro exI [of _ x] exI [of _ y] exI [of _ z]) (simp add: process_status_line_def request_line_def memmem_first1)
qed

lemma find_line:
  assumes "buffer_bytes b = line @ CRLF @ rest" and "13 \<notin> set line"
  shows "buffer_find_CRLF b = Some (length line)"
  unfolding buffer_find_CRLF_def assms(1) using memmem_first [OF assms(2), of "[10]" rest] by simp

lemma parse_status_step:
  assumes "current_state r = REQUEST_STATUS" and "wf_buffer b" and "buffer_bytes b = request_line m u v @ CRLF @ rest"
    and "plain {32} m" and "plain {32} u" and "plain {} v" and "blocks_fit blk [m, u, v]"
  shows "\<exists>c x y z. parse_step blk b r = Inr (c, r\<lparr>req_method := Some (m @ x), req_url := Some (u @ y), req_version := Some (v @ z), current_state := REQUEST_HEADERS\<rparr>) \<and>
    wf_buffer c \<and> buffer_bytes c = rest"
proof -
  let ?l = "request_line m u v" and ?n = "readIndex b + length (request_line m u v) + 2"
  have "13 \<notin> set ?l" using assms(4-6) by (auto simp: request_line_def plain_def)
  then have f: "buffer_find_CRLF b = Some (length ?l)" by (rule find_line [OF assms(3)])
  obtain x y z where p: "process_status_line blk ?l r = Inr (length ?l, r\<lparr>req_method := Some (m @ x), req_url := Some (u @ y), req_version := Some (v @ z)\<rparr>)"
    using process_status_line_plain [OF assms(4-7)] by blast
  have "wf_buffer (b\<lparr>readIndex := ?n\<rparr>) \<and> buffer_bytes (b\<lparr>readIndex := ?n\<rparr>) = rest"
    using buffer_skip [OF assms(2), of "?l @ CRLF" rest ?n] assms(3) by simp
  moreover have "length ?l \<noteq> 0" by (simp add: request_line_def)
  ultimately show ?thesis using f p assms(1,3)
    by (intro exI [of _ "b\<lparr>readIndex := ?n\<rparr>"] exI [of _ x] exI [of _ y] exI [of _ z]) (simp add: parse_step_def)
qed

lemma parse_header_step:
  assumes "current_state r = REQUEST_HEADERS" and "wf_buffer b" and "buffer_bytes b = k @ ascii '': '' @ v @ CRLF @ rest"
    and "plain {58} k" and "plain {} v" and "length (request_headers r) < HEADER_SPACE"
  shows "\<exists>c. parse_step blk b r = Inr (c, r\<lparr>request_headers := request_headers r @ [(k, v)]\<rparr>) \<and> wf_buffer c \<and> buffer_bytes c = rest"
proof -
  let ?l = "k @ [58, 32] @ v" and ?n = "readIndex b + length (k @ [58, 32] @ v) + 2"
  have b: "buffer_bytes b = ?l @ CRLF @ rest" using assms(3) by simp
  have "13 \<notin> set ?l" using assms(4,5) by (auto simp: plain_def)
  then have f: "buffer_find_CRLF b = Some (length ?l)" by (rule find_line [OF b])
  have c: "memmem ?l [58, 32] = Some (length k)" using memmem_first [of 58 k "[32]" v] assms(4) by (simp add: plain_def)
  have "wf_buffer (b\<lparr>readIndex := ?n\<rparr>) \<and> buffer_bytes (b\<lparr>readIndex := ?n\<rparr>) = rest"
    using buffer_skip [OF assms(2), of "?l @ CRLF" rest ?n] b by simp
  then show ?thesis using f c assms(1,6) b
    by (auto simp: parse_step_def http_request_add_header_def cstring_plain [OF assms(4)] cstring_plain [OF assms(5)])
qed

lemma parse_end_step:
  assumes "current_state r = REQUEST_HEADERS" and "wf_buffer b" and "buffer_bytes b = CRLF @ rest"
  shows "\<exists>c. parse_step blk b r = Inr (c, r\<lparr>current_state := REQUEST_DONE\<rparr>) \<and> wf_buffer c \<and> buffer_bytes c = rest"
  using find_line [of b "[]" rest] buffer_skip [OF assms(2), of CRLF rest "readIndex b + 2"] assms
  by (simp add: parse_step_def memmem_absent)

lemma parse_go: "current_state r \<noteq> REQUEST_DONE \<Longrightarrow> parse_step blk b r = Inr (c, q) \<Longrightarrow> parse_http_request blk b r = parse_http_request blk c q"
  by (subst parse_http_request.simps) simp

lemma parse_done: "current_state r = REQUEST_DONE \<Longrightarrow> parse_http_request blk b r = Some (Inr (1, b, r))"
  by (subst parse_http_request.simps) simp

lemma parse_headers:
  assumes "current_state r = REQUEST_HEADERS" and "wf_buffer b" and "buffer_bytes b = header_lines hs @ rest"
    and "list_all (\<lambda>(k, x). plain {58} k \<and> plain {} x) hs" and "length (request_headers r) + length hs \<le> HEADER_SPACE"
  shows "\<exists>c. parse_http_request blk b r = Some (Inr (1, c, r\<lparr>current_state := REQUEST_DONE, request_headers := request_headers r @ hs\<rparr>)) \<and>
    wf_buffer c \<and> buffer_bytes c = rest"
  using assms
proof (induction hs arbitrary: b r)
  case Nil
  have "buffer_bytes b = CRLF @ rest" using Nil.prems(3) by simp
  from parse_end_step [OF Nil.prems(1,2) this]
  obtain c where "parse_step blk b r = Inr (c, r\<lparr>current_state := REQUEST_DONE\<rparr>)" "wf_buffer c" "buffer_bytes c = rest" by blast
  moreover have "parse_http_request blk b r = parse_http_request blk c (r\<lparr>current_state := REQUEST_DONE\<rparr>)"
    using Nil.prems(1) by (intro parse_go calculation) simp
  ultimately show ?case by (intro exI [of _ c]) (simp add: parse_done)
next
  case (Cons h hs)
  obtain k v where h: "h = (k, v)" by (cases h)
  let ?r = "r\<lparr>request_headers := request_headers r @ [(k, v)]\<rparr>"
  have "plain {58} k" "plain {} v" "length (request_headers r) < HEADER_SPACE" "buffer_bytes b = k @ ascii '': '' @ v @ CRLF @ header_lines hs @ rest"
    using Cons.prems h by simp_all
  from parse_header_step [OF Cons.prems(1,2) this(4,1,2,3)] obtain c where c: "parse_step blk b r = Inr (c, ?r)" "wf_buffer c" "buffer_bytes c = header_lines hs @ rest" by blast
  have "parse_http_request blk b r = parse_http_request blk c ?r" using Cons.prems(1) by (intro parse_go c(1)) simp
  then show ?case using Cons.IH [of ?r c] c(2,3) Cons.prems h by simp
qed

lemma parse_complete:
  assumes "current_state r = REQUEST_STATUS" and "request_headers r = []" and "wf_buffer b" and "buffer_bytes b = request_head m u v hs @ rest"
    and "plain_request m u v hs" and "length hs \<le> 384" and "blocks_fit blk [m, u, v]"
  shows "\<exists>c q x y z. parse_http_request blk b r = Some (Inr (1, c, q)) \<and> current_state q = REQUEST_DONE \<and> req_method q = Some (m @ x) \<and> req_url q = Some (u @ y) \<and>
    req_version q = Some (v @ z) \<and> request_headers q = hs \<and> wf_buffer c \<and> buffer_bytes c = rest"
proof -
  have pl: "plain {32} m" "plain {32} u" "plain {} v" "list_all (\<lambda>(k, x). plain {58} k \<and> plain {} x) hs" using assms(5) by (simp_all add: plain_request_def)
  have "buffer_bytes b = request_line m u v @ CRLF @ header_lines hs @ rest" using assms(4) by (simp add: request_head_def)
  from parse_status_step [OF assms(1,3) this pl(1-3) assms(7)] obtain c x y z where
    c: "parse_step blk b r = Inr (c, r\<lparr>req_method := Some (m @ x), req_url := Some (u @ y), req_version := Some (v @ z), current_state := REQUEST_HEADERS\<rparr>)"
      "wf_buffer c" "buffer_bytes c = header_lines hs @ rest" by blast
  let ?r = "r\<lparr>req_method := Some (m @ x), req_url := Some (u @ y), req_version := Some (v @ z), current_state := REQUEST_HEADERS\<rparr>"
  have "parse_http_request blk b r = parse_http_request blk c ?r" using assms(1) by (intro parse_go c(1)) simp
  moreover obtain d where "parse_http_request blk c ?r = Some (Inr (1, d, ?r\<lparr>current_state := REQUEST_DONE, request_headers := hs\<rparr>))" "wf_buffer d" "buffer_bytes d = rest"
    using parse_headers [OF _ c(2,3) pl(4), of ?r blk] assms(2,6) by auto
  ultimately show ?thesis
    by (intro exI [of _ d] exI [of _ "?r\<lparr>current_state := REQUEST_DONE, request_headers := hs\<rparr>"] exI [of _ x] exI [of _ y] exI [of _ z]) simp
qed

text \<open>Requests one after the other: as in \<open>http_onMessage\<close>, a request is reset before the next one is parsed.\<close>

fun parse_seq :: "(nat \<Rightarrow> u8 list) \<Rightarrow> nat \<Rightarrow> buffer \<Rightarrow> http_request \<Rightarrow> (http_request list \<times> buffer) option" where
  "parse_seq blk 0 b r = Some ([], b)"
| "parse_seq blk (Suc n) b r =
     (case parse_http_request blk b r of
        Some (Inr (ok, c, q)) \<Rightarrow> map_option (\<lambda>(qs, e). (q # qs, e)) (parse_seq blk n c (http_request_reset q))
      | _ \<Rightarrow> None)"

definition request_is :: "u8 list \<times> u8 list \<times> u8 list \<times> (u8 list \<times> u8 list) list \<Rightarrow> http_request \<Rightarrow> bool" where
  "request_is = (\<lambda>(m, u, v, hs) q. current_state q = REQUEST_DONE \<and> request_headers q = hs \<and>
     (\<exists>x y z. req_method q = Some (m @ x) \<and> req_url q = Some (u @ y) \<and> req_version q = Some (v @ z)))"

definition sendable :: "(nat \<Rightarrow> u8 list) \<Rightarrow> u8 list \<times> u8 list \<times> u8 list \<times> (u8 list \<times> u8 list) list \<Rightarrow> bool" where
  "sendable blk = (\<lambda>(m, u, v, hs). plain_request m u v hs \<and> length hs \<le> HEADER_SPACE \<and> blocks_fit blk [m, u, v])"

definition head_of :: "u8 list \<times> u8 list \<times> u8 list \<times> (u8 list \<times> u8 list) list \<Rightarrow> u8 list" where
  "head_of = (\<lambda>(m, u, v, hs). request_head m u v hs)"


definition request0 :: "u8 list" where
  "request0 = request_head (ascii ''GET'') (ascii ''/'') (ascii ''HTTP/1.1'') [(ascii ''Host'', ascii ''a'')]"

text \<open>A buffer that holds just these bytes.\<close>

definition full_buffer :: "u8 list \<Rightarrow> buffer" where
  "full_buffer d = \<lparr>buf_data = d, readIndex = 0, writeIndex = length d, total_size = length d\<rparr>"

lemma full_buffer [simp]: "wf_buffer (full_buffer d)" "buffer_bytes (full_buffer d) = d"
  by (simp_all add: full_buffer_def wf_buffer_def buffer_bytes_def size_defs)

lemma request0_plain: "plain_request (ascii ''GET'') (ascii ''/'') (ascii ''HTTP/1.1'') [(ascii ''Host'', ascii ''a'')]"
  by (simp add: plain_request_def plain_def ascii_def)

definition parts0 :: "u8 list \<times> u8 list \<times> u8 list \<times> (u8 list \<times> u8 list) list" where
  "parts0 = (ascii ''GET'', ascii ''/'', ascii ''HTTP/1.1'', [(ascii ''Host'', ascii ''a'')])"


section \<open>Incomplete requests\<close>

text \<open>A round that changes nothing is repeated for ever.\<close>

lemma parse_stuck:
  assumes "current_state r \<noteq> REQUEST_DONE" and "parse_step blk b r = Inr (b, r)"
  shows "parse_http_request blk b r = None"
proof -
  have "current_state r \<noteq> REQUEST_DONE \<and> parse_step blk b r = Inr (b, r) \<longrightarrow> False" if "parse_http_request blk b r = Some y" for y
    using parse_http_request.raw_induct [of "\<lambda>blk b r y. current_state r \<noteq> REQUEST_DONE \<and> parse_step blk b r = Inr (b, r) \<longrightarrow> False", OF _ that]
    by (fastforce split: if_splits)
  then show ?thesis using assms by (cases "parse_http_request blk b r") auto
qed


lemma parse_no_line:
  assumes "current_state r \<in> {REQUEST_STATUS, REQUEST_HEADERS}" and "buffer_bytes b = p" and "p @ q = line @ CRLF" and "q \<noteq> []" and "13 \<notin> set line"
  shows "parse_http_request blk b r = None"
proof (rule parse_stuck)
  have "buffer_find_CRLF b = None" using memmem_part [OF assms(3-5)] assms(2) by (simp add: buffer_find_CRLF_def)
  then show "parse_step blk b r = Inr (b, r)" using assms(1) by (auto simp: parse_step_def)
qed (use assms(1) in auto)

text \<open>A part of \<open>xs @ ys\<close> ends in \<open>xs\<close> or goes on after it.\<close>

lemma part_cases:
  assumes "p @ q = xs @ ys" and "q \<noteq> []"
  obtains (before) q' where "p @ q' = xs" and "q' \<noteq> []" | (after) p' where "p = xs @ p'" and "p' @ q = ys"
proof -
  consider us where "p = xs @ us" "us @ q = ys" | us where "p @ us = xs" "q = us @ ys" using assms(1) by (auto simp: append_eq_append_conv2)
  then show thesis
  proof cases
    case (2 us)
    then show thesis using before [of us] after [of "[]"] by (cases us) simp_all
  qed (rule after)
qed

lemma parse_headers_part:
  assumes "current_state r = REQUEST_HEADERS" and "wf_buffer b" and "buffer_bytes b @ q = header_lines hs" and "q \<noteq> []"
    and "list_all (\<lambda>(k, x). plain {58} k \<and> plain {} x) hs" and "length (request_headers r) + length hs \<le> HEADER_SPACE"
  shows "parse_http_request blk b r = None"
  using assms
proof (induction hs arbitrary: b r)
  case Nil
  then show ?case by (intro parse_no_line [of r b _ q "[]"]) auto
next
  case (Cons h hs)
  obtain k v where h: "h = (k, v)" by (cases h)
  have kv: "plain {58} k" "plain {} v" "length (request_headers r) < HEADER_SPACE" using Cons.prems h by simp_all
  have "buffer_bytes b @ q = ((k @ [58, 32] @ v) @ CRLF) @ header_lines hs" using Cons.prems(3) h by simp
  then show ?case using Cons.prems(4)
  proof (cases rule: part_cases)
    case (before q')
    have "13 \<notin> set (k @ [58, 32] @ v)" using kv by (auto simp: plain_def)
    then show ?thesis using before Cons.prems(1) by (intro parse_no_line [of r b _ q']) auto
  next
    case (after p)
    let ?r = "r\<lparr>request_headers := request_headers r @ [(k, v)]\<rparr>"
    have "buffer_bytes b = k @ ascii '': '' @ v @ CRLF @ p" using after(1) by simp
    from parse_header_step [OF Cons.prems(1,2) this kv] obtain c where c: "parse_step blk b r = Inr (c, ?r)" "wf_buffer c" "buffer_bytes c = p" by blast
    have "parse_http_request blk c ?r = None"
      by (rule Cons.IH) (use c after(2) Cons.prems h in simp_all)
    moreover have "parse_http_request blk b r = parse_http_request blk c ?r" using Cons.prems(1) by (intro parse_go c(1)) simp
    ultimately show ?thesis by simp
  qed
qed



section \<open>What a response is\<close>

definition text_of :: "u8 list option list \<Rightarrow> u8 list" where
  "text_of ps = concat (map (\<lambda>p. case p of None \<Rightarrow> [] | Some d \<Rightarrow> d) ps)"

definition response_text :: "http_response \<Rightarrow> u8 list" where
  "response_text resp =
     snprintf32 (ascii ''HTTP/1.1 '' @ decimal (statusCode resp) @ ascii '' '') @ text_of [statusMessage resp] @ CRLF @
     (if keep_connected resp then ascii ''Connection: close'' @ CRLF
      else snprintf32 (ascii ''Content-Length: '' @ decimal (length (the (resp_body resp))) @ CRLF) @ ascii ''Connection: Keep-Alive'' @ CRLF) @
     concat (map (\<lambda>(k, v). k @ ascii '': '' @ v @ CRLF) (response_headers resp)) @ CRLF @ text_of [resp_body resp]"

lemma append_strings_run:
  assumes "wf_buffer b" and "realloc_ok re" and "\<And>d n. re d n \<noteq> None"
  shows "\<exists>c. append_strings re ps b = Some c \<and> wf_buffer c \<and> buffer_bytes c = buffer_bytes b @ text_of ps"
  using assms(1)
proof (induction ps arbitrary: b)
  case (Cons p ps)
  show ?case
  proof (cases p)
    case None
    then show ?thesis using Cons by (simp add: buffer_append_string_def text_of_def)
  next
    case (Some d)
    obtain c where c: "buffer_append re b (Some d) = Some c" using buffer_append_total [OF Cons.prems assms(2,3), of d] by blast
    note w = buffer_append_bytes [OF Cons.prems assms(2) c]
    then obtain e where "append_strings re ps c = Some e \<and> wf_buffer e \<and> buffer_bytes e = buffer_bytes c @ text_of ps" using Cons.IH by blast
    then show ?thesis using Some c w by (intro exI [of _ e]) (simp add: buffer_append_string_def text_of_def)
  qed
qed (simp add: text_of_def)

lemma text_of_headers: "text_of (header_strings hs) = concat (map (\<lambda>(k, v). k @ ascii '': '' @ v @ CRLF) hs)"
  by (induction hs rule: header_strings.induct) (simp_all add: text_of_def)

lemma append_strings_append: "append_strings re (ps @ qs) b = Option.bind (append_strings re ps b) (append_strings re qs)"
  by (induction ps arbitrary: b) (auto split: Option.bind_splits)

lemma encode_run:
  assumes "wf_buffer b" and "realloc_ok re" and "\<And>d n. re d n \<noteq> None" and "keep_connected resp \<or> resp_body resp \<noteq> None"
  shows "\<exists>c. http_response_encode_buffer re resp b = Some c \<and> wf_buffer c \<and> buffer_bytes c = buffer_bytes b @ response_text resp"
proof -
  let ?mid = "if keep_connected resp then [Some (ascii ''Connection: close'' @ CRLF)]
    else [Some (snprintf32 (ascii ''Content-Length: '' @ decimal (length (the (resp_body resp))) @ CRLF)), Some (ascii ''Connection: Keep-Alive'' @ CRLF)]"
  let ?ps = "[Some (snprintf32 (ascii ''HTTP/1.1 '' @ decimal (statusCode resp) @ ascii '' '')), statusMessage resp, Some CRLF] @ ?mid @
    header_strings (response_headers resp) @ [Some CRLF, resp_body resp]"
  have "http_response_encode_buffer re resp b = append_strings re ?ps b"
    using assms(4) unfolding http_response_encode_buffer_def append_strings_append by (auto split: option.split)
  moreover have "text_of ?ps = response_text resp"
    using text_of_headers [of "response_headers resp"] by (simp add: response_text_def text_of_def)
  ultimately show ?thesis using append_strings_run [OF assms(1-3), of ?ps] by simp
qed

end
