(* ===== verification/Netserver.thy ===== *)
theory Netserver
  imports Nethttp
begin

text \<open>
  The network library, part four: connections (\<open>tcp_connection.c\<close>), the delivery of events (\<open>channel_event_activate\<close>, the \<open>dispatch\<close> functions and
  \<open>event_loop_run\<close>), the servers of \<open>tcp_server.c\<close> and the callbacks of \<open>http_server.c\<close>. Sockets are in the state: what arrives on a descriptor, what was written
  to it and which results the next calls of \<open>write\<close> have. Log output is left out.
\<close>

section \<open>State\<close>

text \<open>\<open>struct tcp_connection\<close>; its \<open>name\<close> is only logged. The callbacks are the same for all connections of a server and are an argument.\<close>

record tcp_connection =
  con_eventLoop :: nat
  con_channel :: nat
  input_buffer :: buffer
  output_buffer :: buffer
  con_request :: "http_request option"

record 'd nets = "'d netk" +
  connections :: "tcp_connection list"
  sock_in :: "int \<Rightarrow> recv list"
  sock_out :: "int \<Rightarrow> u8 list"
  write_results :: "int list"
  shut :: "int list"
  accepted :: "int list"

record 's callbacks =
  connectionCompletedCallBack :: "(nat \<Rightarrow> ('s, unit) km) option"
  messageCallBack :: "(nat \<Rightarrow> ('s, unit) km) option"
  writeCompletedCallBack :: "(nat \<Rightarrow> ('s, unit) km) option"
  connectionClosedCallBack :: "(nat \<Rightarrow> ('s, unit) km) option"

text \<open>What is given by the surroundings: the dispatcher, memory, the calling thread.\<close>

record 'd netenv =
  env_ed :: "'d event_dispatcher"
  env_mem :: "nat \<Rightarrow> bool"
  env_realloc :: realloc
  env_malloc :: "nat \<Rightarrow> u8 list"
  env_strncmp :: strncmp
  env_self :: nat

definition get_con :: "nat \<Rightarrow> ('d nets, tcp_connection) km" where
  "get_con i = (\<lambda>s. if i < length (connections s) then Ret (connections s ! i) s else Stop (Fault ''tcpConnection'') s)"

definition upd_con :: "nat \<Rightarrow> (tcp_connection \<Rightarrow> tcp_connection) \<Rightarrow> ('d nets, unit) km" where
  "upd_con i f = kmod (\<lambda>s. s\<lparr>connections := (connections s)[i := f (connections s ! i)]\<rparr>)"

definition call_back :: "(nat \<Rightarrow> ('s, unit) km) option \<Rightarrow> nat \<Rightarrow> ('s, unit) km" where
  "call_back q i = (case q of None \<Rightarrow> kreturn () | Some f \<Rightarrow> f i)"

text \<open>A value that may be missing.\<close>

definition need :: "string \<Rightarrow> 'b option \<Rightarrow> ('s, 'b) km" where
  "need msg q = (case q of None \<Rightarrow> kstop (Fault msg) | Some x \<Rightarrow> kreturn x)"

text \<open>
  \<open>readv\<close> for the free part of the buffer and the additional 65536 bytes, and \<open>write\<close>: the result of a call is the next of the list, or else all is written.
\<close>

definition sock_readv :: "int \<Rightarrow> nat \<Rightarrow> ('d nets, u8 list option) km" where
  "sock_readv fd n =
     kbind (kget (\<lambda>s. sock_read n (sock_in s fd))) (\<lambda>(r, rs).
     kseq (kmod (\<lambda>s. s\<lparr>sock_in := (sock_in s)(fd := rs)\<rparr>))
     (kreturn (case r of Bytes d \<Rightarrow> Some d | _ \<Rightarrow> None)))"

definition sock_write :: "int \<Rightarrow> u8 list \<Rightarrow> ('d nets, int) km" where
  "sock_write fd d =
     kbind (kget write_results) (\<lambda>ws.
     let n = (case ws of [] \<Rightarrow> int (length d) | w # _ \<Rightarrow> min (max w (-1)) (int (length d)))
     in kseq (kmod (\<lambda>s. s\<lparr>write_results := tl ws, sock_out := (sock_out s)(fd := sock_out s fd @ take (nat n) d)\<rparr>))
        (kreturn n))"

section \<open>Connections\<close>

definition handle_connection_closed :: "'d netenv \<Rightarrow> 'd nets callbacks \<Rightarrow> nat \<Rightarrow> ('d nets, unit) km" where
  "handle_connection_closed env cb i =
     kbind (get_con i) (\<lambda>con.
     kseq (event_loop_remove_channel_event (env_ed env) (env_mem env) (env_self env) (con_eventLoop con) (con_channel con))
     (call_back (connectionClosedCallBack cb) i))"

definition handle_read :: "'d netenv \<Rightarrow> 'd nets callbacks \<Rightarrow> nat \<Rightarrow> ('d nets, unit) km" where
  "handle_read env cb i =
     kbind (get_con i) (\<lambda>con.
     kbind (get_chan (con_channel con)) (\<lambda>ch.
     kbind (sock_readv (ch_fd ch) (buffer_writeable_size (input_buffer con) + INIT_BUFFER_SIZE)) (\<lambda>q.
     kbind (need ''buffer'' (buffer_socket_read (env_realloc env) (input_buffer con) q)) (\<lambda>(n, b).
     kseq (upd_con i (\<lambda>con. con\<lparr>input_buffer := b\<rparr>))
     (if n > 0 then call_back (messageCallBack cb) i else handle_connection_closed env cb i)))))"

definition handle_write :: "'d netenv \<Rightarrow> 'd nets callbacks \<Rightarrow> nat \<Rightarrow> ('d nets, unit) km" where
  "handle_write env cb i =
     kbind (get_con i) (\<lambda>con.
     kseq (assertInSameThread (env_self env) (con_eventLoop con))
     (kbind (get_chan (con_channel con)) (\<lambda>ch.
      kbind (sock_write (ch_fd ch) (buffer_bytes (output_buffer con))) (\<lambda>nwrited.
      if nwrited > 0 then
        let b = (output_buffer con)\<lparr>readIndex := readIndex (output_buffer con) + nat nwrited\<rparr>
        in kseq (upd_con i (\<lambda>con. con\<lparr>output_buffer := b\<rparr>))
           (kseq (kwhen (buffer_readable_size b = 0) (channel_write_event_disable (env_ed env) (env_mem env) (env_self env) (con_channel con)))
           (call_back (writeCompletedCallBack cb) i))
      else kreturn ()))))"

text \<open>The name, \<open>connection-\<close> and the descriptor, is printed to a block of 16 bytes. The field \<open>request\<close> is not set here; the model starts it with \<open>NULL\<close>.\<close>

definition int_decimal :: "int \<Rightarrow> u8 list" where
  "int_decimal n = (if n < 0 then ascii ''-'' @ decimal (nat (- n)) else decimal (nat n))"

definition tcp_connection_new :: "'d netenv \<Rightarrow> 'd nets callbacks \<Rightarrow> int \<Rightarrow> nat \<Rightarrow> ('d nets, nat) km" where
  "tcp_connection_new env cb connected_fd l =
     kbind (need ''buffer'' (buffer_new True (Some (take INIT_BUFFER_SIZE (env_malloc env INIT_BUFFER_SIZE))))) (\<lambda>b.
     if length (ascii ''connection-'' @ int_decimal connected_fd) + 1 > length (env_malloc env 16) then kstop (Fault ''name'')
     else kbind (kget (\<lambda>s. length (connections s))) (\<lambda>i.
       kbind (channel_new connected_fd EVENT_READ (Some HandleRead) (Some HandleWrite) (Connection i)) (\<lambda>c.
       kseq (kmod (\<lambda>s. s\<lparr>connections := connections s @ [\<lparr>con_eventLoop = l, con_channel = c, input_buffer = b, output_buffer = b, con_request = None\<rparr>]\<rparr>))
       (kseq (call_back (connectionCompletedCallBack cb) i)
       (kseq (event_loop_add_channel_event (env_ed env) (env_mem env) (env_self env) l c)
       (kreturn i))))))"

text \<open>
  \<open>nwrited\<close> is unsigned: the result -1 of \<open>write\<close> is taken for a success, \<open>nleft\<close> becomes the size plus one and the data that is kept starts one byte
  before the data (\<open>pre\<close> is that byte).
\<close>

definition tcp_connection_send_data :: "'d netenv \<Rightarrow> nat \<Rightarrow> u8 \<Rightarrow> u8 list \<Rightarrow> ('d nets, int) km" where
  "tcp_connection_send_data env i pre d =
     kbind (get_con i) (\<lambda>con.
     kbind (get_chan (con_channel con)) (\<lambda>ch.
     kbind (if \<not> channel_write_event_is_enabled ch \<and> buffer_readable_size (output_buffer con) = 0 then sock_write (ch_fd ch) d else kreturn 0) (\<lambda>nwrited.
     let rest = (if nwrited < 0 then pre # d else drop (nat nwrited) d)
     in kseq
       (if rest \<noteq> [] then
          kbind (need ''output_buffer'' (buffer_append (env_realloc env) (output_buffer con) (Some rest))) (\<lambda>b.
          kseq (upd_con i (\<lambda>con. con\<lparr>output_buffer := b\<rparr>))
          (kwhen (\<not> channel_write_event_is_enabled ch) (channel_write_event_enable (env_ed env) (env_mem env) (env_self env) (con_channel con))))
        else kreturn ())
       (kreturn nwrited))))"

text \<open>The buffer that was sent is returned with its new \<open>readIndex\<close>.\<close>

definition tcp_connection_send_buffer :: "'d netenv \<Rightarrow> nat \<Rightarrow> u8 \<Rightarrow> buffer \<Rightarrow> ('d nets, int \<times> buffer) km" where
  "tcp_connection_send_buffer env i pre b =
     (let sz = buffer_readable_size b
      in kbind (tcp_connection_send_data env i pre (buffer_bytes b)) (\<lambda>r. kreturn (r, b\<lparr>readIndex := readIndex b + sz\<rparr>)))"

definition tcp_connection_shutdown :: "nat \<Rightarrow> ('d nets, unit) km" where
  "tcp_connection_shutdown i =
     kbind (get_con i) (\<lambda>con. kbind (get_chan (con_channel con)) (\<lambda>ch. kmod (\<lambda>s. s\<lparr>shut := shut s @ [ch_fd ch]\<rparr>)))"

section \<open>The HTTP server\<close>

definition http_onConnectionCompleted :: "nat \<Rightarrow> ('d nets, unit) km" where
  "http_onConnectionCompleted i = upd_con i (\<lambda>con. con\<lparr>con_request := Some http_request_new\<rparr>)"

text \<open>
  \<open>app\<close> is \<open>requestCallback\<close> of the server. A size of a pointer, 8 bytes, is sent as the error response. \<open>pre\<close> is the byte in front of the data that is sent.
\<close>

definition http_onMessage :: "'d netenv \<Rightarrow> (http_request \<Rightarrow> http_response \<Rightarrow> http_response) option \<Rightarrow> u8 \<Rightarrow> nat \<Rightarrow> ('d nets, unit) km" where
  "http_onMessage env app pre i =
     kbind (get_con i) (\<lambda>con.
     kbind (need ''httpRequest'' (con_request con)) (\<lambda>r.
     case parse_http_request (env_malloc env) (input_buffer con) r of None \<Rightarrow> kstop Diverges
     | Some (Inl h) \<Rightarrow> kstop h
     | Some (Inr (ok, b, r)) \<Rightarrow>
         kseq (upd_con i (\<lambda>con. con\<lparr>input_buffer := b, con_request := Some r\<rparr>))
         (kseq (if ok = 0 then
             kbind (tcp_connection_send_data env i pre (take 8 (ascii ''HTTP/1.1 400 Bad Request'' @ CRLF @ CRLF))) (\<lambda>_. tcp_connection_shutdown i)
           else kreturn ())
         (if http_request_current_state r = REQUEST_DONE then
            let resp = (case app of None \<Rightarrow> http_response_new | Some f \<Rightarrow> f r http_response_new)
            in kbind (need ''buffer'' (buffer_new True (Some (take INIT_BUFFER_SIZE (env_malloc env INIT_BUFFER_SIZE))))) (\<lambda>out.
               kbind (need ''response'' (http_response_encode_buffer (env_realloc env) resp out)) (\<lambda>out.
               kbind (tcp_connection_send_buffer env i pre out) (\<lambda>_.
               kseq (case http_request_close_connection (env_strncmp env) r of Inl h \<Rightarrow> kstop h
                  | Inr cl \<Rightarrow> kwhen cl (tcp_connection_shutdown i))
               (upd_con i (\<lambda>con. con\<lparr>con_request := map_option http_request_reset (con_request con)\<rparr>)))))
          else kreturn ()))))"

definition http_onWriteCompleted :: "nat \<Rightarrow> ('d nets, unit) km" where
  "http_onWriteCompleted i = kreturn ()"

definition http_onConnectionClosed :: "nat \<Rightarrow> ('d nets, unit) km" where
  "http_onConnectionClosed i = upd_con i (\<lambda>con. con\<lparr>con_request := None\<rparr>)"

definition http_callbacks :: "'d netenv \<Rightarrow> (http_request \<Rightarrow> http_response \<Rightarrow> http_response) option \<Rightarrow> u8 \<Rightarrow> 'd nets callbacks" where
  "http_callbacks env app pre = \<lparr>connectionCompletedCallBack = Some http_onConnectionCompleted, messageCallBack = Some (http_onMessage env app pre),
     writeCompletedCallBack = Some http_onWriteCompleted, connectionClosedCallBack = Some http_onConnectionClosed\<rparr>"

section \<open>Servers\<close>

record tcpserver =
  srv_eventLoop :: nat
  listen_fd :: int
  threadPool :: thread_pool

definition tcp_server_init :: "nat \<Rightarrow> int \<Rightarrow> int \<Rightarrow> tcpserver" where
  "tcp_server_init l fd threadNum = \<lparr>srv_eventLoop = l, listen_fd = fd, threadPool = thread_pool_new l threadNum\<rparr>"

text \<open>The result of \<open>accept\<close> is the next of \<open>accepted\<close>, and -1 when there is none; it is not tested.\<close>

definition handle_connection_established :: "'d netenv \<Rightarrow> 'd nets callbacks \<Rightarrow> tcpserver \<Rightarrow> ('d nets, tcpserver) km" where
  "handle_connection_established env cb srv =
     kbind (kget accepted) (\<lambda>fds.
     kseq (kmod (\<lambda>s. s\<lparr>accepted := tl fds\<rparr>))
     (kbind (thread_pool_get_loop (env_self env) (threadPool srv)) (\<lambda>(l, tp).
      kbind (tcp_connection_new env cb (case fds of [] \<Rightarrow> -1 | fd # _ \<Rightarrow> fd) l) (\<lambda>i.
      kreturn (srv\<lparr>threadPool := tp\<rparr>)))))"

definition tcp_server_start :: "'d netenv \<Rightarrow> (nat \<Rightarrow> nat \<times> 'd \<times> int \<times> int) \<Rightarrow> tcpserver \<Rightarrow> ('d nets, tcpserver) km" where
  "tcp_server_start env ths srv =
     kbind (thread_pool_start (env_ed env) (env_mem env) ths (env_self env) (threadPool srv)) (\<lambda>tp.
     kbind (channel_new (listen_fd srv) EVENT_READ (Some HandleConnectionEstablished) None Server) (\<lambda>c.
     kseq (event_loop_add_channel_event (env_ed env) (env_mem env) (env_self env) (srv_eventLoop srv) c)
     (kreturn (srv\<lparr>threadPool := tp\<rparr>))))"

section \<open>Delivery of events\<close>

text \<open>A byte is taken from the socket pair; a failure is only logged.\<close>

definition handleWakeup :: "nat \<Rightarrow> ('d nets, unit) km" where
  "handleWakeup l = kbind (get_loop l) (\<lambda>x. kmod (\<lambda>s. s\<lparr>wakeups := remove1 (fst (socketPair x)) (wakeups s)\<rparr>))"

text \<open>The functions that are set as callbacks of channels; a callback gets \<open>data\<close> of its channel.\<close>

definition run_callback :: "'d netenv \<Rightarrow> 'd nets callbacks \<Rightarrow> callback option \<Rightarrow> chdata \<Rightarrow> tcpserver \<Rightarrow> ('d nets, tcpserver) km" where
  "run_callback env cb q data srv =
     (case (q, data) of
        (None, _) \<Rightarrow> kreturn srv
      | (Some HandleWakeup, Loop l) \<Rightarrow> kseq (handleWakeup l) (kreturn srv)
      | (Some HandleConnectionEstablished, Server) \<Rightarrow> handle_connection_established env cb srv
      | (Some HandleRead, Connection i) \<Rightarrow> kseq (handle_read env cb i) (kreturn srv)
      | (Some HandleWrite, Connection i) \<Rightarrow> kseq (handle_write env cb i) (kreturn srv)
      | _ \<Rightarrow> kstop (Fault ''callback''))"

definition channel_event_activate :: "'d netenv \<Rightarrow> 'd nets callbacks \<Rightarrow> nat \<Rightarrow> int \<Rightarrow> u32 \<Rightarrow> tcpserver \<Rightarrow> ('d nets, tcpserver) km" where
  "channel_event_activate env cb l fd revents srv =
     (if fd < 0 then kreturn srv
      else kbind (get_loop l) (\<lambda>x.
        if nat fd \<ge> length (channelMap x) then kreturn srv
        else kbind (need ''channel'' (channelMap x ! nat fd)) (\<lambda>c.
          kbind (get_chan c) (\<lambda>ch.
          if fd \<noteq> ch_fd ch then kstop (Panic ''assert'')
          else kbind (if revents AND EVENT_READ \<noteq> 0 then run_callback env cb (eventReadCallback ch) (ch_data ch) srv else kreturn srv) (\<lambda>srv.
            if revents AND EVENT_WRITE \<noteq> 0 then run_callback env cb (eventWriteCallback ch) (ch_data ch) srv else kreturn srv)))))"

text \<open>The loop over the table, with the entries as they are when it gets to them.\<close>

fun poll_deliver :: "pollfd list netenv \<Rightarrow> pollfd list nets callbacks \<Rightarrow> nat \<Rightarrow> nat list \<Rightarrow> int \<Rightarrow> tcpserver \<Rightarrow> (pollfd list nets, tcpserver) km" where
  "poll_deliver env cb l [] ready srv = kreturn srv"
| "poll_deliver env cb l (i # is) ready srv =
     kbind (get_loop l) (\<lambda>x.
     let p = event_dispatcher_data x ! i
     in if pfd_fd p < 0 then poll_deliver env cb l is ready srv
        else if pfd_revents p \<noteq> 0 then
          kbind (if pfd_revents p AND POLLRDNORM \<noteq> 0 then channel_event_activate env cb l (pfd_fd p) EVENT_READ srv else kreturn srv) (\<lambda>srv.
          kbind (if pfd_revents p AND POLLWRNORM \<noteq> 0 then channel_event_activate env cb l (pfd_fd p) EVENT_WRITE srv else kreturn srv) (\<lambda>srv.
          if ready - 1 \<le> 0 then kreturn srv else poll_deliver env cb l is (ready - 1) srv))
        else poll_deliver env cb l is ready srv)"

text \<open>\<open>ev\<close> is what \<open>poll\<close> returns: the result and \<open>revents\<close> of all entries.\<close>

definition poll_dispatch :: "pollfd list netenv \<Rightarrow> pollfd list nets callbacks \<Rightarrow> nat \<Rightarrow> int \<times> u32 list \<Rightarrow> tcpserver \<Rightarrow> (pollfd list nets, tcpserver) km" where
  "poll_dispatch env cb l = (\<lambda>(ready, revs) srv.
     if ready < 0 then kstop (Panic ''exit'')
     else kseq (upd_loop l (\<lambda>x. x\<lparr>event_dispatcher_data := map2 (\<lambda>p e. p\<lparr>pfd_revents := e\<rparr>) (event_dispatcher_data x) revs\<rparr>))
       (if ready \<le> 0 then kreturn srv else poll_deliver env cb l [0..<INIT_POLL_SIZE] ready srv))"

abbreviation (input) EPOLLERR :: u32 where "EPOLLERR \<equiv> 8"
abbreviation (input) EPOLLHUP :: u32 where "EPOLLHUP \<equiv> 16"

text \<open>
  \<open>evs\<close> are the descriptors and events that \<open>epoll_wait\<close> returns, and \<open>cls\<close> is \<open>close\<close>: the operating system takes a closed
  descriptor out of the set. The channel stays in the map of the loop.
\<close>

fun epoll_dispatch :: "'d netenv \<Rightarrow> 'd nets callbacks \<Rightarrow> (int \<Rightarrow> 'd \<Rightarrow> 'd) \<Rightarrow> nat \<Rightarrow> (int \<times> u32) list \<Rightarrow> tcpserver \<Rightarrow> ('d nets, tcpserver) km" where
  "epoll_dispatch env cb cls l [] srv = kreturn srv"
| "epoll_dispatch env cb cls l ((fd, e) # evs) srv =
     (if e AND EPOLLERR \<noteq> 0 \<or> e AND EPOLLHUP \<noteq> 0 then
        kseq (upd_loop l (\<lambda>x. x\<lparr>event_dispatcher_data := cls fd (event_dispatcher_data x)\<rparr>)) (epoll_dispatch env cb cls l evs srv)
      else kbind (if e AND EPOLLIN \<noteq> 0 then channel_event_activate env cb l fd EVENT_READ srv else kreturn srv) (\<lambda>srv.
        kbind (if e AND EPOLLOUT \<noteq> 0 then channel_event_activate env cb l fd EVENT_WRITE srv else kreturn srv) (\<lambda>srv.
        epoll_dispatch env cb cls l evs srv)))"

text \<open>
  The loop of a thread. \<open>evs\<close> is what the calls of \<open>poll\<close> or \<open>epoll_wait\<close> return one after the other; at its end the loop waits.
  Nothing in the library sets \<open>quit\<close>.
\<close>

fun event_loop_rounds :: "'d netenv \<Rightarrow> ('e \<Rightarrow> tcpserver \<Rightarrow> ('d nets, tcpserver) km) \<Rightarrow> nat \<Rightarrow> 'e list \<Rightarrow> tcpserver \<Rightarrow> ('d nets, tcpserver) km" where
  "event_loop_rounds env dispatch l evs srv =
     kbind (get_loop l) (\<lambda>x.
     if quit x then kreturn srv
     else case evs of [] \<Rightarrow> kstop Sleeps
       | e # evs \<Rightarrow>
           kbind (dispatch e srv) (\<lambda>srv.
           kseq (event_loop_handle_pending_channel (env_ed env) (env_mem env) l) (event_loop_rounds env dispatch l evs srv)))"

declare event_loop_rounds.simps [simp del]

definition event_loop_run :: "'d netenv \<Rightarrow> ('e \<Rightarrow> tcpserver \<Rightarrow> ('d nets, tcpserver) km) \<Rightarrow> nat \<Rightarrow> 'e list \<Rightarrow> tcpserver \<Rightarrow> ('d nets, tcpserver) km" where
  "event_loop_run env dispatch l evs srv =
     kbind (get_loop l) (\<lambda>x. if owner_thread_id x \<noteq> env_self env then kstop (Panic ''exit'') else event_loop_rounds env dispatch l evs srv)"

section \<open>A request is answered\<close>

lemmas srv_defs = get_con_def upd_con_def get_chan_def call_back_def need_def Let_def

lemma buffer_socket_read_total:
  assumes "wf_buffer b" and "realloc_ok re" and "\<And>d n. re d n \<noteq> None"
  shows "\<exists>c. buffer_socket_read re b (Some d) = Some (int (length d), c) \<and> wf_buffer c \<and> buffer_bytes c = buffer_bytes b @ d"
proof -
  let ?m = "buffer_writeable_size b"
  have "block_put (writeIndex b) (take ?m d) (buf_data b) \<noteq> None" using assms(1) by (auto simp: block_put_def wf_buffer_def size_defs)
  then obtain blk where blk: "block_put (writeIndex b) (take ?m d) (buf_data b) = Some blk" by blast
  have "\<exists>r. buffer_socket_read re b (Some d) = Some r"
  proof (cases "length d \<le> ?m")
    case False
    let ?e = "b\<lparr>buf_data := blk, writeIndex := writeIndex b + length (take ?m d)\<rparr>"
    have "wf_buffer ?e" using put_bytes [OF assms(1) blk refl] by simp
    then have "buffer_append re ?e (Some (drop ?m d)) \<noteq> None" by (rule buffer_append_total [OF _ assms(2,3)])
    moreover have "writeIndex b + length (take ?m d) = total_size b" using False assms(1) by (simp add: wf_buffer_def size_defs)
    ultimately show ?thesis using False blk by (auto simp: buffer_socket_read_def)
  qed (use blk in \<open>simp add: buffer_socket_read_def\<close>)
  then obtain r c where "buffer_socket_read re b (Some d) = Some (r, c)" by auto
  with buffer_socket_read_bytes [OF assms(1,2) this] show ?thesis by auto
qed

text \<open>A connection that waits for a request: buffers are empty, and the request is a new one.\<close>

definition con_idle :: "nat \<Rightarrow> int \<Rightarrow> 'd nets \<Rightarrow> bool" where
  "con_idle i fd s \<longleftrightarrow> i < length (connections s) \<and>
     (let con = connections s ! i
      in con_channel con < length (channels s) \<and> ch_fd (channels s ! con_channel con) = fd \<and> \<not> channel_write_event_is_enabled (channels s ! con_channel con) \<and>
         wf_buffer (input_buffer con) \<and> buffer_bytes (input_buffer con) = [] \<and> buffer_readable_size (output_buffer con) = 0 \<and>
         (case con_request con of None \<Rightarrow> False | Some r \<Rightarrow> current_state r = REQUEST_STATUS \<and> request_headers r = []))"

text \<open>What the code relies on of its surroundings: memory is there, \<open>strncmp\<close> tells if the first characters agree.\<close>

definition env_ok :: "'d netenv \<Rightarrow> bool" where
  "env_ok env \<longleftrightarrow> realloc_ok (env_realloc env) \<and> (\<forall>d n. env_realloc env d n \<noteq> None) \<and> (\<forall>n. n \<le> length (env_malloc env n)) \<and>
     (\<forall>a b n. env_strncmp env a b n = 0 \<longleftrightarrow> take n a = take n b)"

lemma send_all:
  assumes "i < length (connections s)" and "con_channel (connections s ! i) < length (channels s)" and "\<not> channel_write_event_is_enabled (channels s ! con_channel (connections s ! i))"
    and "buffer_readable_size (output_buffer (connections s ! i)) = 0" and "write_results s = []" and "fd = ch_fd (channels s ! con_channel (connections s ! i))"
  shows "tcp_connection_send_data env i pre d s = Ret (int (length d)) (s\<lparr>sock_out := (sock_out s)(fd := sock_out s fd @ d)\<rparr>)"
  using assms by (simp add: tcp_connection_send_data_def sock_write_def srv_defs km_simps)

lemma new_buffer:
  assumes "env_ok env"
  shows "\<exists>b. buffer_new True (Some (take INIT_BUFFER_SIZE (env_malloc env INIT_BUFFER_SIZE))) = Some b \<and> wf_buffer b \<and> buffer_bytes b = []"
  using assms by (simp add: env_ok_def buffer_new_def wf_buffer_def buffer_bytes_def size_defs)

definition wants_close :: "(u8 list \<times> u8 list) list \<Rightarrow> bool" where
  "wants_close hs \<longleftrightarrow> (case find (\<lambda>(k, v). take 10 k = ascii ''Connection'') hs of None \<Rightarrow> False | Some h \<Rightarrow> take 5 (snd h) = ascii ''close'')"

lemma close_connection_run:
  assumes "env_ok env" and "req_version q = Some (v @ z)" and "plain {} v" and "8 \<le> length v" and "take 8 v \<noteq> ascii ''HTTP/1.0''"
  shows "http_request_close_connection (env_strncmp env) q = Inr (wants_close (request_headers q))"
proof -
  have sn: "env_strncmp env a b n = 0 \<longleftrightarrow> take n a = take n b" for a b n using assms(1) by (simp add: env_ok_def)
  have "\<forall>c \<in> set v. c \<noteq> 0" using assms(3) by (auto simp: plain_def)
  then have "cstring (v @ z) = v @ cstring z" unfolding cstring_def by (intro takeWhile_append2) auto
  then have "take 8 (cstring (v @ z)) = take 8 v" using assms(4) by simp
  moreover have len: "length (ascii ''Connection'') = 10" "length (ascii ''close'') = 5" "length (ascii ''HTTP/1.0'') = 8"
    by (simp_all add: ascii_def)
  have t: "take 10 (ascii ''Connection'') = ascii ''Connection''" "take 5 (ascii ''close'') = ascii ''close''" "take 8 (ascii ''HTTP/1.0'') = ascii ''HTTP/1.0''"
    by (simp_all add: len)
  ultimately show ?thesis using assms(2,5)
    by (simp add: http_request_close_connection_def http_request_get_header_def sn len t wants_close_def case_prod_beta split: option.split)
qed


lemma onMessage_run:
  fixes s :: "'d nets"
  assumes env: "env_ok env" and i: "i < length (connections s)" and con: "con = connections s ! i" and c: "con_channel con < length (channels s)"
    "\<not> channel_write_event_is_enabled (channels s ! con_channel con)" "buffer_readable_size (output_buffer con) = 0" "fd = ch_fd (channels s ! con_channel con)" "write_results s = []"
    and r: "con_request con = Some r" "parse_http_request (env_malloc env) (input_buffer con) r = Some (Inr (1, b, q))" "current_state q = REQUEST_DONE"
    and cl: "http_request_close_connection (env_strncmp env) q = Inr w" and resp: "resp = f q http_response_new" "keep_connected resp \<or> resp_body resp \<noteq> None"
  shows "http_onMessage env (Some f) pre i s = Ret ()
    (s\<lparr>connections := (connections s)[i := con\<lparr>input_buffer := b, con_request := Some (http_request_reset q)\<rparr>],
       sock_out := (sock_out s)(fd := sock_out s fd @ response_text resp), shut := shut s @ (if w then [fd] else [])\<rparr>)"
proof -
  let ?s = "s\<lparr>connections := (connections s)[i := con\<lparr>input_buffer := b, con_request := Some q\<rparr>]\<rparr>"
  obtain ob where ob: "buffer_new True (Some (take INIT_BUFFER_SIZE (env_malloc env INIT_BUFFER_SIZE))) = Some ob" "wf_buffer ob" "buffer_bytes ob = []"
    using new_buffer [OF env] by blast
  obtain e where e: "http_response_encode_buffer (env_realloc env) resp ob = Some e" "buffer_bytes e = response_text resp"
    using encode_run [OF ob(2) _ _ resp(2), of "env_realloc env"] env ob(3) by (auto simp: env_ok_def)
  have send: "tcp_connection_send_data env i pre d ?s = Ret (int (length d)) (?s\<lparr>sock_out := (sock_out s)(fd := sock_out s fd @ d)\<rparr>)" for d
    using send_all [of i ?s fd env pre d] i c by simp
  show ?thesis using i c r cl ob(1) e send
    by (simp add: http_onMessage_def tcp_connection_send_buffer_def tcp_connection_shutdown_def http_request_current_state_def srv_defs km_simps con [symmetric] resp(1) [symmetric])
qed


lemma readv_run:
  assumes "sock_in s fd = Bytes d # rs" and "length d \<le> n"
  shows "sock_readv fd n s = Ret (Some d) (s\<lparr>sock_in := (sock_in s)(fd := rs)\<rparr>)"
  using assms by (simp add: sock_readv_def km_simps)



definition env0 :: "pollfd list netenv" where
  "env0 = \<lparr>env_ed = poll_dispatcher, env_mem = (\<lambda>_. True), env_realloc = ex_realloc, env_malloc = (\<lambda>n. replicate (n + 8) 0),
     env_strncmp = (\<lambda>a b n. if take n a = take n b then 0 else 1), env_self = 1\<rparr>"

definition nets0 :: "u8 list \<Rightarrow> pollfd list nets" where
  "nets0 d = \<lparr>loops = [], channels = [\<lparr>ch_fd = 5, ch_events = EVENT_READ, eventReadCallback = Some HandleRead, eventWriteCallback = Some HandleWrite, ch_data = Connection 0\<rparr>],
     wakeups = [], connections = [\<lparr>con_eventLoop = 0, con_channel = 0, input_buffer = full_buffer [], output_buffer = full_buffer [], con_request = Some http_request_new\<rparr>],
     sock_in = (\<lambda>_. [Bytes d]), sock_out = (\<lambda>_. []), write_results = [], shut = [], accepted = []\<rparr>"

definition hello :: "http_request \<Rightarrow> http_response \<Rightarrow> http_response" where
  "hello q r = r\<lparr>statusCode := 200, statusMessage := Some (ascii ''OK''), resp_body := Some (ascii ''hello'')\<rparr>"

lemma hello_text: "response_text (hello q http_response_new) = ascii ''HTTP/1.1 200 OK'' @ CRLF @ ascii ''Content-Length: 5'' @ CRLF @ ascii ''Connection: Keep-Alive'' @ CRLF @ CRLF @ ascii ''hello''"
  by (simp add: hello_def response_text_def http_response_new_def text_of_def snprintf32_def ascii_def decimal.simps)

lemma env0_ok: "env_ok env0"
  using ex_realloc_ok by (simp add: env_ok_def env0_def ex_realloc_def [abs_def])

lemma nets0_idle: "con_idle 0 5 (nets0 d)"
  by (simp add: con_idle_def nets0_def channel_write_event_is_enabled_def http_request_new_def full_buffer_def wf_buffer_def buffer_bytes_def size_defs)


end
