(* ===== verification/Spec2Isabelle.thy ===== *)
theory Spec2Isabelle
  imports Prelude Sched Waitq Memory Fsdata Blockdev Buffer Dlinks Cache Blockstore Inode Namei Super Files Process Bytes Pipe Strings Lib Console Tty Exec Malloc Hd Floppy Boot Who Fifo Netbuf Netloop Nethttp Netserver
begin

text \<open>
  A verification development of the two programs of the repository that are more than examples: the Linux 0.11 kernel in \<open>OS/linux-0.11\<close> and
  the network library in \<open>NetWork/lib\<close>. File names below are relative to the first directory in the part on the kernel and to the second in the part on the network library.

  \<^bold>\<open>The kernel.\<close> The kernel is one monolithic program whose state is a set of static tables:
  the task table, the map of page frames with the physical memory, the request table of the
  block layer, the buffer heads with their hash queues and free list, the tables of inodes,
  files and super blocks. A system call runs to completion unless it sleeps; interrupts only
  change the few things that the model makes explicit. The layers call each other downwards:
  system calls (\<open>fs/read_write.c\<close>, \<open>fs/open.c\<close>, \<open>kernel/exit.c\<close>, ...), path names
  (\<open>fs/namei.c\<close>), inodes and zones (\<open>fs/inode.c\<close>, \<open>fs/bitmap.c\<close>, \<open>fs/truncate.c\<close>), the
  buffer cache (\<open>fs/buffer.c\<close>), the block layer (\<open>kernel/blk_drv\<close>) and the scheduler
  (\<open>kernel/sched.c\<close>); page faults go through \<open>mm/memory.c\<close>.

  \<^bold>\<open>How the code is modelled.\<close> The state is a chain of records that follows the layers:
  \<open>sched\<close> (\<open>Sched\<close>), \<open>mm\<close> (\<open>Memory\<close>), \<open>blk\<close> and \<open>fsys\<close> (\<open>Fsdata\<close>), \<open>kern\<close> (\<open>Files\<close>), \<open>ttyk\<close> (\<open>Tty\<close>);
  the disk drivers extend \<open>fsys\<close> (\<open>hdk\<close>, \<open>fdk\<close>) and the allocator \<open>mm\<close> (\<open>kheap\<close>). A C function is a
  definition in the state monad \<open>km\<close> of \<open>Prelude\<close>: it returns a value and a state (\<open>Ret\<close>) or stops
  (\<open>Stop\<close>) because the task sleeps, the kernel panics, a pointer or an index is bad (\<open>Fault\<close>), control
  enters a driver other than the ram disk from the block layer (\<open>Driver n\<close>, with the major number), or a bound on a loop is used up
  (\<open>Diverges\<close>). Unsigned C types are words of their width, signed ones integers; where
  the code relies on wrap-around of a signed value, this is written out. Pointers into static
  tables are indices, \<open>None\<close> is the null pointer. User memory is the function \<open>user\<close> of the segment
  \<open>fs\<close>; physical memory is addressed by long words.

  \<^bold>\<open>The theories.\<close>
  \<^item> \<open>Prelude\<close>: machine integers, the monad, its loops, and the collection \<open>km_simps\<close> that
    runs it.
  \<^item> \<open>Sched\<close>: \<open>include/linux/sched.h\<close>, \<open>kernel/sched.c\<close>. The task structure, \<open>schedule\<close>, alarms, wait
    queues, kernel timers and floppy motor timers, the clock tick. Shown: \<open>schedule\<close> returns and picks a runnable task
    of greatest slice; slices stay bounded; timers fire when and in the order they are due, and what
    inserting a timer does to the others.
  \<^item> \<open>Waitq\<close>: interleavings of \<open>sleep_on\<close>, \<open>interruptible_sleep_on\<close> and \<open>wake_up\<close> as step relations over
    the operations of \<open>Sched\<close>. Shown: \<open>sleep_on\<close> loses no wake-up; \<open>interruptible_sleep_on\<close> can.
  \<^item> \<open>Memory\<close>: \<open>mm/memory.c\<close>. Shown: allocation and release of pages, copy on write in page
    tables and in write faults, the initial map.
  \<^item> \<open>Fsdata\<close>: \<open>include/linux/fs.h\<close>, \<open>include/asm/segment.h\<close>. Structures, their layout on disk
    (round trip of inodes), accessors.
  \<^item> \<open>Blockdev\<close>: \<open>kernel/blk_drv/ll_rw_blk.c\<close>, \<open>blk.h\<close>, \<open>ramdisk.c\<close>. Shown: a request queue stays an
    elevator queue. \<open>Buffer\<close>: \<open>fs/buffer.c\<close> and the routines it calls back.
  \<^item> \<open>Dlinks\<close>, \<open>Cache\<close>: doubly linked lists, and the pointer structure of the cache as one list in order of
    use and one list per hash queue. Shown: \<open>getblk\<close> finds cached blocks and recycles the least recently used free buffer.
  \<^item> \<open>Blockstore\<close>: the interface \<open>block_store\<close> (reading a block shows the current contents, other
    blocks are unchanged, buffers are counted), interpreted on \<open>bread\<close> and \<open>brelse\<close> over the ram disk.
  \<^item> \<open>Inode\<close>: \<open>fs/bitmap.c\<close>, \<open>fs/truncate.c\<close>, \<open>fs/inode.c\<close>. Shown: the bit maps, and that \<open>bmap\<close> computes the
    zone that the layout of the file assigns, using \<open>block_store\<close>.
  \<^item> \<open>Namei\<close>: \<open>fs/namei.c\<close>. \<open>Super\<close>: \<open>fs/super.c\<close> and \<open>rd_load\<close>. \<open>Files\<close>: the file operations of \<open>fs\<close> and segment descriptors.
  \<^item> \<open>Process\<close>: \<open>kernel/fork.c\<close>, \<open>exit.c\<close>, \<open>signal.c\<close>, \<open>sys.c\<close> and demand loading. Shown: process numbers
    are fresh and their search ends, no privileges are gained by identity calls, who gets a signal.
  \<^item> \<open>Fifo\<close>: sequences of steps that take in and give out bytes, and the interfaces \<open>fifo\<close> and \<open>bounded_fifo\<close> (a \<open>fifo\<close> with a capacity).
  \<^item> \<open>Pipe\<close>: \<open>fs/pipe.c\<close> against the interface \<open>bounded_fifo\<close>: pipes are first in, first out, and
    their calls wake the other side.
  \<^item> \<open>Bytes\<close>, \<open>Strings\<close>: \<open>include/string.h\<close> over a memory of bytes. Shown: \<open>memmove\<close> on overlapping blocks, \<open>strcmp\<close> is an order,
    \<open>strstr\<close> finds the first occurrence. \<open>Lib\<close>: \<open>kernel/mktime.c\<close>, \<open>kernel/vsprintf.c\<close>. Shown: \<open>kernel_mktime\<close> is the
    calendar, decimal output is read back, the length of a printed number.
  \<^item> \<open>Console\<close>: \<open>kernel/chr_drv/console.c\<close>. Shown: no output moves the cursor off the screen or writes outside of display memory.
  \<^item> \<open>Tty\<close>: \<open>tty_io.c\<close>, \<open>tty_ioctl.c\<close>, \<open>serial.c\<close> and \<open>ctype.h\<close>. Shown: \<open>copy_to_cooked\<close> is a line editor on lists, raw mode is the interface
    \<open>bounded_fifo\<close> again, queues stay well-formed over all calls, terminal parameters survive a round trip.
  \<^item> \<open>Exec\<close>: \<open>fs/exec.c\<close>. Shown: argument and environment strings arrive at the new program, and which error a refused call returns, with the caller left
    as it was. \<open>Malloc\<close>: \<open>lib/malloc.c\<close>, definitions only.
  \<^item> \<open>Hd\<close>, \<open>Floppy\<close>: \<open>kernel/blk_drv/hd.c\<close>, \<open>floppy.c\<close>, with the interrupt entries of \<open>kernel/system_call.s\<close>. The
    ports written are recorded in the state; what the controllers answer is a stream of bytes. Shown: how a block is read from the
    hard disk, and that floppy positions are in range and exact.
  \<^item> \<open>Boot\<close>: the start-up time and the areas of memory of \<open>init/main.c\<close>. Shown: the time read from the clock chip is exact also when it ticks during the reads, and which
    page frames are free after start-up.
  \<^item> \<open>Who\<close>: the system calls \<open>iam\<close> and \<open>whoami\<close> that the exercise \<open>OS/syscall\<close> adds to the kernel. Shown: a name comes back, with the errors for all lengths.

  \<^bold>\<open>The network library.\<close> A server has one event loop per thread. A loop waits in a dispatcher (\<open>poll_dispatcher.c\<close> or \<open>epoll_dispatcher.c\<close>) for the
  descriptors of its channels and calls the callback of the channel that is ready. Channels are added, removed and changed by posting the change to the loop, from any thread; the
  loop applies what is pending after each round. A connection has an input and an output buffer; the HTTP server parses requests in the first and sends responses through the
  second. The model uses the same monad; the state is the record \<open>netk\<close> (\<open>Netloop\<close>, loops and channels) extended by \<open>nets\<close> (\<open>Netserver\<close>, connections and sockets). A critical section
  is one step. What arrives on sockets, the results of \<open>write\<close>, \<open>poll\<close> and \<open>accept\<close>, blocks from \<open>malloc\<close> and \<open>realloc\<close> and the functions of the application are arguments or parts of the state.
  \<^item> \<open>Netbuf\<close>: \<open>buffer.c\<close>, \<open>read.c\<close>. Shown: a buffer is a \<open>fifo\<close> for all sequences of calls, and framed messages are read back however the stream is cut.
  \<^item> \<open>Netloop\<close>: \<open>channel.c\<close>, \<open>channel_map.c\<close>, \<open>event_loop.c\<close>, the dispatchers, \<open>thread_pool.c\<close>, \<open>utils.c\<close>. The interface \<open>dispatcher\<close> says what a loop
    relies on of a dispatcher; the poll dispatcher is an interpretation. Shown: posted changes are applied once and in order, and map and poll table agree.
  \<^item> \<open>Nethttp\<close>: \<open>http_request.c\<close>, \<open>http_response.c\<close>, the parser of \<open>http_server.c\<close> (a loop that may not end, so \<open>None\<close> is a value of it). Shown: complete
    requests are parsed exactly, incomplete ones make the parser loop for ever.
  \<^item> \<open>Netserver\<close>: \<open>tcp_connection.c\<close>, \<open>tcp_server.c\<close>, the callbacks of \<open>http_server.c\<close>, delivery of events and \<open>event_loop_run\<close>. Shown: a request on a waiting
    connection is answered with the response of the application, after which the connection waits again.

  \<^bold>\<open>Bounds.\<close> Loops whose end the code gets from the data take a bound. It is the number of bytes
  for transfers (each turn moves at least one), the number of entries for directory searches, the size of
  the table for linked lists, \<open>NR_TASKS + 1\<close> for the search of a process number (shown to be enough), three for
  loops that repeat only after a sleep, and \<open>GETBLK_FUEL\<close> for \<open>getblk\<close>, whose nested calls each hold one more inode lock.
  The terminal loops are bounded by the sizes of the queues (\<open>TTY_FUEL\<close>, \<open>COOK_FUEL\<close>, \<open>KILL_FUEL\<close>), the driver loops by the
  requests that the table can hold times the errors that each may have, the walk along a chain of buckets by the number of page
  frames, and the scans of user strings by the size of the segment.
  Properties that say that a routine returns hold without regard to these bounds.

  \<^bold>\<open>Not modelled.\<close> Traps (\<open>kernel/traps.c\<close>), which only set gates and print registers, the first process of \<open>init/main.c\<close>, which only makes system calls, the assembler sources
  except for the entries of the disk interrupts, and the keyboard tables. What other tasks do while a task sleeps is
  the subject of \<open>Waitq\<close> and \<open>Pipe\<close> only. Of the network library: log output, release of memory, the set-up of sockets and the client, which
  are rows of system calls. The files of \<open>OS/process\<close> are kernel files with log output added, and \<open>SystemProgramming\<close> holds small demonstrations of single system calls.
\<close>

end
